(* ===== verification/Prelude.thy ===== *)
theory Prelude
  imports Main
begin

text \<open>
  Shared vocabulary of the development: results of fallible operations, clocks and
  durations, the parts of Python's \<open>str\<close> the service uses, JSON values, and generic
  lemmas on tables (lists of rows).

  Python strings are modelled as \<^typ>\<open>string\<close>, that is, over the code points below 256
  (Latin-1); each string operation below agrees with Python on that range.
  Instants and durations are integers counting microseconds, the resolution of
  Python's \<open>datetime\<close> and \<open>timedelta\<close>.
\<close>

section \<open>Collections of facts\<close>

named_theorems frame_simps \<open>what an operation leaves unchanged\<close>
named_theorems op_defs \<open>definitions of the operations of a component\<close>

section \<open>Results\<close>

text \<open>
  An operation that may raise returns \<open>Inl\<close> of the exception or \<open>Inr\<close> of its value. An
  exception leaves no state: the caller's transaction is rolled back.
\<close>

definition bind_res :: "'e + 'a \<Rightarrow> ('a \<Rightarrow> 'e + 'b) \<Rightarrow> 'e + 'b" where
  "bind_res m f = (case m of Inl e \<Rightarrow> Inl e | Inr a \<Rightarrow> f a)"

lemma bind_res_Inl [simp]: "bind_res (Inl e) f = Inl e"
  by (simp add: bind_res_def)

lemma bind_res_Inr [simp]: "bind_res (Inr a) f = f a"
  by (simp add: bind_res_def)

lemma bind_res_eq_Inr: "bind_res m f = Inr b \<longleftrightarrow> (\<exists>a. m = Inr a \<and> f a = Inr b)"
  by (cases m) auto

lemma bind_res_eq_Inl: "bind_res m f = Inl e \<longleftrightarrow> m = Inl e \<or> (\<exists>a. m = Inr a \<and> f a = Inl e)"
  by (cases m) auto

lemma bind_res_InrE:
  assumes "bind_res m f = Inr b"
  obtains a where "m = Inr a" and "f a = Inr b"
  using assms by (auto simp: bind_res_eq_Inr)

lemma bind_res_cong [fundef_cong]:
  "m = m' \<Longrightarrow> (\<And>a. m' = Inr a \<Longrightarrow> f a = f' a) \<Longrightarrow> bind_res m f = bind_res m' f'"
  by (cases m') auto

text \<open>A loop \<open>for x in xs: s = f(x, s)\<close> whose body may raise.\<close>

fun fold_res :: "('x \<Rightarrow> 's \<Rightarrow> 'e + 's) \<Rightarrow> 'x list \<Rightarrow> 's \<Rightarrow> 'e + 's" where
  "fold_res f [] s = Inr s"
| "fold_res f (x # xs) s = bind_res (f x s) (fold_res f xs)"

lemma fold_res_append:
  "fold_res f (xs @ ys) s = bind_res (fold_res f xs s) (fold_res f ys)"
  by (induction xs arbitrary: s) (auto simp: bind_res_def split: sum.splits)

text \<open>The loop rule: what every step keeps, the loop keeps.\<close>

lemma fold_res_inv:
  assumes "fold_res f xs s = Inr t" and "P s"
    and "\<And>x s t. x \<in> set xs \<Longrightarrow> P s \<Longrightarrow> f x s = Inr t \<Longrightarrow> P t"
  shows "P t"
  using assms by (induction xs arbitrary: s) (auto simp: bind_res_eq_Inr)

definition guard_res :: "bool \<Rightarrow> 'e \<Rightarrow> 'e + unit" where
  "guard_res b e = (if b then Inr () else Inl e)"

lemma guard_res_Inr [simp]: "guard_res b e = Inr u \<longleftrightarrow> b"
  by (simp add: guard_res_def)

section \<open>Clocks and durations\<close>

type_synonym instant = int
type_synonym duration = int

definition seconds :: "int \<Rightarrow> duration" where "seconds n = n * 1000000"
definition minutes :: "int \<Rightarrow> duration" where "minutes n = seconds (60 * n)"
definition hours :: "int \<Rightarrow> duration" where "hours n = minutes (60 * n)"
definition days :: "int \<Rightarrow> duration" where "days n = hours (24 * n)"

lemmas duration_defs = days_def hours_def minutes_def seconds_def

text \<open>\<open>math.ceil(d.total_seconds())\<close>.\<close>

definition ceil_seconds :: "duration \<Rightarrow> int" where
  "ceil_seconds d = - ((- d) div 1000000)"

lemma ceil_seconds_bounds:
  "d \<le> ceil_seconds d * 1000000" "ceil_seconds d * 1000000 < d + 1000000"
  by (simp_all add: ceil_seconds_def)

lemma ceil_seconds_pos: "0 < d \<Longrightarrow> 0 < ceil_seconds d"
  by (simp add: ceil_seconds_def)

text \<open>An optional timestamp that has been set.\<close>

abbreviation is_set :: "'a option \<Rightarrow> bool" where
  "is_set x \<equiv> x \<noteq> None"


section \<open>Dictionaries in insertion order\<close>

text \<open>\<open>d[k] = v\<close> on a Python dictionary, keeping the place of a key that is there.\<close>

fun key_set :: "('k \<times> 'v) list \<Rightarrow> 'k \<Rightarrow> 'v \<Rightarrow> ('k \<times> 'v) list" where
  "key_set [] k v = [(k, v)]"
| "key_set ((k', v') # d) k v = (if k' = k then (k, v) # d else (k', v') # key_set d k v)"

lemma map_of_key_set [simp]: "map_of (key_set m k v) k' = (if k' = k then Some v else map_of m k')"
  by (induction m k v rule: key_set.induct) auto

lemma keys_key_set: "fst ` set (key_set m k v) = insert k (fst ` set m)"
  by (induction m k v rule: key_set.induct) auto

lemma distinct_key_set: "distinct (map fst m) \<Longrightarrow> distinct (map fst (key_set m k v))"
  by (induction m k v rule: key_set.induct) (auto simp: keys_key_set)

section \<open>Invariants of transition systems\<close>

text \<open>
  The interface between a step relation and its invariant: what every step keeps, every run
  keeps, and what holds initially as well holds in every reachable state.
\<close>

locale stable_invariant =
  fixes step :: "'s \<Rightarrow> 's \<Rightarrow> bool" and inv :: "'s \<Rightarrow> bool"
  assumes step_inv: "inv s \<Longrightarrow> step s t \<Longrightarrow> inv t"
begin

lemma steps_inv:
  assumes "step\<^sup>*\<^sup>* s t" and "inv s"
  shows "inv t"
  using assms by (induction rule: rtranclp_induct) (auto intro: step_inv)

end

locale invariant_system = stable_invariant step inv
  for step :: "'s \<Rightarrow> 's \<Rightarrow> bool" and inv :: "'s \<Rightarrow> bool" +
  fixes init :: "'s \<Rightarrow> bool"
  assumes init_inv: "init s \<Longrightarrow> inv s"
begin

lemma reachable_inv:
  assumes "init s" and "step\<^sup>*\<^sup>* s t"
  shows "inv t"
  using assms steps_inv init_inv by blast

end

end
