(* ===== verification/Pystring.thy ===== *)
theory Pystring
  imports Prelude
begin

text \<open>
  The operations of Python's \<open>str\<close> and \<open>int\<close> that the service uses, on Latin-1 strings,
  and the JSON values it stores. Nothing here is specific to the service.
\<close>

section \<open>Stripping, case and affixes\<close>

definition py_space :: "char \<Rightarrow> bool" where
  "py_space c = (let n = of_char c :: nat in
     (9 \<le> n \<and> n \<le> 13) \<or> (28 \<le> n \<and> n \<le> 32) \<or> n = 133 \<or> n = 160)"

definition lstrip :: "(char \<Rightarrow> bool) \<Rightarrow> string \<Rightarrow> string" where
  "lstrip p s = dropWhile p s"

definition rstrip :: "(char \<Rightarrow> bool) \<Rightarrow> string \<Rightarrow> string" where
  "rstrip p s = rev (dropWhile p (rev s))"

text \<open>\<open>s.strip()\<close> and \<open>s.strip(chars)\<close>.\<close>

definition strip_chars :: "(char \<Rightarrow> bool) \<Rightarrow> string \<Rightarrow> string" where
  "strip_chars p s = rstrip p (lstrip p s)"

abbreviation strip :: "string \<Rightarrow> string" where
  "strip s \<equiv> strip_chars py_space s"

definition lower_char :: "char \<Rightarrow> char" where
  "lower_char c = (let n = of_char c :: nat in
     if (65 \<le> n \<and> n \<le> 90) \<or> (192 \<le> n \<and> n \<le> 222 \<and> n \<noteq> 215) then char_of (n + 32) else c)"

definition lower :: "string \<Rightarrow> string" where
  "lower s = map lower_char s"

definition starts_with :: "string \<Rightarrow> string \<Rightarrow> bool" where
  "starts_with p s = (take (length p) s = p)"

definition ends_with :: "string \<Rightarrow> string \<Rightarrow> bool" where
  "ends_with p s = (length p \<le> length s \<and> drop (length s - length p) s = p)"

definition remove_suffix :: "string \<Rightarrow> string \<Rightarrow> string" where
  "remove_suffix p s = (if p \<noteq> [] \<and> ends_with p s then take (length s - length p) s else s)"

definition remove_prefix :: "string \<Rightarrow> string \<Rightarrow> string" where
  "remove_prefix p s = (if starts_with p s then drop (length p) s else s)"

lemma lower_length [simp]: "length (lower s) = length s"
  by (simp add: lower_def)

lemma starts_with_append [simp]: "starts_with p (p @ s)"
  by (simp add: starts_with_def)

lemma ends_with_append [simp]: "ends_with p (s @ p)"
  by (simp add: ends_with_def)

lemma ends_withE:
  assumes "ends_with p s"
  obtains u where "s = u @ p"
  using assms unfolding ends_with_def by (metis append_take_drop_id)

lemma rstrip_idem [simp]: "rstrip p (rstrip p s) = rstrip p s"
  by (simp add: rstrip_def)

lemma lower_char_idem [simp]: "lower_char (lower_char c) = lower_char c"
proof -
  have "(of_char c :: nat) < 256" by simp
  then show ?thesis
    by (auto simp: lower_char_def Let_def)
qed

lemma lower_idem [simp]: "lower (lower s) = lower s"
  by (simp add: lower_def o_def)

section \<open>Splitting and joining\<close>

text \<open>\<open>s.split(c)\<close>: always at least one part.\<close>

fun split_on :: "char \<Rightarrow> string \<Rightarrow> string list" where
  "split_on c [] = [[]]"
| "split_on c (x # xs) =
     (if x = c then [] # split_on c xs
      else (case split_on c xs of [] \<Rightarrow> [[x]] | w # ws \<Rightarrow> (x # w) # ws))"

text \<open>\<open>c.join(parts)\<close>.\<close>

fun join :: "string \<Rightarrow> string list \<Rightarrow> string" where
  "join c [] = []"
| "join c [w] = w"
| "join c (w # v # ws) = w @ c @ join c (v # ws)"

text \<open>\<open>s.partition(c)\<close> with \<open>None\<close> where the separator is missing.\<close>

definition str_partition :: "char \<Rightarrow> string \<Rightarrow> (string \<times> string) option" where
  "str_partition c s = (if c \<in> set s
     then Some (takeWhile (\<lambda>x. x \<noteq> c) s, tl (dropWhile (\<lambda>x. x \<noteq> c) s)) else None)"

text \<open>\<open>s.rpartition(c)\<close> with \<open>None\<close> where the separator is missing.\<close>

definition str_rpartition :: "char \<Rightarrow> string \<Rightarrow> (string \<times> string) option" where
  "str_rpartition c s = map_option (\<lambda>(a, b). (rev b, rev a)) (str_partition c (rev s))"

lemma split_on_nonempty [simp]: "split_on c s \<noteq> []"
  by (induction s) (auto split: list.splits)

lemma split_on_free: "w \<in> set (split_on c s) \<Longrightarrow> c \<notin> set w"
  by (induction s arbitrary: w) (fastforce split: if_splits list.splits)+

lemma join_split_on [simp]: "join [c] (split_on c s) = s"
proof (induction s)
  case (Cons x xs)
  obtain w ws where sp: "split_on c xs = w # ws"
    by (cases "split_on c xs") auto
  show ?case
  proof (cases "x = c")
    case True
    with Cons sp show ?thesis by simp
  next
    case False
    with Cons sp show ?thesis by (cases ws) auto
  qed
qed simp

lemma split_on_free_id: "c \<notin> set w \<Longrightarrow> split_on c w = [w]"
  by (induction w) auto

lemma split_on_append: "c \<notin> set w \<Longrightarrow> split_on c (w @ c # s) = w # split_on c s"
  by (induction w) auto

lemma split_on_join:
  "ws \<noteq> [] \<Longrightarrow> \<forall>w\<in>set ws. c \<notin> set w \<Longrightarrow> split_on c (join [c] ws) = ws"
proof (induction ws rule: induct_list012)
  case (2 w)
  then show ?case by (simp add: split_on_free_id)
next
  case (3 w v ws)
  then show ?case by (simp add: split_on_append)
qed simp

lemma str_partition_append [simp]: "c \<notin> set k \<Longrightarrow> str_partition c (k @ c # v) = Some (k, v)"
  by (induction k) (auto simp: str_partition_def)

lemma str_partition_eq_Some:
  "str_partition c s = Some (k, v) \<longleftrightarrow> s = k @ c # v \<and> c \<notin> set k"
proof
  assume a: "str_partition c s = Some (k, v)"
  then have "c \<in> set s"
    by (simp add: str_partition_def split: if_splits)
  then obtain k' v' where s: "s = k' @ c # v'" and k': "c \<notin> set k'"
    by (meson split_list_first)
  with a show "s = k @ c # v \<and> c \<notin> set k"
    by simp
qed simp

section \<open>Decimal numbers\<close>

definition digit_char :: "nat \<Rightarrow> char" where
  "digit_char d = char_of (48 + d)"

definition is_digit :: "char \<Rightarrow> bool" where
  "is_digit c = (let n = of_char c :: nat in 48 \<le> n \<and> n \<le> 57)"

definition digit_val :: "char \<Rightarrow> nat" where
  "digit_val c = of_char c - 48"

function str_of_nat :: "nat \<Rightarrow> string" where
  "str_of_nat n = (if n < 10 then [digit_char n] else str_of_nat (n div 10) @ [digit_char (n mod 10)])"
  by pat_completeness auto
termination
  by (relation "measure id") auto

declare str_of_nat.simps [simp del]

text \<open>\<open>str(i)\<close>.\<close>

definition str_of_int :: "int \<Rightarrow> string" where
  "str_of_int i = (if i < 0 then CHR ''-'' # str_of_nat (nat (- i)) else str_of_nat (nat i))"

definition nat_of_digits :: "string \<Rightarrow> nat" where
  "nat_of_digits s = foldl (\<lambda>acc c. 10 * acc + digit_val c) 0 s"

text \<open>Digits with single underscores between them, as \<open>int()\<close> accepts.\<close>

fun digits_ok :: "string \<Rightarrow> bool" where
  "digits_ok [] = False"
| "digits_ok [c] = is_digit c"
| "digits_ok (c # d # s) =
     (is_digit c \<and> (if d = CHR ''_'' then digits_ok s else digits_ok (d # s)))"

text \<open>\<open>int(s)\<close>; \<open>None\<close> stands for \<open>ValueError\<close>, also raised beyond 4300 digits.\<close>

definition py_int :: "string \<Rightarrow> int option" where
  "py_int s = (let t = strip s;
     neg = (take 1 t = ''-'');
     body = (if take 1 t = ''-'' \<or> take 1 t = ''+'' then drop 1 t else t);
     ds = filter (\<lambda>c. c \<noteq> CHR ''_'') body
   in if digits_ok body \<and> length ds \<le> 4300
      then Some (if neg then - int (nat_of_digits ds) else int (nat_of_digits ds)) else None)"

subsection \<open>Printing and reading back\<close>

lemma strip_id:
  assumes "s \<noteq> [] \<Longrightarrow> \<not> p (hd s) \<and> \<not> p (last s)"
  shows "strip_chars p s = s"
proof (cases "s = []")
  case True
  then show ?thesis by (simp add: strip_chars_def lstrip_def rstrip_def)
next
  case False
  with assms have "dropWhile p s = s"
    by (cases s) auto
  moreover have "dropWhile p (rev s) = rev s"
    using False assms by (cases s rule: rev_cases) auto
  ultimately show ?thesis
    by (simp add: strip_chars_def lstrip_def rstrip_def)
qed

lemma is_digit_not_space: "is_digit c \<Longrightarrow> \<not> py_space c"
  by (auto simp: is_digit_def py_space_def Let_def)

lemma is_digit_digit_char: "d < 10 \<Longrightarrow> is_digit (digit_char d)"
  by (simp add: is_digit_def digit_char_def)

lemma digit_val_digit_char [simp]: "d < 10 \<Longrightarrow> digit_val (digit_char d) = d"
  by (simp add: digit_val_def digit_char_def)

lemma str_of_nat_digits: "c \<in> set (str_of_nat n) \<Longrightarrow> is_digit c"
proof (induction n arbitrary: c rule: str_of_nat.induct)
  case (1 n)
  then show ?case
    by (subst (asm) (2) str_of_nat.simps) (auto simp: is_digit_digit_char split: if_splits)
qed

lemma str_of_nat_nonempty [simp]: "str_of_nat n \<noteq> []"
  by (subst str_of_nat.simps) simp

lemma nat_of_digits_snoc: "nat_of_digits (s @ [c]) = 10 * nat_of_digits s + digit_val c"
  by (simp add: nat_of_digits_def)

lemma nat_of_digits_str_of_nat [simp]: "nat_of_digits (str_of_nat n) = n"
proof (induction n rule: str_of_nat.induct)
  case (1 n)
  show ?case
  proof (cases "n < 10")
    case True
    then show ?thesis
      by (subst str_of_nat.simps) (simp add: nat_of_digits_def)
  next
    case False
    with 1 have "nat_of_digits (str_of_nat (n div 10)) = n div 10" by simp
    with False show ?thesis
      by (subst str_of_nat.simps) (simp add: nat_of_digits_snoc)
  qed
qed

lemma digits_ok_all_digits: "s \<noteq> [] \<Longrightarrow> \<forall>c\<in>set s. is_digit c \<Longrightarrow> digits_ok s"
proof (induction s rule: digits_ok.induct)
  case (3 c d s)
  have "d \<noteq> CHR ''_''" using "3.prems" by (auto simp: is_digit_def)
  with 3 show ?case by simp
qed auto

lemma length_str_of_nat: "n < 10 ^ Suc k \<Longrightarrow> length (str_of_nat n) \<le> Suc k"
proof (induction k arbitrary: n)
  case 0
  then show ?case by (subst str_of_nat.simps) simp
next
  case (Suc k)
  then have "n div 10 < 10 ^ Suc k" by (simp add: less_mult_imp_div_less)
  with Suc.IH have "length (str_of_nat (n div 10)) \<le> Suc k" by blast
  then show ?case by (subst str_of_nat.simps) simp
qed

text \<open>\<open>int(str(i)) == i\<close> for every number within Python's conversion limit.\<close>

lemma py_int_str_of_int:
  assumes "\<bar>i\<bar> < 10 ^ Suc k" and "Suc k \<le> 4300"
  shows "py_int (str_of_int i) = Some i"
proof -
  define s where "s = str_of_nat (nat \<bar>i\<bar>)"
  have s: "s \<noteq> []" "\<forall>c\<in>set s. is_digit c"
    by (auto simp: s_def str_of_nat_digits)
  have "int (nat \<bar>i\<bar>) < int (10 ^ Suc k)" using assms(1) by simp
  then have "nat \<bar>i\<bar> < 10 ^ Suc k" by (simp only: of_nat_less_iff)
  then have len: "length s \<le> 4300"
    using length_str_of_nat [of "nat \<bar>i\<bar>" k] assms(2) by (simp add: s_def)
  have fs: "filter (\<lambda>c. c \<noteq> CHR ''_'') s = s"
    using s(2) by (auto simp: filter_id_conv is_digit_def)
  have hd_s: "is_digit (hd s)" "is_digit (last s)"
    using s by simp_all
  then have hd_ne: "hd s \<noteq> CHR ''-''" "hd s \<noteq> CHR ''+''"
    by (auto simp: is_digit_def)
  then have nosign: "take 1 s \<noteq> ''-''" "take 1 s \<noteq> ''+''"
    using s(1) by (cases s; simp)+
  have minus: "\<not> py_space (CHR ''-'')"
    by (simp add: py_space_def)
  have strip_s: "strip s = s" "strip (CHR ''-'' # s) = CHR ''-'' # s"
    using hd_s s(1) minus by (auto intro!: strip_id dest: is_digit_not_space)
  have num: "int (nat_of_digits s) = \<bar>i\<bar>" by (simp add: s_def)
  show ?thesis
  proof (cases "i < 0")
    case True
    then have "str_of_int i = CHR ''-'' # s" by (simp add: str_of_int_def s_def)
    with True num fs len digits_ok_all_digits [OF s] show ?thesis
      by (simp add: py_int_def strip_s)
  next
    case False
    then have "str_of_int i = s" by (simp add: str_of_int_def s_def)
    with False num fs len nosign digits_ok_all_digits [OF s] show ?thesis
      by (simp add: py_int_def strip_s)
  qed
qed

lemma str_of_int_chars: "c \<in> set (str_of_int i) \<Longrightarrow> is_digit c \<or> c = CHR ''-''"
  by (auto simp: str_of_int_def str_of_nat_digits split: if_splits)

section \<open>JSON values\<close>

text \<open>
  Objects keep their keys in order. \<open>JTime t\<close> is a string holding the ISO 8601 form of the
  instant \<open>t\<close>, as \<open>datetime.isoformat()\<close> writes it and \<open>datetime.fromisoformat()\<close> reads
  it back.
\<close>

datatype json =
    JNull
  | JBool bool
  | JInt int
  | JStr string
  | JTime instant
  | JList "json list"
  | JObj "(string \<times> json) list"

definition jopt :: "('a \<Rightarrow> json) \<Rightarrow> 'a option \<Rightarrow> json" where
  "jopt f x = (case x of None \<Rightarrow> JNull | Some a \<Rightarrow> f a)"

text \<open>A Python \<open>dict\<close> with string keys: \<open>d.get(k)\<close> and \<open>d[k] = v\<close>.\<close>

type_synonym dict = "(string \<times> json) list"

definition dict_get :: "dict \<Rightarrow> string \<Rightarrow> json option" where
  "dict_get d k = map_of d k"

fun dict_set :: "dict \<Rightarrow> string \<Rightarrow> json \<Rightarrow> dict" where
  "dict_set [] k v = [(k, v)]"
| "dict_set ((k', v') # d) k v = (if k' = k then (k, v) # d else (k', v') # dict_set d k v)"

lemma dict_get_set [simp]: "dict_get (dict_set d k v) k' = (if k' = k then Some v else dict_get d k')"
  by (induction d k v rule: dict_set.induct) (auto simp: dict_get_def)

end
