(* ===== verification/Models.thy ===== *)
theory Models
  imports Pystring
begin

text \<open>
  The data model: the enumerations, exceptions and tables of \<open>app/models/\<close> and
  \<open>app/services/errors.py\<close>, and the database state every service operation reads and
  writes. A table is the list of its rows in insertion order. The audit columns that no
  modelled code reads (\<open>updated_at\<close> of tables other than domains and applications, the
  surrogate keys of checks, zones and idempotency keys) are left out.
\<close>

section \<open>Enumerations\<close>

datatype application_status = App_Active | App_Suspended

datatype origin_status = Origin_Pending | Origin_Verified | Origin_Failed | Origin_Retired

datatype credential_scope = Scope_Full | Scope_Read

datatype origin_host_header = Host_Customer | Host_Origin

datatype domain_status =
    PENDING_DNS | PROVISIONING | READY | ATTENTION_REQUIRED | SUSPENDED | DELETING

datatype claim_status = Claim_Pending | Claim_Verified | Claim_Revoked

datatype check_type = OWNERSHIP | ROUTING | CERTIFICATE | ORIGIN

datatype check_status = Check_Pending | Check_Passing | Check_Failing

datatype event_type =
    DOMAIN_CREATED | DOMAIN_IMPORTED | CLAIM_ISSUED | CLAIM_VERIFIED | CLAIM_REVOKED
  | CHECK_UPDATED | STATUS_CHANGED | DOMAIN_DELETED | RECHECK_REQUESTED | CONNECT_URL_ISSUED

fun domain_status_value :: "domain_status \<Rightarrow> string" where
  "domain_status_value PENDING_DNS = ''pending_dns''"
| "domain_status_value PROVISIONING = ''provisioning''"
| "domain_status_value READY = ''ready''"
| "domain_status_value ATTENTION_REQUIRED = ''attention_required''"
| "domain_status_value SUSPENDED = ''suspended''"
| "domain_status_value DELETING = ''deleting''"

fun check_type_value :: "check_type \<Rightarrow> string" where
  "check_type_value OWNERSHIP = ''ownership''"
| "check_type_value ROUTING = ''routing''"
| "check_type_value CERTIFICATE = ''certificate''"
| "check_type_value ORIGIN = ''origin''"

fun check_status_value :: "check_status \<Rightarrow> string" where
  "check_status_value Check_Pending = ''pending''"
| "check_status_value Check_Passing = ''passing''"
| "check_status_value Check_Failing = ''failing''"

fun event_type_value :: "event_type \<Rightarrow> string" where
  "event_type_value DOMAIN_CREATED = ''domain.created''"
| "event_type_value DOMAIN_IMPORTED = ''domain.imported''"
| "event_type_value CLAIM_ISSUED = ''domain.claim_issued''"
| "event_type_value CLAIM_VERIFIED = ''domain.claim_verified''"
| "event_type_value CLAIM_REVOKED = ''domain.claim_revoked''"
| "event_type_value CHECK_UPDATED = ''domain.check_updated''"
| "event_type_value STATUS_CHANGED = ''domain.status_changed''"
| "event_type_value DOMAIN_DELETED = ''domain.deleted''"
| "event_type_value RECHECK_REQUESTED = ''domain.recheck_requested''"
| "event_type_value CONNECT_URL_ISSUED = ''domain.connect_url_issued''"

text \<open>\<open>list(CheckType)\<close>: the members in declaration order, which also orders the type.\<close>

definition check_types :: "check_type list" where
  "check_types = [OWNERSHIP, ROUTING, CERTIFICATE, ORIGIN]"

fun check_type_index :: "check_type \<Rightarrow> nat" where
  "check_type_index OWNERSHIP = 0"
| "check_type_index ROUTING = 1"
| "check_type_index CERTIFICATE = 2"
| "check_type_index ORIGIN = 3"

lemma check_type_index_inject [simp]: "check_type_index a = check_type_index b \<longleftrightarrow> a = b"
  by (cases a; cases b) simp_all

instantiation check_type :: linorder
begin

definition less_eq_check_type :: "check_type \<Rightarrow> check_type \<Rightarrow> bool" where
  "less_eq_check_type a b = (check_type_index a \<le> check_type_index b)"

definition less_check_type :: "check_type \<Rightarrow> check_type \<Rightarrow> bool" where
  "less_check_type a b = (check_type_index a < check_type_index b)"

instance
  by standard (auto simp: less_eq_check_type_def less_check_type_def)

end

lemma set_check_types [simp]: "set check_types = UNIV"
proof -
  have "c \<in> set check_types" for c
    by (cases c) (simp_all add: check_types_def)
  then show ?thesis by auto
qed

lemma domain_status_value_inject [simp]:
  "domain_status_value a = domain_status_value b \<longleftrightarrow> a = b"
  by (cases a; cases b) simp_all

section \<open>Exceptions\<close>

datatype error =
    InvalidHostname string string
  | InvalidApplication string
  | ApplicationAlreadyExists string
  | ApplicationNotFound string
  | ApplicationSuspended
  | ApplicationNotEmpty string dict
  | ConfirmationMismatch string
  | DomainLimitReached string dict
  | HostnameAlreadyClaimed string
  | DomainNotFound
  | InvalidReference string
  | InvalidStatusTransition string
  | InvalidCredential string
  | CredentialReadOnly string dict
  | CredentialNotFound
  | CredentialInUse string
  | OriginNotFound string
  | InvalidOrigin string
  | OriginConflict string
  | OriginNotVerified string
  | OriginInUse string
  | AssertionKeyNotFound string
  | InvalidAssertionKey string
  | RateLimited string int
  | InvalidLimit string
  | InvalidWebhook string
  | WebhookNotFound
  | DeliveryNotFound
  | ServiceError string
  | IdempotencyKeyReused string
  | IdempotencyInProgress string
  | InvalidConnectRequest string dict
  | ConnectPageUnavailable string
  | ConnectSessionNotFound string
  | DomainConnectUnavailable string dict
  | DomainConnectSignerUnavailable string dict
  | InvalidSignerConfig string dict
  | SecretKeyMissing string
  | ValueError string
  | AttributeError string
  | TypeError string
  | KeyError string
  | Unauthorized
  | IntegrityError string
    \<comment> \<open>a unique index or foreign key refused the statement\<close>
  | StaleDataError
    \<comment> \<open>SQLAlchemy's error for an object whose row is gone\<close>

text \<open>\<open>RateLimited\<close> clamps the wait it reports to at least one second.\<close>

definition rate_limited :: "string \<Rightarrow> int \<Rightarrow> error" where
  "rate_limited message retry_after = RateLimited message (max 1 retry_after)"

section \<open>Rows\<close>

type_synonym uuid = nat

record application =
  app_id :: uuid
  app_slug :: string
  app_name :: string
  app_status :: application_status
  app_cname_target :: string
  app_workspace_probe_enabled :: bool
  app_max_domains :: "int option"
  app_rate_limit_per_minute :: "int option"
  app_rate_limit_per_second :: "int option"
  app_deleted_at :: "instant option"
  app_purge_after :: "instant option"
  app_updated_at :: instant

record verified_origin =
  o_id :: uuid
  o_application_id :: uuid
  o_scheme :: string
  o_host :: string
  o_port :: int
  o_host_header :: origin_host_header
  o_status :: origin_status
  o_is_active :: bool
  o_verification_token :: "string option"
  o_verified_at :: "instant option"
  o_last_checked_at :: "instant option"
  o_last_error_code :: "string option"
  o_last_error_message :: "string option"
  o_created_at :: instant

record api_credential =
  cr_id :: uuid
  cr_application_id :: uuid
  cr_label :: string
  cr_key_prefix :: string
  cr_key_hash :: string
  cr_scope :: credential_scope
  cr_last_used_at :: "instant option"
  cr_expires_at :: "instant option"
  cr_revoked_at :: "instant option"
  cr_created_at :: instant

record assertion_key =
  k_id :: uuid
  k_application_id :: uuid
  k_key_id :: string
  k_secret :: string
  k_active_from :: instant
  k_revoked_at :: "instant option"
  k_created_at :: instant

record domain =
  d_id :: uuid
  d_application_id :: uuid
  d_hostname :: string
  d_reference :: string
  d_status :: domain_status
  d_extra :: "dict option"
  d_deleted_at :: "instant option"
  d_purge_after :: "instant option"
  d_zone :: "string option"
  d_connect_started_at :: "instant option"
  d_created_at :: instant
  d_updated_at :: instant

record ownership_claim =
  c_id :: uuid
  c_domain_id :: uuid
  c_txt_record_name :: string
  c_token :: string
  c_cname_target :: string
  c_status :: claim_status
  c_verification_method :: "string option"
  c_verified_at :: "instant option"
  c_revoked_at :: "instant option"
  c_expires_at :: "instant option"
  c_created_at :: instant

record domain_check =
  ch_domain_id :: uuid
  ch_check_type :: check_type
  ch_status :: check_status
  ch_error_code :: "string option"
  ch_message :: "string option"
  ch_details :: "dict option"
  ch_observed_at :: "instant option"
  ch_next_check_at :: "instant option"

record domain_event =
  e_id :: uuid
  e_domain_id :: uuid
  e_application_id :: uuid
  e_event_type :: event_type
  e_payload :: "dict option"
  e_created_at :: instant

record dns_zone =
  z_zone :: string
  z_provider :: string
  z_nameservers :: "string list option"
  z_domain_connect :: "dict option"
  z_template :: "string option"
  z_template_supported :: "bool option"
  z_error_code :: "string option"
  z_message :: "string option"
  z_checked_at :: instant
  z_expires_at :: instant

record webhook_subscription =
  s_id :: uuid
  s_application_id :: uuid
  s_url :: string
  s_events :: "string list"
  s_secret :: string
  s_previous_secret :: "string option"
  s_previous_secret_expires_at :: "instant option"
  s_revoked_at :: "instant option"
  s_created_at :: instant

record webhook_delivery =
  dl_id :: uuid
  dl_subscription_id :: uuid
  dl_application_id :: uuid
  dl_event_id :: uuid
  dl_event_type :: string
  dl_domain_id :: "uuid option"
  dl_payload :: json
  dl_attempts :: int
  dl_next_attempt_at :: "instant option"
  dl_delivered_at :: "instant option"
  dl_abandoned_at :: "instant option"
  dl_last_attempt_at :: "instant option"
  dl_last_status :: "int option"
  dl_last_error :: "string option"
  dl_created_at :: instant

record idempotency_key =
  ik_application_id :: uuid
  ik_key :: string
  ik_request_hash :: string
  ik_domain_id :: "uuid option"
  ik_created_at :: instant
  ik_expires_at :: instant

record connect_session =
  cs_id :: uuid
  cs_application_id :: uuid
  cs_domain_id :: uuid
  cs_token_hash :: string
  cs_expires_at :: instant
  cs_revoked_at :: "instant option"
  cs_app_name :: "string option"
  cs_return_url :: "string option"
  cs_created_at :: instant

record application_traffic =
  at_application_id :: uuid
  at_day :: int
  at_requests :: int
  at_response_bytes :: int

record edge_traffic_counter =
  tc_hostname :: string
  tc_requests :: int
  tc_response_bytes :: int
  tc_read_at :: instant

end
