(* ===== verification/Database.thy ===== *)
theory Database
  imports Models
begin

text \<open>
  The database as the services see it inside a transaction: its tables, the source of
  fresh identifiers and secrets, and row access by primary key. The locale
  \<open>row_store\<close> states the contract of row access that the services rely on; it is
  interpreted for each table that is updated by key.
\<close>

section \<open>State\<close>

record db =
  applications :: "application list"
  origins :: "verified_origin list"
  credentials :: "api_credential list"
  assertion_keys :: "assertion_key list"
  domains :: "domain list"
  claims :: "ownership_claim list"
  checks :: "domain_check list"
  events :: "domain_event list"
  zones :: "dns_zone list"
  subscriptions :: "webhook_subscription list"
  deliveries :: "webhook_delivery list"
  idempotency_keys :: "idempotency_key list"
  connect_sessions :: "connect_session list"
  traffic :: "application_traffic list"
  counters :: "edge_traffic_counter list"
  draws :: nat
  rng :: "nat \<Rightarrow> string"

text \<open>
  \<open>uuid.uuid4()\<close> yields an identifier that was never used before: the number of draws so
  far. \<open>secrets.token_urlsafe(n)\<close> and \<open>secrets.token_hex(n)\<close> yield the next string of
  the random source \<open>rng\<close>.
\<close>

definition uuid4 :: "db \<Rightarrow> uuid \<times> db" where
  "uuid4 s = (draws s, s\<lparr>draws := Suc (draws s)\<rparr>)"

definition token_urlsafe :: "db \<Rightarrow> string \<times> db" where
  "token_urlsafe s = (rng s (draws s), s\<lparr>draws := Suc (draws s)\<rparr>)"

section \<open>Rows by key\<close>

definition find_row :: "('r \<Rightarrow> 'k) \<Rightarrow> 'k \<Rightarrow> 'r list \<Rightarrow> 'r option" where
  "find_row key k t = find (\<lambda>r. key r = k) t"

definition update_row :: "('r \<Rightarrow> 'k) \<Rightarrow> 'k \<Rightarrow> ('r \<Rightarrow> 'r) \<Rightarrow> 'r list \<Rightarrow> 'r list" where
  "update_row key k f t = map (\<lambda>r. if key r = k then f r else r) t"

lemma find_row_Nil [simp]: "find_row key k [] = None"
  by (simp add: find_row_def)

lemma find_row_Cons [simp]:
  "find_row key k (r # t) = (if key r = k then Some r else find_row key k t)"
  by (simp add: find_row_def)

lemma update_row_Nil [simp]: "update_row key k f [] = []"
  by (simp add: update_row_def)

lemma update_row_Cons [simp]:
  "update_row key k f (r # t) = (if key r = k then f r else r) # update_row key k f t"
  by (simp add: update_row_def)

lemma find_row_Some:
  "find_row key k t = Some r \<Longrightarrow> r \<in> set t \<and> key r = k"
  by (induction t) (auto split: if_splits)

lemma find_row_None: "find_row key k t = None \<longleftrightarrow> k \<notin> key ` set t"
  by (induction t) auto

lemma find_row_append:
  "find_row key k (t @ u) = (case find_row key k t of None \<Rightarrow> find_row key k u | Some r \<Rightarrow> Some r)"
  by (induction t) auto

lemma find_row_unique:
  "distinct (map key t) \<Longrightarrow> r \<in> set t \<Longrightarrow> find_row key (key r) t = Some r"
  by (induction t) force+

lemma find_update_row:
  assumes "\<And>r. key (f r) = key r"
  shows "find_row key k' (update_row key k f t) =
    (if k' = k then map_option f (find_row key k t) else find_row key k' t)"
  by (induction t) (auto simp: assms)

lemma map_key_update_row:
  assumes "\<And>r. key (f r) = key r"
  shows "map key (update_row key k f t) = map key t"
  by (induction t) (auto simp: assms)

lemma map_update_row:
  assumes "\<And>r. g (f r) = g r"
  shows "map g (update_row key k f t) = map g t"
  by (induction t) (auto simp: assms)

lemma set_update_row:
  "set (update_row key k f t) = (\<lambda>r. if key r = k then f r else r) ` set t"
  by (auto simp: update_row_def)

lemma filter_update_row_other:
  assumes "\<And>r. key r = k \<Longrightarrow> \<not> P r" and "\<And>r. key r = k \<Longrightarrow> \<not> P (f r)"
  shows "filter P (update_row key k f t) = filter P t"
  by (induction t) (auto simp: assms)

lemma ball_update_row:
  assumes "\<And>r. P (f r) \<longleftrightarrow> P r"
  shows "(\<forall>r\<in>set (update_row key k f t). P r) \<longleftrightarrow> (\<forall>r\<in>set t. P r)"
  by (induction t) (auto simp: assms)

lemma distinct_update_row_filter:
  assumes "\<And>r. g (f r) = g r" and "\<And>r. r \<in> set t \<Longrightarrow> key r = k \<Longrightarrow> P (f r) \<Longrightarrow> P r"
    and "distinct (map g (filter P t))"
  shows "distinct (map g (filter P (update_row key k f t)))"
proof -
  have sub: "set (map g (filter P (update_row key k f u))) \<subseteq> set (map g (filter P u))" if "set u \<subseteq> set t" for u
    using that assms(1,2) by (induction u) auto
  have "distinct (map g (filter P (update_row key k f u)))"
    if "set u \<subseteq> set t" "distinct (map g (filter P u))" for u
    using that
  proof (induction u)
    case (Cons r u)
    with sub [of u] assms(1,2) show ?case by (auto split: if_splits)
  qed simp
  then show ?thesis using assms(3) by blast
qed

lemma find_row_filter: "(\<And>r. key r = k \<Longrightarrow> P r) \<Longrightarrow> find_row key k (filter P t) = find_row key k t"
  by (induction t) auto

lemma filter_filter_key: "(\<And>r. key r = k \<Longrightarrow> P r) \<Longrightarrow>
    filter (\<lambda>r. key r = k) (filter P t) = filter (\<lambda>r. key r = k) t"
  by (induction t) auto

lemma distinct_map_filter2:
  "distinct (map g (filter P t)) \<Longrightarrow> distinct (map g (filter (\<lambda>x. Q x \<and> P x) t))"
  by (induction t) (auto split: if_splits)

lemma find_filter_same:
  assumes "\<And>x. x \<in> set t \<Longrightarrow> P (f x) = P x" and "\<And>x. x \<in> set t \<Longrightarrow> P x \<Longrightarrow> f x = x"
  shows "filter P (map f t) = filter P t"
  using assms by (induction t) auto

section \<open>The contract of row access\<close>

text \<open>
  \<open>get s k\<close> is the row with key \<open>k\<close>; \<open>put k f s\<close> writes \<open>f\<close> of it back. \<open>keeps\<close> says
  that \<open>f\<close> leaves the key column alone, as every assignment of the services does.
\<close>

locale row_store =
  fixes get :: "'s \<Rightarrow> 'k \<Rightarrow> 'r option"
    and put :: "'k \<Rightarrow> ('r \<Rightarrow> 'r) \<Rightarrow> 's \<Rightarrow> 's"
    and keeps :: "('r \<Rightarrow> 'r) \<Rightarrow> bool"
  assumes get_put: "keeps f \<Longrightarrow>
      get (put k f s) k' = (if k' = k then map_option f (get s k) else get s k')"
    and put_put: "keeps f \<Longrightarrow> put k g (put k f s) = put k (g \<circ> f) s"
    and keeps_comp: "keeps f \<Longrightarrow> keeps g \<Longrightarrow> keeps (g \<circ> f)"
begin

lemma get_put_same: "keeps f \<Longrightarrow> get s k = Some r \<Longrightarrow> get (put k f s) k = Some (f r)"
  by (simp add: get_put)

lemma get_put_other: "keeps f \<Longrightarrow> k' \<noteq> k \<Longrightarrow> get (put k f s) k' = get s k'"
  by (simp add: get_put)

lemma get_put_None: "keeps f \<Longrightarrow> get (put k f s) k' = None \<longleftrightarrow> get s k' = None"
  by (simp add: get_put)

lemma get_put_put:
  "keeps f \<Longrightarrow> keeps g \<Longrightarrow> get s k = Some r \<Longrightarrow> get (put k g (put k f s)) k = Some (g (f r))"
  by (simp add: put_put get_put keeps_comp)

end

definition key_kept :: "('r \<Rightarrow> 'k) \<Rightarrow> ('r \<Rightarrow> 'r) \<Rightarrow> bool" where
  "key_kept key f = (\<forall>r. key (f r) = key r)"

lemma update_row_twice:
  assumes "key_kept key f"
  shows "update_row key k g (update_row key k f t) = update_row key k (g \<circ> f) t"
  using assms by (induction t) (auto simp: key_kept_def)

lemmas row_store_facts = find_update_row update_row_twice key_kept_def

definition application_row :: "db \<Rightarrow> uuid \<Rightarrow> application option" where
  "application_row s i = find_row app_id i (applications s)"

definition put_application :: "uuid \<Rightarrow> (application \<Rightarrow> application) \<Rightarrow> db \<Rightarrow> db" where
  "put_application i f s = s\<lparr>applications := update_row app_id i f (applications s)\<rparr>"

interpretation apps: row_store application_row put_application "key_kept app_id"
  by unfold_locales (auto simp: application_row_def put_application_def row_store_facts)

definition domain_row :: "db \<Rightarrow> uuid \<Rightarrow> domain option" where
  "domain_row s i = find_row d_id i (domains s)"

definition put_domain :: "uuid \<Rightarrow> (domain \<Rightarrow> domain) \<Rightarrow> db \<Rightarrow> db" where
  "put_domain i f s = s\<lparr>domains := update_row d_id i f (domains s)\<rparr>"

interpretation doms: row_store domain_row put_domain "key_kept d_id"
  by unfold_locales (auto simp: domain_row_def put_domain_def row_store_facts)

definition claim_row :: "db \<Rightarrow> uuid \<Rightarrow> ownership_claim option" where
  "claim_row s i = find_row c_id i (claims s)"

definition put_claim :: "uuid \<Rightarrow> (ownership_claim \<Rightarrow> ownership_claim) \<Rightarrow> db \<Rightarrow> db" where
  "put_claim i f s = s\<lparr>claims := update_row c_id i f (claims s)\<rparr>"

interpretation clms: row_store claim_row put_claim "key_kept c_id"
  by unfold_locales (auto simp: claim_row_def put_claim_def row_store_facts)

definition check_key :: "domain_check \<Rightarrow> uuid \<times> check_type" where
  "check_key c = (ch_domain_id c, ch_check_type c)"

definition check_row :: "db \<Rightarrow> uuid \<times> check_type \<Rightarrow> domain_check option" where
  "check_row s i = find_row check_key i (checks s)"

definition put_check :: "uuid \<times> check_type \<Rightarrow> (domain_check \<Rightarrow> domain_check) \<Rightarrow> db \<Rightarrow> db" where
  "put_check i f s = s\<lparr>checks := update_row check_key i f (checks s)\<rparr>"

interpretation chks: row_store check_row put_check "key_kept check_key"
  by unfold_locales (auto simp: check_row_def put_check_def row_store_facts)

definition subscription_row :: "db \<Rightarrow> uuid \<Rightarrow> webhook_subscription option" where
  "subscription_row s i = find_row s_id i (subscriptions s)"

definition put_subscription :: "uuid \<Rightarrow> (webhook_subscription \<Rightarrow> webhook_subscription) \<Rightarrow> db \<Rightarrow> db" where
  "put_subscription i f s = s\<lparr>subscriptions := update_row s_id i f (subscriptions s)\<rparr>"

interpretation subs: row_store subscription_row put_subscription "key_kept s_id"
  by unfold_locales (auto simp: subscription_row_def put_subscription_def row_store_facts)

definition delivery_row :: "db \<Rightarrow> uuid \<Rightarrow> webhook_delivery option" where
  "delivery_row s i = find_row dl_id i (deliveries s)"

definition put_delivery :: "uuid \<Rightarrow> (webhook_delivery \<Rightarrow> webhook_delivery) \<Rightarrow> db \<Rightarrow> db" where
  "put_delivery i f s = s\<lparr>deliveries := update_row dl_id i f (deliveries s)\<rparr>"

interpretation dlvs: row_store delivery_row put_delivery "key_kept dl_id"
  by unfold_locales (auto simp: delivery_row_def put_delivery_def row_store_facts)

section \<open>Properties of the row objects\<close>

definition d_is_deleted :: "domain \<Rightarrow> bool" where
  "d_is_deleted d = is_set (d_deleted_at d)"

definition app_is_deleted :: "application \<Rightarrow> bool" where
  "app_is_deleted a = is_set (app_deleted_at a)"

text \<open>\<open>Domain.claims\<close>, \<open>Domain.active_claim\<close>, \<open>Domain.checks\<close> and \<open>Domain.check\<close>.\<close>

definition domain_claims :: "db \<Rightarrow> uuid \<Rightarrow> ownership_claim list" where
  "domain_claims s i = sort_key c_created_at (filter (\<lambda>c. c_domain_id c = i) (claims s))"

definition active_claim :: "db \<Rightarrow> uuid \<Rightarrow> ownership_claim option" where
  "active_claim s i = find (\<lambda>c. c_status c \<noteq> Claim_Revoked) (domain_claims s i)"

definition domain_checks :: "db \<Rightarrow> uuid \<Rightarrow> domain_check list" where
  "domain_checks s i = filter (\<lambda>c. ch_domain_id c = i) (checks s)"

definition domain_check_of :: "db \<Rightarrow> uuid \<Rightarrow> check_type \<Rightarrow> domain_check option" where
  "domain_check_of s i t = find (\<lambda>c. ch_check_type c = t) (domain_checks s i)"

definition txt_record_value :: "ownership_claim \<Rightarrow> string" where
  "txt_record_value c = ''custom-domain-verify='' @ c_token c"

text \<open>\<open>Application.active_origin\<close> and \<open>Application.serving_origin\<close>.\<close>

definition application_origins :: "db \<Rightarrow> uuid \<Rightarrow> verified_origin list" where
  "application_origins s i = filter (\<lambda>x. o_application_id x = i) (origins s)"

definition active_origin :: "db \<Rightarrow> uuid \<Rightarrow> verified_origin option" where
  "active_origin s i = find o_is_active (application_origins s i)"

definition serving_origin :: "db \<Rightarrow> uuid \<Rightarrow> verified_origin option" where
  "serving_origin s i = (case active_origin s i of
     None \<Rightarrow> None
   | Some x \<Rightarrow> if o_status x \<noteq> Origin_Verified then None else Some x)"

definition origin_url :: "verified_origin \<Rightarrow> string" where
  "origin_url x = o_scheme x @ ''://'' @ o_host x @ '':'' @ str_of_int (o_port x)"

definition cr_is_usable :: "api_credential \<Rightarrow> instant \<Rightarrow> bool" where
  "cr_is_usable c now = (let not_revoked = (cr_revoked_at c = None);
     not_expired = (case cr_expires_at c of None \<Rightarrow> True | Some t \<Rightarrow> t > now)
   in not_revoked \<and> not_expired)"

definition s_is_active :: "webhook_subscription \<Rightarrow> bool" where
  "s_is_active w = (s_revoked_at w = None)"

definition delivery_state :: "webhook_delivery \<Rightarrow> string" where
  "delivery_state d = (if is_set (dl_delivered_at d) then ''delivered''
     else if is_set (dl_abandoned_at d) then ''abandoned'' else ''pending'')"

lemma find_filter: "find P (filter Q t) = find (\<lambda>r. Q r \<and> P r) t"
  by (induction t) auto

lemma find_SomeD: "find P t = Some r \<Longrightarrow> r \<in> set t \<and> P r"
  by (induction t) (auto split: if_splits)

lemma domain_check_of_eq: "domain_check_of s i t = check_row s (i, t)"
  by (simp add: domain_check_of_def domain_checks_def check_row_def find_row_def check_key_def
      find_filter)

lemma active_claim_Some:
  assumes "active_claim s i = Some c"
  shows "c \<in> set (claims s)" "c_domain_id c = i" "c_status c \<noteq> Claim_Revoked"
  using find_SomeD [OF assms [unfolded active_claim_def]] by (auto simp: domain_claims_def)

lemma active_claim_None:
  "active_claim s i = None \<longleftrightarrow>
    (\<forall>c\<in>set (claims s). c_domain_id c = i \<longrightarrow> c_status c = Claim_Revoked)"
  by (auto simp: active_claim_def find_None_iff domain_claims_def)

end
