(* ===== verification/Hostname.thy ===== *)
theory Hostname
  imports Database
begin

text \<open>
  \<open>app/hostname.py\<close>: the canonical form of hostnames. The third-party packages \<open>idna\<close> and
  \<open>publicsuffixlist\<close> are the fields of \<open>libs\<close>, an argument of every definition that uses
  them; \<open>ipaddress.ip_address\<close> is modelled from the standard library.
\<close>

section \<open>Third-party packages\<close>

text \<open>
  \<open>idna_encode\<close> is \<open>idna.encode(value, uts46=True)\<close> decoded as ASCII (\<open>Inl\<close> the text of
  its \<open>IDNAError\<close>); \<open>privatesuffix\<close> is \<open>PublicSuffixList().privatesuffix\<close>.
\<close>

record libs =
  idna_encode :: "string \<Rightarrow> string + string"
  privatesuffix :: "string \<Rightarrow> string option"

section \<open>IP literals\<close>

definition ipv4_octet :: "string \<Rightarrow> bool" where
  "ipv4_octet t = (t \<noteq> [] \<and> list_all is_digit t \<and> length t \<le> 3
     \<and> (length t > 1 \<longrightarrow> hd t \<noteq> CHR ''0'') \<and> nat_of_digits t \<le> 255)"

definition is_ipv4 :: "string \<Rightarrow> bool" where
  "is_ipv4 t = (let parts = split_on (CHR ''.'') t in length parts = 4 \<and> list_all ipv4_octet parts)"

definition is_hexdigit :: "char \<Rightarrow> bool" where
  "is_hexdigit c = (is_digit c \<or> c \<in> set ''abcdefABCDEF'')"

definition ipv6_hextet :: "string \<Rightarrow> bool" where
  "ipv6_hextet t = (t \<noteq> [] \<and> length t \<le> 4 \<and> list_all is_hexdigit t)"

text \<open>The colon-separated parts of an address without its scope, as \<open>_ip_int_from_string\<close> reads them.\<close>

definition ipv6_parts_ok :: "string list \<Rightarrow> bool" where
  "ipv6_parts_ok parts = (let n = length parts;
     skips = filter (\<lambda>i. parts ! i = []) [1..<n - 1]
   in n \<le> 9 \<and>
     (case skips of
        [] \<Rightarrow> n = 8 \<and> list_all ipv6_hextet parts
      | [i] \<Rightarrow>
          (let hi = (if hd parts = [] then i - 1 else i);
               lo = (if last parts = [] then n - i - 2 else n - i - 1)
           in (hd parts = [] \<longrightarrow> hi = 0) \<and> (last parts = [] \<longrightarrow> lo = 0) \<and> hi + lo \<le> 7
              \<and> list_all ipv6_hextet (take hi parts)
              \<and> list_all ipv6_hextet (drop (n - lo) parts))
      | _ \<Rightarrow> False))"

definition is_ipv6 :: "string \<Rightarrow> bool" where
  "is_ipv6 t = (let addr = takeWhile (\<lambda>c. c \<noteq> CHR ''%'') t; rest = drop (length addr) t;
     parts = split_on (CHR '':'') addr;
     v4 = (CHR ''.'' \<in> set (last parts));
     expanded = (if v4 then butlast parts @ [''0'', ''0''] else parts)
   in CHR ''/'' \<notin> set t
      \<and> (rest = [] \<or> (length rest > 1 \<and> CHR ''%'' \<notin> set (tl rest)))
      \<and> addr \<noteq> [] \<and> length parts \<ge> 3
      \<and> (v4 \<longrightarrow> is_ipv4 (last parts)) \<and> ipv6_parts_ok expanded)"

definition looks_like_ip :: "string \<Rightarrow> bool" where
  "looks_like_ip value = (let candidate = strip_chars (\<lambda>c. c \<in> set ''[]'') value
     in is_ipv4 candidate \<or> is_ipv6 candidate)"

section \<open>Canonical form\<close>

definition RESERVED_SUFFIXES :: "string list" where
  "RESERVED_SUFFIXES = [''localhost'', ''local'', ''internal'', ''arpa'', ''onion'', ''invalid'',
     ''home'', ''lan'', ''corp'']"

definition MAX_HOSTNAME_LENGTH :: nat where "MAX_HOSTNAME_LENGTH = 253"
definition MAX_LABEL_LENGTH :: nat where "MAX_LABEL_LENGTH = 63"
definition MIN_LABELS_FOR_SUBDOMAIN :: nat where "MIN_LABELS_FOR_SUBDOMAIN = 3"

definition label_char :: "char \<Rightarrow> bool" where
  "label_char c = (is_digit c \<or> (let n = of_char c :: nat in 97 \<le> n \<and> n \<le> 122))"

text \<open>The regular expression without its anchors.\<close>

definition label_core :: "string \<Rightarrow> bool" where
  "label_core l = (l \<noteq> [] \<and> label_char (hd l) \<and> label_char (last l)
     \<and> list_all (\<lambda>c. label_char c \<or> c = CHR ''-'') l)"

text \<open>Python's \<open>$\<close> also matches before a final newline.\<close>

definition re_dollar :: "(string \<Rightarrow> bool) \<Rightarrow> string \<Rightarrow> bool" where
  "re_dollar m s = (m s \<or> (s \<noteq> [] \<and> last s = CHR 0x0A \<and> m (butlast s)))"

definition label_re :: "string \<Rightarrow> bool" where
  "label_re l = re_dollar label_core l"

definition label_ok :: "string \<Rightarrow> bool" where
  "label_ok l = (l \<noteq> [] \<and> length l \<le> MAX_LABEL_LENGTH \<and> label_re l)"

text \<open>\<open>repr(s)\<close>.\<close>

definition hex_digit :: "nat \<Rightarrow> char" where
  "hex_digit n = (if n < 10 then char_of (48 + n) else char_of (87 + n))"

definition repr_char :: "char \<Rightarrow> char \<Rightarrow> string" where
  "repr_char q c = (let n = of_char c :: nat in
     if c = q \<or> c = CHR 0x5C then [CHR 0x5C, c]
     else if n = 9 then [CHR 0x5C, CHR ''t'']
     else if n = 10 then [CHR 0x5C, CHR ''n'']
     else if n = 13 then [CHR 0x5C, CHR ''r'']
     else if n < 32 \<or> (127 \<le> n \<and> n \<le> 160) \<or> n = 173
       then [CHR 0x5C, CHR ''x'', hex_digit (n div 16), hex_digit (n mod 16)]
     else [c])"

definition py_repr :: "string \<Rightarrow> string" where
  "py_repr s = (let q = (if CHR 0x27 \<in> set s \<and> CHR 0x22 \<notin> set s then CHR 0x22 else CHR 0x27)
     in q # concat (map (repr_char q) s) @ [q])"

definition hostname_too_long :: "error" where
  "hostname_too_long = InvalidHostname ''hostname_too_long'' ''Hostname exceeds 253 characters''"

text \<open>The rules after the encoding (lines 86 to 108).\<close>

definition check_labels :: "libs \<Rightarrow> bool \<Rightarrow> string \<Rightarrow> error + string" where
  "check_labels L allow_apex v = (let labels = split_on (CHR ''.'') v in
     case find (\<lambda>l. \<not> label_ok l) labels of
       Some l \<Rightarrow> Inl (InvalidHostname ''invalid_label'' (''Label '' @ py_repr l @ '' is not valid''))
     | None \<Rightarrow>
       if list_all is_digit (last labels)
       then Inl (InvalidHostname ''invalid_hostname'' ''Top-level label cannot be numeric'')
       else if allow_apex then Inr v
       else if last labels \<in> set RESERVED_SUFFIXES
       then Inl (InvalidHostname ''reserved_name''
         (''Names under .'' @ last labels @ '' cannot be used as customer hostnames''))
       else (case privatesuffix L v of
           None \<Rightarrow> Inl (InvalidHostname ''public_suffix''
             (v @ '' is a public suffix, not a customer hostname''))
         | Some r \<Rightarrow>
           if r = v \<or> length labels < MIN_LABELS_FOR_SUBDOMAIN
           then Inl (InvalidHostname ''apex_not_supported''
             (''Only subdomains such as forms.example.com are supported; '' @ r
               @ '' is the registrable (apex) domain''))
           else Inr v))"

definition canonicalize :: "libs \<Rightarrow> bool \<Rightarrow> string option \<Rightarrow> error + string" where
  "canonicalize L allow_apex raw = (case raw of
     None \<Rightarrow> Inl (InvalidHostname ''empty_hostname'' ''Hostname is required'')
   | Some r \<Rightarrow>
     if strip r = [] then Inl (InvalidHostname ''empty_hostname'' ''Hostname is required'')
     else let value = remove_suffix ''.'' (strip r) in
       if CHR ''*'' \<in> set value
       then Inl (InvalidHostname ''wildcard_not_supported'' ''Wildcard hostnames are not supported'')
       else if looks_like_ip value
       then Inl (InvalidHostname ''ip_literal_not_supported''
         ''IP addresses cannot be used as hostnames'')
       else if length value > MAX_HOSTNAME_LENGTH then Inl hostname_too_long
       else (case idna_encode L value of
           Inl exc \<Rightarrow> Inl (InvalidHostname ''invalid_hostname'' (''Hostname is not valid: '' @ exc))
         | Inr encoded \<Rightarrow>
           let ascii_value = lower encoded in
           if length ascii_value > MAX_HOSTNAME_LENGTH then Inl hostname_too_long
           else check_labels L allow_apex ascii_value))"

section \<open>What canonical hostnames look like\<close>

text \<open>
  Documented behaviour of \<open>idna.encode\<close>: its output has no control characters, and encoding
  an encoded name changes nothing.
\<close>

definition idna_printable :: "libs \<Rightarrow> bool" where
  "idna_printable L = (\<forall>v a. idna_encode L v = Inr a \<longrightarrow> CHR 0x0A \<notin> set a)"

definition idna_stable :: "libs \<Rightarrow> bool" where
  "idna_stable L = (\<forall>v a. idna_encode L v = Inr a \<longrightarrow> idna_encode L (lower a) = Inr (lower a))"

text \<open>The specification of a canonical hostname: bounded, dot-separated LDH labels, non-numeric top label.\<close>

definition hostname_ok :: "string \<Rightarrow> bool" where
  "hostname_ok v = (length v \<le> 253
     \<and> (\<forall>l\<in>set (split_on (CHR ''.'') v). label_core l \<and> length l \<le> 63)
     \<and> (\<exists>c\<in>set (last (split_on (CHR ''.'') v)). \<not> is_digit c))"

lemmas hostname_defs = canonicalize_def check_labels_def label_ok_def label_re_def re_dollar_def
  MAX_HOSTNAME_LENGTH_def MAX_LABEL_LENGTH_def hostname_too_long_def

lemma set_split_on: "w \<in> set (split_on c s) \<Longrightarrow> set w \<subseteq> set s"
  by (induction s arbitrary: w) (fastforce split: if_splits list.splits)+

lemma set_split_on_cover: "x \<in> set s \<Longrightarrow> x \<noteq> c \<Longrightarrow> \<exists>w\<in>set (split_on c s). x \<in> set w"
proof (induction s)
  case (Cons y ys)
  then show ?case by (cases "split_on c ys") (auto split: if_splits)
qed simp

lemma lower_char_newline: "lower_char c = CHR 0x0A \<longleftrightarrow> c = CHR 0x0A"
proof
  assume a: "lower_char c = CHR 0x0A"
  have "(of_char c :: nat) < 256" by simp
  moreover have "(of_char (lower_char c) :: nat) = 10" using a by simp
  ultimately have "(of_char c :: nat) = of_char (CHR 0x0A)"
    by (auto simp: lower_char_def Let_def split: if_splits)
  then show "c = CHR 0x0A" by (simp only: of_char_eq_iff)
qed (simp add: lower_char_def)

lemma newline_lower: "CHR 0x0A \<in> set (lower s) \<longleftrightarrow> CHR 0x0A \<in> set s"
  by (auto simp: lower_def lower_char_newline image_iff eq_commute [of "CHR 0x0A"])

lemma check_labels_Inr:
  assumes "check_labels L b v = Inr u" and "CHR 0x0A \<notin> set v"
  shows "u = v" and "\<forall>l\<in>set (split_on (CHR ''.'') v). label_core l \<and> length l \<le> 63"
    and "\<exists>c\<in>set (last (split_on (CHR ''.'') v)). \<not> is_digit c"
proof -
  have lab: "find (\<lambda>l. \<not> label_ok l) (split_on (CHR ''.'') v) = None"
    and rest: "u = v" "\<not> list_all is_digit (last (split_on (CHR ''.'') v))"
    using assms(1) by (auto simp: check_labels_def Let_def split: option.splits if_splits)
  show "u = v" by (rule rest)
  show "\<exists>c\<in>set (last (split_on (CHR ''.'') v)). \<not> is_digit c"
    using rest(2) by (simp add: list_all_iff)
  show "\<forall>l\<in>set (split_on (CHR ''.'') v). label_core l \<and> length l \<le> 63"
  proof
    fix l assume l: "l \<in> set (split_on (CHR ''.'') v)"
    then have "CHR 0x0A \<notin> set l" using assms(2) set_split_on by fastforce
    then have "l \<noteq> [] \<Longrightarrow> last l \<noteq> CHR 0x0A" using last_in_set [of l] by metis
    with l lab show "label_core l \<and> length l \<le> 63"
      by (auto simp: find_None_iff label_ok_def label_re_def re_dollar_def MAX_LABEL_LENGTH_def)
  qed
qed

lemma canonicalize_InrE:
  assumes "canonicalize L b raw = Inr v" and "idna_printable L"
  obtains w encoded where "idna_encode L w = Inr encoded" and "v = lower encoded"
    and "length v \<le> 253" and "check_labels L b v = Inr v" and "CHR 0x0A \<notin> set v"
proof -
  from assms(1) obtain w encoded where e: "idna_encode L w = Inr encoded"
    and len: "length encoded \<le> 253" and c: "check_labels L b (lower encoded) = Inr v"
    by (auto simp: canonicalize_def Let_def hostname_too_long_def MAX_HOSTNAME_LENGTH_def
        split: option.splits if_splits sum.splits)
  have nn: "CHR 0x0A \<notin> set (lower encoded)"
    using e assms(2) by (auto simp: newline_lower idna_printable_def)
  have "v = lower encoded" by (rule check_labels_Inr(1) [OF c nn])
  with e len c nn that show thesis by simp
qed

lemma canonicalize_hostname_ok:
  assumes "canonicalize L b raw = Inr v" and "idna_printable L"
  shows "hostname_ok v"
  using canonicalize_InrE [OF assms] check_labels_Inr unfolding hostname_ok_def by metis

lemma label_char_props:
  assumes "label_char c"
  shows "\<not> py_space c" "c \<noteq> CHR ''*''" "c \<noteq> CHR ''.''" "c \<noteq> CHR '':''" "c \<noteq> CHR ''[''" "c \<noteq> CHR '']''"
    "lower_char c = c"
  using assms by (auto simp: label_char_def is_digit_def py_space_def lower_char_def Let_def)

lemma hostname_ok_chars:
  assumes "hostname_ok v" and "x \<in> set v"
  shows "label_char x \<or> x = CHR ''-'' \<or> x = CHR ''.''"
  using assms set_split_on_cover [of x v "CHR ''.''"]
  by (fastforce simp: hostname_ok_def label_core_def list_all_iff)

lemma hd_split_on: "hd (split_on c v) \<noteq> [] \<Longrightarrow> v \<noteq> [] \<and> hd v = hd (hd (split_on c v))"
  by (cases v) (auto split: if_splits list.splits)

lemma last_split_on: "last (split_on c v) \<noteq> [] \<Longrightarrow> v \<noteq> [] \<and> last v = last (last (split_on c v))"
proof (induction v)
  case (Cons x xs)
  obtain w ws where sp: "split_on c xs = w # ws"
    by (cases "split_on c xs") auto
  show ?case
  proof (cases "xs = []")
    case True
    with Cons sp show ?thesis by (auto split: if_splits)
  next
    case False
    then have "\<not> (w = [] \<and> ws = [])" using join_split_on [of c xs] sp by auto
    with False Cons sp show ?thesis
      by (cases ws) (auto split: if_splits)
  qed
qed simp

lemma hostname_ok_ends:
  assumes "hostname_ok v"
  shows "v \<noteq> []" "label_char (hd v)" "label_char (last v)"
proof -
  have h: "label_core (hd (split_on (CHR ''.'') v))" and l: "label_core (last (split_on (CHR ''.'') v))"
    using assms by (auto simp: hostname_ok_def)
  show "v \<noteq> []" "label_char (hd v)"
    using hd_split_on [of "CHR ''.''" v] h by (auto simp: label_core_def)
  show "label_char (last v)"
    using last_split_on [of "CHR ''.''" v] l by (auto simp: label_core_def)
qed

lemma hostname_ok_strip: "hostname_ok v \<Longrightarrow> strip v = v"
  using hostname_ok_ends label_char_props(1) by (intro strip_id) auto

lemma hostname_ok_no_ip:
  assumes ok: "hostname_ok v"
  shows "\<not> looks_like_ip v"
proof -
  have id: "strip_chars (\<lambda>c. c \<in> set ''[]'') v = v"
    using hostname_ok_ends [OF ok] label_char_props(5,6) by (intro strip_id) auto
  have "\<not> is_ipv4 v"
    using ok by (auto simp: is_ipv4_def hostname_ok_def list_all_iff ipv4_octet_def Let_def)
  moreover have "CHR '':'' \<notin> set v"
    using hostname_ok_chars [OF ok] label_char_props(4) by fastforce
  then have "split_on (CHR '':'') (takeWhile (\<lambda>c. c \<noteq> CHR ''%'') v) = [takeWhile (\<lambda>c. c \<noteq> CHR ''%'') v]"
    by (intro split_on_free_id) (auto dest: set_takeWhileD)
  then have "\<not> is_ipv6 v"
    by (simp add: is_ipv6_def Let_def)
  ultimately show ?thesis
    unfolding looks_like_ip_def id Let_def by blast
qed

lemma hostname_ok_lower:
  assumes "hostname_ok v"
  shows "lower v = v"
proof (unfold lower_def, rule map_idI)
  fix x assume "x \<in> set v"
  with assms show "lower_char x = x"
    using hostname_ok_chars [of v x] label_char_props(7) [of x] by (auto simp: lower_char_def)
qed

lemma hostname_ok_no_dot:
  assumes "hostname_ok v"
  shows "remove_suffix ''.'' v = v"
  using hostname_ok_ends(3) [OF assms] label_char_props(3) [of "CHR ''.''"]
  by (auto simp: remove_suffix_def elim!: ends_withE)

lemma canonicalize_fixed:
  assumes "canonicalize L allow_apex raw = Inr v" and "idna_printable L" and "idna_stable L"
  shows "canonicalize L allow_apex (Some v) = Inr v"
proof -
  have ok: "hostname_ok v" by (rule canonicalize_hostname_ok [OF assms(1,2)])
  obtain w encoded where e: "idna_encode L w = Inr encoded" and v: "v = lower encoded"
    and c: "check_labels L allow_apex v = Inr v" and len: "length v \<le> 253"
    using canonicalize_InrE [OF assms(1,2)] by metis
  have "idna_encode L v = Inr v" using assms(3) e v by (auto simp: idna_stable_def)
  moreover have "CHR ''*'' \<notin> set v"
    using hostname_ok_chars [OF ok] label_char_props(2) by fastforce
  ultimately show ?thesis
    using ok c len hostname_ok_ends(1) [OF ok]
    by (simp add: canonicalize_def Let_def hostname_ok_strip hostname_ok_no_ip hostname_ok_lower
        hostname_ok_no_dot MAX_HOSTNAME_LENGTH_def)
qed

text \<open>
  A hostname that \<open>canonicalize\<close> accepts is canonical: at most 253 characters, every
  label between 1 and 63 lowercase letters, digits and inner hyphens, the top label not
  numeric; it is stored as it is compared (canonicalizing it again changes nothing), so one
  name is one claim.
\<close>

theorem canonicalize_canonical:
  assumes "canonicalize L allow_apex raw = Inr v" and "idna_printable L" and "idna_stable L"
  shows "hostname_ok v \<and> lower v = v \<and> canonicalize L allow_apex (Some v) = Inr v"
proof -
  have ok: "hostname_ok v" by (rule canonicalize_hostname_ok [OF assms(1,2)])
  then show ?thesis using canonicalize_fixed [OF assms] by (simp add: hostname_ok_lower)
qed

text \<open>A library that encodes ASCII names as they are, and knows the two-label registrable domains.\<close>

definition plain_libs :: libs where
  "plain_libs = \<lparr>idna_encode = (\<lambda>v. if list_all (\<lambda>c. label_char c \<or> c \<in> set ''-.'') (lower v)
       then Inr (lower v) else Inl ''codepoint not allowed''),
     privatesuffix = (\<lambda>v. let ls = split_on (CHR ''.'') v
       in if length ls < 2 then None else Some (join ''.'' (drop (length ls - 2) ls)))\<rparr>"

lemma plain_libs_idna: "idna_printable plain_libs" "idna_stable plain_libs"
  by (auto simp: idna_printable_def idna_stable_def plain_libs_def list_all_iff
      label_char_def is_digit_def)

theorem canonicalize_canonical_witness:
  "hostname_ok ''forms.example.com'' \<and> lower ''forms.example.com'' = ''forms.example.com''
    \<and> canonicalize plain_libs False (Some ''forms.example.com'') = Inr ''forms.example.com''"
proof (rule canonicalize_canonical [OF _ plain_libs_idna])
  show "canonicalize plain_libs False (Some '' Forms.Example.com. '') = Inr ''forms.example.com''"
    by code_simp
qed

end
