(* ===== verification/Resolver.thy ===== *)
theory Resolver
  imports Hostname
begin

text \<open>
  \<open>app/dns/resolver.py\<close> and \<open>app/dns/zones.py\<close>: the interface of a DNS resolver, the CNAME
  chain behind the routing check, and the zone a hostname's records live in.
\<close>

section \<open>The resolver interface\<close>

datatype dns_error = DnsNameNotFound string | DnsUnavailable string

record resolver =
  r_txt :: "string \<Rightarrow> dns_error + string list"
  r_cname :: "string \<Rightarrow> dns_error + string option"
  r_has_address :: "string \<Rightarrow> dns_error + bool"
  r_ns :: "string \<Rightarrow> dns_error + string list"

definition MAX_CNAME_HOPS :: nat where "MAX_CNAME_HOPS = 8"

text \<open>
  The loop of \<open>cname_chain\<close>, with the number of hops left. The first hop is the one that
  still has an empty chain.
\<close>

fun cname_loop ::
    "resolver \<Rightarrow> string option \<Rightarrow> nat \<Rightarrow> bool \<Rightarrow> string list \<Rightarrow> string \<Rightarrow> dns_error + string list" where
  "cname_loop r stop_at 0 first chain current = Inr chain"
| "cname_loop r stop_at (Suc n) first chain current =
     (case r_cname r current of
        Inl e \<Rightarrow> if first then Inl e else Inr chain
      | Inr None \<Rightarrow> Inr chain
      | Inr (Some target) \<Rightarrow>
          if target \<in> set chain \<or> target = current then Inr chain
          else if stop_at = Some target then Inr (chain @ [target])
          else cname_loop r stop_at n False (chain @ [target]) target)"

definition cname_chain :: "resolver \<Rightarrow> string \<Rightarrow> string option \<Rightarrow> nat \<Rightarrow> dns_error + string list" where
  "cname_chain r name stop_at max_hops = cname_loop r stop_at max_hops True [] name"

definition normalize_name :: "string \<Rightarrow> string" where
  "normalize_name name = lower (rstrip (\<lambda>c. c = CHR ''.'') name)"

section \<open>Zones\<close>

definition registrable_domain :: "libs \<Rightarrow> string \<Rightarrow> string option" where
  "registrable_domain L hostname = privatesuffix L (normalize_name hostname)"

text \<open>\<open>name.split(".", 1)[1]\<close> where the name has a dot.\<close>

definition parent_name :: "string \<Rightarrow> string" where
  "parent_name name = (case str_partition (CHR ''.'') name of None \<Rightarrow> name | Some (_, p) \<Rightarrow> p)"

definition default_zone :: "libs \<Rightarrow> string \<Rightarrow> string" where
  "default_zone L hostname = (let h = normalize_name hostname in
     case registrable_domain L h of
       Some zone \<Rightarrow> if zone \<noteq> h then zone
                    else if CHR ''.'' \<in> set h then parent_name h else h
     | None \<Rightarrow> if CHR ''.'' \<in> set h then parent_name h else h)"

definition host_in_zone :: "string \<Rightarrow> string \<Rightarrow> error + string" where
  "host_in_zone hostname zone = (let h = normalize_name hostname; z = normalize_name zone in
     if h = z then Inr ''@''
     else if ends_with (CHR ''.'' # z) h then Inr (take (length h - (length z + 1)) h)
     else Inl (ValueError (h @ '' is not inside '' @ z)))"

text \<open>The loop of \<open>candidate_zones\<close>: \<open>name\<close> walks up one label at a time.\<close>

function candidate_loop :: "string \<Rightarrow> string \<Rightarrow> string list" where
  "candidate_loop ztop name = (case str_partition (CHR ''.'') name of
     None \<Rightarrow> []
   | Some (_, p) \<Rightarrow>
       if p \<noteq> ztop \<and> \<not> ends_with (CHR ''.'' # ztop) p then []
       else if p = ztop then [p] else p # candidate_loop ztop p)"
  by pat_completeness auto
termination
  by (relation "measure (\<lambda>(ztop, name). length name)") (auto simp: str_partition_eq_Some)

declare candidate_loop.simps [simp del]

definition candidate_zones :: "libs \<Rightarrow> string \<Rightarrow> string list" where
  "candidate_zones L hostname = (let h = normalize_name hostname; ztop = default_zone L h;
     candidates = candidate_loop ztop h
   in if candidates = [] then [ztop] else candidates)"

record zone_lookup =
  zl_zone :: string
  zl_nameservers :: "string list"
  zl_error_code :: "string option"
  zl_message :: "string option"

definition zl_transient :: "zone_lookup \<Rightarrow> bool" where
  "zl_transient z = (zl_error_code z = Some ''dns_timeout'')"

fun dns_error_text :: "dns_error \<Rightarrow> string" where
  "dns_error_text (DnsNameNotFound t) = t"
| "dns_error_text (DnsUnavailable t) = t"

text \<open>Python's order on strings, for \<open>sorted\<close>.\<close>

fun str_less_eq :: "string \<Rightarrow> string \<Rightarrow> bool" where
  "str_less_eq [] t = True"
| "str_less_eq (a # s) [] = False"
| "str_less_eq (a # s) (b # t) =
     ((of_char a :: nat) < of_char b \<or> (a = b \<and> str_less_eq s t))"

fun insert_str :: "string \<Rightarrow> string list \<Rightarrow> string list" where
  "insert_str x [] = [x]"
| "insert_str x (y # ys) = (if str_less_eq x y then x # y # ys else y # insert_str x ys)"

definition sorted_strs :: "string list \<Rightarrow> string list" where
  "sorted_strs xs = foldr insert_str xs []"

text \<open>The loop of \<open>find_zone\<close> over the candidates left; \<open>ztop\<close> is \<open>candidates[-1]\<close>.\<close>

fun find_zone_loop :: "resolver \<Rightarrow> string \<Rightarrow> string list \<Rightarrow> zone_lookup" where
  "find_zone_loop r ztop [] = \<lparr>zl_zone = ztop, zl_nameservers = [],
     zl_error_code = Some ''nameservers_not_found'',
     zl_message = Some (''No NS records were found for '' @ ztop @ ''; is the domain registered?'')\<rparr>"
| "find_zone_loop r ztop (name # rest) =
     (case r_ns r name of
        Inl (DnsNameNotFound _) \<Rightarrow> find_zone_loop r ztop rest
      | Inl (DnsUnavailable exc) \<Rightarrow>
          \<lparr>zl_zone = ztop, zl_nameservers = [], zl_error_code = Some ''dns_timeout'',
           zl_message = Some (''NS lookup for '' @ name @ '' failed: '' @ exc)\<rparr>
      | Inr nameservers \<Rightarrow>
          if nameservers \<noteq> []
          then \<lparr>zl_zone = name,
                zl_nameservers = sorted_strs (remdups (map normalize_name (filter (\<lambda>n. n \<noteq> []) nameservers))),
                zl_error_code = None, zl_message = None\<rparr>
          else find_zone_loop r ztop rest)"

definition find_zone :: "resolver \<Rightarrow> libs \<Rightarrow> string \<Rightarrow> zone_lookup" where
  "find_zone r L hostname = (let candidates = candidate_zones L hostname
     in find_zone_loop r (last candidates) candidates)"

section \<open>CNAME chains\<close>

text \<open>
  The reference the loop is compared with: \<open>n\<close> CNAME steps lead from \<open>a\<close> to \<open>b\<close>.
\<close>

inductive cname_path :: "resolver \<Rightarrow> nat \<Rightarrow> string \<Rightarrow> string \<Rightarrow> bool" for r where
  here: "cname_path r 0 a a"
| step: "cname_path r n a b \<Longrightarrow> r_cname r b = Inr (Some c) \<Longrightarrow> cname_path r (Suc n) a c"

inductive_cases cname_path_0E: "cname_path r 0 a b"
inductive_cases cname_path_SucE: "cname_path r (Suc n) a b"

lemma cname_path_cons: "r_cname r a = Inr (Some b) \<Longrightarrow> cname_path r n b c \<Longrightarrow> cname_path r (Suc n) a c"
proof (induction n arbitrary: c)
  case 0
  then show ?case by (metis cname_path_0E cname_path.here cname_path.step)
next
  case (Suc n)
  from Suc.prems(2) obtain m where "cname_path r n b m" "r_cname r m = Inr (Some c)"
    by (rule cname_path_SucE)
  with Suc show ?case by (blast intro: cname_path.step)
qed

lemma cname_path_fun: "cname_path r n a b \<Longrightarrow> cname_path r n a c \<Longrightarrow> b = c"
proof (induction n arbitrary: b c)
  case 0
  then show ?case by (auto elim: cname_path_0E)
next
  case (Suc n)
  then show ?case by (metis Inr_inject cname_path_SucE option.inject)
qed

text \<open>A run of the loop: what is in the chain is reached by CNAME steps, in order.\<close>

lemma cname_loop_sound:
  assumes "cname_loop r stop n first chain cur = Inr out"
    and "\<forall>i<length chain. cname_path r (Suc i) name (chain ! i)"
    and "cname_path r (length chain) name cur"
    and "distinct chain"
  shows "length out \<le> length chain + n \<and> distinct out
    \<and> (\<forall>i<length out. cname_path r (Suc i) name (out ! i))"
  using assms
proof (induction n arbitrary: first chain cur)
  case (Suc n)
  show ?case
  proof (cases "r_cname r cur")
    case (Inl e)
    with Suc.prems show ?thesis by (auto split: if_splits)
  next
    case (Inr t)
    note cname = this
    show ?thesis
    proof (cases t)
      case None
      with cname Suc.prems show ?thesis by auto
    next
      case (Some target)
      let ?chain = "chain @ [target]"
      have path: "cname_path r (Suc (length chain)) name target"
        using Suc.prems(3) cname Some by (blast intro: cname_path.step)
      then have paths: "\<forall>i<length ?chain. cname_path r (Suc i) name (?chain ! i)"
        using Suc.prems(2) by (auto simp: nth_append less_Suc_eq)
      show ?thesis
      proof (cases "target \<in> set chain \<or> target = cur")
        case True
        with Suc.prems cname Some show ?thesis by auto
      next
        case fresh: False
        then have dist: "distinct ?chain" using Suc.prems(4) by simp
        show ?thesis
        proof (cases "stop = Some target")
          case True
          with Suc.prems(1) fresh cname Some paths dist show ?thesis by auto
        next
          case False
          with Suc.prems(1) fresh cname Some
          have "cname_loop r stop n False ?chain target = Inr out" by simp
          from Suc.IH [OF this paths] path dist show ?thesis by simp
        qed
      qed
    qed
  qed
qed auto

text \<open>Conversely, a path whose nodes are new until its end is followed to its end.\<close>

lemma cname_path_nodes:
  "cname_path r n a b \<Longrightarrow>
    \<exists>f. f 0 = a \<and> f n = b \<and> (\<forall>i<n. r_cname r (f i) = Inr (Some (f (Suc i))))"
proof (induction rule: cname_path.induct)
  case (here a)
  show ?case by (rule exI [of _ "\<lambda>_. a"]) simp
next
  case (step n a b c)
  then obtain f where f: "f 0 = a" "f n = b" "\<forall>i<n. r_cname r (f i) = Inr (Some (f (Suc i)))"
    by blast
  with step.hyps show ?case
    by (intro exI [of _ "f(Suc n := c)"]) (auto simp: less_Suc_eq)
qed

lemma cname_path_of_nodes:
  "\<forall>i<n. r_cname r (f i) = Inr (Some (f (Suc i))) \<Longrightarrow> cname_path r n (f 0) (f n)"
  by (induction n) (auto intro: cname_path.intros)

lemma nodes_repeat:
  assumes "\<forall>i<n. r_cname r (f i) = Inr (Some (f (Suc i)))" and "f i = f j" and "i < j"
  shows "j + k \<le> n \<Longrightarrow> f (i + k) = f (j + k)"
proof (induction k)
  case (Suc k)
  then have "f (i + k) = f (j + k)" by simp
  moreover have "r_cname r (f (i + k)) = Inr (Some (f (Suc (i + k))))"
    and "r_cname r (f (j + k)) = Inr (Some (f (Suc (j + k))))"
    using assms(1,3) Suc.prems by simp_all
  ultimately show ?case by simp
qed (simp add: assms)

lemma cname_loop_follows:
  assumes nodes: "\<forall>i<n. r_cname r (f i) = Inr (Some (f (Suc i)))"
    and fresh: "\<forall>i j. i < j \<and> j \<le> n \<longrightarrow> f i \<noteq> f j"
    and "k < n" and "n - k \<le> m"
  shows "cname_loop r (Some (f n)) m (k = 0) (map f [1..<Suc k]) (f k) = Inr (map f [1..<Suc n])"
  using assms(3,4)
proof (induction m arbitrary: k)
  case (Suc m)
  have ne: "f (Suc k) \<noteq> f i" if "i \<le> k" for i
    using fresh Suc.prems(1) that by (metis Suc_leI le_imp_less_Suc)
  then have "f (Suc k) \<notin> f ` {..k}" by blast
  moreover have "set (map f [1..<Suc k]) \<subseteq> f ` {..k}" by auto
  ultimately have new: "f (Suc k) \<notin> set (map f [1..<Suc k])" "f (Suc k) \<noteq> f k"
    by blast+
  have app: "map f [1..<Suc k] @ [f (Suc k)] = map f [1..<Suc (Suc k)]" by simp
  show ?case
  proof (cases "Suc k = n")
    case True
    with nodes Suc.prems new app show ?thesis by auto
  next
    case False
    then have "f n \<noteq> f (Suc k)" using fresh Suc.prems(1) by (metis Suc_lessI order_refl)
    with nodes Suc.prems(1) new
    have "cname_loop r (Some (f n)) (Suc m) (k = 0) (map f [1..<Suc k]) (f k)
      = cname_loop r (Some (f n)) m False (map f [1..<Suc k] @ [f (Suc k)]) (f (Suc k))"
      by auto
    also have "\<dots> = cname_loop r (Some (f n)) m (Suc k = 0) (map f [1..<Suc (Suc k)]) (f (Suc k))"
      by (simp only: app) simp
    also have "\<dots> = Inr (map f [1..<Suc n])"
      using Suc.IH [of "Suc k"] Suc.prems False by simp
    finally show ?thesis .
  qed
qed simp

lemma cname_chain_sound:
  assumes "cname_chain r name stop n = Inr out"
  shows "length out \<le> n" "distinct out" "\<forall>i<length out. cname_path r (Suc i) name (out ! i)"
  using cname_loop_sound [of r stop n True "[]" name out name] assms
  by (auto simp: cname_chain_def intro: cname_path.here)

lemma cname_chain_complete:
  assumes "cname_path r n name t" and "n \<le> m" and "t \<noteq> name"
  shows "\<exists>out. cname_chain r name (Some t) m = Inr out \<and> t \<in> set out"
proof -
  define l where "l = (LEAST l. cname_path r l name t)"
  have path: "cname_path r l name t" and least: "\<And>i. cname_path r i name t \<Longrightarrow> l \<le> i"
    using assms(1) unfolding l_def by (auto intro: LeastI Least_le)
  have "0 < l" using path assms(3) by (cases l) (auto elim: cname_path_0E)
  obtain f where f: "f 0 = name" "f l = t" "\<forall>i<l. r_cname r (f i) = Inr (Some (f (Suc i)))"
    using cname_path_nodes [OF path] by blast
  have "f i \<noteq> f j" if "i < j" "j \<le> l" for i j
  proof
    assume "f i = f j"
    with nodes_repeat [OF f(3) this \<open>i < j\<close>, of "l - j"] that f(2) have "f (i + (l - j)) = t" by simp
    moreover have "i + (l - j) < l" using that by simp
    ultimately show False
      using least [of "i + (l - j)"] cname_path_of_nodes [of "i + (l - j)" r f] f by auto
  qed
  then have "cname_loop r (Some (f l)) m True [] (f 0) = Inr (map f [1..<Suc l])"
    using cname_loop_follows [OF f(3), of 0 m] \<open>0 < l\<close> least [OF assms(1)] assms(2) by auto
  then show ?thesis
    using f \<open>0 < l\<close> by (auto simp: cname_chain_def)
qed


definition demo_resolver :: resolver where
  "demo_resolver = \<lparr>
     r_txt = (\<lambda>n. if n = ''_custom-domain-challenge.forms.acme.com''
       then Inr [''custom-domain-verify=t0''] else Inl (DnsNameNotFound n)),
     r_cname = (\<lambda>n. if n = ''forms.acme.com'' then Inr (Some ''alias.acme.com'')
       else if n = ''alias.acme.com'' then Inr (Some ''edge.saas.com'') else Inl (DnsNameNotFound n)),
     r_has_address = (\<lambda>n. Inr False),
     r_ns = (\<lambda>n. if n = ''acme.com'' then Inr [''NS1.porkbun.com.'', ''ns2.porkbun.com''] else Inr [])\<rparr>"


end
