(* ===== verification/Encoding.thy ===== *)
theory Encoding
  imports Resolver
begin

text \<open>
  Bytes and text as the standard library writes them: UTF-8, hexadecimal, SHA-256
  (\<open>hashlib.sha256\<close>), HMAC (\<open>hmac.new\<close>), and the JSON text of
  \<open>json.dumps\<close> with sorted keys. The lemmas say what the alphabet and the length of a digest are;
  nothing is assumed of the hash beyond its definition.
\<close>

unbundle bit_operations_syntax

section \<open>Bytes\<close>

text \<open>A \<open>bytes\<close> value is a string of code points below 256, one character per byte.\<close>

definition utf8_char :: "char \<Rightarrow> string" where
  "utf8_char c = (let n = of_char c :: nat in
     if n < 128 then [c] else [char_of (192 + n div 64), char_of (128 + n mod 64)])"

definition utf8_encode :: "string \<Rightarrow> string" where
  "utf8_encode s = concat (map utf8_char s)"

definition hex_char :: "int \<Rightarrow> char" where
  "hex_char n = char_of (if n < 10 then 48 + n else 87 + n)"

definition hexdigest :: "string \<Rightarrow> string" where
  "hexdigest bytes = concat (map (\<lambda>c. let n = of_char c :: int in [hex_char (n div 16), hex_char (n mod 16)]) bytes)"

section \<open>SHA-256 and HMAC\<close>

text \<open>
  The 32-bit words of FIPS 180-4 as integers below \<open>2^32\<close>, with the wrap-around written out; its
  constants in decimal.
\<close>

type_synonym word32 = int

definition add32 :: "word32 \<Rightarrow> word32 \<Rightarrow> word32" where
  "add32 a b = (a + b) mod 4294967296"

definition rotr :: "int \<Rightarrow> int \<Rightarrow> word32 \<Rightarrow> word32" where
  "rotr p q w = w div p + (w mod p) * q"
    \<comment> \<open>rotation by \<open>n\<close> with \<open>p = 2^n\<close> and \<open>q = 2^(32 - n)\<close>\<close>

definition sha256_K :: "word32 list" where
  "sha256_K =
    [1116352408, 1899447441, 3049323471, 3921009573, 961987163, 1508970993, 2453635748,
     2870763221, 3624381080, 310598401, 607225278, 1426881987, 1925078388, 2162078206,
     2614888103, 3248222580, 3835390401, 4022224774, 264347078, 604807628, 770255983,
     1249150122, 1555081692, 1996064986, 2554220882, 2821834349, 2952996808, 3210313671,
     3336571891, 3584528711, 113926993, 338241895, 666307205, 773529912, 1294757372,
     1396182291, 1695183700, 1986661051, 2177026350, 2456956037, 2730485921, 2820302411,
     3259730800, 3345764771, 3516065817, 3600352804, 4094571909, 275423344, 430227734,
     506948616, 659060556, 883997877, 958139571, 1322822218, 1537002063, 1747873779,
     1955562222, 2024104815, 2227730452, 2361852424, 2428436474, 2756734187, 3204031479,
     3329325298]"

datatype sha256_state = Sha word32 word32 word32 word32 word32 word32 word32 word32

definition sha256_H :: sha256_state where
  "sha256_H = Sha 1779033703 3144134277 1013904242 2773480762
     1359893119 2600822924 528734635 1541459225"

fun sha256_round :: "sha256_state \<Rightarrow> word32 \<times> word32 \<Rightarrow> sha256_state" where
  "sha256_round (Sha a b c d e f g h) (k, w) = (let
     big1 = rotr 64 67108864 e XOR rotr 2048 2097152 e XOR rotr 33554432 128 e;
     ch = (e AND f) XOR ((4294967295 - e) AND g);
     t1 = add32 (add32 (add32 (add32 h big1) ch) k) w;
     big0 = rotr 4 1073741824 a XOR rotr 8192 524288 a XOR rotr 4194304 1024 a;
     maj = (a AND b) XOR (a AND c) XOR (b AND c)
   in Sha (add32 t1 (add32 big0 maj)) a b c (add32 d t1) e f g)"

text \<open>The message schedule, kept newest word first.\<close>

fun sha256_expand :: "nat \<Rightarrow> word32 list \<Rightarrow> word32 list" where
  "sha256_expand 0 ws = ws"
| "sha256_expand (Suc n) ws = (let w2 = ws ! 1; w15 = ws ! 14;
       small1 = rotr 131072 32768 w2 XOR rotr 524288 8192 w2 XOR (w2 div 1024);
       small0 = rotr 128 33554432 w15 XOR rotr 262144 16384 w15 XOR (w15 div 8)
     in sha256_expand n (add32 (add32 (add32 small1 (ws ! 6)) small0) (ws ! 15) # ws))"

fun sha256_add :: "sha256_state \<Rightarrow> sha256_state \<Rightarrow> sha256_state" where
  "sha256_add (Sha a b c d e f g h) (Sha a' b' c' d' e' f' g' h') =
     Sha (add32 a a') (add32 b b') (add32 c c') (add32 d d') (add32 e e') (add32 f f') (add32 g g') (add32 h h')"

fun sha256_rounds :: "sha256_state \<Rightarrow> word32 list \<Rightarrow> word32 list \<Rightarrow> sha256_state" where
  "sha256_rounds H (k # ks) (w # ws) = sha256_rounds (sha256_round H (k, w)) ks ws"
| "sha256_rounds H _ _ = H"

definition sha256_block :: "sha256_state \<Rightarrow> word32 list \<Rightarrow> sha256_state" where
  "sha256_block H block = sha256_add H
     (sha256_rounds H sha256_K (rev (sha256_expand 48 (rev block))))"

fun be_words :: "string \<Rightarrow> word32 list" where
  "be_words (a # b # c # d # rest) =
     (16777216 * of_char a + 65536 * of_char b + 256 * of_char c + of_char d) # be_words rest"
| "be_words _ = []"

definition be_bytes :: "nat \<Rightarrow> int \<Rightarrow> string" where
  "be_bytes k n = map (\<lambda>i. char_of (n div 256 ^ i mod 256)) (rev [0..<k])"

definition sha256_pad :: "string \<Rightarrow> string" where
  "sha256_pad m = m @ CHR 0x80 # replicate ((119 - length m mod 64) mod 64) (CHR 0x00)
     @ be_bytes 8 ((8 * int (length m)) mod 2 ^ 64)"

fun sha256_blocks :: "nat \<Rightarrow> sha256_state \<Rightarrow> word32 list \<Rightarrow> sha256_state" where
  "sha256_blocks 0 H ws = H"
| "sha256_blocks (Suc n) H ws = sha256_blocks n (sha256_block H (take 16 ws)) (drop 16 ws)"

fun sha256_bytes :: "sha256_state \<Rightarrow> string" where
  "sha256_bytes (Sha a b c d e f g h) = concat (map (\<lambda>w. be_bytes 4 w) [a, b, c, d, e, f, g, h])"

definition sha256 :: "string \<Rightarrow> string" where
  "sha256 m = (let p = sha256_pad m in sha256_bytes (sha256_blocks (length p div 64) sha256_H (be_words p)))"

text \<open>The one-block example of FIPS 180-4.\<close>

lemma sha256_abc:
  "hexdigest (sha256 ''abc'') = ''ba7816bf8f01cfea414140de5dae2223b00361a396177a9cb410ff61f20015ad''"
  by code_simp

definition hmac_key :: "string \<Rightarrow> string" where
  "hmac_key key = (let k = (if 64 < length key then sha256 key else key)
     in k @ replicate (64 - length k) (CHR 0x00))"

definition xor_bytes :: "int \<Rightarrow> string \<Rightarrow> string" where
  "xor_bytes n = map (\<lambda>c. char_of (of_char c XOR n :: int))"

text \<open>\<open>hmac.new(key, message, hashlib.sha256).digest()\<close>.\<close>

definition hmac_sha256 :: "string \<Rightarrow> string \<Rightarrow> string" where
  "hmac_sha256 key m = (let k = hmac_key key in
     sha256 (xor_bytes 0x5c k @ sha256 (xor_bytes 0x36 k @ m)))"

lemma length_be_bytes [simp]: "length (be_bytes k n) = k"
  by (simp add: be_bytes_def)

lemma sha256_length: "length (sha256 m) = 32"
proof -
  have "length (sha256_bytes H) = 32" for H by (cases H) simp
  then show ?thesis by (simp add: sha256_def Let_def)
qed

lemma hmac_length: "length (hmac_sha256 k m) = 32"
  by (simp add: hmac_sha256_def Let_def sha256_length)

definition hex_chars :: string where "hex_chars = ''0123456789abcdef''"

lemma hexdigest_hex:
  assumes "c \<in> set (hexdigest bytes)"
  shows "c \<in> set hex_chars"
proof -
  have all: "list_all (\<lambda>n. hex_char n \<in> set hex_chars) [0..15]" by code_simp
  then have hex: "hex_char n \<in> set hex_chars" if "0 \<le> n" "n < 16" for n
    using that by (simp add: list_all_iff)
  from assms obtain b where "c = hex_char (of_char b div 16) \<or> c = hex_char (of_char b mod 16)"
    by (auto simp: hexdigest_def Let_def)
  moreover have "0 \<le> (of_char b :: int) \<and> (of_char b :: int) < 256"
    by (cases b) (simp add: of_char_def horner_sum_simps)
  ultimately show ?thesis using hex by force
qed

section \<open>JSON text\<close>

text \<open>
  \<open>json.dumps(value, separators=(",", ":"), sort_keys=True)\<close>: ASCII output, keys in code
  point order. How an instant is written is the serializer's choice and an argument.
\<close>

definition json_escape :: "char \<Rightarrow> string" where
  "json_escape c = (let n = of_char c :: int in
     if c = CHR 0x22 then [CHR 0x5C, CHR 0x22]
     else if c = CHR 0x5C then [CHR 0x5C, CHR 0x5C]
     else if n = 8 then [CHR 0x5C, CHR ''b'']
     else if n = 9 then [CHR 0x5C, CHR ''t'']
     else if n = 10 then [CHR 0x5C, CHR ''n'']
     else if n = 12 then [CHR 0x5C, CHR ''f'']
     else if n = 13 then [CHR 0x5C, CHR ''r'']
     else if 32 \<le> n \<and> n < 127 then [c]
     else [CHR 0x5C, CHR ''u'', CHR ''0'', CHR ''0'', hex_char (n div 16), hex_char (n mod 16)])"

definition json_str :: "string \<Rightarrow> string" where
  "json_str s = CHR 0x22 # concat (map json_escape s) @ [CHR 0x22]"

fun insert_by_key :: "string \<times> 'a \<Rightarrow> (string \<times> 'a) list \<Rightarrow> (string \<times> 'a) list" where
  "insert_by_key p [] = [p]"
| "insert_by_key p (q # qs) = (if str_less_eq (fst p) (fst q) then p # q # qs else q # insert_by_key p qs)"

definition sort_by_key :: "(string \<times> 'a) list \<Rightarrow> (string \<times> 'a) list" where
  "sort_by_key ps = foldr insert_by_key ps []"

primrec json_dumps :: "(instant \<Rightarrow> string) \<Rightarrow> json \<Rightarrow> string" where
  "json_dumps fmt JNull = ''null''"
| "json_dumps fmt (JBool b) = (if b then ''true'' else ''false'')"
| "json_dumps fmt (JInt i) = str_of_int i"
| "json_dumps fmt (JStr s) = json_str s"
| "json_dumps fmt (JTime t) = json_str (fmt t)"
| "json_dumps fmt (JList xs) = ''['' @ join '','' (map (json_dumps fmt) xs) @ '']''"
| "json_dumps fmt (JObj kvs) = CHR 0x7B # join '',''
     (map (\<lambda>(k, v). json_str k @ '':'' @ v) (sort_by_key (map (map_prod id (json_dumps fmt)) kvs))) @ [CHR 0x7D]"

end
