(* ===== verification/Dns_Setup.thy ===== *)
theory Dns_Setup
  imports Resolver "HOL-Library.Product_Lexorder"
begin

text \<open>
  \<open>app/dns/providers.py\<close>, the settings of \<open>app/dns/settings.py\<close> it needs, and the setup
  method of \<open>app/services/dns_setup.py\<close>: which DNS provider hosts a zone and how the
  customer publishes the records there.
\<close>

section \<open>Providers\<close>

record provider =
  pr_id :: string
  pr_name :: string
  pr_ns_patterns :: "string list"
  pr_domain_connect_ids :: "string list"
  pr_guide :: bool

definition mk_provider :: "string \<Rightarrow> string \<Rightarrow> string list \<Rightarrow> string list \<Rightarrow> bool \<Rightarrow> provider" where
  "mk_provider i n ps ds g = \<lparr>pr_id = i, pr_name = n, pr_ns_patterns = ps,
     pr_domain_connect_ids = ds, pr_guide = g\<rparr>"

definition UNKNOWN :: string where "UNKNOWN = ''unknown''"
definition GENERIC_GUIDE :: string where "GENERIC_GUIDE = ''generic''"

definition guide_slug :: "provider \<Rightarrow> string" where
  "guide_slug p = (if pr_guide p then pr_id p else GENERIC_GUIDE)"

definition PROVIDERS :: "provider list" where
  "PROVIDERS = [
     mk_provider ''cloudflare'' ''Cloudflare'' [''*.ns.cloudflare.com''] [''cloudflare.com'', ''cloudflare''] True,
     mk_provider ''godaddy'' ''GoDaddy'' [''*.domaincontrol.com''] [''godaddy.com'', ''godaddy''] True,
     mk_provider ''namecheap'' ''Namecheap'' [''dns*.registrar-servers.com''] [] True,
     mk_provider ''route53'' ''Amazon Route 53'' [''ns-*.awsdns-*''] [] True,
     mk_provider ''google-cloud-dns'' ''Google Cloud DNS'' [''ns-cloud-*.googledomains.com''] [] True,
     mk_provider ''squarespace'' ''Squarespace'' [''*.squarespacedns.com''] [] True,
     mk_provider ''porkbun'' ''Porkbun'' [''*.porkbun.com''] [] True,
     mk_provider ''hostinger'' ''Hostinger'' [''*.dns-parking.com''] [] True,
     mk_provider ''ionos'' ''IONOS'' [''*.ui-dns.com'', ''*.ui-dns.de'', ''*.ui-dns.org'', ''*.ui-dns.biz''] [''ionos.com'', ''ionos'', ''1and1.com''] True,
     mk_provider ''digitalocean'' ''DigitalOcean'' [''ns*.digitalocean.com''] [] True,
     mk_provider ''vercel'' ''Vercel'' [''*.vercel-dns.com''] [''vercel.com'', ''vercel''] True,
     mk_provider ''netlify'' ''Netlify'' [''dns*.p*.nsone.net''] [] True,
     mk_provider ''namesilo'' ''NameSilo'' [''*.dnsowl.com''] [''namesilo.com'', ''namesilo''] False,
     mk_provider ''wordpress-com'' ''WordPress.com'' [''ns*.wordpress.com''] [''wordpress.com''] False,
     mk_provider ''azure-dns'' ''Azure DNS'' [''ns*-*.azure-dns.*''] [] False,
     mk_provider ''gandi'' ''Gandi'' [''*.gandi.net''] [] False,
     mk_provider ''ovh'' ''OVHcloud'' [''*.ovh.net'', ''*.ovh.ca''] [] False,
     mk_provider ''hetzner'' ''Hetzner'' [''*.ns.hetzner.com'', ''*.ns.hetzner.de'', ''*.your-server.de'', ''*.second-ns.de''] [] False,
     mk_provider ''dnsimple'' ''DNSimple'' [''*.dnsimple.com'', ''*.dnsimple-edge.net'', ''*.dnsimple-edge.org''] [] False,
     mk_provider ''name-com'' ''Name.com'' [''ns*.name.com''] [] False,
     mk_provider ''linode'' ''Akamai Cloud (Linode)'' [''ns*.linode.com''] [] False,
     mk_provider ''wix'' ''Wix'' [''*.wixdns.net''] [] False,
     mk_provider ''unknown'' ''Unknown provider'' [] [] False
  ]"

definition unknown_provider :: provider where
  "unknown_provider = mk_provider UNKNOWN ''Unknown provider'' [] [] False"

definition get_provider :: "string option \<Rightarrow> provider" where
  "get_provider provider_id =
     (case find_row pr_id (case provider_id of None \<Rightarrow> [] | Some i \<Rightarrow> i) PROVIDERS of
        Some p \<Rightarrow> p | None \<Rightarrow> unknown_provider)"

text \<open>\<open>fnmatchcase\<close> for patterns of literal characters, \<open>*\<close> and \<open>?\<close>, as the table uses them.\<close>

fun fnmatchcase :: "string \<Rightarrow> string \<Rightarrow> bool" where
  "fnmatchcase [] s = (s = [])"
| "fnmatchcase (p # ps) [] = (p = CHR ''*'' \<and> fnmatchcase ps [])"
| "fnmatchcase (p # ps) (c # cs) =
     (if p = CHR ''*'' then fnmatchcase ps (c # cs) \<or> fnmatchcase (p # ps) cs
      else (p = CHR ''?'' \<or> p = c) \<and> fnmatchcase ps cs)"

definition normalize_ns :: "string \<Rightarrow> string" where
  "normalize_ns name = lower (rstrip (\<lambda>c. c = CHR ''.'') (strip name))"

definition provider_for_nameserver :: "string \<Rightarrow> provider option" where
  "provider_for_nameserver nameserver = (let name = normalize_ns nameserver in
     find (\<lambda>p. list_ex (\<lambda>pat. fnmatchcase pat name) (pr_ns_patterns p)) PROVIDERS)"

text \<open>A \<open>Counter\<close>: keys in first-seen order with their counts.\<close>

fun count_up :: "string \<Rightarrow> (string \<times> nat) list \<Rightarrow> (string \<times> nat) list" where
  "count_up k [] = [(k, 1)]"
| "count_up k ((k', n) # c) = (if k' = k then (k, Suc n) # c else (k', n) # count_up k c)"

definition ns_votes :: "string list \<Rightarrow> (string \<times> nat) list" where
  "ns_votes nameservers = foldl (\<lambda>votes n. case provider_for_nameserver n of
     None \<Rightarrow> votes | Some p \<Rightarrow> count_up (pr_id p) votes) [] nameservers"

fun index_of :: "'a \<Rightarrow> 'a list \<Rightarrow> nat" where
  "index_of x [] = 0"
| "index_of x (y # ys) = (if x = y then 0 else Suc (index_of x ys))"

definition provider_order :: "string \<Rightarrow> nat" where
  "provider_order i = index_of i (map pr_id PROVIDERS)"

text \<open>\<open>max(xs, key=f)\<close>: the first element with the greatest key.\<close>

fun max_by :: "('a \<Rightarrow> 'b::linorder) \<Rightarrow> 'a \<Rightarrow> 'a list \<Rightarrow> 'a" where
  "max_by f x [] = x"
| "max_by f x (y # ys) = max_by f (if f x < f y then y else x) ys"

definition provider_for_nameservers :: "string list \<Rightarrow> provider" where
  "provider_for_nameservers nameservers = (case ns_votes nameservers of
     [] \<Rightarrow> unknown_provider
   | v # vs \<Rightarrow> get_provider (Some (fst
       (max_by (\<lambda>(i, n). (int n, - int (provider_order i))) v vs))))"

definition provider_for_domain_connect :: "string option \<Rightarrow> provider option" where
  "provider_for_domain_connect provider_id = (case provider_id of
     None \<Rightarrow> None
   | Some [] \<Rightarrow> None
   | Some i \<Rightarrow> let wanted = lower (strip i) in
       find (\<lambda>p. wanted \<in> set (pr_domain_connect_ids p)) PROVIDERS)"

section \<open>Settings\<close>

record setup_settings =
  template_provider_id :: string
  template_service_id :: string
  signing_enabled :: bool
  guide_url :: string

definition template_key :: "setup_settings \<Rightarrow> string option" where
  "template_key st = (if template_provider_id st = [] then None
     else Some (template_provider_id st @ ''/'' @ template_service_id st))"

text \<open>\<open>s.replace(old, new)\<close> for a non-empty \<open>old\<close>.\<close>

function str_replace :: "string \<Rightarrow> string \<Rightarrow> string \<Rightarrow> string" where
  "str_replace old new s =
     (if old = [] \<or> s = [] then s
      else if starts_with old s then new @ str_replace old new (drop (length old) s)
      else hd s # str_replace old new (tl s))"
  by pat_completeness auto
termination
  by (relation "measure (\<lambda>(old, new, s). length s)") (auto simp: neq_Nil_conv)

declare str_replace.simps [simp del]

definition guide_for :: "setup_settings \<Rightarrow> string \<Rightarrow> string" where
  "guide_for st slug = str_replace ''{provider}'' slug (guide_url st)"

text \<open>
  The deployment's configuration: the third-party packages, the \<open>SetupSettings\<close> in effect
  (\<open>effective_setup_settings\<close>, which lets an operator's signer override the environment),
  the raw \<open>MAX_DOMAINS\<close> variable and \<open>ORIGIN_ALLOW_PRIVATE\<close>.
\<close>

record config =
  cfg_libs :: libs
  cfg_setup :: setup_settings
  cfg_max_domains :: string
  cfg_allow_private :: bool

section \<open>The setup of a domain\<close>

definition DOMAIN_CONNECT :: string where "DOMAIN_CONNECT = ''domain_connect''"
definition GUIDED :: string where "GUIDED = ''guided''"
definition MANUAL :: string where "MANUAL = ''manual''"

definition select_method ::
    "string option \<Rightarrow> bool option \<Rightarrow> string option \<Rightarrow> setup_settings \<Rightarrow> string" where
  "select_method provider_id template_supported template st =
     (if template_supported = Some True \<and> signing_enabled st \<and> is_set (template_key st)
         \<and> template = template_key st
      then DOMAIN_CONNECT
      else if pr_guide (get_provider provider_id) then GUIDED else MANUAL)"

text \<open>A dictionary value used as a name: \<open>None\<close> where it is missing or falsy.\<close>

definition dict_name :: "dict \<Rightarrow> string \<Rightarrow> string option" where
  "dict_name d k = (case dict_get d k of
     Some (JStr n) \<Rightarrow> if n = [] then None else Some n | _ \<Rightarrow> None)"

definition zone_provider :: "dns_zone \<Rightarrow> string \<times> string" where
  "zone_provider z = (let p = get_provider (Some (z_provider z)) in
     if pr_id p = UNKNOWN then
       (case z_domain_connect z of
          None \<Rightarrow> (pr_id p, pr_name p)
        | Some dc \<Rightarrow>
            (case dict_name dc ''provider_display_name'' of
               Some n \<Rightarrow> (pr_id p, n)
             | None \<Rightarrow> (case dict_name dc ''provider_name'' of
                   Some n \<Rightarrow> (pr_id p, n) | None \<Rightarrow> (pr_id p, pr_name p))))
     else (pr_id p, pr_name p))"

record setup_view =
  su_zone :: string
  su_host :: string
  su_method :: "string option"
  su_provider_id :: "string option"
  su_provider_name :: "string option"
  su_guide_url :: "string option"
  su_detected_at :: "instant option"

definition zone_row :: "db \<Rightarrow> string \<Rightarrow> dns_zone option" where
  "zone_row s z = find_row z_zone z (zones s)"

definition domain_setup :: "config \<Rightarrow> db \<Rightarrow> domain \<Rightarrow> error + setup_view" where
  "domain_setup C s d = (let L = cfg_libs C; st = cfg_setup C;
     zone0 = (case d_zone d of Some (c # cs) \<Rightarrow> c # cs | _ \<Rightarrow> default_zone L (d_hostname d));
     zone_name = (case host_in_zone (d_hostname d) zone0 of
        Inr _ \<Rightarrow> zone0 | Inl _ \<Rightarrow> default_zone L (d_hostname d))
   in bind_res (host_in_zone (d_hostname d) zone_name) (\<lambda>host.
        case (case d_zone d of Some (c # cs) \<Rightarrow> zone_row s (c # cs) | _ \<Rightarrow> None) of
          None \<Rightarrow> Inr \<lparr>su_zone = zone_name, su_host = host, su_method = None,
             su_provider_id = None, su_provider_name = None, su_guide_url = None,
             su_detected_at = None\<rparr>
        | Some z \<Rightarrow> (let (pid, pname) = zone_provider z in
             Inr \<lparr>su_zone = zone_name, su_host = host,
               su_method = Some (select_method (Some (z_provider z)) (z_template_supported z) (z_template z) st),
               su_provider_id = Some pid, su_provider_name = Some pname,
               su_guide_url = Some (guide_for st (guide_slug (get_provider (Some pid)))),
               su_detected_at = Some (z_checked_at z)\<rparr>)))"

end
