(* ===== verification/Urls.thy ===== *)
theory Urls
  imports Dns_Setup
begin

text \<open>
  \<open>urllib.parse.urlsplit\<close> and the address policy for outgoing requests:
  \<open>validate_url\<close> and \<open>resolve_public\<close> of \<open>app/services/webhooks.py\<close>. Name resolution is
  an argument (the network), and so is the \<open>is_global\<close> classification of an address
  (\<open>ipaddress\<close>'s copy of the IANA registries).
\<close>

section \<open>Splitting URLs\<close>

record url_parts =
  u_scheme :: string
  u_netloc :: string
  u_path :: string
  u_query :: string

definition is_alpha :: "char \<Rightarrow> bool" where
  "is_alpha c = (let n = of_char c :: nat in (65 \<le> n \<and> n \<le> 90) \<or> (97 \<le> n \<and> n \<le> 122))"

definition scheme_char :: "char \<Rightarrow> bool" where
  "scheme_char c = (is_alpha c \<or> is_digit c \<or> c \<in> set ''+-.'')"

definition split_scheme :: "string \<Rightarrow> string \<times> string" where
  "split_scheme url = (case str_partition (CHR '':'') url of
     Some (pre, rest) \<Rightarrow>
       if pre \<noteq> [] \<and> is_alpha (hd pre) \<and> list_all scheme_char pre then (lower pre, rest) else ([], url)
   | None \<Rightarrow> ([], url))"

text \<open>\<open>netloc.rpartition('@')[2]\<close> and the user information before it.\<close>

definition host_info :: "string \<Rightarrow> string" where
  "host_info netloc = (case str_rpartition (CHR ''@'') netloc of None \<Rightarrow> netloc | Some (_, h) \<Rightarrow> h)"

definition url_username :: "string \<Rightarrow> string" where
  "url_username netloc = (case str_rpartition (CHR ''@'') netloc of None \<Rightarrow> []
     | Some (info, _) \<Rightarrow> (case str_partition (CHR '':'') info of None \<Rightarrow> info | Some (u, _) \<Rightarrow> u))"

definition url_password :: "string \<Rightarrow> string" where
  "url_password netloc = (case str_rpartition (CHR ''@'') netloc of None \<Rightarrow> []
     | Some (info, _) \<Rightarrow> (case str_partition (CHR '':'') info of None \<Rightarrow> [] | Some (_, p) \<Rightarrow> p))"

text \<open>\<open>s.partition(c)\<close> as Python returns it: the parts before and after the first separator.\<close>

definition before_sep :: "char \<Rightarrow> string \<Rightarrow> string" where
  "before_sep c s = (case str_partition c s of None \<Rightarrow> s | Some (a, _) \<Rightarrow> a)"

definition after_sep :: "char \<Rightarrow> string \<Rightarrow> string" where
  "after_sep c s = (case str_partition c s of None \<Rightarrow> [] | Some (_, b) \<Rightarrow> b)"

definition host_port :: "string \<Rightarrow> string \<times> string" where
  "host_port netloc = (let h = host_info netloc in
     case str_partition (CHR ''['') h of
       Some (_, bracketed) \<Rightarrow> (before_sep (CHR '']'') bracketed, after_sep (CHR '':'') (after_sep (CHR '']'') bracketed))
     | None \<Rightarrow> (before_sep (CHR '':'') h, after_sep (CHR '':'') h))"

definition url_hostname :: "string \<Rightarrow> string option" where
  "url_hostname netloc = (let h = fst (host_port netloc) in
     if h = [] then None
     else Some (case str_partition (CHR ''%'') h of None \<Rightarrow> lower h
       | Some (name, zone) \<Rightarrow> lower name @ ''%'' @ zone))"

definition url_port :: "string \<Rightarrow> error + int option" where
  "url_port netloc = (let p = snd (host_port netloc) in
     if p = [] then Inr None
     else if list_all is_digit p \<and> length p \<le> 4300
     then (if nat_of_digits p \<le> 65535 then Inr (Some (int (nat_of_digits p)))
           else Inl (ValueError ''Port out of range 0-65535''))
     else Inl (ValueError ''Port could not be cast to integer value''))"

text \<open>\<open>_check_bracketed_netloc\<close>: a bracketed host is an IPv6 literal or an IPvFuture name.\<close>

definition ipvfuture :: "string \<Rightarrow> bool" where
  "ipvfuture h = (case h of [] \<Rightarrow> False | v # rest \<Rightarrow> v = CHR ''v''
     \<and> (case str_partition (CHR ''.'') rest of None \<Rightarrow> False
        | Some (hex, tail) \<Rightarrow> hex \<noteq> [] \<and> list_all is_hexdigit hex \<and> tail \<noteq> [] \<and> CHR 0x0A \<notin> set tail))"

definition bracketed_ok :: "string \<Rightarrow> bool" where
  "bracketed_ok netloc = (let h = host_info netloc;
     host_ok = (\<lambda>host. if starts_with ''v'' host then ipvfuture host else is_ipv6 host)
   in case str_partition (CHR ''['') h of
        Some (before, bracketed) \<Rightarrow>
          (let port = after_sep (CHR '']'') bracketed in
           before = [] \<and> (port = [] \<or> starts_with '':'' port) \<and> host_ok (before_sep (CHR '']'') bracketed))
      | None \<Rightarrow> host_ok (before_sep (CHR '':'') h))"

definition url_split :: "string \<Rightarrow> error + url_parts" where
  "url_split url0 = (let
     url1 = filter (\<lambda>c. c \<notin> {CHR 0x09, CHR 0x0A, CHR 0x0D}) (lstrip (\<lambda>c. (of_char c :: nat) \<le> 32) url0);
     (scheme, url2) = split_scheme url1;
     (netloc, url3) = (if starts_with ''//'' url2
        then (let r = drop 2 url2 in (takeWhile (\<lambda>c. c \<notin> set ''/?#'') r, dropWhile (\<lambda>c. c \<notin> set ''/?#'') r))
        else ([], url2));
     opens = (CHR ''['' \<in> set netloc); closes = (CHR '']'' \<in> set netloc);
     body = before_sep (CHR ''#'') url3
   in if opens \<noteq> closes then Inl (ValueError ''Invalid IPv6 URL'')
      else if opens \<and> \<not> bracketed_ok netloc then Inl (ValueError ''Invalid IPv6 URL'')
      else Inr \<lparr>u_scheme = scheme, u_netloc = netloc, u_path = before_sep (CHR ''?'') body,
        u_query = after_sep (CHR ''?'') body\<rparr>)"

section \<open>Where requests may go\<close>

text \<open>\<open>getaddrinfo\<close> yields the addresses of a host in order, or the text of its error.\<close>

record network =
  getaddrinfo :: "string \<Rightarrow> int \<Rightarrow> string + string list"
  is_global :: "string \<Rightarrow> bool"

definition not_deliverable :: "string \<Rightarrow> error" where
  "not_deliverable why = InvalidWebhook (''Webhook URL is not deliverable: '' @ why)"

definition resolve_public :: "network \<Rightarrow> string \<Rightarrow> int \<Rightarrow> bool \<Rightarrow> error + string list" where
  "resolve_public N host port allow_private = (case getaddrinfo N host port of
     Inl exc \<Rightarrow> Inl (not_deliverable (host @ '' does not resolve ('' @ exc @ '')''))
   | Inr infos \<Rightarrow>
     let addresses = rev (remdups (rev infos)) in
     if addresses = [] then Inl (not_deliverable (host @ '' has no addresses''))
     else if allow_private then Inr addresses
     else let blocked = sorted_strs (filter (\<lambda>a. \<not> is_global N a) addresses) in
       if blocked \<noteq> []
       then Inl (not_deliverable (host @ '' resolves to non-public address(es) '' @ join '', '' blocked
         @ ''; set ORIGIN_ALLOW_PRIVATE=true only for a trusted self-hosted deployment''))
       else Inr addresses)"

text \<open>\<open>port or (443 if scheme == "https" else 80)\<close>.\<close>

definition effective_port :: "string \<Rightarrow> int option \<Rightarrow> int" where
  "effective_port scheme given = (let default = (if scheme = ''https'' then 443 else 80)
     in case given of None \<Rightarrow> default | Some p \<Rightarrow> if p = 0 then default else p)"

definition validate_url :: "network \<Rightarrow> string \<Rightarrow> bool \<Rightarrow> error + string" where
  "validate_url N url allow_private = bind_res (url_split (strip url)) (\<lambda>parts.
     case url_hostname (u_netloc parts) of
       None \<Rightarrow> Inl (InvalidWebhook ''Webhook URL must be an absolute http(s) URL'')
     | Some host \<Rightarrow>
       if u_scheme parts \<notin> {''https'', ''http''}
       then Inl (InvalidWebhook ''Webhook URL must be an absolute http(s) URL'')
       else if u_scheme parts = ''http'' \<and> \<not> allow_private
       then Inl (InvalidWebhook ''Webhook URL must use https'')
       else if url_username (u_netloc parts) \<noteq> [] \<or> url_password (u_netloc parts) \<noteq> []
       then Inl (InvalidWebhook ''Webhook URL must not contain credentials'')
       else (case url_port (u_netloc parts) of
           Inl _ \<Rightarrow> Inl (InvalidWebhook ''Webhook URL has an invalid port'')
         | Inr given \<Rightarrow>
           bind_res (resolve_public N host (effective_port (u_scheme parts) given) allow_private)
             (\<lambda>_. Inr (strip url))))"

section \<open>The policy holds\<close>

lemma resolve_public_Inr:
  assumes "resolve_public N host port allow_private = Inr addresses"
  shows "addresses \<noteq> [] \<and> distinct addresses
    \<and> (\<exists>infos. getaddrinfo N host port = Inr infos \<and> set addresses = set infos)
    \<and> (\<not> allow_private \<longrightarrow> list_all (is_global N) addresses)"
proof -
  have sorted_Nil: "sorted_strs xs = [] \<longleftrightarrow> xs = []" for xs
  proof -
    have "insert_str x ys \<noteq> []" for x ys by (cases ys) auto
    then show ?thesis by (cases xs) (auto simp: sorted_strs_def)
  qed
  from assms show ?thesis
    by (auto simp: resolve_public_def Let_def not_deliverable_def sorted_Nil list_all_iff
        filter_empty_conv split: sum.splits if_splits)
qed

text \<open>
  A webhook URL that is accepted is an absolute URL with a host and without credentials,
  over https unless private origins are allowed, and every address its host resolves to is
  public unless private origins are allowed; the stored URL is the trimmed input.
\<close>

theorem validate_url_policy:
  assumes "validate_url N url allow_private = Inr stored"
  shows "\<exists>parts host port addresses.
      stored = strip url \<and> url_split stored = Inr parts \<and> url_hostname (u_netloc parts) = Some host
      \<and> u_scheme parts \<in> {''https'', ''http''} \<and> (\<not> allow_private \<longrightarrow> u_scheme parts = ''https'')
      \<and> url_username (u_netloc parts) = [] \<and> url_password (u_netloc parts) = []
      \<and> 0 < port \<and> port \<le> 65535
      \<and> getaddrinfo N host port = Inr addresses \<and> addresses \<noteq> []
      \<and> (\<not> allow_private \<longrightarrow> (\<forall>a\<in>set addresses. is_global N a))"
proof -
  let ?s = "strip url"
  from assms obtain parts where sp: "url_split ?s = Inr parts"
    by (auto simp: validate_url_def elim: bind_res_InrE)
  from assms sp obtain host where h: "url_hostname (u_netloc parts) = Some host"
    by (auto simp: validate_url_def split: option.splits)
  from assms sp h have sch: "u_scheme parts \<in> {''https'', ''http''}"
      "\<not> allow_private \<longrightarrow> u_scheme parts = ''https''"
    and cred: "url_username (u_netloc parts) = []" "url_password (u_netloc parts) = []"
    by (auto simp: validate_url_def split: if_splits)
  from assms sp h sch cred obtain given where port: "url_port (u_netloc parts) = Inr given"
    by (auto simp: validate_url_def split: sum.splits)
  have "bind_res (resolve_public N host (effective_port (u_scheme parts) given) allow_private) (\<lambda>_. Inr ?s)
      = Inr stored"
    using assms sp h sch cred port unfolding validate_url_def by (simp split: if_splits)
  then obtain addresses where
    res: "resolve_public N host (effective_port (u_scheme parts) given) allow_private = Inr addresses"
    and st: "stored = ?s" by (rule bind_res_InrE) simp
  have "0 < effective_port (u_scheme parts) given \<and> effective_port (u_scheme parts) given \<le> 65535"
    using port by (auto simp: url_port_def effective_port_def Let_def split: if_splits option.splits)
  moreover obtain infos where "getaddrinfo N host (effective_port (u_scheme parts) given) = Inr infos"
    and "infos \<noteq> []" and "\<not> allow_private \<longrightarrow> (\<forall>a\<in>set infos. is_global N a)"
    using resolve_public_Inr [OF res] by (metis list_all_iff set_empty)
  ultimately show ?thesis
    using sp h st sch cred by blast
qed

definition demo_network :: network where
  "demo_network = \<lparr>getaddrinfo = (\<lambda>host port. if host = ''hooks.example.com'' then Inr [''93.184.216.34'']
       else if host = ''intranet'' then Inr [''10.0.0.7''] else Inl ''unknown host''),
     is_global = (\<lambda>a. \<not> starts_with ''10.'' a)\<rparr>"

theorem validate_url_policy_witness:
  "validate_url demo_network '' https://hooks.example.com/in '' False = Inr ''https://hooks.example.com/in''
    \<and> validate_url demo_network ''https://intranet/in'' False \<noteq> Inr ''https://intranet/in''
    \<and> (\<exists>parts. url_split ''https://hooks.example.com/in'' = Inr parts \<and> u_scheme parts = ''https'')"
proof -
  have a: "validate_url demo_network '' https://hooks.example.com/in '' False = Inr ''https://hooks.example.com/in''"
    by code_simp
  have b: "validate_url demo_network ''https://intranet/in'' False \<noteq> Inr ''https://intranet/in''"
    by code_simp
  from validate_url_policy [OF a]
  have "\<exists>parts. url_split ''https://hooks.example.com/in'' = Inr parts \<and> u_scheme parts = ''https''"
    by blast
  with a b show ?thesis by blast
qed

text \<open>\<open>urlsplit\<close> raises on an unclosed bracket, and nothing maps that to \<open>InvalidWebhook\<close>.\<close>

lemma unclosed_bracket_raises:
  "validate_url demo_network ''https://[::1'' False = Inl (ValueError ''Invalid IPv6 URL'')"
  by code_simp

end
