(* ===== verification/Webhooks.thy ===== *)
theory Webhooks
  imports Dns_Setup Urls
begin

text \<open>
  Webhook subscriptions and the transactional outbox (\<open>app/services/webhooks.py\<close>), with the
  domain resource a delivery carries (\<open>app/v1/schemas.py\<close>).
\<close>

section \<open>The domain resource\<close>

definition TXT_HELP :: string where
  "TXT_HELP = ''Create a TXT record with exactly this name and value. Many DNS providers ''
    @ ''expect only the part before your domain in the name field (for example ''
    @ ''`_custom-domain-challenge.forms`); do not add quotes and do not append the ''
    @ ''domain twice. Propagation can take up to the record'' @ [CHR 0x27] @ ''s TTL.''"

definition CNAME_HELP :: string where
  "CNAME_HELP = ''Point the hostname at the target with a CNAME record. Remove any A or AAAA ''
    @ ''record with the same name, do not proxy the record through a CDN until the ''
    @ ''domain is ready, and do not use a URL: the value is a hostname only.''"

record dns_record =
  rec_name :: string
  rec_type :: string
  rec_value :: string
  rec_purpose :: string
  rec_help :: string

definition dns_records_for :: "db \<Rightarrow> domain \<Rightarrow> dns_record list" where
  "dns_records_for s d = (case active_claim s (d_id d) of
     None \<Rightarrow> []
   | Some claim \<Rightarrow>
     if c_status claim = Claim_Revoked then []
     else [\<lparr>rec_name = c_txt_record_name claim, rec_type = ''TXT'', rec_value = txt_record_value claim,
              rec_purpose = ''ownership'', rec_help = TXT_HELP\<rparr>,
           \<lparr>rec_name = d_hostname d, rec_type = ''CNAME'', rec_value = c_cname_target claim,
              rec_purpose = ''routing'', rec_help = CNAME_HELP\<rparr>])"

text \<open>The identifiers of the model are natural numbers; \<open>str(id)\<close> is their text.\<close>

definition uuid_str :: "uuid \<Rightarrow> string" where
  "uuid_str i = str_of_nat i"

definition dns_record_json :: "dns_record \<Rightarrow> json" where
  "dns_record_json r = JObj [(''name'', JStr (rec_name r)), (''type'', JStr (rec_type r)),
     (''value'', JStr (rec_value r)), (''purpose'', JStr (rec_purpose r)), (''help'', JStr (rec_help r))]"

definition setup_for :: "config \<Rightarrow> db \<Rightarrow> domain \<Rightarrow> error + json" where
  "setup_for C s d = bind_res (domain_setup C s d) (\<lambda>su. Inr (JObj
     [(''method'', jopt JStr (su_method su)),
      (''provider'', case su_provider_id su of
         Some i \<Rightarrow> JObj [(''id'', JStr i), (''name'', jopt JStr (su_provider_name su))] | None \<Rightarrow> JNull),
      (''zone'', JStr (su_zone su)), (''host'', JStr (su_host su)),
      (''guide_url'', jopt JStr (su_guide_url su)), (''detected_at'', jopt JTime (su_detected_at su))]))"

definition check_json :: "domain_check \<Rightarrow> json" where
  "check_json c = JObj [(''type'', JStr (check_type_value (ch_check_type c))),
     (''status'', JStr (check_status_value (ch_status c))), (''error_code'', jopt JStr (ch_error_code c)),
     (''message'', jopt JStr (ch_message c)), (''observed_at'', jopt JTime (ch_observed_at c)),
     (''next_check_at'', jopt JTime (ch_next_check_at c))]"

definition domain_resource :: "config \<Rightarrow> db \<Rightarrow> domain \<Rightarrow> error + json" where
  "domain_resource C s d = bind_res (setup_for C s d) (\<lambda>setup_json. Inr (JObj
     [(''id'', JStr (uuid_str (d_id d))), (''hostname'', JStr (d_hostname d)),
      (''reference'', JStr (d_reference d)), (''status'', JStr (domain_status_value (d_status d))),
      (''dns_records'', JList (map dns_record_json (dns_records_for s d))),
      (''setup'', setup_json),
      (''checks'', JList (map check_json (sort_key ch_check_type (domain_checks s (d_id d))))),
      (''metadata'', jopt JObj (d_extra d)), (''created_at'', JTime (d_created_at d)),
      (''updated_at'', JTime (d_updated_at d)), (''deleted_at'', jopt JTime (d_deleted_at d))]))"

section \<open>Which events are webhooks\<close>

definition WEBHOOK_EVENT_TYPES :: "string list" where
  "WEBHOOK_EVENT_TYPES =
     [''domain.ready'', ''domain.attention_required'', ''domain.recovered'', ''domain.deleted'']"

definition webhook_event_type :: "domain_event \<Rightarrow> string option" where
  "webhook_event_type e = (let payload = (case e_payload e of None \<Rightarrow> [] | Some p \<Rightarrow> p) in
     if e_event_type e = STATUS_CHANGED then
       (let target = dict_get payload ''to'' in
        if target = Some (JStr (domain_status_value READY))
        then (if dict_get payload ''reason'' = Some (JStr ''recovered'')
              then Some ''domain.recovered'' else Some ''domain.ready'')
        else if target = Some (JStr (domain_status_value ATTENTION_REQUIRED))
        then Some ''domain.attention_required''
        else None)
     else if e_event_type e = DOMAIN_DELETED then Some ''domain.deleted''
     else None)"

section \<open>Subscriptions\<close>

definition SECRET_PREFIX :: string where "SECRET_PREFIX = ''whsec_''"
definition ROTATION_GRACE :: duration where "ROTATION_GRACE = hours 24"
definition MAX_SUBSCRIPTIONS :: nat where "MAX_SUBSCRIPTIONS = 10"

definition list_subscriptions :: "db \<Rightarrow> application \<Rightarrow> webhook_subscription list" where
  "list_subscriptions s a =
     sort_key s_created_at (filter (\<lambda>w. s_application_id w = app_id a) (subscriptions s))"

definition create_subscription ::
    "network \<Rightarrow> application \<Rightarrow> string \<Rightarrow> string list \<Rightarrow> bool \<Rightarrow> instant \<Rightarrow> db
      \<Rightarrow> error + (webhook_subscription \<times> string) \<times> db" where
  "create_subscription N a url evs allow_private now s = (let
     unknown = sorted_strs (remdups (filter (\<lambda>e. e \<notin> set WEBHOOK_EVENT_TYPES) evs))
   in if evs = [] \<or> unknown \<noteq> []
      then Inl (InvalidWebhook (''events must be a non-empty subset of '' @ join '', '' WEBHOOK_EVENT_TYPES
        @ (if unknown \<noteq> [] then ''; unknown: '' @ join '', '' unknown else [])))
      else if length (filter s_is_active (list_subscriptions s a)) \<ge> MAX_SUBSCRIPTIONS
      then Inl (InvalidWebhook (''At most '' @ str_of_nat MAX_SUBSCRIPTIONS @ '' active webhooks per application''))
      else (let (token, s1) = token_urlsafe s; secret = SECRET_PREFIX @ token
        in bind_res (validate_url N url allow_private) (\<lambda>u.
          let (i, s2) = uuid4 s1;
              w = \<lparr>s_id = i, s_application_id = app_id a, s_url = u,
                s_events = sorted_strs (remdups evs), s_secret = secret, s_previous_secret = None,
                s_previous_secret_expires_at = None, s_revoked_at = None, s_created_at = now\<rparr>
          in Inr ((w, secret), s2\<lparr>subscriptions := subscriptions s2 @ [w]\<rparr>))))"

definition get_subscription :: "db \<Rightarrow> application \<Rightarrow> uuid \<Rightarrow> error + webhook_subscription" where
  "get_subscription s a i =
     (case find (\<lambda>w. s_id w = i \<and> s_application_id w = app_id a) (subscriptions s) of
        None \<Rightarrow> Inl WebhookNotFound | Some w \<Rightarrow> Inr w)"

definition revoke_subscription :: "application \<Rightarrow> uuid \<Rightarrow> instant \<Rightarrow> db \<Rightarrow> error + db" where
  "revoke_subscription a i now s = bind_res (get_subscription s a i) (\<lambda>w.
     if s_revoked_at w = None then Inr (put_subscription i (\<lambda>w. w\<lparr>s_revoked_at := Some now\<rparr>) s)
     else Inr s)"

text \<open>Deleting a subscription deletes its deliveries with it (\<open>cascade="all, delete-orphan"\<close>).\<close>

definition delete_subscription :: "application \<Rightarrow> uuid \<Rightarrow> db \<Rightarrow> error + db" where
  "delete_subscription a i s = bind_res (get_subscription s a i) (\<lambda>w.
     if s_revoked_at w = None then Inl (InvalidWebhook ''Revoke the webhook before deleting it'')
     else Inr (s\<lparr>subscriptions := filter (\<lambda>w. s_id w \<noteq> i) (subscriptions s),
                 deliveries := filter (\<lambda>d. dl_subscription_id d \<noteq> i) (deliveries s)\<rparr>))"

definition rotate_secret :: "application \<Rightarrow> uuid \<Rightarrow> duration \<Rightarrow> instant \<Rightarrow> db \<Rightarrow> error + string \<times> db" where
  "rotate_secret a i grace now s = bind_res (get_subscription s a i) (\<lambda>w.
     let (token, s1) = token_urlsafe s; secret = SECRET_PREFIX @ token
     in Inr (secret, put_subscription i (\<lambda>w. w\<lparr>s_previous_secret := Some (s_secret w),
          s_previous_secret_expires_at := Some (now + grace), s_secret := secret\<rparr>) s1))"

definition signing_secrets :: "webhook_subscription \<Rightarrow> instant \<Rightarrow> string list" where
  "signing_secrets w now = s_secret w # (case (s_previous_secret w, s_previous_secret_expires_at w) of
     (Some p, Some t) \<Rightarrow> if p \<noteq> [] \<and> t > now then [p] else []
   | _ \<Rightarrow> [])"

section \<open>The outbox\<close>

definition build_payload :: "config \<Rightarrow> db \<Rightarrow> domain_event \<Rightarrow> string \<Rightarrow> domain \<Rightarrow> error + json" where
  "build_payload C s e webhook_type d = bind_res (domain_resource C s d) (\<lambda>resource.
     Inr (JObj [(''id'', JStr (uuid_str (e_id e))), (''type'', JStr webhook_type),
       (''created_at'', JTime (e_created_at e)), (''data'', JObj [(''domain'', resource)])]))"

definition wanted_by :: "db \<Rightarrow> uuid \<Rightarrow> string \<Rightarrow> webhook_subscription list" where
  "wanted_by s aid webhook_type = filter (\<lambda>w. webhook_type \<in> set (s_events w))
     (filter (\<lambda>w. s_application_id w = aid \<and> s_revoked_at w = None) (subscriptions s))"

text \<open>
  One delivery per wanted subscription. The pair of subscription and event is unique in the
  table; a second delivery of the same pair is refused.
\<close>

definition new_delivery ::
    "domain_event \<Rightarrow> string \<Rightarrow> domain \<Rightarrow> json \<Rightarrow> instant \<Rightarrow> webhook_subscription \<Rightarrow> uuid \<Rightarrow> webhook_delivery" where
  "new_delivery e webhook_type d payload now w i = \<lparr>dl_id = i, dl_subscription_id = s_id w,
     dl_application_id = d_application_id d, dl_event_id = e_id e, dl_event_type = webhook_type,
     dl_domain_id = Some (d_id d), dl_payload = payload, dl_attempts = 0,
     dl_next_attempt_at = Some (e_created_at e), dl_delivered_at = None, dl_abandoned_at = None,
     dl_last_attempt_at = None, dl_last_status = None, dl_last_error = None, dl_created_at = now\<rparr>"

definition add_delivery ::
    "domain_event \<Rightarrow> string \<Rightarrow> domain \<Rightarrow> json \<Rightarrow> instant \<Rightarrow> webhook_subscription \<Rightarrow> db \<Rightarrow> error + db" where
  "add_delivery e webhook_type d payload now w s =
     (if list_ex (\<lambda>x. dl_subscription_id x = s_id w \<and> dl_event_id x = e_id e) (deliveries s)
      then Inl (IntegrityError ''webhook_deliveries.subscription_id, webhook_deliveries.event_id'')
      else let (i, s1) = uuid4 s
        in Inr (s1\<lparr>deliveries := deliveries s1 @ [new_delivery e webhook_type d payload now w i]\<rparr>))"

definition enqueue_for_event :: "config \<Rightarrow> domain \<Rightarrow> domain_event \<Rightarrow> instant \<Rightarrow> db \<Rightarrow> error + db" where
  "enqueue_for_event C d e now s = (case webhook_event_type e of
     None \<Rightarrow> Inr s
   | Some webhook_type \<Rightarrow>
     let wanted = wanted_by s (d_application_id d) webhook_type in
     if wanted = [] then Inr s
     else bind_res (build_payload C s e webhook_type d) (\<lambda>payload.
       fold_res (add_delivery e webhook_type d payload now) wanted s))"

section \<open>Reading and replaying deliveries\<close>

definition clamp :: "int \<Rightarrow> int \<Rightarrow> int \<Rightarrow> int" where
  "clamp lo hi n = max lo (min n hi)"

definition subscription_deliveries :: "db \<Rightarrow> uuid \<Rightarrow> webhook_delivery list" where
  "subscription_deliveries s i = filter (\<lambda>d. dl_subscription_id d = i) (deliveries s)"

definition list_deliveries ::
    "db \<Rightarrow> application \<Rightarrow> uuid \<Rightarrow> string option \<Rightarrow> int \<Rightarrow> int \<Rightarrow> error + webhook_delivery list" where
  "list_deliveries s a i state limit offset = bind_res (get_subscription s a i) (\<lambda>w.
     let rows = filter (\<lambda>d.
           if state = Some ''delivered'' then is_set (dl_delivered_at d)
           else if state = Some ''abandoned'' then is_set (dl_abandoned_at d)
           else if state = Some ''pending'' then dl_delivered_at d = None \<and> dl_abandoned_at d = None
           else True) (subscription_deliveries s (s_id w));
         sorted_rows = sort_key (\<lambda>d. - dl_created_at d) (sort_key dl_id rows)
     in Inr (take (nat (clamp 1 200 limit)) (drop (nat (max 0 offset)) sorted_rows)))"

definition requeue :: "instant \<Rightarrow> webhook_delivery \<Rightarrow> webhook_delivery" where
  "requeue now d = d\<lparr>dl_delivered_at := None, dl_abandoned_at := None, dl_attempts := 0,
     dl_next_attempt_at := Some now\<rparr>"

definition replay_delivery :: "application \<Rightarrow> uuid \<Rightarrow> uuid \<Rightarrow> instant \<Rightarrow> db \<Rightarrow> error + db" where
  "replay_delivery a i j now s = bind_res (get_subscription s a i) (\<lambda>w.
     case find (\<lambda>d. dl_id d = j) (subscription_deliveries s (s_id w)) of
       None \<Rightarrow> Inl DeliveryNotFound
     | Some d \<Rightarrow> Inr (put_delivery j (requeue now) s))"

definition replay_since :: "application \<Rightarrow> uuid \<Rightarrow> instant \<Rightarrow> instant \<Rightarrow> db \<Rightarrow> error + nat \<times> db" where
  "replay_since a i since now s = bind_res (get_subscription s a i) (\<lambda>w.
     let chosen = (\<lambda>d. dl_subscription_id d = s_id w \<and> dl_created_at d \<ge> since)
     in Inr (length (filter chosen (deliveries s)),
          s\<lparr>deliveries := map (\<lambda>d. if chosen d then requeue now d else d) (deliveries s)\<rparr>))"

section \<open>The effect of filling the outbox\<close>

lemma add_deliveries_effect:
  assumes "fold_res (add_delivery e wt d payload now) ws s = Inr t"
  shows "t = s\<lparr>deliveries := deliveries s
      @ map2 (new_delivery e wt d payload now) ws [draws s..<draws s + length ws],
    draws := draws s + length ws\<rparr>"
  using assms
proof (induction ws arbitrary: s)
  case Nil
  then show ?case by simp
next
  case (Cons w ws)
  from Cons.prems obtain s1 where 1: "add_delivery e wt d payload now w s = Inr s1"
    and 2: "fold_res (add_delivery e wt d payload now) ws s1 = Inr t"
    by (auto elim: bind_res_InrE)
  from 1 have s1: "s1 = s\<lparr>draws := Suc (draws s), deliveries := deliveries s @ [new_delivery e wt d payload now w (draws s)]\<rparr>"
    by (auto simp: add_delivery_def uuid4_def Let_def split: if_splits)
  show ?case
    using Cons.IH [OF 2] by (simp add: s1 upt_rec)
qed

definition outbox_for :: "db \<Rightarrow> domain \<Rightarrow> domain_event \<Rightarrow> webhook_subscription list" where
  "outbox_for s d e = (case webhook_event_type e of None \<Rightarrow> []
     | Some wt \<Rightarrow> wanted_by s (d_application_id d) wt)"

lemma enqueue_effect:
  assumes "enqueue_for_event C d e now s = Inr t"
  obtains ds where "t = s\<lparr>deliveries := deliveries s @ ds, draws := draws s + length ds\<rparr>"
    and "map dl_subscription_id ds = map s_id (outbox_for s d e)"
    and "map dl_id ds = [draws s..<draws s + length ds]"
    and "\<And>x. x \<in> set ds \<Longrightarrow> dl_event_id x = e_id e \<and> webhook_event_type e = Some (dl_event_type x)
      \<and> dl_domain_id x = Some (d_id d) \<and> dl_application_id x = d_application_id d
      \<and> delivery_state x = ''pending'' \<and> dl_attempts x = 0 \<and> dl_next_attempt_at x = Some (e_created_at e)"
proof (cases "outbox_for s d e = []")
  case True
  with assms have "t = s"
    by (auto simp: enqueue_for_event_def outbox_for_def split: option.splits)
  with True show ?thesis by (intro that [of "[]"]) auto
next
  case False
  then obtain wt where wt: "webhook_event_type e = Some wt"
    by (auto simp: outbox_for_def split: option.splits)
  let ?ws = "outbox_for s d e"
  from assms wt False obtain payload where
    "fold_res (add_delivery e wt d payload now) ?ws s = Inr t"
    by (auto simp: enqueue_for_event_def outbox_for_def elim: bind_res_InrE)
  from add_deliveries_effect [OF this] have t: "t = s\<lparr>deliveries := deliveries s
      @ map2 (new_delivery e wt d payload now) ?ws [draws s..<draws s + length ?ws],
    draws := draws s + length ?ws\<rparr>" .
  let ?ds = "map2 (new_delivery e wt d payload now) ?ws [draws s..<draws s + length ?ws]"
  have ids: "map dl_subscription_id (map2 (new_delivery e wt d payload now) ws ns) = map s_id ws"
    "map dl_id (map2 (new_delivery e wt d payload now) ws ns) = ns" if "length ns = length ws" for ws ns
    using that by (auto intro!: nth_equalityI simp: new_delivery_def)
  show ?thesis
  proof (rule that)
    show "t = s\<lparr>deliveries := deliveries s @ ?ds, draws := draws s + length ?ds\<rparr>"
      using t by simp
    show "map dl_subscription_id ?ds = map s_id ?ws" "map dl_id ?ds = [draws s..<draws s + length ?ds]"
      using ids [of "[draws s..<draws s + length ?ws]" ?ws] by simp_all
    fix x assume "x \<in> set ?ds"
    then obtain w n where "x = new_delivery e wt d payload now w n" by auto
    then show "dl_event_id x = e_id e \<and> webhook_event_type e = Some (dl_event_type x)
      \<and> dl_domain_id x = Some (d_id d) \<and> dl_application_id x = d_application_id d
      \<and> delivery_state x = ''pending'' \<and> dl_attempts x = 0 \<and> dl_next_attempt_at x = Some (e_created_at e)"
      by (simp add: wt new_delivery_def delivery_state_def)
  qed
qed



end
