(* ===== verification/Domains.thy ===== *)
theory Domains
  imports Webhooks
begin

text \<open>
  The service's core, \<open>app/services/domains.py\<close> with \<open>app/services/limits.py\<close>: claims, the
  status lifecycle, tombstones, rate limits and the event log. This theory holds the
  operations; \<open>Lifecycle\<close> states and proves what they keep.

  A \<open>Domain\<close> object of the ORM is addressed by its identifier: every operation reads the
  current row, and a row that is gone is SQLAlchemy's \<open>StaleDataError\<close>. The row locks that
  serialise concurrent transactions (\<open>lock_application\<close>, \<open>acquire_lock\<close>) leave the tables
  unchanged and do not appear: an operation of the model is one serialised transaction.
\<close>

section \<open>Constants\<close>

definition CHALLENGE_LABEL :: string where "CHALLENGE_LABEL = ''_custom-domain-challenge''"
definition TOMBSTONE_RETENTION :: duration where "TOMBSTONE_RETENTION = days 90"
definition MAX_REFERENCE_LENGTH :: nat where "MAX_REFERENCE_LENGTH = 255"
definition MAX_PAGE_SIZE :: int where "MAX_PAGE_SIZE = 200"
definition RECHECK_MIN_INTERVAL :: duration where "RECHECK_MIN_INTERVAL = seconds 60"
definition RECHECK_WINDOW :: duration where "RECHECK_WINDOW = hours 1"
definition RECHECK_MAX_PER_WINDOW :: nat where "RECHECK_MAX_PER_WINDOW = 60"
definition REGISTRATION_WINDOW :: duration where "REGISTRATION_WINDOW = hours 1"
definition REGISTRATION_MAX_PER_WINDOW :: nat where "REGISTRATION_MAX_PER_WINDOW = 120"
definition ZONE_RETENTION :: duration where "ZONE_RETENTION = days 7"

fun ALLOWED_TRANSITIONS :: "domain_status \<Rightarrow> domain_status list" where
  "ALLOWED_TRANSITIONS PENDING_DNS = [PROVISIONING, ATTENTION_REQUIRED, SUSPENDED, DELETING]"
| "ALLOWED_TRANSITIONS PROVISIONING = [READY, PENDING_DNS, ATTENTION_REQUIRED, SUSPENDED, DELETING]"
| "ALLOWED_TRANSITIONS READY = [PENDING_DNS, ATTENTION_REQUIRED, SUSPENDED, DELETING]"
| "ALLOWED_TRANSITIONS ATTENTION_REQUIRED = [PENDING_DNS, PROVISIONING, READY, SUSPENDED, DELETING]"
| "ALLOWED_TRANSITIONS SUSPENDED = [PENDING_DNS, PROVISIONING, DELETING]"
| "ALLOWED_TRANSITIONS DELETING = []"

definition RESET_ON_REISSUE :: "domain_status list" where
  "RESET_ON_REISSUE = [PROVISIONING, READY, ATTENTION_REQUIRED]"

section \<open>Events\<close>

definition domain_events :: "db \<Rightarrow> uuid \<Rightarrow> domain_event list" where
  "domain_events s i = filter (\<lambda>e. e_domain_id e = i) (events s)"

text \<open>\<open>func.max\<close> and \<open>func.min\<close> of a column: null over no rows.\<close>

fun max_of :: "int list \<Rightarrow> int option" where
  "max_of [] = None"
| "max_of (x # xs) = Some (foldl max x xs)"

fun min_of :: "int list \<Rightarrow> int option" where
  "min_of [] = None"
| "min_of (x # xs) = Some (foldl min x xs)"

definition event_stamp :: "db \<Rightarrow> uuid \<Rightarrow> instant \<Rightarrow> instant" where
  "event_stamp s i now = (case max_of (map e_created_at (domain_events s i)) of
     None \<Rightarrow> now
   | Some latest \<Rightarrow> if now \<le> latest then latest + 1 else now)"

text \<open>\<open>record_event\<close>; the event it returns is the last of the table.\<close>

definition record_event ::
    "config \<Rightarrow> uuid \<Rightarrow> event_type \<Rightarrow> dict option \<Rightarrow> instant \<Rightarrow> db \<Rightarrow> error + db" where
  "record_event C i event_type payload now s = (case domain_row s i of
     None \<Rightarrow> Inl StaleDataError
   | Some d \<Rightarrow>
     let (eid, s1) = uuid4 s;
         e = \<lparr>e_id = eid, e_domain_id = i, e_application_id = d_application_id d,
           e_event_type = event_type, e_payload = payload, e_created_at = event_stamp s i now\<rparr>
     in enqueue_for_event C d e now (s1\<lparr>events := events s1 @ [e]\<rparr>))"

section \<open>Status\<close>

definition checks_passing :: "db \<Rightarrow> uuid \<Rightarrow> bool" where
  "checks_passing s i = list_all (\<lambda>t. case domain_check_of s i t of
     None \<Rightarrow> False | Some c \<Rightarrow> ch_status c = Check_Passing) check_types"

definition transition_status ::
    "config \<Rightarrow> uuid \<Rightarrow> domain_status \<Rightarrow> string option \<Rightarrow> instant \<Rightarrow> db \<Rightarrow> error + db" where
  "transition_status C i new_status reason now s = (case domain_row s i of
     None \<Rightarrow> Inl StaleDataError
   | Some d \<Rightarrow>
     if d_is_deleted d then Inl (InvalidStatusTransition ''Deleted domains cannot change status'')
     else if new_status = d_status d then Inr s
     else if new_status \<notin> set (ALLOWED_TRANSITIONS (d_status d))
     then Inl (InvalidStatusTransition (''Cannot move from '' @ domain_status_value (d_status d)
       @ '' to '' @ domain_status_value new_status))
     else if new_status = READY \<and> (case active_claim s i of None \<Rightarrow> True
         | Some claim \<Rightarrow> c_status claim \<noteq> Claim_Verified)
     then Inl (InvalidStatusTransition ''Ownership claim is not verified'')
     else if new_status = READY \<and> \<not> checks_passing s i
     then Inl (InvalidStatusTransition ''Every check must pass before the domain is ready'')
     else record_event C i STATUS_CHANGED (Some [(''from'', JStr (domain_status_value (d_status d))),
         (''to'', JStr (domain_status_value new_status)), (''reason'', jopt JStr reason)]) now
       (put_domain i (\<lambda>d. d\<lparr>d_status := new_status, d_updated_at := now\<rparr>) s))"

definition pending_check :: "uuid \<Rightarrow> check_type \<Rightarrow> domain_check" where
  "pending_check i t = \<lparr>ch_domain_id = i, ch_check_type = t, ch_status = Check_Pending,
     ch_error_code = None, ch_message = None, ch_details = None, ch_observed_at = None,
     ch_next_check_at = None\<rparr>"

text \<open>The check object of a type, created when the domain has none, with its columns assigned.\<close>

definition upsert_check :: "uuid \<Rightarrow> check_type \<Rightarrow> (domain_check \<Rightarrow> domain_check) \<Rightarrow> db \<Rightarrow> db" where
  "upsert_check i t f s = put_check (i, t) f (case domain_check_of s i t of
     Some _ \<Rightarrow> s | None \<Rightarrow> s\<lparr>checks := checks s @ [pending_check i t]\<rparr>)"

definition record_check ::
    "config \<Rightarrow> uuid \<Rightarrow> check_type \<Rightarrow> check_status \<Rightarrow> string option \<Rightarrow> string option \<Rightarrow> dict option
      \<Rightarrow> instant \<Rightarrow> instant option \<Rightarrow> db \<Rightarrow> error + db" where
  "record_check C i t status error_code message details observed_at next_check_at s =
     (case domain_row s i of
       None \<Rightarrow> Inl StaleDataError
     | Some d \<Rightarrow>
       let previous = map_option ch_status (domain_check_of s i t);
           code = (if status = Check_Failing then error_code else None);
           s1 = upsert_check i t (\<lambda>c. c\<lparr>ch_status := status, ch_error_code := code, ch_message := message,
             ch_details := details, ch_observed_at := Some observed_at, ch_next_check_at := next_check_at\<rparr>) s
       in bind_res (record_event C i CHECK_UPDATED (Some [(''check'', JStr (check_type_value t)),
              (''from'', jopt (\<lambda>p. JStr (check_status_value p)) previous),
              (''to'', JStr (check_status_value status)), (''error_code'', jopt JStr code)]) observed_at s1)
          (\<lambda>s2. if status = Check_Failing \<and> d_status d = READY
             then transition_status C i ATTENTION_REQUIRED
               (Some (check_type_value t @ ''_check_failed'')) observed_at s2
             else Inr s2))"

section \<open>Reads\<close>

definition domain_query :: "bool \<Rightarrow> db \<Rightarrow> domain list" where
  "domain_query include_deleted s =
     (if include_deleted then domains s else filter (\<lambda>d. d_deleted_at d = None) (domains s))"

definition get_domain :: "db \<Rightarrow> application \<Rightarrow> uuid \<Rightarrow> bool \<Rightarrow> error + domain" where
  "get_domain s a i include_deleted =
     (case find (\<lambda>d. d_id d = i \<and> d_application_id d = app_id a) (domain_query include_deleted s) of
        None \<Rightarrow> Inl DomainNotFound | Some d \<Rightarrow> Inr d)"

text \<open>SQL's \<open>LIKE\<close> with \<open>ESCAPE '\'\<close>.\<close>

fun sql_like :: "string \<Rightarrow> string \<Rightarrow> bool" where
  "sql_like [] s = (s = [])"
| "sql_like (p # ps) s =
     (if p = CHR ''%'' then sql_like ps s \<or> (case s of [] \<Rightarrow> False | c # cs \<Rightarrow> sql_like (p # ps) cs)
      else case s of [] \<Rightarrow> False
        | c # cs \<Rightarrow>
          if p = CHR 0x5C then (case ps of [] \<Rightarrow> False | q # qs \<Rightarrow> q = c \<and> sql_like qs cs)
          else (p = CHR ''_'' \<or> p = c) \<and> sql_like ps cs)"

definition like_pattern :: "string \<Rightarrow> string" where
  "like_pattern search =
     ''%'' @ str_replace ''_'' [CHR 0x5C, CHR ''_''] (str_replace ''%'' [CHR 0x5C, CHR ''%'']
       (str_replace [CHR 0x5C] [CHR 0x5C, CHR 0x5C] (lower search))) @ ''%''"

definition list_query ::
    "db \<Rightarrow> application \<Rightarrow> string option \<Rightarrow> domain_status option \<Rightarrow> bool \<Rightarrow> string option \<Rightarrow> domain list" where
  "list_query s a reference status include_deleted search =
     sort_key d_created_at (sort_key d_id (filter (\<lambda>d. d_application_id d = app_id a
       \<and> (case reference of None \<Rightarrow> True | Some r \<Rightarrow> d_reference d = r)
       \<and> (case status of None \<Rightarrow> True | Some st \<Rightarrow> d_status d = st)
       \<and> (case search of None \<Rightarrow> True | Some q \<Rightarrow> q = [] \<or> sql_like (like_pattern q) (d_hostname d)
            \<or> sql_like (like_pattern q) (lower (d_reference d))))
     (domain_query include_deleted s)))"

definition page_domains ::
    "db \<Rightarrow> application \<Rightarrow> string option \<Rightarrow> domain_status option \<Rightarrow> bool \<Rightarrow> string option \<Rightarrow> int \<Rightarrow> int
      \<Rightarrow> domain list \<times> bool" where
  "page_domains s a reference status include_deleted search limit offset = (let
     lim = nat (clamp 1 MAX_PAGE_SIZE limit); off = nat (max 0 offset);
     q = (case search of None \<Rightarrow> None | Some t \<Rightarrow> if strip t = [] then None else Some (strip t));
     rows = take (lim + 1) (drop off (list_query s a reference status include_deleted q))
   in (take lim rows, length rows > lim))"

definition list_domains ::
    "db \<Rightarrow> application \<Rightarrow> string option \<Rightarrow> domain_status option \<Rightarrow> bool \<Rightarrow> int \<Rightarrow> int \<Rightarrow> domain list" where
  "list_domains s a reference status include_deleted limit offset =
     fst (page_domains s a reference status include_deleted None limit offset)"

definition find_live_by_hostname :: "libs \<Rightarrow> db \<Rightarrow> string \<Rightarrow> error + domain option" where
  "find_live_by_hostname L s hostname = bind_res (canonicalize L False (Some hostname)) (\<lambda>canonical.
     Inr (find (\<lambda>d. d_hostname d = canonical) (domain_query False s)))"

definition is_serveable :: "db \<Rightarrow> domain \<Rightarrow> bool" where
  "is_serveable s d =
     (if d_is_deleted d \<or> d_status d \<noteq> READY then False
      else case application_row s (d_application_id d) of
        None \<Rightarrow> False
      | Some a \<Rightarrow>
        if app_status a \<noteq> App_Active then False
        else case active_claim s (d_id d) of
          None \<Rightarrow> False
        | Some claim \<Rightarrow>
          if c_status claim \<noteq> Claim_Verified then False else checks_passing s (d_id d))"

section \<open>Limits\<close>

definition deployment_limit :: "string \<Rightarrow> error + int option" where
  "deployment_limit max_domains = (let raw = strip max_domains in
     if raw = [] then Inr None
     else case py_int raw of
         None \<Rightarrow> Inl (InvalidLimit (''MAX_DOMAINS must be a whole number, not '' @ py_repr raw))
       | Some n \<Rightarrow> if n < 1 then Inl (InvalidLimit ''MAX_DOMAINS must be at least 1; leave it unset for no limit'')
           else Inr (Some n))"

definition validate_application_limit :: "int option \<Rightarrow> error + int option" where
  "validate_application_limit v = (case v of
     Some n \<Rightarrow> if n < 1 then Inl (InvalidLimit ''A domain limit must be at least 1, or none for no limit'')
       else Inr v
   | None \<Rightarrow> Inr v)"

definition live_domains :: "db \<Rightarrow> application option \<Rightarrow> int" where
  "live_domains s a = int (length (filter (\<lambda>d. d_deleted_at d = None
     \<and> (case a of None \<Rightarrow> True | Some x \<Rightarrow> d_application_id d = app_id x)) (domains s)))"

definition limits_enforce :: "config \<Rightarrow> db \<Rightarrow> application \<Rightarrow> error + unit" where
  "limits_enforce C s a = bind_res (deployment_limit (cfg_max_domains C)) (\<lambda>limit.
     bind_res (case app_max_domains a of
         None \<Rightarrow> Inr ()
       | Some m \<Rightarrow> let live = live_domains s (Some a) in
         if live \<ge> m
         then Inl (DomainLimitReached (''Application '' @ [CHR 0x27] @ app_slug a @ [CHR 0x27]
             @ '' has reached its limit of '' @ str_of_int m @ '' live domains'')
           [(''scope'', JStr ''application''), (''limit'', JInt m), (''live'', JInt live)])
         else Inr ())
     (\<lambda>_. case limit of
         None \<Rightarrow> Inr ()
       | Some m \<Rightarrow> let live = live_domains s None in
         if live \<ge> m
         then Inl (DomainLimitReached (''This deployment has reached its limit of '' @ str_of_int m
             @ '' live domains'')
           [(''scope'', JStr ''deployment''), (''limit'', JInt m), (''live'', JInt live)])
         else Inr ()))"

definition windowed ::
    "db \<Rightarrow> uuid \<Rightarrow> event_type \<Rightarrow> instant \<Rightarrow> domain_event list" where
  "windowed s aid t window_start = filter (\<lambda>e. e_application_id e = aid \<and> e_event_type e = t
     \<and> e_created_at e > window_start) (events s)"

definition window_wait :: "domain_event list \<Rightarrow> duration \<Rightarrow> instant \<Rightarrow> int" where
  "window_wait es window now = (case min_of (map e_created_at es) of
     Some oldest \<Rightarrow> ceil_seconds (oldest + window - now) | None \<Rightarrow> 60)"

definition enforce_registration_limit :: "db \<Rightarrow> application \<Rightarrow> instant \<Rightarrow> error + unit" where
  "enforce_registration_limit s a now = (let
     es = windowed s (app_id a) DOMAIN_CREATED (now - REGISTRATION_WINDOW)
   in if length es \<ge> REGISTRATION_MAX_PER_WINDOW
      then Inl (rate_limited ''At most 120 registrations per application per 1 hour(s)''
        (window_wait es REGISTRATION_WINDOW now))
      else Inr ())"

definition enforce_recheck_limits :: "db \<Rightarrow> domain \<Rightarrow> instant \<Rightarrow> error + unit" where
  "enforce_recheck_limits s d now = (let
     latest = max_of (map e_created_at (filter (\<lambda>e. e_event_type e = RECHECK_REQUESTED)
       (domain_events s (d_id d))))
   in case (case latest of None \<Rightarrow> None | Some t \<Rightarrow> if t + RECHECK_MIN_INTERVAL > now then Some t else None) of
        Some t \<Rightarrow> Inl (rate_limited ''This domain was rechecked less than 60 seconds ago''
          (ceil_seconds (t + RECHECK_MIN_INTERVAL - now)))
      | None \<Rightarrow>
        let es = windowed s (d_application_id d) RECHECK_REQUESTED (now - RECHECK_WINDOW)
        in if length es \<ge> RECHECK_MAX_PER_WINDOW
           then Inl (rate_limited ''At most 60 manual rechecks per application per 1 hour(s)''
             (window_wait es RECHECK_WINDOW now))
           else Inr ())"

section \<open>Claims\<close>

text \<open>
  The insert of a claim is subject to the table's two unique indexes: the token, and the
  domain among the claims that are not revoked.
\<close>

definition issue_claim :: "config \<Rightarrow> uuid \<Rightarrow> string \<Rightarrow> instant \<Rightarrow> db \<Rightarrow> error + db" where
  "issue_claim C i cname_target now s = (case domain_row s i of
     None \<Rightarrow> Inl StaleDataError
   | Some d \<Rightarrow>
     let (token, s1) = token_urlsafe s; (cid, s2) = uuid4 s1;
         claim = \<lparr>c_id = cid, c_domain_id = i,
           c_txt_record_name = CHALLENGE_LABEL @ ''.'' @ d_hostname d, c_token = token,
           c_cname_target = cname_target, c_status = Claim_Pending, c_verification_method = None,
           c_verified_at = None, c_revoked_at = None, c_expires_at = None, c_created_at = now\<rparr>
     in if list_ex (\<lambda>c. c_token c = token) (claims s2)
        then Inl (IntegrityError ''ownership_claims.token'')
        else if list_ex (\<lambda>c. c_domain_id c = i \<and> c_status c \<noteq> Claim_Revoked) (claims s2)
        then Inl (IntegrityError ''ownership_claims.domain_id'')
        else record_event C i CLAIM_ISSUED (Some [(''claim_id'', JStr (uuid_str cid)),
            (''txt_record_name'', JStr (c_txt_record_name claim))]) now
          (s2\<lparr>claims := claims s2 @ [claim]\<rparr>))"

text \<open>
  \<open>claim_domain\<close> returns the new row's identifier. The insert is subject to the partial
  unique index on the hostnames of live rows and to the foreign key of the application.
\<close>

definition claim_domain ::
    "config \<Rightarrow> application \<Rightarrow> string \<Rightarrow> string \<Rightarrow> dict option \<Rightarrow> instant \<Rightarrow> db \<Rightarrow> error + uuid \<times> db" where
  "claim_domain C a hostname reference metadata now s =
     (if app_status a \<noteq> App_Active then Inl ApplicationSuspended
      else if reference = [] \<or> strip reference = [] \<or> length reference > MAX_REFERENCE_LENGTH
      then Inl (InvalidReference ''Reference must be 1-255 characters'')
      else bind_res (canonicalize (cfg_libs C) False (Some hostname)) (\<lambda>canonical.
        bind_res (limits_enforce C s a) (\<lambda>_.
        bind_res (enforce_registration_limit s a now) (\<lambda>_.
          if list_ex (\<lambda>d. d_hostname d = canonical \<and> d_deleted_at d = None) (domains s)
          then Inl (HostnameAlreadyClaimed (canonical @ '' is already claimed''))
          else if application_row s (app_id a) = None
          then Inl (IntegrityError ''domains.application_id'')
          else let (i, s1) = uuid4 s;
            d = \<lparr>d_id = i, d_application_id = app_id a, d_hostname = canonical,
              d_reference = strip reference, d_status = PENDING_DNS, d_extra = metadata,
              d_deleted_at = None, d_purge_after = None,
              d_zone = Some (default_zone (cfg_libs C) canonical), d_connect_started_at = None,
              d_created_at = now, d_updated_at = now\<rparr>;
            s2 = s1\<lparr>domains := domains s1 @ [d], checks := checks s1 @ map (pending_check i) check_types\<rparr>
          in bind_res (record_event C i DOMAIN_CREATED (Some [(''hostname'', JStr canonical),
                (''reference'', JStr (d_reference d))]) now s2) (\<lambda>s3.
             bind_res (issue_claim C i (app_cname_target a) now s3) (\<lambda>s4. Inr (i, s4)))))))"

definition revoke_live_claim :: "config \<Rightarrow> uuid \<Rightarrow> string \<Rightarrow> instant \<Rightarrow> db \<Rightarrow> error + db" where
  "revoke_live_claim C i reason now s = (case active_claim s i of
     None \<Rightarrow> Inr s
   | Some claim \<Rightarrow>
     record_event C i CLAIM_REVOKED (Some [(''claim_id'', JStr (uuid_str (c_id claim))),
         (''reason'', JStr reason)]) now
       (put_claim (c_id claim) (\<lambda>c. c\<lparr>c_status := Claim_Revoked, c_revoked_at := Some now\<rparr>) s))"

definition mark_claim_verified :: "config \<Rightarrow> uuid \<Rightarrow> string \<Rightarrow> instant \<Rightarrow> db \<Rightarrow> error + db" where
  "mark_claim_verified C i method_name now s = (case domain_row s i of
     None \<Rightarrow> Inl StaleDataError
   | Some d \<Rightarrow> (case active_claim s i of
       None \<Rightarrow> Inl (InvalidStatusTransition ''Domain has no live ownership claim'')
     | Some claim \<Rightarrow>
       if d_is_deleted d then Inl (InvalidStatusTransition ''Domain has no live ownership claim'')
       else record_event C i CLAIM_VERIFIED (Some [(''claim_id'', JStr (uuid_str (c_id claim))),
           (''method'', JStr method_name)]) now
         (put_claim (c_id claim) (\<lambda>c. c\<lparr>c_status := Claim_Verified,
            c_verification_method := Some method_name, c_verified_at := Some now\<rparr>) s)))"

definition reset_check :: "config \<Rightarrow> uuid \<Rightarrow> instant \<Rightarrow> check_type \<Rightarrow> db \<Rightarrow> error + db" where
  "reset_check C i now t = record_check C i t Check_Pending None None
     (Some [(''reason'', JStr ''claim_reissued'')]) now None"

definition reissue_claim :: "config \<Rightarrow> application \<Rightarrow> uuid \<Rightarrow> instant \<Rightarrow> db \<Rightarrow> error + db" where
  "reissue_claim C a i now s = bind_res (get_domain s a i False) (\<lambda>_.
     bind_res (revoke_live_claim C i ''reissued'' now s) (\<lambda>s1.
     bind_res (fold_res (reset_check C i now) check_types s1) (\<lambda>s2.
     bind_res (case domain_row s2 i of
         None \<Rightarrow> Inl StaleDataError
       | Some d \<Rightarrow> if d_status d \<in> set RESET_ON_REISSUE
           then transition_status C i PENDING_DNS (Some ''claim_reissued'') now s2 else Inr s2) (\<lambda>s3.
     issue_claim C i (app_cname_target a) now s3))))"

text \<open>The join of live domains with their claims: one row per live claim of another target.\<close>

definition stale_domains :: "db \<Rightarrow> application \<Rightarrow> uuid list" where
  "stale_domains s a = map d_id (sort_key d_created_at (sort_key d_id (concat (map (\<lambda>d.
     map (\<lambda>_. d) (filter (\<lambda>c. c_domain_id c = d_id d \<and> c_status c \<noteq> Claim_Revoked
       \<and> c_cname_target c \<noteq> app_cname_target a) (claims s)))
     (filter (\<lambda>d. d_application_id d = app_id a \<and> d_deleted_at d = None) (domains s))))))"

definition reissue_claims_for_target :: "config \<Rightarrow> application \<Rightarrow> instant \<Rightarrow> db \<Rightarrow> error + nat \<times> db" where
  "reissue_claims_for_target C a now s = (let stale = stale_domains s a in
     bind_res (fold_res (\<lambda>i. reissue_claim C a i now) stale s) (\<lambda>t. Inr (length stale, t)))"

section \<open>Deletion, rechecks, purging\<close>

definition delete_domain :: "config \<Rightarrow> application \<Rightarrow> uuid \<Rightarrow> instant \<Rightarrow> db \<Rightarrow> error + db" where
  "delete_domain C a i now s = bind_res (get_domain s a i True) (\<lambda>d.
     if d_is_deleted d then Inr s
     else let s1 = put_domain i (\<lambda>d. d\<lparr>d_status := DELETING, d_deleted_at := Some now,
         d_purge_after := Some (now + TOMBSTONE_RETENTION), d_updated_at := now\<rparr>) s
       in bind_res (revoke_live_claim C i ''deleted'' now s1) (\<lambda>s2.
          record_event C i DOMAIN_DELETED (Some [(''hostname'', JStr (d_hostname d)),
            (''purge_after'', JTime (now + TOMBSTONE_RETENTION))]) now s2))"

definition request_recheck :: "config \<Rightarrow> application \<Rightarrow> uuid \<Rightarrow> string \<Rightarrow> instant \<Rightarrow> db \<Rightarrow> error + db" where
  "request_recheck C a i requested_by now s = bind_res (get_domain s a i True) (\<lambda>d.
     if d_is_deleted d \<or> d_status d = DELETING
     then Inl (InvalidStatusTransition ''Deleted domains are not rechecked'')
     else bind_res (enforce_recheck_limits s d now) (\<lambda>_.
       record_event C i RECHECK_REQUESTED (Some [(''requested_by'', JStr requested_by)]) now
         (s\<lparr>checks := map (\<lambda>c. if ch_domain_id c = i then c\<lparr>ch_next_check_at := Some now\<rparr> else c) (checks s)\<rparr>)))"

definition purge_zones :: "instant \<Rightarrow> db \<Rightarrow> db" where
  "purge_zones now s = s\<lparr>zones := filter (\<lambda>z. \<not> (z_expires_at z \<le> now - ZONE_RETENTION
     \<and> \<not> list_ex (\<lambda>d. d_zone d = Some (z_zone z)) (domains s))) (zones s)\<rparr>"

definition domain_purgeable :: "instant \<Rightarrow> domain \<Rightarrow> bool" where
  "domain_purgeable now d = (is_set (d_deleted_at d)
     \<and> (case d_purge_after d of None \<Rightarrow> False | Some t \<Rightarrow> t \<le> now))"

definition application_purgeable :: "db \<Rightarrow> instant \<Rightarrow> application \<Rightarrow> bool" where
  "application_purgeable s now a = (is_set (app_deleted_at a)
     \<and> (case app_purge_after a of None \<Rightarrow> False | Some t \<Rightarrow> t \<le> now)
     \<and> \<not> list_ex (\<lambda>d. d_application_id d = app_id a) (domains s))"

text \<open>
  Deleting a domain row cascades to its claims, checks, events and setup-page sessions and
  clears it from the idempotency keys.
\<close>

definition drop_domains :: "(uuid \<Rightarrow> bool) \<Rightarrow> db \<Rightarrow> db" where
  "drop_domains gone s = s\<lparr>
     domains := filter (\<lambda>d. \<not> gone (d_id d)) (domains s),
     claims := filter (\<lambda>c. \<not> gone (c_domain_id c)) (claims s),
     checks := filter (\<lambda>c. \<not> gone (ch_domain_id c)) (checks s),
     events := filter (\<lambda>e. \<not> gone (e_domain_id e)) (events s),
     connect_sessions := filter (\<lambda>x. \<not> gone (cs_domain_id x)) (connect_sessions s),
     idempotency_keys := map (\<lambda>k. case ik_domain_id k of
       Some i \<Rightarrow> if gone i then k\<lparr>ik_domain_id := None\<rparr> else k | None \<Rightarrow> k) (idempotency_keys s)\<rparr>"

text \<open>Deleting an application row cascades to everything that names it.\<close>

definition drop_applications :: "(uuid \<Rightarrow> bool) \<Rightarrow> db \<Rightarrow> db" where
  "drop_applications gone s = s\<lparr>
     applications := filter (\<lambda>a. \<not> gone (app_id a)) (applications s),
     origins := filter (\<lambda>x. \<not> gone (o_application_id x)) (origins s),
     credentials := filter (\<lambda>x. \<not> gone (cr_application_id x)) (credentials s),
     assertion_keys := filter (\<lambda>x. \<not> gone (k_application_id x)) (assertion_keys s),
     events := filter (\<lambda>e. \<not> gone (e_application_id e)) (events s),
     subscriptions := filter (\<lambda>w. \<not> gone (s_application_id w)) (subscriptions s),
     deliveries := filter (\<lambda>d. \<not> gone (dl_application_id d)) (deliveries s),
     idempotency_keys := filter (\<lambda>k. \<not> gone (ik_application_id k)) (idempotency_keys s),
     connect_sessions := filter (\<lambda>x. \<not> gone (cs_application_id x)) (connect_sessions s),
     traffic := filter (\<lambda>x. \<not> gone (at_application_id x)) (traffic s)\<rparr>"

definition purge_tombstones :: "instant \<Rightarrow> db \<Rightarrow> nat \<times> db" where
  "purge_tombstones now s = (let
     purged = filter (domain_purgeable now) (domains s);
     s1 = drop_domains (\<lambda>i. i \<in> d_id ` set purged) s;
     gone = filter (application_purgeable s1 now) (applications s1);
     s2 = drop_applications (\<lambda>i. i \<in> app_id ` set gone) s1
   in (length purged, purge_zones now s2))"

definition list_events :: "db \<Rightarrow> application \<Rightarrow> uuid \<Rightarrow> int \<Rightarrow> error + domain_event list" where
  "list_events s a i limit = bind_res (get_domain s a i True) (\<lambda>d.
     Inr (take (nat (clamp 1 MAX_PAGE_SIZE limit))
       (sort_key e_created_at (sort_key e_id (domain_events s (d_id d))))))"

end
