(* ===== verification/Lifecycle.thy ===== *)
theory Lifecycle
  imports Domains
begin

text \<open>
  What the operations of \<open>Domains\<close> keep. The tables stay well-formed (keys, unique indexes,
  foreign keys, a strictly ordered log per domain); the event log is an exact audit trail,
  from which status, checks and claim of every domain can be replayed; tombstones stay
  dead and a ready domain has no failing check. Each operation is shown to keep these
  facts, and the facts then hold in every state a deployment reaches.
\<close>

section \<open>The effect of recording an event\<close>

lemma max_of_Some: "max_of xs = Some m \<longleftrightarrow> m \<in> set xs \<and> (\<forall>x\<in>set xs. x \<le> m)"
proof (cases xs)
  case (Cons x ys)
  have "foldl max x ys = fold max ys x"
    by (induction ys arbitrary: x) (simp_all add: max.commute)
  also have "\<dots> = Max (set (x # ys))"
    by (rule Max.set_eq_fold [symmetric])
  finally have "max_of xs = Some (Max (set xs))"
    using Cons by simp
  with Cons show ?thesis by (auto simp: Max_eq_iff)
qed simp

lemma max_of_None [simp]: "max_of xs = None \<longleftrightarrow> xs = []"
  by (cases xs) auto

lemma min_of_Some: "min_of xs = Some m \<longleftrightarrow> m \<in> set xs \<and> (\<forall>x\<in>set xs. m \<le> x)"
proof (cases xs)
  case (Cons x ys)
  have "foldl min x ys = fold min ys x"
    by (induction ys arbitrary: x) (simp_all add: min.commute)
  also have "\<dots> = Min (set (x # ys))"
    by (rule Min.set_eq_fold [symmetric])
  finally have "min_of xs = Some (Min (set xs))"
    using Cons by simp
  with Cons show ?thesis by (auto simp: Min_eq_iff)
qed simp

lemma min_of_None [simp]: "min_of xs = None \<longleftrightarrow> xs = []"
  by (cases xs) auto

lemma event_stamp_bounds:
  "now \<le> event_stamp s i now"
  "e \<in> set (events s) \<Longrightarrow> e_domain_id e = i \<Longrightarrow> e_created_at e < event_stamp s i now"
proof -
  show "now \<le> event_stamp s i now"
    by (auto simp: event_stamp_def split: option.splits)
  assume "e \<in> set (events s)" "e_domain_id e = i"
  then have e: "e_created_at e \<in> set (map e_created_at (domain_events s i))"
    by (auto simp: domain_events_def)
  then obtain m where m: "max_of (map e_created_at (domain_events s i)) = Some m"
    by (cases "max_of (map e_created_at (domain_events s i))") auto
  with e have "e_created_at e \<le> m" unfolding max_of_Some by blast
  with m show "e_created_at e < event_stamp s i now"
    by (auto simp: event_stamp_def)
qed

definition event_of :: "db \<Rightarrow> domain \<Rightarrow> event_type \<Rightarrow> dict option \<Rightarrow> instant \<Rightarrow> domain_event" where
  "event_of s d et payload now = \<lparr>e_id = draws s, e_domain_id = d_id d,
     e_application_id = d_application_id d, e_event_type = et, e_payload = payload,
     e_created_at = event_stamp s (d_id d) now\<rparr>"

lemma record_event_effect:
  assumes "record_event C i et payload now s = Inr t"
  obtains d ds where "domain_row s i = Some d"
    and "t = s\<lparr>events := events s @ [event_of s d et payload now],
      deliveries := deliveries s @ ds, draws := Suc (draws s) + length ds\<rparr>"
    and "map dl_subscription_id ds = map s_id (outbox_for s d (event_of s d et payload now))"
    and "map dl_id ds = [Suc (draws s)..<Suc (draws s) + length ds]"
    and "\<And>x. x \<in> set ds \<Longrightarrow> dl_event_id x = draws s
      \<and> webhook_event_type (event_of s d et payload now) = Some (dl_event_type x)
      \<and> dl_domain_id x = Some i \<and> dl_application_id x = d_application_id d
      \<and> delivery_state x = ''pending'' \<and> dl_attempts x = 0
      \<and> dl_next_attempt_at x = Some (event_stamp s i now)"
proof -
  from assms obtain d where d: "domain_row s i = Some d"
    by (auto simp: record_event_def split: option.splits)
  then have i: "d_id d = i"
    by (auto simp: domain_row_def dest: find_row_Some)
  let ?e = "event_of s d et payload now"
  from assms d i have "enqueue_for_event C d ?e now (s\<lparr>draws := Suc (draws s), events := events s @ [?e]\<rparr>) = Inr t"
    by (auto simp: record_event_def uuid4_def event_of_def Let_def)
  then show ?thesis
  proof (cases rule: enqueue_effect)
    case (1 ds)
    have o: "outbox_for (s\<lparr>draws := Suc (draws s), events := events s @ [?e]\<rparr>) d ?e = outbox_for s d ?e"
      by (simp add: outbox_for_def wanted_by_def split: option.splits)
    show ?thesis
      by (rule that [OF d, of ds]) (use 1 i o in \<open>simp_all add: event_of_def\<close>)
  qed
qed


section \<open>Frames\<close>

lemma domain_row_frame [simp]:
  "domain_row (events_update f s) = domain_row s"
  "domain_row (deliveries_update g s) = domain_row s"
  "domain_row (draws_update h s) = domain_row s"
  "domain_row (claims_update f2 s) = domain_row s"
  "domain_row (checks_update f3 s) = domain_row s"
  by (simp_all add: fun_eq_iff domain_row_def)

lemma check_row_frame [simp]:
  "check_row (events_update f s) = check_row s"
  "check_row (deliveries_update g s) = check_row s"
  "check_row (draws_update h s) = check_row s"
  "check_row (claims_update f2 s) = check_row s"
  "check_row (domains_update f3 s) = check_row s"
  by (simp_all add: fun_eq_iff check_row_def)

lemma active_claim_frame [simp]:
  "active_claim (events_update f s) = active_claim s"
  "active_claim (deliveries_update g s) = active_claim s"
  "active_claim (draws_update h s) = active_claim s"
  "active_claim (checks_update f2 s) = active_claim s"
  "active_claim (domains_update f3 s) = active_claim s"
  by (simp_all add: fun_eq_iff active_claim_def domain_claims_def)

lemma domain_events_frame [simp]:
  "domain_events (deliveries_update g s) = domain_events s"
  "domain_events (draws_update h s) = domain_events s"
  "domain_events (checks_update f s) = domain_events s"
  "domain_events (claims_update f2 s) = domain_events s"
  "domain_events (domains_update f3 s) = domain_events s"
  by (simp_all add: fun_eq_iff domain_events_def)

lemma put_frames [simp]:
  "active_claim (put_domain i f s) = active_claim s"
  "active_claim (put_check k g s) = active_claim s"
  "check_row (put_domain i f s) = check_row s"
  "check_row (put_claim j h s) = check_row s"
  "domain_row (put_claim j h s) = domain_row s"
  "domain_row (put_check k g s) = domain_row s"
  "domain_events (put_domain i f s) = domain_events s"
  "domain_events (put_claim j h s) = domain_events s"
  "domain_events (put_check k g s) = domain_events s"
  by (auto simp: put_domain_def put_check_def put_claim_def)

lemma put_columns [simp]:
  "draws (put_domain i f s) = draws s" "draws (put_claim j h s) = draws s" "draws (put_check k g s) = draws s"
  "events (put_domain i f s) = events s" "events (put_claim j h s) = events s" "events (put_check k g s) = events s"
  "claims (put_domain i f s) = claims s" "claims (put_check k g s) = claims s"
  "checks (put_domain i f s) = checks s" "checks (put_claim j h s) = checks s"
  "domains (put_claim j h s) = domains s" "domains (put_check k g s) = domains s"
  "applications (put_domain i f s) = applications s" "applications (put_claim j h s) = applications s"
  "applications (put_check k g s) = applications s"
  "subscriptions (put_domain i f s) = subscriptions s" "subscriptions (put_claim j h s) = subscriptions s"
  "subscriptions (put_check k g s) = subscriptions s"
  by (auto simp: put_domain_def put_check_def put_claim_def)

lemma checks_passing_iff:
  "checks_passing s i \<longleftrightarrow> (\<forall>t. map_option ch_status (check_row s (i, t)) = Some Check_Passing)"
proof -
  have "(case check_row s (i, t) of None \<Rightarrow> False | Some c \<Rightarrow> ch_status c = Check_Passing)
      \<longleftrightarrow> map_option ch_status (check_row s (i, t)) = Some Check_Passing" for t
    by (cases "check_row s (i, t)") auto
  then show ?thesis by (simp add: checks_passing_def list_all_iff domain_check_of_eq)
qed

section \<open>The audit trail\<close>

text \<open>
  What the event log says about a domain: its status, the status of each check and the
  status of its live claim. \<open>apply_event\<close> reads one event of \<open>docs/data-model.md\<close>;
  \<open>observe\<close> is the same view of the tables.
\<close>

record snapshot =
  sn_status :: domain_status
  sn_checks :: "check_type \<Rightarrow> check_status"
  sn_claim :: "claim_status option"

definition initial_snapshot :: snapshot where
  "initial_snapshot = \<lparr>sn_status = PENDING_DNS, sn_checks = (\<lambda>_. Check_Pending), sn_claim = None\<rparr>"

definition domain_statuses :: "domain_status list" where
  "domain_statuses = [PENDING_DNS, PROVISIONING, READY, ATTENTION_REQUIRED, SUSPENDED, DELETING]"

definition check_statuses :: "check_status list" where
  "check_statuses = [Check_Pending, Check_Passing, Check_Failing]"

text \<open>The enumeration member with a given value, as \<open>DomainStatus(value)\<close> finds it.\<close>

definition member_of :: "('a \<Rightarrow> string) \<Rightarrow> 'a list \<Rightarrow> json option \<Rightarrow> 'a option" where
  "member_of val members j = (case j of Some (JStr v) \<Rightarrow> find (\<lambda>m. val m = v) members | _ \<Rightarrow> None)"

lemma member_of_value:
  assumes "inj val" and "m \<in> set members"
  shows "member_of val members (Some (JStr (val m))) = Some m"
proof -
  have "find (\<lambda>x. val x = val m) members = Some m"
    using assms by (induction members) (auto dest: injD)
  then show ?thesis by (simp add: member_of_def)
qed

lemma check_status_value_inject [simp]: "check_status_value a = check_status_value b \<longleftrightarrow> a = b"
  by (cases a; cases b) simp_all

lemma check_type_value_inject [simp]: "check_type_value a = check_type_value b \<longleftrightarrow> a = b"
  by (cases a; cases b) simp_all

lemma member_of_enums [simp]:
  "member_of domain_status_value domain_statuses (Some (JStr (domain_status_value m))) = Some m"
  "member_of check_status_value check_statuses (Some (JStr (check_status_value cs))) = Some cs"
  "member_of check_type_value check_types (Some (JStr (check_type_value ct))) = Some ct"
proof -
  have "m \<in> set domain_statuses" by (cases m) (simp_all add: domain_statuses_def)
  moreover have "cs \<in> set check_statuses" by (cases cs) (simp_all add: check_statuses_def)
  ultimately show
    "member_of domain_status_value domain_statuses (Some (JStr (domain_status_value m))) = Some m"
    "member_of check_status_value check_statuses (Some (JStr (check_status_value cs))) = Some cs"
    "member_of check_type_value check_types (Some (JStr (check_type_value ct))) = Some ct"
    by (simp_all add: member_of_value inj_def)
qed

definition apply_event :: "snapshot \<Rightarrow> domain_event \<Rightarrow> snapshot" where
  "apply_event x e = (let payload = (case e_payload e of None \<Rightarrow> [] | Some p \<Rightarrow> p) in
     case e_event_type e of
       STATUS_CHANGED \<Rightarrow> (case member_of domain_status_value domain_statuses (dict_get payload ''to'') of
           Some st \<Rightarrow> x\<lparr>sn_status := st\<rparr> | None \<Rightarrow> x)
     | DOMAIN_DELETED \<Rightarrow> x\<lparr>sn_status := DELETING\<rparr>
     | CHECK_UPDATED \<Rightarrow> (case (member_of check_type_value check_types (dict_get payload ''check''),
             member_of check_status_value check_statuses (dict_get payload ''to'')) of
           (Some t, Some st) \<Rightarrow> x\<lparr>sn_checks := (sn_checks x)(t := st)\<rparr> | _ \<Rightarrow> x)
     | CLAIM_ISSUED \<Rightarrow> x\<lparr>sn_claim := Some Claim_Pending\<rparr>
     | CLAIM_VERIFIED \<Rightarrow> x\<lparr>sn_claim := Some Claim_Verified\<rparr>
     | CLAIM_REVOKED \<Rightarrow> x\<lparr>sn_claim := None\<rparr>
     | _ \<Rightarrow> x)"

definition replay_events :: "domain_event list \<Rightarrow> snapshot" where
  "replay_events es = foldl apply_event initial_snapshot es"

definition check_status_of :: "db \<Rightarrow> uuid \<Rightarrow> check_type \<Rightarrow> check_status" where
  "check_status_of s i t = (case check_row s (i, t) of None \<Rightarrow> Check_Pending | Some c \<Rightarrow> ch_status c)"

definition observe :: "db \<Rightarrow> domain \<Rightarrow> snapshot" where
  "observe s d = \<lparr>sn_status = d_status d, sn_checks = check_status_of s (d_id d),
     sn_claim = map_option c_status (active_claim s (d_id d))\<rparr>"

section \<open>Well-formed tables\<close>

text \<open>
  What the schema promises: primary keys and the unique indexes (live hostnames, live
  claims, tokens, one check per type), foreign keys, and identifiers that were drawn.
\<close>

definition live :: "domain \<Rightarrow> bool" where
  "live d = (d_deleted_at d = None)"

definition claim_live :: "ownership_claim \<Rightarrow> bool" where
  "claim_live c = (c_status c \<noteq> Claim_Revoked)"

definition keys_ok :: "db \<Rightarrow> bool" where
  "keys_ok s = (distinct (map d_id (domains s)) \<and> distinct (map c_id (claims s))
     \<and> distinct (map check_key (checks s)) \<and> distinct (map c_token (claims s))
     \<and> distinct (map d_hostname (filter live (domains s)))
     \<and> distinct (map c_domain_id (filter claim_live (claims s))))"

definition refs_ok :: "db \<Rightarrow> bool" where
  "refs_ok s = ((\<forall>d\<in>set (domains s). d_id d < draws s)
     \<and> (\<forall>c\<in>set (claims s). c_id c < draws s \<and> c_domain_id c \<in> d_id ` set (domains s))
     \<and> (\<forall>c\<in>set (checks s). ch_domain_id c \<in> d_id ` set (domains s))
     \<and> (\<forall>e\<in>set (events s). e_id e < draws s
         \<and> (e_domain_id e, e_application_id e) \<in> (\<lambda>d. (d_id d, d_application_id d)) ` set (domains s)))"

definition log_ok :: "db \<Rightarrow> bool" where
  "log_ok s = (\<forall>i. sorted_wrt (<) (map e_created_at (domain_events s i)))"

definition tables_ok :: "db \<Rightarrow> bool" where
  "tables_ok s = (keys_ok s \<and> refs_ok s \<and> log_ok s)"

lemma domain_rowD: "domain_row s i = Some d \<Longrightarrow> d \<in> set (domains s) \<and> d_id d = i"
  by (auto simp: domain_row_def dest: find_row_Some)

lemma domain_row_intro: "tables_ok s \<Longrightarrow> d \<in> set (domains s) \<Longrightarrow> domain_row s (d_id d) = Some d"
  by (simp add: domain_row_def find_row_unique tables_ok_def keys_ok_def)

lemma active_claim_intro:
  assumes "tables_ok s" and "c \<in> set (claims s)" and "c_domain_id c = i" and "c_status c \<noteq> Claim_Revoked"
  shows "active_claim s i = Some c"
proof (cases "active_claim s i")
  case None
  with assms show ?thesis by (auto simp: active_claim_None)
next
  case (Some c')
  from assms(1) have "inj_on c_domain_id (set (filter claim_live (claims s)))"
    by (simp add: tables_ok_def keys_ok_def distinct_map)
  moreover have "c \<in> set (filter claim_live (claims s))" "c' \<in> set (filter claim_live (claims s))"
    using assms active_claim_Some [OF Some] by (auto simp: claim_live_def)
  ultimately have "c = c'"
    using active_claim_Some(2) [OF Some] assms(3) by (auto dest: inj_onD)
  with Some show ?thesis by simp
qed

lemma record_event_wf:
  assumes "record_event C i et payload now s = Inr t" and "tables_ok s"
  shows "tables_ok t"
proof -
  from assms(1) obtain d ds where d: "domain_row s i = Some d"
    and t: "t = s\<lparr>events := events s @ [event_of s d et payload now],
      deliveries := deliveries s @ ds, draws := Suc (draws s) + length ds\<rparr>"
    by (rule record_event_effect)
  let ?e = "event_of s d et payload now"
  have e: "e_domain_id ?e = i" "e_application_id ?e = d_application_id d" "e_id ?e = draws s"
    "e_created_at ?e = event_stamp s i now"
    using domain_rowD [OF d] by (simp_all add: event_of_def)
  have keys: "keys_ok t"
    using assms(2) by (simp add: tables_ok_def keys_ok_def t)
  have refs: "refs_ok t"
    using assms(2) domain_rowD [OF d] by (force simp: tables_ok_def refs_ok_def t e intro: less_SucI trans_less_add1)
  have "sorted_wrt (<) (map e_created_at (domain_events t j))" for j
    using assms(2) e event_stamp_bounds(2) [of _ s i now]
    by (auto simp: tables_ok_def log_ok_def t domain_events_def sorted_wrt_append)
  with keys refs show ?thesis by (simp add: tables_ok_def log_ok_def)
qed

text \<open>Recording an event leaves the tables of domains, claims and checks alone.\<close>

lemma record_event_frame:
  assumes "record_event C i et payload now s = Inr t"
  shows "domains t = domains s" "claims t = claims s" "checks t = checks s"
    "applications t = applications s" "subscriptions t = subscriptions s" "draws s < draws t"
    "domain_row t = domain_row s" "active_claim t = active_claim s" "check_row t = check_row s"
  using assms by (auto elim!: record_event_effect)

lemma record_event_log:
  assumes "record_event C i et payload now s = Inr t"
  obtains d where "domain_row s i = Some d" and "events t = events s @ [event_of s d et payload now]"
    and "domain_events t i = domain_events s i @ [event_of s d et payload now]"
    and "\<And>j. j \<noteq> i \<Longrightarrow> domain_events t j = domain_events s j"
proof -
  from assms obtain d ds where d: "domain_row s i = Some d"
    and t: "t = s\<lparr>events := events s @ [event_of s d et payload now],
      deliveries := deliveries s @ ds, draws := Suc (draws s) + length ds\<rparr>"
    by (rule record_event_effect)
  show ?thesis
    by (rule that [OF d]) (use domain_rowD [OF d] in \<open>auto simp: t domain_events_def event_of_def\<close>)
qed

text \<open>Writes to a row that keep its keys keep the tables well-formed.\<close>

lemma put_domain_wf:
  assumes "tables_ok s" and f: "\<And>d. d_id (f d) = d_id d" "\<And>d. d_application_id (f d) = d_application_id d"
      "\<And>d. d_hostname (f d) = d_hostname d"
    and "\<And>d. live (f d) \<Longrightarrow> live d"
  shows "tables_ok (put_domain i f s)"
proof -
  let ?t = "put_domain i f s"
  have t: "domains ?t = update_row d_id i f (domains s)" by (simp add: put_domain_def)
  have cols: "map d_id (domains ?t) = map d_id (domains s)"
    "map (\<lambda>d. (d_id d, d_application_id d)) (domains ?t) = map (\<lambda>d. (d_id d, d_application_id d)) (domains s)"
    using f by (simp_all add: t map_update_row)
  have "keys_ok ?t"
    using assms by (simp add: tables_ok_def keys_ok_def t cols [unfolded t] distinct_update_row_filter)
  moreover have "refs_ok ?t"
    using assms(1) cols [THEN arg_cong, of set] f
    by (simp add: tables_ok_def refs_ok_def t ball_update_row)
  ultimately show ?thesis
    using assms(1) by (simp add: tables_ok_def log_ok_def)
qed

lemma put_claim_wf:
  assumes "tables_ok s" and f: "\<And>c. c_id (f c) = c_id c" "\<And>c. c_domain_id (f c) = c_domain_id c"
      "\<And>c. c_token (f c) = c_token c"
    and "\<And>c. c \<in> set (claims s) \<Longrightarrow> c_id c = j \<Longrightarrow> claim_live (f c) \<Longrightarrow> claim_live c"
  shows "tables_ok (put_claim j f s)"
proof -
  let ?t = "put_claim j f s"
  have t: "claims ?t = update_row c_id j f (claims s)" by (simp add: put_claim_def)
  have "keys_ok ?t"
    using assms by (simp add: tables_ok_def keys_ok_def t map_update_row distinct_update_row_filter)
  moreover have "refs_ok ?t"
    using assms(1) f by (simp add: tables_ok_def refs_ok_def t ball_update_row)
  ultimately show ?thesis
    using assms(1) by (simp add: tables_ok_def log_ok_def)
qed

lemma put_check_wf:
  assumes "tables_ok s" and "\<And>c. check_key (f c) = check_key c"
  shows "tables_ok (put_check k f s)"
proof -
  let ?t = "put_check k f s"
  have t: "checks ?t = update_row check_key k f (checks s)" by (simp add: put_check_def)
  have "ch_domain_id (f c) = ch_domain_id c" for c
    using assms(2) [of c] by (simp add: check_key_def)
  then show ?thesis
    using assms by (simp add: tables_ok_def keys_ok_def refs_ok_def log_ok_def t map_update_row ball_update_row)
qed

section \<open>Operations on one domain\<close>

text \<open>\<open>touches i s t\<close>: only rows of domain \<open>i\<close> differ, and no other table a domain depends on.\<close>

definition touches :: "uuid \<Rightarrow> db \<Rightarrow> db \<Rightarrow> bool" where
  "touches i s t = (applications t = applications s \<and> subscriptions t = subscriptions s
     \<and> draws s \<le> draws t
     \<and> (\<forall>j. j \<noteq> i \<longrightarrow> domain_row t j = domain_row s j \<and> active_claim t j = active_claim s j
          \<and> domain_events t j = domain_events s j \<and> (\<forall>ty. check_row t (j, ty) = check_row s (j, ty))))"

lemma touches_refl [simp]: "touches i s s"
  by (simp add: touches_def)

lemma touches_trans: "touches i s t \<Longrightarrow> touches i t u \<Longrightarrow> touches i s u"
  by (auto simp: touches_def)

lemma record_event_touches:
  assumes "record_event C i et payload now s = Inr t"
  shows "touches i s t"
proof -
  obtain d where "\<And>j. j \<noteq> i \<Longrightarrow> domain_events t j = domain_events s j"
    using record_event_log [OF assms] by blast
  with record_event_frame [OF assms] show ?thesis
    by (simp add: touches_def)
qed

lemma put_domain_touches: "(\<And>d. d_id (f d) = d_id d) \<Longrightarrow> touches i s (put_domain i f s)"
  by (simp add: touches_def doms.get_put_other key_kept_def)

lemma put_check_touches: "(\<And>c. check_key (f c) = check_key c) \<Longrightarrow> touches i s (put_check (i, ty) f s)"
  by (simp add: touches_def chks.get_put_other key_kept_def)

lemma put_claim_touches:
  assumes "tables_ok s" and "active_claim s i = Some claim"
    and "\<And>c. c_id (f c) = c_id c" "\<And>c. c_domain_id (f c) = c_domain_id c"
  shows "touches i s (put_claim (c_id claim) f s)"
proof -
  have dist: "distinct (map c_id (claims s))"
    using assms(1) by (simp add: tables_ok_def keys_ok_def)
  have owner: "c_domain_id c = i" if "c \<in> set (claims s)" "c_id c = c_id claim" for c
    using that active_claim_Some [OF assms(2)] dist by (metis find_row_unique option.inject)
  have "filter (\<lambda>c. c_domain_id c = j) (update_row c_id (c_id claim) f (claims s))
      = filter (\<lambda>c. c_domain_id c = j) (claims s)" if "j \<noteq> i" for j
    unfolding update_row_def
    by (rule find_filter_same) (use assms(4) owner that in auto)
  then show ?thesis
    by (simp add: touches_def active_claim_def domain_claims_def put_claim_def)
qed

section \<open>Invariants of a domain\<close>

definition audit_at :: "db \<Rightarrow> uuid \<Rightarrow> bool" where
  "audit_at s i = (\<forall>d. domain_row s i = Some d \<longrightarrow> observe s d = replay_events (domain_events s i))"

definition tomb_at :: "db \<Rightarrow> uuid \<Rightarrow> bool" where
  "tomb_at s i = (\<forall>d. domain_row s i = Some d \<longrightarrow> d_is_deleted d \<longrightarrow>
     d_status d = DELETING \<and> active_claim s i = None
     \<and> d_purge_after d = map_option (\<lambda>t. t + TOMBSTONE_RETENTION) (d_deleted_at d))"

definition calm_at :: "db \<Rightarrow> uuid \<Rightarrow> bool" where
  "calm_at s i = (\<forall>d. domain_row s i = Some d \<longrightarrow> d_status d = READY \<longrightarrow>
     (\<forall>ty. check_status_of s i ty \<noteq> Check_Failing))"

definition dom_inv :: "db \<Rightarrow> uuid \<Rightarrow> bool" where
  "dom_inv s i = (audit_at s i \<and> tomb_at s i \<and> calm_at s i)"

lemma observe_cong:
  assumes "d_status d' = d_status d" "d_id d' = d_id d"
    and "\<And>ty. check_row t (d_id d, ty) = check_row s (d_id d, ty)"
    and "active_claim t (d_id d) = active_claim s (d_id d)"
  shows "observe t d' = observe s d"
  using assms by (simp add: observe_def check_status_of_def fun_eq_iff)

lemma touches_dom_inv:
  assumes "touches i s t" and "j \<noteq> i" and "dom_inv s j"
  shows "dom_inv t j"
proof -
  have *: "domain_row t j = domain_row s j" "active_claim t j = active_claim s j"
    "domain_events t j = domain_events s j" "\<And>ty. check_row t (j, ty) = check_row s (j, ty)"
    using assms(1,2) by (auto simp: touches_def)
  have "observe t d = observe s d" if "domain_row s j = Some d" for d
    by (rule observe_cong) (use domain_rowD [OF that] * in simp_all)
  with assms(3) * show ?thesis
    by (auto simp: dom_inv_def audit_at_def tomb_at_def calm_at_def check_status_of_def)
qed

text \<open>An event whose reading matches the change made before it keeps the audit trail exact.\<close>

lemma audit_record:
  assumes "record_event C i et payload now s1 = Inr t"
    and "\<And>d. domain_row s1 i = Some d \<Longrightarrow>
      observe s1 d = apply_event (replay_events (domain_events s1 i)) (event_of s1 d et payload now)"
  shows "audit_at t i"
proof -
  from assms(1) obtain d where d: "domain_row s1 i = Some d"
    and log: "domain_events t i = domain_events s1 i @ [event_of s1 d et payload now]"
    by (rule record_event_log)
  have "observe t d = observe s1 d"
    using record_event_frame [OF assms(1)] by (intro observe_cong) simp_all
  with assms(2) [OF d] d log show ?thesis
    by (simp add: audit_at_def record_event_frame [OF assms(1)] replay_events_def)
qed

lemma audit_record_neutral:
  assumes "record_event C i et payload now s = Inr t" and "audit_at s i"
    and "et \<in> {DOMAIN_CREATED, DOMAIN_IMPORTED, RECHECK_REQUESTED, CONNECT_URL_ISSUED}"
  shows "audit_at t i"
  by (rule audit_record [OF assms(1)])
    (use assms(2,3) in \<open>auto simp: audit_at_def apply_event_def event_of_def\<close>)

text \<open>Recording an event does not touch what the other two invariants read.\<close>

lemma record_event_tomb_calm:
  assumes "record_event C i et payload now s = Inr t"
  shows "tomb_at t = tomb_at s" "calm_at t = calm_at s" "check_status_of t = check_status_of s"
  using record_event_frame [OF assms]
  by (auto simp: tomb_at_def calm_at_def check_status_of_def fun_eq_iff)

section \<open>Each operation keeps the invariants\<close>

text \<open>
  What a successful operation on domain \<open>i\<close> guarantees: well-formed tables, nothing else
  touched, and the domain's row changed at most in the columns of the lifecycle.
\<close>

definition row_kept :: "uuid \<Rightarrow> db \<Rightarrow> db \<Rightarrow> bool" where
  "row_kept i s t = (\<forall>d. domain_row s i = Some d \<longrightarrow> (\<exists>d'. domain_row t i = Some d'
     \<and> d_deleted_at d' = d_deleted_at d \<and> d_hostname d' = d_hostname d
     \<and> d_application_id d' = d_application_id d))"

definition sound_step :: "uuid \<Rightarrow> db \<Rightarrow> db \<Rightarrow> bool" where
  "sound_step i s t = (tables_ok t \<and> touches i s t \<and> audit_at t i \<and> tomb_at t i \<and> row_kept i s t)"

lemma row_kept_trans: "row_kept i s t \<Longrightarrow> row_kept i t u \<Longrightarrow> row_kept i s u"
  unfolding row_kept_def by metis

lemma sound_step_refl: "tables_ok s \<Longrightarrow> dom_inv s i \<Longrightarrow> sound_step i s s"
  by (simp add: sound_step_def dom_inv_def row_kept_def)

lemma sound_step_trans: "sound_step i s t \<Longrightarrow> sound_step i t u \<Longrightarrow> sound_step i s u"
  unfolding sound_step_def by (blast intro: touches_trans row_kept_trans)

lemma record_event_sound:
  assumes ev: "record_event C i et payload now s1 = Inr t"
    and wf1: "tables_ok s1" and touch: "touches i s s1" and tomb: "tomb_at s1 i" and row: "row_kept i s s1"
    and reads: "\<And>d. domain_row s1 i = Some d \<Longrightarrow>
      observe s1 d = apply_event (replay_events (domain_events s1 i)) (event_of s1 d et payload now)"
  shows "sound_step i s t"
  unfolding sound_step_def
  using record_event_wf [OF ev wf1] touches_trans [OF touch record_event_touches [OF ev]]
    audit_record [OF ev reads] tomb row
  by (simp add: record_event_tomb_calm [OF ev] record_event_frame [OF ev] row_kept_def)

lemma put_domain_row: "(\<And>d. d_id (f d) = d_id d) \<Longrightarrow>
    domain_row (put_domain i f s) i = map_option f (domain_row s i)"
  by (simp add: doms.get_put key_kept_def)

subsection \<open>Changing status\<close>

lemma transition_statusE:
  assumes "transition_status C i st reason now s = Inr t"
  obtains (same) d where "domain_row s i = Some d" "\<not> d_is_deleted d" "st = d_status d" "t = s"
  | (moved) d where "domain_row s i = Some d" "\<not> d_is_deleted d" "st \<in> set (ALLOWED_TRANSITIONS (d_status d))"
    "st = READY \<Longrightarrow> map_option c_status (active_claim s i) = Some Claim_Verified \<and> checks_passing s i"
    "record_event C i STATUS_CHANGED (Some [(''from'', JStr (domain_status_value (d_status d))),
         (''to'', JStr (domain_status_value st)), (''reason'', jopt JStr reason)]) now
       (put_domain i (\<lambda>d. d\<lparr>d_status := st, d_updated_at := now\<rparr>) s) = Inr t"
  using assms unfolding transition_status_def
  by (auto split: option.splits if_splits)

lemma transition_status_sound:
  assumes "transition_status C i st reason now s = Inr t"
    and "tables_ok s" and "audit_at s i" and "tomb_at s i"
  shows "sound_step i s t"
  using assms(1)
proof (cases rule: transition_statusE)
  case same
  with assms show ?thesis by (simp add: sound_step_def row_kept_def)
next
  case (moved d)
  let ?f = "\<lambda>d. d\<lparr>d_status := st, d_updated_at := now\<rparr>"
  let ?s1 = "put_domain i ?f s"
  let ?p = "[(''from'', JStr (domain_status_value (d_status d))),
    (''to'', JStr (domain_status_value st)), (''reason'', jopt JStr reason)]"
  have row: "domain_row ?s1 i = Some (?f d)"
    using moved by (simp add: put_domain_row)
  have i: "d_id d = i" using domain_rowD moved by auto
  have old: "observe s d = replay_events (domain_events s i)"
    using assms(3) moved by (simp add: audit_at_def)
  show ?thesis
  proof (rule record_event_sound [OF moved(5)])
    show "tables_ok ?s1" using assms(2) by (rule put_domain_wf) (simp_all add: live_def)
    show "touches i s ?s1" by (rule put_domain_touches) simp
    show "tomb_at ?s1 i" using row moved by (simp add: tomb_at_def d_is_deleted_def)
    show "observe ?s1 d' = apply_event (replay_events (domain_events ?s1 i))
        (event_of ?s1 d' STATUS_CHANGED (Some ?p) now)" if "domain_row ?s1 i = Some d'" for d'
      using that row i by (auto simp: apply_event_def event_of_def dict_get_def old [symmetric]
          observe_def check_status_of_def fun_eq_iff)
  qed (use row moved in \<open>simp_all add: row_kept_def\<close>)
qed

lemma transition_status_calm:
  assumes "transition_status C i st reason now s = Inr t" and "calm_at s i \<or> st \<noteq> READY"
  shows "calm_at t i"
  using assms(1)
proof (cases rule: transition_statusE)
  case same
  with assms show ?thesis by (auto simp: calm_at_def)
next
  case (moved d)
  have "check_status_of t i ty = Check_Passing" if "st = READY" for ty
  proof -
    have "map_option ch_status (check_row s (i, ty)) = Some Check_Passing"
      using moved(4) [OF that] by (auto simp: checks_passing_iff)
    then show ?thesis
      by (auto simp: check_status_of_def record_event_frame [OF moved(5)])
  qed
  then show ?thesis
    using moved by (auto simp: calm_at_def record_event_frame [OF moved(5)] put_domain_row)
qed

lemma transition_status_row:
  assumes "transition_status C i st reason now s = Inr t"
  shows "\<exists>d d'. domain_row s i = Some d \<and> domain_row t i = Some d' \<and> d_status d' = st
    \<and> d_deleted_at d' = d_deleted_at d \<and> \<not> d_is_deleted d"
    and "claims t = claims s" and "checks t = checks s"
  using assms(1) by (cases rule: transition_statusE; auto simp: record_event_frame put_domain_row)+

subsection \<open>Recording a check\<close>

lemma upsert_check_frame [simp]:
  "domain_row (upsert_check i t f s) = domain_row s" "active_claim (upsert_check i t f s) = active_claim s"
  "domain_events (upsert_check i t f s) = domain_events s" "events (upsert_check i t f s) = events s"
  "domains (upsert_check i t f s) = domains s" "claims (upsert_check i t f s) = claims s"
  "draws (upsert_check i t f s) = draws s" "applications (upsert_check i t f s) = applications s"
  "subscriptions (upsert_check i t f s) = subscriptions s"
  by (auto simp: upsert_check_def fun_eq_iff split: option.splits)

lemma upsert_check_row:
  assumes "\<And>c. check_key (f c) = check_key c"
  shows "check_row (upsert_check i t f s) k =
    (if k = (i, t) then Some (f (case check_row s k of Some c \<Rightarrow> c | None \<Rightarrow> pending_check i t))
     else check_row s k)"
proof -
  have app: "check_row (s\<lparr>checks := checks s @ [pending_check i t]\<rparr>) k =
      (case check_row s k of None \<Rightarrow> if k = (i, t) then Some (pending_check i t) else None | Some c \<Rightarrow> Some c)" for k
    by (auto simp: check_row_def find_row_append check_key_def pending_check_def split: option.splits)
  show ?thesis
    using assms by (auto simp: upsert_check_def domain_check_of_eq chks.get_put key_kept_def app split: option.splits)
qed

lemma upsert_check_touches:
  "(\<And>c. check_key (f c) = check_key c) \<Longrightarrow> touches i s (upsert_check i t f s)"
  by (simp add: touches_def upsert_check_row)

lemma upsert_check_wf:
  assumes "tables_ok s" and "domain_row s i = Some d" and f: "\<And>c. check_key (f c) = check_key c"
  shows "tables_ok (upsert_check i t f s)"
proof (cases "domain_check_of s i t")
  case None
  then have new: "(i, t) \<notin> check_key ` set (checks s)"
    by (simp add: domain_check_of_eq check_row_def find_row_None)
  have "tables_ok (s\<lparr>checks := checks s @ [pending_check i t]\<rparr>)"
    using assms(1) new domain_rowD [OF assms(2)]
    by (auto simp: tables_ok_def keys_ok_def refs_ok_def log_ok_def check_key_def pending_check_def)
  with None f show ?thesis by (simp add: upsert_check_def put_check_wf)
next
  case (Some c)
  with assms show ?thesis by (simp add: upsert_check_def put_check_wf)
qed

lemma record_checkE:
  assumes "record_check C i ty st error_code message details at nxt s = Inr t"
  obtains d f u where "domain_row s i = Some d"
    and "\<And>c. check_key (f c) = check_key c" and "\<And>c. ch_status (f c) = st"
    and "record_event C i CHECK_UPDATED (Some [(''check'', JStr (check_type_value ty)),
      (''from'', jopt (\<lambda>p. JStr (check_status_value p)) (map_option ch_status (check_row s (i, ty)))),
      (''to'', JStr (check_status_value st)),
      (''error_code'', jopt JStr (if st = Check_Failing then error_code else None))]) at
      (upsert_check i ty f s) = Inr u"
    and "st = Check_Failing \<and> d_status d = READY \<and>
        transition_status C i ATTENTION_REQUIRED (Some (check_type_value ty @ ''_check_failed'')) at u = Inr t
      \<or> \<not> (st = Check_Failing \<and> d_status d = READY) \<and> u = t"
proof -
  let ?code = "if st = Check_Failing then error_code else None"
  let ?f = "\<lambda>c. c\<lparr>ch_status := st, ch_error_code := ?code, ch_message := message,
    ch_details := details, ch_observed_at := Some at, ch_next_check_at := nxt\<rparr>"
  from assms obtain d where d: "domain_row s i = Some d"
    by (auto simp: record_check_def split: option.splits)
  from assms d obtain u where
    "record_event C i CHECK_UPDATED (Some [(''check'', JStr (check_type_value ty)),
      (''from'', jopt (\<lambda>p. JStr (check_status_value p)) (map_option ch_status (check_row s (i, ty)))),
      (''to'', JStr (check_status_value st)), (''error_code'', jopt JStr ?code)]) at
      (upsert_check i ty ?f s) = Inr u"
    "(if st = Check_Failing \<and> d_status d = READY
      then transition_status C i ATTENTION_REQUIRED (Some (check_type_value ty @ ''_check_failed'')) at u
      else Inr u) = Inr t"
    by (auto simp: record_check_def Let_def domain_check_of_eq simp del: if_split elim!: bind_res_InrE)
  then show ?thesis
    by (intro that [OF d, of ?f u]) (auto simp: check_key_def split: if_splits)
qed

lemma upsert_check_status:
  assumes "\<And>c. check_key (f c) = check_key c" and "\<And>c. ch_status (f c) = st"
  shows "check_status_of (upsert_check i ty f s) i = (check_status_of s i)(ty := st)"
  using assms by (auto simp: check_status_of_def upsert_check_row fun_eq_iff)

lemma record_check_sound:
  assumes "record_check C i ty st error_code message details at nxt s = Inr t"
    and "tables_ok s" and "audit_at s i" and "tomb_at s i"
  shows "sound_step i s t"
  using assms(1)
proof (rule record_checkE)
  fix d f u
  let ?p = "[(''check'', JStr (check_type_value ty)),
      (''from'', jopt (\<lambda>p. JStr (check_status_value p)) (map_option ch_status (check_row s (i, ty)))),
      (''to'', JStr (check_status_value st)),
      (''error_code'', jopt JStr (if st = Check_Failing then error_code else None))]"
  let ?s1 = "upsert_check i ty f s"
  assume d: "domain_row s i = Some d" and f: "\<And>c. check_key (f c) = check_key c" "\<And>c. ch_status (f c) = st"
    and ev: "record_event C i CHECK_UPDATED (Some ?p) at ?s1 = Inr u"
    and next_: "st = Check_Failing \<and> d_status d = READY \<and>
        transition_status C i ATTENTION_REQUIRED (Some (check_type_value ty @ ''_check_failed'')) at u = Inr t
      \<or> \<not> (st = Check_Failing \<and> d_status d = READY) \<and> u = t"
  have i: "d_id d = i" using domain_rowD [OF d] by simp
  have old: "observe s d = replay_events (domain_events s i)"
    using assms(3) d by (simp add: audit_at_def)
  have u: "sound_step i s u"
  proof (rule record_event_sound [OF ev])
    show "tables_ok ?s1" by (rule upsert_check_wf [OF assms(2) d f(1)])
    show "touches i s ?s1" by (rule upsert_check_touches [OF f(1)])
    show "tomb_at ?s1 i" "row_kept i s ?s1" using assms(4) by (simp_all add: tomb_at_def row_kept_def)
    show "observe ?s1 d' = apply_event (replay_events (domain_events ?s1 i))
        (event_of ?s1 d' CHECK_UPDATED (Some ?p) at)" if "domain_row ?s1 i = Some d'" for d'
      using that d i by (auto simp: apply_event_def event_of_def dict_get_def old [symmetric]
          observe_def upsert_check_status [OF f])
  qed
  from next_ show "sound_step i s t"
  proof
    assume "st = Check_Failing \<and> d_status d = READY \<and>
        transition_status C i ATTENTION_REQUIRED (Some (check_type_value ty @ ''_check_failed'')) at u = Inr t"
    then have "sound_step i u t"
      using u by (intro transition_status_sound) (auto simp: sound_step_def)
    with u show ?thesis by (rule sound_step_trans)
  qed (use u in simp)
qed

lemma record_check_calm:
  assumes "record_check C i ty st error_code message details at nxt s = Inr t" and "calm_at s i"
  shows "calm_at t i"
  using assms(1)
proof (rule record_checkE)
  fix d f u p
  assume d: "domain_row s i = Some d" and f: "\<And>c. check_key (f c) = check_key c" "\<And>c. ch_status (f c) = st"
    and ev: "record_event C i CHECK_UPDATED p at (upsert_check i ty f s) = Inr u"
    and next_: "st = Check_Failing \<and> d_status d = READY \<and>
        transition_status C i ATTENTION_REQUIRED (Some (check_type_value ty @ ''_check_failed'')) at u = Inr t
      \<or> \<not> (st = Check_Failing \<and> d_status d = READY) \<and> u = t"
  from next_ show ?thesis
  proof
    assume "\<not> (st = Check_Failing \<and> d_status d = READY) \<and> u = t"
    moreover have "domain_row u = domain_row s" "check_status_of u i = (check_status_of s i)(ty := st)"
      by (simp_all add: record_event_frame [OF ev] record_event_tomb_calm [OF ev] upsert_check_status [OF f])
    ultimately show ?thesis
      using assms(2) d by (auto simp: calm_at_def)
  qed (use transition_status_calm in blast)
qed

lemma record_check_status:
  assumes "record_check C i ty st error_code message details at nxt s = Inr t"
  shows "check_status_of t i = (check_status_of s i)(ty := st)" and "claims t = claims s"
proof -
  from assms obtain d f u p where
    f: "\<And>c. check_key (f c) = check_key c" "\<And>c. ch_status (f c) = st"
    and ev: "record_event C i CHECK_UPDATED p at (upsert_check i ty f s) = Inr u"
    and next_: "transition_status C i ATTENTION_REQUIRED (Some (check_type_value ty @ ''_check_failed'')) at u = Inr t
      \<or> u = t"
    by (rule record_checkE) blast
  have "check_status_of u i = (check_status_of s i)(ty := st)" "claims u = claims s"
    using record_event_frame [OF ev] record_event_tomb_calm [OF ev] upsert_check_status [OF f] by simp_all
  moreover have "check_status_of t = check_status_of u" "claims t = claims u"
    using next_ transition_status_row(2,3) [of C i ATTENTION_REQUIRED _ at u t]
    by (auto simp: check_status_of_def check_row_def fun_eq_iff)
  ultimately show "check_status_of t i = (check_status_of s i)(ty := st)" "claims t = claims s"
    by simp_all
qed

subsection \<open>Claims\<close>

lemma put_claim_rows:
  assumes "tables_ok s" and claim: "active_claim s i = Some claim"
    and f: "\<And>c. c_id (f c) = c_id c" "\<And>c. c_domain_id (f c) = c_domain_id c" "\<And>c. c_token (f c) = c_token c"
  shows "tables_ok (put_claim (c_id claim) f s)"
    and "touches i s (put_claim (c_id claim) f s)"
    and "active_claim (put_claim (c_id claim) f s) i = (if claim_live (f claim) then Some (f claim) else None)"
proof -
  let ?t = "put_claim (c_id claim) f s"
  have dist: "distinct (map c_id (claims s))"
    using assms(1) by (simp add: tables_ok_def keys_ok_def)
  have uniq: "c = claim" if "c \<in> set (claims s)" "c_id c = c_id claim" for c
    using that active_claim_Some(1) [OF claim] dist by (metis find_row_unique option.inject)
  have clive: "claim_live claim" using active_claim_Some [OF claim] by (simp add: claim_live_def)
  show wf_t: "tables_ok ?t"
    by (rule put_claim_wf [OF assms(1) f]) (use uniq clive in auto)
  show "touches i s ?t" by (rule put_claim_touches [OF assms(1) claim f(1,2)])
  have set_t: "set (claims ?t) = (\<lambda>c. if c_id c = c_id claim then f c else c) ` set (claims s)"
    by (simp add: put_claim_def set_update_row)
  show "active_claim ?t i = (if claim_live (f claim) then Some (f claim) else None)"
  proof (cases "claim_live (f claim)")
    case True
    have "f claim \<in> set (claims ?t)"
      using active_claim_Some(1) [OF claim] by (force simp: set_t)
    with True wf_t f active_claim_Some(2) [OF claim] show ?thesis
      by (simp add: active_claim_intro claim_live_def)
  next
    case False
    have "c_status c' = Claim_Revoked" if "c' \<in> set (claims ?t)" "c_domain_id c' = i" for c'
    proof (rule ccontr)
      assume live: "c_status c' \<noteq> Claim_Revoked"
      from that(1) obtain c where c: "c \<in> set (claims s)" "c' = (if c_id c = c_id claim then f c else c)"
        by (auto simp: set_t)
      show False
      proof (cases "c_id c = c_id claim")
        case True
        with c uniq False live show False by (auto simp: claim_live_def)
      next
        case neq: False
        with c that live assms(1) have "active_claim s i = Some c" by (auto intro: active_claim_intro)
        with claim neq show False by simp
      qed
    qed
    with False show ?thesis by (simp add: active_claim_None)
  qed
qed

lemma revoke_live_claim_sound:
  assumes "revoke_live_claim C i reason now s = Inr t"
    and "tables_ok s" and "audit_at s i" and "domain_row s i = Some d"
    and "tomb_at s i"
  shows "sound_step i s t" and "active_claim t i = None" and "domain_row t = domain_row s"
    and "check_row t = check_row s"
proof -
  have "sound_step i s t \<and> active_claim t i = None \<and> domain_row t = domain_row s \<and> check_row t = check_row s"
  proof (cases "active_claim s i")
    case None
    with assms show ?thesis by (simp add: revoke_live_claim_def sound_step_def row_kept_def)
  next
    case (Some claim)
    let ?f = "\<lambda>c. c\<lparr>c_status := Claim_Revoked, c_revoked_at := Some now\<rparr>"
    let ?s1 = "put_claim (c_id claim) ?f s"
    let ?p = "[(''claim_id'', JStr (uuid_str (c_id claim))), (''reason'', JStr reason)]"
    have rows: "tables_ok ?s1" "touches i s ?s1" "active_claim ?s1 i = None"
      using put_claim_rows [OF assms(2) Some, of ?f] by (simp_all add: claim_live_def)
    from assms Some have ev: "record_event C i CLAIM_REVOKED (Some ?p) now ?s1 = Inr t"
      by (simp add: revoke_live_claim_def)
    have i: "d_id d = i" using domain_rowD [OF assms(4)] by simp
    have old: "observe s d = replay_events (domain_events s i)"
      using assms(3,4) by (simp add: audit_at_def)
    have "sound_step i s t"
    proof (rule record_event_sound [OF ev rows(1,2)])
      show "tomb_at ?s1 i" "row_kept i s ?s1"
        using assms(5) rows(3) by (simp_all add: tomb_at_def row_kept_def)
      show "observe ?s1 d' = apply_event (replay_events (domain_events ?s1 i))
          (event_of ?s1 d' CLAIM_REVOKED (Some ?p) now)" if "domain_row ?s1 i = Some d'" for d'
        using that assms(4) i by (auto simp: apply_event_def event_of_def old [symmetric] observe_def
            rows(3) check_status_of_def fun_eq_iff)
    qed
    with rows show ?thesis by (simp add: record_event_frame [OF ev])
  qed
  then show "sound_step i s t" "active_claim t i = None" "domain_row t = domain_row s" "check_row t = check_row s"
    by simp_all
qed

lemma mark_claim_verifiedE:
  assumes "mark_claim_verified C i meth now s = Inr t"
  obtains d claim where "domain_row s i = Some d" "\<not> d_is_deleted d" "active_claim s i = Some claim"
    "record_event C i CLAIM_VERIFIED (Some [(''claim_id'', JStr (uuid_str (c_id claim))),
       (''method'', JStr meth)]) now (put_claim (c_id claim) (\<lambda>c. c\<lparr>c_status := Claim_Verified,
          c_verification_method := Some meth, c_verified_at := Some now\<rparr>) s) = Inr t"
  using assms by (auto simp: mark_claim_verified_def split: option.splits if_splits)

lemma mark_claim_verified_sound:
  assumes "mark_claim_verified C i meth now s = Inr t" and "tables_ok s" and "audit_at s i" and "tomb_at s i"
  shows "sound_step i s t" and "map_option c_status (active_claim t i) = Some Claim_Verified"
    and "domain_row t = domain_row s" and "check_row t = check_row s"
proof -
  from assms(1) obtain d claim where d: "domain_row s i = Some d" "\<not> d_is_deleted d"
    and claim: "active_claim s i = Some claim"
    and ev: "record_event C i CLAIM_VERIFIED (Some [(''claim_id'', JStr (uuid_str (c_id claim))),
       (''method'', JStr meth)]) now (put_claim (c_id claim) (\<lambda>c. c\<lparr>c_status := Claim_Verified,
          c_verification_method := Some meth, c_verified_at := Some now\<rparr>) s) = Inr t"
    by (rule mark_claim_verifiedE)
  let ?f = "\<lambda>c. c\<lparr>c_status := Claim_Verified, c_verification_method := Some meth, c_verified_at := Some now\<rparr>"
  let ?s1 = "put_claim (c_id claim) ?f s"
  let ?p = "[(''claim_id'', JStr (uuid_str (c_id claim))), (''method'', JStr meth)]"
  have rows: "tables_ok ?s1" "touches i s ?s1" "active_claim ?s1 i = Some (?f claim)"
    using put_claim_rows [OF assms(2) claim, of ?f] by (simp_all add: claim_live_def)
  have i: "d_id d = i" using domain_rowD [OF d(1)] by simp
  have old: "observe s d = replay_events (domain_events s i)"
    using assms(3) d by (simp add: audit_at_def)
  show "sound_step i s t"
  proof (rule record_event_sound [OF ev rows(1,2)])
    show "tomb_at ?s1 i" "row_kept i s ?s1"
      using d by (simp_all add: tomb_at_def row_kept_def)
    show "observe ?s1 d' = apply_event (replay_events (domain_events ?s1 i))
        (event_of ?s1 d' CLAIM_VERIFIED (Some ?p) now)" if "domain_row ?s1 i = Some d'" for d'
      using that d i by (auto simp: apply_event_def event_of_def old [symmetric] observe_def
          rows(3) check_status_of_def fun_eq_iff)
  qed
  show "map_option c_status (active_claim t i) = Some Claim_Verified" "domain_row t = domain_row s"
    "check_row t = check_row s"
    using rows by (simp_all add: record_event_frame [OF ev])
qed

lemma issue_claimE:
  assumes "issue_claim C i target now s = Inr t"
  obtains d claim where "domain_row s i = Some d"
    "c_id claim = Suc (draws s)" "c_domain_id claim = i" "c_status claim = Claim_Pending"
    "c_token claim = rng s (draws s)" "c_cname_target claim = target"
    "c_txt_record_name claim = CHALLENGE_LABEL @ ''.'' @ d_hostname d"
    "\<forall>c\<in>set (claims s). c_token c \<noteq> c_token claim"
    "\<forall>c\<in>set (claims s). c_domain_id c = i \<longrightarrow> c_status c = Claim_Revoked"
    "record_event C i CLAIM_ISSUED (Some [(''claim_id'', JStr (uuid_str (c_id claim))),
        (''txt_record_name'', JStr (c_txt_record_name claim))]) now
      (s\<lparr>draws := Suc (Suc (draws s)), claims := claims s @ [claim]\<rparr>) = Inr t"
proof -
  from assms obtain d where d: "domain_row s i = Some d"
    by (auto simp: issue_claim_def split: option.splits)
  let ?claim = "\<lparr>c_id = Suc (draws s), c_domain_id = i,
     c_txt_record_name = CHALLENGE_LABEL @ ''.'' @ d_hostname d, c_token = rng s (draws s),
     c_cname_target = target, c_status = Claim_Pending, c_verification_method = None,
     c_verified_at = None, c_revoked_at = None, c_expires_at = None, c_created_at = now\<rparr>"
  from assms d have "\<forall>c\<in>set (claims s). c_token c \<noteq> c_token ?claim"
    "\<forall>c\<in>set (claims s). c_domain_id c = i \<longrightarrow> c_status c = Claim_Revoked"
    "record_event C i CLAIM_ISSUED (Some [(''claim_id'', JStr (uuid_str (c_id ?claim))),
        (''txt_record_name'', JStr (c_txt_record_name ?claim))]) now
      (s\<lparr>draws := Suc (Suc (draws s)), claims := claims s @ [?claim]\<rparr>) = Inr t"
    by (auto simp: issue_claim_def token_urlsafe_def uuid4_def Let_def list_ex_iff split: if_splits)
  then show ?thesis by (intro that [of d ?claim]) (use d in simp_all)
qed

lemma add_claim_rows:
  assumes "tables_ok s" and "domain_row s i = Some d" and "c_id claim = Suc (draws s)" and "c_domain_id claim = i"
    and "c_status claim = Claim_Pending" and "\<forall>c\<in>set (claims s). c_token c \<noteq> c_token claim"
    and none: "\<forall>c\<in>set (claims s). c_domain_id c = i \<longrightarrow> c_status c = Claim_Revoked"
  shows "tables_ok (s\<lparr>draws := Suc (Suc (draws s)), claims := claims s @ [claim]\<rparr>)" (is "tables_ok ?t")
    and "touches i s (s\<lparr>draws := Suc (Suc (draws s)), claims := claims s @ [claim]\<rparr>)"
    and "active_claim (s\<lparr>draws := Suc (Suc (draws s)), claims := claims s @ [claim]\<rparr>) i = Some claim"
proof -
  have fresh: "c_id claim \<notin> c_id ` set (claims s)"
    using assms(1,3) by (force simp: tables_ok_def refs_ok_def)
  have "i \<notin> c_domain_id ` set (filter claim_live (claims s))"
    using none by (auto simp: claim_live_def)
  with fresh assms have "keys_ok ?t"
    by (auto simp: tables_ok_def keys_ok_def claim_live_def)
  moreover have "i \<in> d_id ` set (domains s)" using domain_rowD [OF assms(2)] by auto
  then have "refs_ok ?t"
    using assms(1,3,4) by (auto simp: tables_ok_def refs_ok_def less_SucI)
  ultimately show wf_t: "tables_ok ?t"
    using assms(1) by (simp add: tables_ok_def log_ok_def)
  show "touches i s ?t"
    using assms(4) by (auto simp: touches_def active_claim_def domain_claims_def)
  show "active_claim ?t i = Some claim"
    by (rule active_claim_intro [OF wf_t]) (use assms in simp_all)
qed

lemma issue_claim_sound:
  assumes "issue_claim C i target now s = Inr t" and "tables_ok s" and "audit_at s i"
    and live: "\<And>d. domain_row s i = Some d \<Longrightarrow> \<not> d_is_deleted d"
  shows "sound_step i s t" and "map_option c_status (active_claim t i) = Some Claim_Pending"
    and "domain_row t = domain_row s" and "check_row t = check_row s"
proof -
  from assms(1) obtain d claim where d: "domain_row s i = Some d"
    and cl: "c_id claim = Suc (draws s)" "c_domain_id claim = i" "c_status claim = Claim_Pending"
    and un: "\<forall>c\<in>set (claims s). c_token c \<noteq> c_token claim"
      "\<forall>c\<in>set (claims s). c_domain_id c = i \<longrightarrow> c_status c = Claim_Revoked"
    and ev: "record_event C i CLAIM_ISSUED (Some [(''claim_id'', JStr (uuid_str (c_id claim))),
        (''txt_record_name'', JStr (c_txt_record_name claim))]) now
      (s\<lparr>draws := Suc (Suc (draws s)), claims := claims s @ [claim]\<rparr>) = Inr t"
    by (rule issue_claimE)
  let ?s1 = "s\<lparr>draws := Suc (Suc (draws s)), claims := claims s @ [claim]\<rparr>"
  let ?p = "[(''claim_id'', JStr (uuid_str (c_id claim))), (''txt_record_name'', JStr (c_txt_record_name claim))]"
  note rows = add_claim_rows [OF assms(2) d cl un]
  have i: "d_id d = i" using domain_rowD [OF d] by simp
  have old: "observe s d = replay_events (domain_events s i)"
    using assms(3) d by (simp add: audit_at_def)
  show "sound_step i s t"
  proof (rule record_event_sound [OF ev rows(1,2)])
    show "tomb_at ?s1 i" "row_kept i s ?s1"
      using d live by (simp_all add: tomb_at_def row_kept_def)
    show "observe ?s1 d' = apply_event (replay_events (domain_events ?s1 i))
        (event_of ?s1 d' CLAIM_ISSUED (Some ?p) now)" if "domain_row ?s1 i = Some d'" for d'
      using that d i cl by (auto simp: apply_event_def event_of_def old [symmetric] observe_def
          rows(3) check_status_of_def fun_eq_iff)
  qed
  show "map_option c_status (active_claim t i) = Some Claim_Pending" "domain_row t = domain_row s"
    "check_row t = check_row s"
    using rows cl by (simp_all add: record_event_frame [OF ev])
qed

subsection \<open>Re-issuing a claim\<close>

lemma get_domain_row:
  assumes "get_domain s a i include_deleted = Inr d" and "tables_ok s"
  shows "domain_row s i = Some d" and "d_application_id d = app_id a" and "\<not> include_deleted \<Longrightarrow> \<not> d_is_deleted d"
proof -
  from assms(1) have "find (\<lambda>d. d_id d = i \<and> d_application_id d = app_id a) (domain_query include_deleted s) = Some d"
    by (auto simp: get_domain_def split: option.splits)
  from find_SomeD [OF this] have d: "d \<in> set (domain_query include_deleted s)" "d_id d = i" "d_application_id d = app_id a"
    by auto
  then have "d \<in> set (domains s)" by (auto simp: domain_query_def split: if_splits)
  with d assms(2) show "domain_row s i = Some d" by (auto dest: domain_row_intro)
  show "d_application_id d = app_id a" by fact
  show "\<not> include_deleted \<Longrightarrow> \<not> d_is_deleted d" using d by (auto simp: domain_query_def d_is_deleted_def)
qed

lemma reset_checks_sound:
  assumes "fold_res (reset_check C i now) ts s = Inr t" and "tables_ok s" and "dom_inv s i"
  shows "sound_step i s t \<and> calm_at t i \<and> claims t = claims s
    \<and> (\<forall>ty\<in>set ts. check_status_of t i ty = Check_Pending)
    \<and> (\<forall>ty. check_status_of s i ty = Check_Pending \<longrightarrow> check_status_of t i ty = Check_Pending)"
  using assms
proof (induction ts arbitrary: s)
  case Nil
  then show ?case by (auto simp: sound_step_refl dom_inv_def)
next
  case (Cons ty ts)
  then obtain u where u: "reset_check C i now ty s = Inr u" "fold_res (reset_check C i now) ts u = Inr t"
    by (auto elim: bind_res_InrE)
  have su: "sound_step i s u" "calm_at u i"
    using record_check_sound [OF u(1) [unfolded reset_check_def]] record_check_calm [OF u(1) [unfolded reset_check_def]]
      Cons.prems by (auto simp: dom_inv_def)
  then have "tables_ok u" "dom_inv u i" by (auto simp: sound_step_def dom_inv_def)
  note ih = Cons.IH [OF u(2) this]
  have "check_status_of u i = (check_status_of s i)(ty := Check_Pending)" "claims u = claims s"
    using record_check_status [OF u(1) [unfolded reset_check_def]] by simp_all
  with ih su show ?case
    by (auto intro: sound_step_trans)
qed

lemma reissue_claimE:
  assumes "reissue_claim C a i now s = Inr t"
  obtains d s1 s2 s3 d2 where "get_domain s a i False = Inr d"
    "revoke_live_claim C i ''reissued'' now s = Inr s1"
    "fold_res (reset_check C i now) check_types s1 = Inr s2"
    "domain_row s2 i = Some d2"
    "d_status d2 \<in> set RESET_ON_REISSUE \<and> transition_status C i PENDING_DNS (Some ''claim_reissued'') now s2 = Inr s3
      \<or> d_status d2 \<notin> set RESET_ON_REISSUE \<and> s3 = s2"
    "issue_claim C i (app_cname_target a) now s3 = Inr t"
  using assms unfolding reissue_claim_def
  by (elim bind_res_InrE) (auto split: option.splits if_splits elim!: bind_res_InrE)

lemma reissue_claim_sound:
  assumes "reissue_claim C a i now s = Inr t" and "tables_ok s" and "dom_inv s i"
  shows "sound_step i s t" and "calm_at t i"
    and "map_option c_status (active_claim t i) = Some Claim_Pending"
    and "check_status_of t i = (\<lambda>_. Check_Pending)"
    and "\<exists>d. domain_row t i = Some d \<and> \<not> d_is_deleted d \<and> d_status d \<in> {PENDING_DNS, SUSPENDED, DELETING}
      \<and> d_application_id d = app_id a"
proof -
  from assms(1) obtain d s1 s2 s3 d2 where
    g: "get_domain s a i False = Inr d" and 1: "revoke_live_claim C i ''reissued'' now s = Inr s1"
    and 2: "fold_res (reset_check C i now) check_types s1 = Inr s2"
    and d2: "domain_row s2 i = Some d2"
    and 3: "d_status d2 \<in> set RESET_ON_REISSUE \<and> transition_status C i PENDING_DNS (Some ''claim_reissued'') now s2 = Inr s3
      \<or> d_status d2 \<notin> set RESET_ON_REISSUE \<and> s3 = s2"
    and 4: "issue_claim C i (app_cname_target a) now s3 = Inr t"
    by (rule reissue_claimE)
  note row = get_domain_row [OF g assms(2)]
  have inv: "audit_at s i" "tomb_at s i" "calm_at s i" using assms(3) by (simp_all add: dom_inv_def)
  note r1 = revoke_live_claim_sound [OF 1 assms(2) inv(1) row(1) inv(2)]
  have w1: "tables_ok s1" "dom_inv s1 i"
    using r1 inv by (auto simp: sound_step_def dom_inv_def calm_at_def check_status_of_def)
  note r2 = reset_checks_sound [OF 2 w1]
  have w2: "tables_ok s2" "audit_at s2 i" "tomb_at s2 i" using r2 by (auto simp: sound_step_def)
  have r3: "sound_step i s2 s3" "check_status_of s3 = check_status_of s2"
    "\<exists>d3. domain_row s3 i = Some d3 \<and> d_status d3 \<in> {PENDING_DNS, SUSPENDED, DELETING}"
  proof -
    have "d_status d2 \<in> {PENDING_DNS, SUSPENDED, DELETING}" if "d_status d2 \<notin> set RESET_ON_REISSUE"
      using that by (cases "d_status d2") (simp_all add: RESET_ON_REISSUE_def)
    with 3 d2 w2 transition_status_sound [of C i PENDING_DNS "Some ''claim_reissued''" now s2 s3]
      transition_status_row [of C i PENDING_DNS "Some ''claim_reissued''" now s2 s3]
    show "sound_step i s2 s3" "check_status_of s3 = check_status_of s2"
      "\<exists>d3. domain_row s3 i = Some d3 \<and> d_status d3 \<in> {PENDING_DNS, SUSPENDED, DELETING}"
      by (auto simp: sound_step_def row_kept_def check_status_of_def check_row_def fun_eq_iff)
  qed
  have w3: "sound_step i s s3"
    using r1(1) r2 r3(1) sound_step_trans by blast
  have d3: "\<exists>d3. domain_row s3 i = Some d3 \<and> \<not> d_is_deleted d3 \<and> d_status d3 \<in> {PENDING_DNS, SUSPENDED, DELETING}
      \<and> d_application_id d3 = app_id a"
    using w3 r3(3) row by (auto simp: sound_step_def row_kept_def d_is_deleted_def)
  have "audit_at s3 i" "tables_ok s3" using r3(1) by (auto simp: sound_step_def)
  then have r4: "sound_step i s3 t" "map_option c_status (active_claim t i) = Some Claim_Pending"
    "domain_row t = domain_row s3" "check_row t = check_row s3"
    using issue_claim_sound [OF 4] d3 by auto
  show "sound_step i s t" using w3 r4(1) by (rule sound_step_trans)
  show "map_option c_status (active_claim t i) = Some Claim_Pending" by fact
  show pend: "check_status_of t i = (\<lambda>_. Check_Pending)"
    using r2 r3(2) r4(4) by (auto simp: check_status_of_def fun_eq_iff)
  show "\<exists>d. domain_row t i = Some d \<and> \<not> d_is_deleted d \<and> d_status d \<in> {PENDING_DNS, SUSPENDED, DELETING}
      \<and> d_application_id d = app_id a"
    using d3 r4(3) by simp
  show "calm_at t i" using pend by (simp add: calm_at_def)
qed

subsection \<open>Deletion\<close>

lemma delete_domainE:
  assumes "delete_domain C a i now s = Inr t"
  obtains (already) d where "get_domain s a i True = Inr d" "d_is_deleted d" "t = s"
  | (gone) d s2 where "get_domain s a i True = Inr d" "\<not> d_is_deleted d"
    "revoke_live_claim C i ''deleted'' now (put_domain i (\<lambda>d. d\<lparr>d_status := DELETING, d_deleted_at := Some now,
         d_purge_after := Some (now + TOMBSTONE_RETENTION), d_updated_at := now\<rparr>) s) = Inr s2"
    "record_event C i DOMAIN_DELETED (Some [(''hostname'', JStr (d_hostname d)),
            (''purge_after'', JTime (now + TOMBSTONE_RETENTION))]) now s2 = Inr t"
  using assms unfolding delete_domain_def Let_def
  by (elim bind_res_InrE) (auto split: if_splits elim!: bind_res_InrE)

lemma revoke_live_claim_rows:
  assumes "revoke_live_claim C i reason now s = Inr t" and "tables_ok s" and "domain_row s i = Some d"
  shows "tables_ok t" and "touches i s t" and "active_claim t i = None" and "domain_row t = domain_row s"
    and "check_row t = check_row s"
    and "replay_events (domain_events t i) = (replay_events (domain_events s i))\<lparr>sn_claim :=
      (if active_claim s i = None then sn_claim (replay_events (domain_events s i)) else None)\<rparr>"
proof -
  have "tables_ok t \<and> touches i s t \<and> active_claim t i = None \<and> domain_row t = domain_row s
    \<and> check_row t = check_row s
    \<and> replay_events (domain_events t i) = (replay_events (domain_events s i))\<lparr>sn_claim :=
      (if active_claim s i = None then sn_claim (replay_events (domain_events s i)) else None)\<rparr>"
  proof (cases "active_claim s i")
    case None
    with assms show ?thesis by (simp add: revoke_live_claim_def)
  next
    case (Some claim)
    let ?f = "\<lambda>c. c\<lparr>c_status := Claim_Revoked, c_revoked_at := Some now\<rparr>"
    let ?s1 = "put_claim (c_id claim) ?f s"
    have rows: "tables_ok ?s1" "touches i s ?s1" "active_claim ?s1 i = None"
      using put_claim_rows [OF assms(2) Some, of ?f] by (simp_all add: claim_live_def)
    from assms Some have ev: "record_event C i CLAIM_REVOKED (Some [(''claim_id'', JStr (uuid_str (c_id claim))),
        (''reason'', JStr reason)]) now ?s1 = Inr t"
      by (simp add: revoke_live_claim_def)
    obtain d' where "domain_events t i = domain_events s i @ [event_of ?s1 d' CLAIM_REVOKED
        (Some [(''claim_id'', JStr (uuid_str (c_id claim))), (''reason'', JStr reason)]) now]"
      by (rule record_event_log [OF ev]) simp
    then show ?thesis
      using rows record_event_wf [OF ev] touches_trans [OF rows(2) record_event_touches [OF ev]] Some
      by (simp add: record_event_frame [OF ev] replay_events_def apply_event_def event_of_def)
  qed
  then show "tables_ok t" "touches i s t" "active_claim t i = None" "domain_row t = domain_row s"
    "check_row t = check_row s"
    "replay_events (domain_events t i) = (replay_events (domain_events s i))\<lparr>sn_claim :=
      (if active_claim s i = None then sn_claim (replay_events (domain_events s i)) else None)\<rparr>"
    by blast+
qed

lemma delete_domain_sound:
  assumes "delete_domain C a i now s = Inr t" and "tables_ok s" and "dom_inv s i"
  shows "tables_ok t" and "touches i s t" and "dom_inv t i"
    and "\<exists>d. domain_row t i = Some d \<and> d_is_deleted d \<and> d_application_id d = app_id a"
proof -
  have "tables_ok t \<and> touches i s t \<and> dom_inv t i
    \<and> (\<exists>d. domain_row t i = Some d \<and> d_is_deleted d \<and> d_application_id d = app_id a)"
    using assms(1)
  proof (cases rule: delete_domainE)
    case (already d)
    with assms get_domain_row show ?thesis by auto
  next
    case (gone d s2)
    let ?f = "\<lambda>d. d\<lparr>d_status := DELETING, d_deleted_at := Some now,
         d_purge_after := Some (now + TOMBSTONE_RETENTION), d_updated_at := now\<rparr>"
    let ?s1 = "put_domain i ?f s"
    have d: "domain_row s i = Some d" "d_application_id d = app_id a" "d_id d = i"
      using get_domain_row [OF gone(1) assms(2)] domain_rowD by auto
    have s1: "tables_ok ?s1" "touches i s ?s1" "domain_row ?s1 i = Some (?f d)"
      using put_domain_wf [OF assms(2), of ?f] put_domain_touches [of ?f] d
      by (simp_all add: live_def put_domain_row)
    note s2 = revoke_live_claim_rows [OF gone(3) s1(1,3)]
    note ev = record_event_frame [OF gone(4)]
    have old: "observe s d = replay_events (domain_events s i)"
      using assms(3) d by (simp add: dom_inv_def audit_at_def)
    have "audit_at t i"
    proof (rule audit_record [OF gone(4)])
      fix d' assume "domain_row s2 i = Some d'"
      then have "d' = ?f d" using s1 s2 by simp
      then show "observe s2 d' = apply_event (replay_events (domain_events s2 i))
          (event_of s2 d' DOMAIN_DELETED (Some [(''hostname'', JStr (d_hostname d)),
            (''purge_after'', JTime (now + TOMBSTONE_RETENTION))]) now)"
        using s2 d by (auto simp: observe_def apply_event_def event_of_def old [symmetric] check_status_of_def)
    qed
    moreover have "domain_row t i = Some (?f d)" "active_claim t i = None"
      using s1 s2 ev by simp_all
    moreover have "touches i s t"
      using s1(2) s2(2) record_event_touches [OF gone(4)] touches_trans by blast
    ultimately show ?thesis
      using record_event_wf [OF gone(4) s2(1)] d
      by (auto simp: dom_inv_def tomb_at_def calm_at_def d_is_deleted_def)
  qed
  then show "tables_ok t" "touches i s t" "dom_inv t i"
    "\<exists>d. domain_row t i = Some d \<and> d_is_deleted d \<and> d_application_id d = app_id a"
    by blast+
qed

subsection \<open>Manual rechecks\<close>

lemma request_recheckE:
  assumes "request_recheck C a i who now s = Inr t"
  obtains d where "get_domain s a i True = Inr d" "\<not> d_is_deleted d" "d_status d \<noteq> DELETING"
    "enforce_recheck_limits s d now = Inr ()"
    "record_event C i RECHECK_REQUESTED (Some [(''requested_by'', JStr who)]) now
       (s\<lparr>checks := map (\<lambda>c. if ch_domain_id c = i then c\<lparr>ch_next_check_at := Some now\<rparr> else c) (checks s)\<rparr>) = Inr t"
  using assms unfolding request_recheck_def
  by (elim bind_res_InrE) (auto split: if_splits elim!: bind_res_InrE)

text \<open>Rewriting columns of checks other than key and status is invisible to the lifecycle.\<close>

lemma map_checks_row:
  assumes "\<And>c. check_key (f c) = check_key c"
  shows "check_row (s\<lparr>checks := map f (checks s)\<rparr>) k = map_option f (check_row s k)"
proof -
  have "find_row check_key k (map f cs) = map_option f (find_row check_key k cs)" for cs
    by (induction cs) (auto simp: assms)
  then show ?thesis by (simp add: check_row_def)
qed

lemma map_checks_rows:
  assumes "\<And>c. check_key (f c) = check_key c"
  shows "tables_ok s \<Longrightarrow> tables_ok (s\<lparr>checks := map f (checks s)\<rparr>)"
    and "(\<And>c. ch_domain_id c \<noteq> i \<Longrightarrow> f c = c) \<Longrightarrow> touches i s (s\<lparr>checks := map f (checks s)\<rparr>)"
proof -
  let ?t = "s\<lparr>checks := map f (checks s)\<rparr>"
  have dom: "ch_domain_id (f c) = ch_domain_id c" for c
    using assms [of c] by (simp add: check_key_def)
  have keys: "check_key \<circ> f = check_key"
    by (simp add: assms fun_eq_iff)
  show "tables_ok s \<Longrightarrow> tables_ok ?t"
    by (simp add: keys tables_ok_def keys_ok_def refs_ok_def log_ok_def dom)
  assume same: "\<And>c. ch_domain_id c \<noteq> i \<Longrightarrow> f c = c"
  have "check_row ?t (j, ty) = check_row s (j, ty)" if "j \<noteq> i" for j ty
  proof (cases "check_row s (j, ty)")
    case (Some c)
    then have "ch_domain_id c = j"
      by (auto simp: check_row_def check_key_def dest!: find_row_Some)
    with that Some same show ?thesis by (simp add: map_checks_row [OF assms])
  qed (simp add: map_checks_row [OF assms])
  then show "touches i s ?t" by (simp add: touches_def)
qed

lemma map_checks_inv:
  assumes "\<And>c. check_key (f c) = check_key c" and "\<And>c. ch_status (f c) = ch_status c"
    and "dom_inv s j"
  shows "dom_inv (s\<lparr>checks := map f (checks s)\<rparr>) j"
proof -
  have "check_status_of (s\<lparr>checks := map f (checks s)\<rparr>) = check_status_of s"
    by (auto simp: check_status_of_def fun_eq_iff assms(2) map_checks_row [OF assms(1)] split: option.splits)
  with assms(3) show ?thesis
    by (simp add: dom_inv_def audit_at_def tomb_at_def calm_at_def observe_def)
qed

lemma request_recheck_sound:
  assumes "request_recheck C a i who now s = Inr t" and "tables_ok s" and "dom_inv s i"
  shows "tables_ok t" and "touches i s t" and "dom_inv t i" and "domain_row t = domain_row s"
proof -
  from assms(1) obtain d where ev: "record_event C i RECHECK_REQUESTED (Some [(''requested_by'', JStr who)]) now
       (s\<lparr>checks := map (\<lambda>c. if ch_domain_id c = i then c\<lparr>ch_next_check_at := Some now\<rparr> else c) (checks s)\<rparr>) = Inr t"
    by (rule request_recheckE)
  let ?f = "\<lambda>c. if ch_domain_id c = i then c\<lparr>ch_next_check_at := Some now\<rparr> else c"
  have f: "check_key (?f c) = check_key c" "ch_status (?f c) = ch_status c" "ch_domain_id c \<noteq> i \<Longrightarrow> ?f c = c" for c
    by (auto simp: check_key_def)
  note rows = map_checks_rows [of ?f, OF f(1)]
  show "tables_ok t" using record_event_wf [OF ev] rows(1) assms(2) by simp
  show "touches i s t" using rows(2) [OF f(3)] record_event_touches [OF ev] touches_trans by blast
  have inv: "dom_inv (s\<lparr>checks := map ?f (checks s)\<rparr>) i"
    by (rule map_checks_inv [OF f(1,2) assms(3)])
  then show "dom_inv t i"
    using audit_record_neutral [OF ev] by (simp add: dom_inv_def record_event_tomb_calm [OF ev])
  show "domain_row t = domain_row s" by (simp add: record_event_frame [OF ev])
qed

subsection \<open>Claiming a hostname\<close>

definition new_domain ::
    "config \<Rightarrow> application \<Rightarrow> string \<Rightarrow> string \<Rightarrow> dict option \<Rightarrow> instant \<Rightarrow> uuid \<Rightarrow> domain" where
  "new_domain C a canonical reference metadata now i = \<lparr>d_id = i, d_application_id = app_id a,
     d_hostname = canonical, d_reference = strip reference, d_status = PENDING_DNS, d_extra = metadata,
     d_deleted_at = None, d_purge_after = None, d_zone = Some (default_zone (cfg_libs C) canonical),
     d_connect_started_at = None, d_created_at = now, d_updated_at = now\<rparr>"

definition with_domain :: "domain \<Rightarrow> db \<Rightarrow> db" where
  "with_domain d s = s\<lparr>draws := Suc (draws s), domains := domains s @ [d],
     checks := checks s @ map (pending_check (d_id d)) check_types\<rparr>"

lemma claim_domainE:
  assumes "claim_domain C a hostname reference metadata now s = Inr (i, t)"
  obtains canonical d u where "app_status a = App_Active" "i = draws s"
    "canonicalize (cfg_libs C) False (Some hostname) = Inr canonical"
    "limits_enforce C s a = Inr ()" "enforce_registration_limit s a now = Inr ()"
    "\<forall>d\<in>set (domains s). live d \<longrightarrow> d_hostname d \<noteq> canonical"
    "application_row s (app_id a) \<noteq> None"
    "d = new_domain C a canonical reference metadata now i"
    "record_event C i DOMAIN_CREATED (Some [(''hostname'', JStr canonical), (''reference'', JStr (d_reference d))])
       now (with_domain d s) = Inr u"
    "issue_claim C i (app_cname_target a) now u = Inr t"
proof -
  have 1: "app_status a = App_Active" "\<not> (reference = [] \<or> strip reference = [] \<or> length reference > MAX_REFERENCE_LENGTH)"
    using assms by (auto simp: claim_domain_def split: if_splits)
  with assms obtain canonical where 2: "canonicalize (cfg_libs C) False (Some hostname) = Inr canonical"
    by (auto simp: claim_domain_def elim: bind_res_InrE)
  with assms 1 have 3: "limits_enforce C s a = Inr ()" "enforce_registration_limit s a now = Inr ()"
    by (auto simp: claim_domain_def elim!: bind_res_InrE)
  with assms 1 2 have 4: "\<forall>d\<in>set (domains s). live d \<longrightarrow> d_hostname d \<noteq> canonical"
    "application_row s (app_id a) \<noteq> None"
    by (auto simp: claim_domain_def list_ex_iff live_def split: if_splits)
  let ?d = "new_domain C a canonical reference metadata now (draws s)"
  have "\<not> list_ex (\<lambda>d. d_hostname d = canonical \<and> d_deleted_at d = None) (domains s)"
    using 4 by (auto simp: list_ex_iff live_def)
  with assms 1 2 3 4 obtain u where 5:
    "record_event C (draws s) DOMAIN_CREATED (Some [(''hostname'', JStr canonical), (''reference'', JStr (d_reference ?d))])
       now (with_domain ?d s) = Inr u"
    "issue_claim C (draws s) (app_cname_target a) now u = Inr t" "i = draws s"
    by (auto simp: claim_domain_def uuid4_def Let_def with_domain_def new_domain_def elim!: bind_res_InrE)
  then show ?thesis using that [of canonical ?d u] 1 2 3 4 by simp
qed

lemma with_domain_rows:
  assumes "tables_ok s" and "d_id d = draws s" and "\<forall>x\<in>set (domains s). live x \<longrightarrow> d_hostname x \<noteq> d_hostname d"
  shows "tables_ok (with_domain d s)" and "touches (draws s) s (with_domain d s)"
    and "domain_row (with_domain d s) (draws s) = Some d"
    and "check_status_of (with_domain d s) (draws s) = (\<lambda>_. Check_Pending)"
    and "active_claim (with_domain d s) (draws s) = None"
    and "domain_events (with_domain d s) (draws s) = []"
proof -
  let ?i = "draws s"
  have fresh: "?i \<notin> d_id ` set (domains s)"
    using assms(1) by (force simp: tables_ok_def refs_ok_def)
  have no_check: "ch_domain_id c \<noteq> ?i" if "c \<in> set (checks s)" for c
    using that fresh assms(1) by (force simp: tables_ok_def refs_ok_def)
  have dist: "distinct (map check_key (map (pending_check ?i) check_types))"
    by (simp add: check_types_def check_key_def pending_check_def)
  have disj: "set (map check_key (checks s)) \<inter> set (map check_key (map (pending_check ?i) check_types)) = {}"
    using no_check by (auto simp: check_key_def pending_check_def)
  have "keys_ok (with_domain d s)"
    using assms fresh dist disj by (auto simp: tables_ok_def keys_ok_def with_domain_def)
  moreover have "refs_ok (with_domain d s)"
    using assms(1,2) by (auto simp: tables_ok_def refs_ok_def with_domain_def less_SucI pending_check_def)
  ultimately show "tables_ok (with_domain d s)"
    using assms(1) by (simp add: tables_ok_def log_ok_def with_domain_def)
  have pend: "find_row check_key (?i, ty) (map (pending_check ?i) check_types) = Some (pending_check ?i ty)" for ty
    by (cases ty) (simp_all add: check_types_def check_key_def pending_check_def)
  have none: "find_row check_key (j, ty) (map (pending_check ?i) check_types) = None" if "j \<noteq> ?i" for j ty
    using that by (auto simp: find_row_None check_key_def pending_check_def)
  show "touches ?i s (with_domain d s)"
    using assms(2) none
    by (auto simp: touches_def with_domain_def domain_row_def check_row_def find_row_append
        active_claim_def domain_claims_def split: option.splits)
  show "domain_row (with_domain d s) ?i = Some d"
    using fresh [folded find_row_None [of d_id]] assms(2)
    by (simp add: with_domain_def domain_row_def find_row_append)
  have "find_row check_key (?i, ty) (checks s) = None" for ty
    unfolding find_row_None using no_check by (fastforce simp: check_key_def)
  then show "check_status_of (with_domain d s) ?i = (\<lambda>_. Check_Pending)"
    by (auto simp: check_status_of_def with_domain_def check_row_def find_row_append pend assms(2) fun_eq_iff)
      (simp add: pending_check_def)
  have "c_domain_id c \<noteq> ?i" if "c \<in> set (claims s)" for c
    using that fresh assms(1) by (force simp: tables_ok_def refs_ok_def)
  then show "active_claim (with_domain d s) ?i = None"
    by (auto simp: active_claim_None with_domain_def)
  have "e_domain_id e \<noteq> ?i" if "e \<in> set (events s)" for e
    using that fresh assms(1) by (force simp: tables_ok_def refs_ok_def)
  then show "domain_events (with_domain d s) ?i = []"
    by (auto simp: domain_events_def with_domain_def filter_empty_conv)
qed

lemma claim_domain_sound:
  assumes "claim_domain C a hostname reference metadata now s = Inr (i, t)" and "tables_ok s"
  shows "tables_ok t" and "touches i s t" and "dom_inv t i" and "domain_row s i = None"
    and "\<exists>d. domain_row t i = Some d \<and> d_status d = PENDING_DNS \<and> \<not> d_is_deleted d
      \<and> d_application_id d = app_id a
      \<and> canonicalize (cfg_libs C) False (Some hostname) = Inr (d_hostname d)"
    and "map_option c_status (active_claim t i) = Some Claim_Pending"
proof -
  from assms(1) obtain canonical d u where i: "i = draws s"
    and canon: "canonicalize (cfg_libs C) False (Some hostname) = Inr canonical"
    and free: "\<forall>x\<in>set (domains s). live x \<longrightarrow> d_hostname x \<noteq> canonical"
    and d: "d = new_domain C a canonical reference metadata now i"
    and ev: "record_event C i DOMAIN_CREATED (Some [(''hostname'', JStr canonical), (''reference'', JStr (d_reference d))])
       now (with_domain d s) = Inr u"
    and cl: "issue_claim C i (app_cname_target a) now u = Inr t"
    by (rule claim_domainE)
  have dcols: "d_id d = draws s" "d_hostname d = canonical" "d_status d = PENDING_DNS" "d_deleted_at d = None"
    "d_application_id d = app_id a"
    by (simp_all add: d i new_domain_def)
  have free': "\<forall>x\<in>set (domains s). live x \<longrightarrow> d_hostname x \<noteq> d_hostname d"
    using free dcols by simp
  note rows = with_domain_rows [OF assms(2) dcols(1) free', folded i]
  have a0: "audit_at (with_domain d s) i"
    using rows dcols i by (simp add: audit_at_def observe_def replay_events_def initial_snapshot_def)
  note f = record_event_frame [OF ev]
  have u: "tables_ok u" "touches i s u" "audit_at u i" "domain_row u i = Some d" "check_status_of u i = (\<lambda>_. Check_Pending)"
    using record_event_wf [OF ev rows(1)] touches_trans [OF rows(2) record_event_touches [OF ev]]
      audit_record_neutral [OF ev a0] rows
    by (simp_all add: f record_event_tomb_calm [OF ev])
  have nd: "\<not> d_is_deleted x" if "domain_row u i = Some x" for x
    using that u dcols by (simp add: d_is_deleted_def)
  note r = issue_claim_sound [OF cl u(1) u(3) nd]
  show "tables_ok t" using r(1) by (simp add: sound_step_def)
  show "touches i s t" using r(1) u(2) touches_trans by (auto simp: sound_step_def)
  have st: "check_status_of t i = (\<lambda>_. Check_Pending)"
    using u(5) r(4) by (simp add: check_status_of_def [abs_def] fun_eq_iff)
  show "dom_inv t i"
    using r(1) st by (auto simp: sound_step_def dom_inv_def calm_at_def)
  show "\<exists>d. domain_row t i = Some d \<and> d_status d = PENDING_DNS \<and> \<not> d_is_deleted d
      \<and> d_application_id d = app_id a \<and> canonicalize (cfg_libs C) False (Some hostname) = Inr (d_hostname d)"
    using r(3) u(4) dcols canon by (simp add: d_is_deleted_def)
  show "map_option c_status (active_claim t i) = Some Claim_Pending" by (rule r(2))
  show "domain_row s i = None"
    using assms(2) i by (auto simp: domain_row_def find_row_None tables_ok_def refs_ok_def)
qed


subsection \<open>Purging\<close>

lemma drop_domains_rows:
  assumes "tables_ok s"
  shows "tables_ok (drop_domains gone s)"
    and "\<not> gone i \<Longrightarrow> domain_row (drop_domains gone s) i = domain_row s i"
    and "gone i \<Longrightarrow> domain_row (drop_domains gone s) i = None"
    and "\<not> gone i \<Longrightarrow> active_claim (drop_domains gone s) i = active_claim s i"
    and "\<not> gone i \<Longrightarrow> check_row (drop_domains gone s) (i, ty) = check_row s (i, ty)"
    and "\<not> gone i \<Longrightarrow> domain_events (drop_domains gone s) i = domain_events s i"
proof -
  let ?t = "drop_domains gone s"
  have "keys_ok ?t"
    using assms by (simp add: tables_ok_def keys_ok_def drop_domains_def distinct_map_filter distinct_map_filter2)
  moreover have "refs_ok ?t"
    using assms by (fastforce simp: tables_ok_def refs_ok_def drop_domains_def)
  moreover have "log_ok ?t"
  proof -
    have "domain_events ?t j = (if gone j then [] else domain_events s j)" for j
      by (auto simp: domain_events_def drop_domains_def filter_empty_conv intro!: filter_cong)
    then show ?thesis using assms by (simp add: tables_ok_def log_ok_def)
  qed
  ultimately show "tables_ok ?t" by (simp add: tables_ok_def)
  show "gone i \<Longrightarrow> domain_row ?t i = None"
    by (auto simp: domain_row_def drop_domains_def find_row_None)
  assume "\<not> gone i"
  then show "check_row ?t (i, ty) = check_row s (i, ty)"
    unfolding check_row_def drop_domains_def by (auto intro: find_row_filter simp: check_key_def)
  from \<open>\<not> gone i\<close> show "domain_row ?t i = domain_row s i"
    "active_claim ?t i = active_claim s i" "domain_events ?t i = domain_events s i"
    by (simp_all add: domain_row_def active_claim_def domain_claims_def domain_events_def
        drop_domains_def find_row_filter filter_filter_key del: filter_filter)
qed

text \<open>
  Deleting applications that own no domain leaves the lifecycle's tables alone: every
  event belongs to a domain of its application.
\<close>

lemma drop_applications_events:
  assumes "tables_ok s" and "\<And>d. d \<in> set (domains s) \<Longrightarrow> \<not> gone (d_application_id d)"
  shows "events (drop_applications gone s) = events s"
proof -
  have "\<not> gone (e_application_id e)" if e: "e \<in> set (events s)" for e
  proof -
    from assms(1) e obtain d where "d \<in> set (domains s)" "e_application_id e = d_application_id d"
      by (force simp: tables_ok_def refs_ok_def)
    with assms(2) show ?thesis by simp
  qed
  then show ?thesis by (simp add: drop_applications_def filter_id_conv)
qed

lemma same_core_inv:
  assumes "domains t = domains s" "claims t = claims s" "checks t = checks s" "events t = events s"
    and "draws s \<le> draws t"
  shows "tables_ok s \<Longrightarrow> tables_ok t" and "dom_inv s i \<Longrightarrow> dom_inv t i"
proof -
  have rows: "domain_row t = domain_row s" "active_claim t = active_claim s" "check_row t = check_row s"
    "domain_events t = domain_events s"
    using assms by (simp_all add: fun_eq_iff domain_row_def active_claim_def domain_claims_def
        check_row_def domain_events_def)
  show "tables_ok s \<Longrightarrow> tables_ok t"
    using assms by (auto simp: tables_ok_def keys_ok_def refs_ok_def log_ok_def rows)
  have "check_status_of t = check_status_of s"
    by (simp add: check_status_of_def fun_eq_iff rows)
  then show "dom_inv s i \<Longrightarrow> dom_inv t i"
    by (simp add: dom_inv_def audit_at_def tomb_at_def calm_at_def observe_def rows)
qed

lemma purge_core:
  assumes "purge_tombstones now s = (n, t)" and "tables_ok s"
  defines "u \<equiv> drop_domains (\<lambda>i. i \<in> d_id ` set (filter (domain_purgeable now) (domains s))) s"
  shows "domains t = domains u" "claims t = claims u" "checks t = checks u" "events t = events u" "draws t = draws u"
proof -
  define gone where "gone = (\<lambda>i. i \<in> app_id ` set (filter (application_purgeable u now) (applications u)))"
  have t: "t = purge_zones now (drop_applications gone u)"
    using assms(1) by (auto simp: purge_tombstones_def Let_def u_def gone_def)
  have "tables_ok u" unfolding u_def by (rule drop_domains_rows(1) [OF assms(2)])
  moreover have "\<not> gone (d_application_id d)" if "d \<in> set (domains u)" for d
    using that by (auto simp: gone_def application_purgeable_def list_ex_iff)
  ultimately show "events t = events u"
    by (simp add: t purge_zones_def drop_applications_events)
  show "domains t = domains u" "claims t = claims u" "checks t = checks u" "draws t = draws u"
    by (simp_all add: t purge_zones_def drop_applications_def)
qed

lemma drop_domains_inv:
  assumes "tables_ok s" and "dom_inv s j"
  shows "dom_inv (drop_domains gone s) j"
proof (cases "gone j")
  case True
  then have "domain_row (drop_domains gone s) j = None" by (rule drop_domains_rows(3) [OF assms(1)])
  then show ?thesis by (simp add: dom_inv_def audit_at_def tomb_at_def calm_at_def)
next
  case False
  note rows = drop_domains_rows(2,4,5,6) [where gone = gone, OF assms(1) False]
  have "observe (drop_domains gone s) d = observe s d" if "domain_row s j = Some d" for d
    by (rule observe_cong) (use domain_rowD [OF that] rows in simp_all)
  with assms(2) show ?thesis
    by (simp add: dom_inv_def audit_at_def tomb_at_def calm_at_def rows check_status_of_def)
qed

lemma purge_tombstones_sound:
  assumes "purge_tombstones now s = (n, t)" and "tables_ok s" and "\<And>i. dom_inv s i"
  shows "tables_ok t" and "dom_inv t i"
proof -
  let ?u = "drop_domains (\<lambda>i. i \<in> d_id ` set (filter (domain_purgeable now) (domains s))) s"
  have "tables_ok ?u" "dom_inv ?u i"
    using drop_domains_rows(1) drop_domains_inv assms(2,3) by blast+
  then show "tables_ok t" "dom_inv t i"
    using same_core_inv(1) [of t ?u] same_core_inv(2) [of t ?u i] purge_core [OF assms(1,2)] by simp_all
qed

section \<open>The lifecycle as a transition system\<close>

text \<open>
  The steps a running deployment takes: every operation above that succeeded, for any
  caller, arguments and clock; the scheduling columns that the workers write; and any
  change outside the lifecycle's tables.
\<close>

inductive lifecycle_step :: "config \<Rightarrow> db \<Rightarrow> db \<Rightarrow> bool" for C where
  claim: "claim_domain C a hostname reference metadata now s = Inr (i, t) \<Longrightarrow> lifecycle_step C s t"
| reissue: "reissue_claim C a i now s = Inr t \<Longrightarrow> lifecycle_step C s t"
| verify: "mark_claim_verified C i meth now s = Inr t \<Longrightarrow> lifecycle_step C s t"
| revoke: "domain_row s i = Some d \<Longrightarrow> revoke_live_claim C i reason now s = Inr t \<Longrightarrow> lifecycle_step C s t"
| check: "record_check C i ty st code message details at nxt s = Inr t \<Longrightarrow> lifecycle_step C s t"
| status: "transition_status C i st' why now s = Inr t \<Longrightarrow> lifecycle_step C s t"
| delete: "delete_domain C a i now s = Inr t \<Longrightarrow> lifecycle_step C s t"
| recheck: "request_recheck C a i who now s = Inr t \<Longrightarrow> lifecycle_step C s t"
| note_event: "et \<in> {DOMAIN_IMPORTED, CONNECT_URL_ISSUED} \<Longrightarrow>
    record_event C i et payload now s = Inr t \<Longrightarrow> lifecycle_step C s t"
| purge: "purge_tombstones now s = (n, t) \<Longrightarrow> lifecycle_step C s t"
| connect_started: "lifecycle_step C s (put_domain i (\<lambda>d. d\<lparr>d_connect_started_at := x, d_updated_at := now\<rparr>) s)"
| zone_found: "lifecycle_step C s (put_domain i (\<lambda>d. d\<lparr>d_zone := z, d_updated_at := now\<rparr>) s)"
| schedule: "lifecycle_step C s (s\<lparr>checks := map (\<lambda>c. c\<lparr>ch_next_check_at := sched c\<rparr>) (checks s)\<rparr>)"
| other: "domains t = domains s \<Longrightarrow> claims t = claims s \<Longrightarrow> checks t = checks s \<Longrightarrow> events t = events s \<Longrightarrow>
    draws s \<le> draws t \<Longrightarrow> lifecycle_step C s t"

definition db_inv :: "db \<Rightarrow> bool" where
  "db_inv s = (tables_ok s \<and> (\<forall>i. dom_inv s i))"

lemma db_invI:
  assumes "db_inv s" and "tables_ok t" and "touches i s t" and "dom_inv t i"
  shows "db_inv t"
  using assms touches_dom_inv [OF assms(3)] by (metis db_inv_def)

lemma sound_step_inv: "db_inv s \<Longrightarrow> sound_step i s t \<Longrightarrow> calm_at t i \<Longrightarrow> db_inv t"
  by (rule db_invI) (auto simp: sound_step_def dom_inv_def)

lemma put_domain_inv:
  assumes "db_inv s" and f: "\<And>d. d_id (f d) = d_id d" "\<And>d. d_application_id (f d) = d_application_id d"
    "\<And>d. d_hostname (f d) = d_hostname d" "\<And>d. d_deleted_at (f d) = d_deleted_at d"
    "\<And>d. d_status (f d) = d_status d" "\<And>d. d_purge_after (f d) = d_purge_after d"
  shows "db_inv (put_domain i f s)"
proof (rule db_invI [OF assms(1)])
  show "tables_ok (put_domain i f s)"
    by (rule put_domain_wf) (use assms in \<open>auto simp: db_inv_def live_def\<close>)
  show "touches i s (put_domain i f s)" by (rule put_domain_touches [OF f(1)])
  have "observe (put_domain i f s) (f d) = observe s d" for d
    by (rule observe_cong) (simp_all add: f)
  moreover have "dom_inv s i" using assms(1) by (simp add: db_inv_def)
  ultimately show "dom_inv (put_domain i f s) i"
    by (auto simp: dom_inv_def audit_at_def tomb_at_def calm_at_def put_domain_row f d_is_deleted_def check_status_of_def)
qed

lemma lifecycle_step_inv:
  assumes "lifecycle_step C s t" and inv: "db_inv s"
  shows "db_inv t"
proof -
  have ok: "tables_ok s" "\<And>i. dom_inv s i" "\<And>i. audit_at s i" "\<And>i. tomb_at s i" "\<And>i. calm_at s i"
    using inv by (auto simp: db_inv_def dom_inv_def)
  show ?thesis using assms(1)
  proof cases
    case (claim a hostname reference metadata now i)
    show ?thesis by (rule db_invI [OF inv claim_domain_sound(1-3) [OF claim ok(1)]])
  next
    case (reissue a i now)
    show ?thesis by (rule sound_step_inv [OF inv reissue_claim_sound(1,2) [OF reissue ok(1,2)]])
  next
    case (verify i meth now)
    note m = mark_claim_verified_sound [OF verify ok(1,3,4)]
    have "calm_at t i" using ok(5) [of i] m by (simp add: calm_at_def check_status_of_def)
    with m inv show ?thesis by (blast intro: sound_step_inv)
  next
    case (revoke i d reason now)
    note m = revoke_live_claim_sound [OF revoke(2) ok(1,3) revoke(1) ok(4)]
    have "calm_at t i" using ok(5) [of i] m by (simp add: calm_at_def check_status_of_def)
    with m inv show ?thesis by (blast intro: sound_step_inv)
  next
    case (check i ty st code message details at nxt)
    show ?thesis
      by (rule sound_step_inv [OF inv record_check_sound [OF check ok(1,3,4)] record_check_calm [OF check ok(5)]])
  next
    case (status i st' why now)
    have "calm_at t i" by (rule transition_status_calm [OF status]) (simp add: ok)
    with inv transition_status_sound [OF status ok(1,3,4)] show ?thesis by (rule sound_step_inv)
  next
    case (delete a i now)
    show ?thesis by (rule db_invI [OF inv delete_domain_sound(1-3) [OF delete ok(1,2)]])
  next
    case (recheck a i who now)
    show ?thesis by (rule db_invI [OF inv request_recheck_sound(1-3) [OF recheck ok(1,2)]])
  next
    case (note_event et i payload now)
    have "audit_at t i" using audit_record_neutral [OF note_event(2)] note_event(1) ok by blast
    then show ?thesis
      using ok inv note_event record_event_wf record_event_touches
      by (intro db_invI [of s t i]) (auto simp: dom_inv_def record_event_tomb_calm)
  next
    case (purge now n)
    with ok purge_tombstones_sound show ?thesis by (auto simp: db_inv_def)
  next
    case (connect_started i x now)
    with inv show ?thesis by (simp add: put_domain_inv)
  next
    case (zone_found i z now)
    with inv show ?thesis by (simp add: put_domain_inv)
  next
    case (schedule sched)
    let ?f = "\<lambda>c. c\<lparr>ch_next_check_at := sched c\<rparr>"
    have f: "check_key (?f c) = check_key c" "ch_status (?f c) = ch_status c" for c
      by (simp_all add: check_key_def)
    with schedule ok map_checks_rows(1) [of ?f s, OF f(1)] map_checks_inv [of ?f s, OF f] show ?thesis
      by (auto simp: db_inv_def)
  next
    case other
    with ok same_core_inv [OF other] show ?thesis by (simp add: db_inv_def)
  qed
qed

end
