(* ===== verification/Guarantees.thy ===== *)
theory Guarantees
  imports Lifecycle
begin

text \<open>
  The guarantees of the domain service in every state a deployment reaches: one live row per
  hostname, an exact audit trail, readiness only on verified ownership and passing checks,
  revocation for good, rate limits over every window, an exact outbox, tenant isolation.
\<close>

section \<open>Reachable states\<close>

definition fresh_db :: "db \<Rightarrow> bool" where
  "fresh_db s = (domains s = [] \<and> claims s = [] \<and> checks s = [] \<and> events s = [])"

lemma fresh_db_inv: "fresh_db s \<Longrightarrow> db_inv s"
  by (auto simp: fresh_db_def db_inv_def tables_ok_def keys_ok_def refs_ok_def log_ok_def dom_inv_def
      audit_at_def tomb_at_def calm_at_def domain_row_def domain_events_def)

interpretation life: invariant_system "lifecycle_step C" db_inv fresh_db
  by unfold_locales (auto intro: lifecycle_step_inv fresh_db_inv)

text \<open>The states of a deployment: what the steps reach from empty tables.\<close>

definition reachable :: "config \<Rightarrow> db \<Rightarrow> bool" where
  "reachable C t = (\<exists>s. fresh_db s \<and> (lifecycle_step C)\<^sup>*\<^sup>* s t)"

lemma reachable_db_inv: "reachable C s \<Longrightarrow> db_inv s"
  unfolding reachable_def using life.reachable_inv by blast

section \<open>Entering ready\<close>

definition status_of :: "db \<Rightarrow> uuid \<Rightarrow> domain_status option" where
  "status_of s i = map_option d_status (domain_row s i)"

definition ready_justified :: "db \<Rightarrow> uuid \<Rightarrow> bool" where
  "ready_justified s i = (map_option c_status (active_claim s i) = Some Claim_Verified \<and> checks_passing s i)"

text \<open>Away from the domain an operation works on, statuses do not change.\<close>

lemma touches_status: "touches i s t \<Longrightarrow> j \<noteq> i \<Longrightarrow> status_of t j = status_of s j"
  by (simp add: touches_def status_of_def)

lemma transition_ready:
  assumes "transition_status C i st why now s = Inr t" and "status_of t i = Some READY"
    and "status_of s i \<noteq> Some READY"
  shows "ready_justified t i"
  using assms(1)
proof (cases rule: transition_statusE)
  case same
  with assms show ?thesis by simp
next
  case (moved d)
  have "st = READY"
    using assms(2) moved by (simp add: status_of_def record_event_frame [OF moved(5)] put_domain_row)
  with moved show ?thesis
    by (simp add: ready_justified_def record_event_frame [OF moved(5)] checks_passing_iff)
qed

lemma record_check_not_ready:
  assumes "record_check C i ty st code message details at nxt s = Inr t" and "status_of t i = Some READY"
  shows "status_of s i = Some READY"
  using assms(1)
proof (rule record_checkE)
  fix d f u p
  assume d: "domain_row s i = Some d"
    and ev: "record_event C i CHECK_UPDATED p at (upsert_check i ty f s) = Inr u"
    and next_: "st = Check_Failing \<and> d_status d = READY \<and>
        transition_status C i ATTENTION_REQUIRED (Some (check_type_value ty @ ''_check_failed'')) at u = Inr t
      \<or> \<not> (st = Check_Failing \<and> d_status d = READY) \<and> u = t"
  have "status_of u i = status_of s i"
    by (simp add: status_of_def record_event_frame [OF ev])
  moreover have "status_of t i = Some ATTENTION_REQUIRED" if "u \<noteq> t"
    using that next_ transition_status_row(1) [of C i ATTENTION_REQUIRED _ at u t] by (auto simp: status_of_def)
  ultimately show ?thesis
    using assms(2) by (cases "u = t") auto
qed

lemma step_ready:
  assumes "lifecycle_step C s t" and "db_inv s"
    and "status_of t j = Some READY" and "status_of s j \<noteq> Some READY"
  shows "ready_justified t j"
proof -
  have ok: "tables_ok s" "\<And>i. dom_inv s i" "\<And>i. audit_at s i" "\<And>i. tomb_at s i" "\<And>i. calm_at s i"
    using assms(2) by (auto simp: db_inv_def dom_inv_def)
  have at: "j = i" if "touches i s t" for i
    using that assms(3,4) touches_status by metis
  show ?thesis using assms(1)
  proof cases
    case (claim a hostname reference metadata now i)
    note r = claim_domain_sound [OF claim ok(1)]
    from at [OF r(2)] r(5) assms(3) show ?thesis by (auto simp: status_of_def)
  next
    case (reissue a i now)
    note r = reissue_claim_sound [OF reissue ok(1,2)]
    have "j = i" using at r(1) by (simp add: sound_step_def)
    with r(5) assms(3) show ?thesis by (auto simp: status_of_def)
  next
    case (verify i meth now)
    with assms(3,4) mark_claim_verified_sound(3) [OF verify ok(1,3,4)] show ?thesis
      by (simp add: status_of_def)
  next
    case (revoke i d reason now)
    with assms(3,4) revoke_live_claim_sound(3) [OF revoke(2) ok(1,3) revoke(1) ok(4)] show ?thesis
      by (simp add: status_of_def)
  next
    case (check i ty st code message details at' nxt)
    have "j = i" using at record_check_sound [OF check ok(1,3,4)] by (simp add: sound_step_def)
    with record_check_not_ready [OF check] assms(3,4) show ?thesis by simp
  next
    case (status i st' why now)
    have "j = i" using at transition_status_sound [OF status ok(1,3,4)] by (simp add: sound_step_def)
    with transition_ready [OF status] assms(3,4) show ?thesis by simp
  next
    case (delete a i now)
    note r = delete_domain_sound [OF delete ok(1,2)]
    have "j = i" using at r(2) by simp
    with r(3,4) assms(3) show ?thesis by (auto simp: status_of_def dom_inv_def tomb_at_def)
  next
    case (recheck a i who now)
    with assms(3,4) request_recheck_sound(4) [OF recheck ok(1,2)] show ?thesis by (simp add: status_of_def)
  next
    case (note_event et i payload now)
    with assms(3,4) show ?thesis by (simp add: status_of_def record_event_frame [OF note_event(2)])
  next
    case (purge now n)
    let ?gone = "\<lambda>i. i \<in> d_id ` set (filter (domain_purgeable now) (domains s))"
    have "domain_row t j = domain_row (drop_domains ?gone s) j"
      using purge_core(1) [OF purge ok(1)] by (simp add: domain_row_def)
    with assms(3,4) drop_domains_rows(2,3) [OF ok(1), of ?gone j] show ?thesis
      by (cases "?gone j") (auto simp: status_of_def)
  next
    case (connect_started i x now)
    with assms(3,4) show ?thesis
      by (auto simp: status_of_def doms.get_put key_kept_def option.map_comp comp_def split: if_splits)
  next
    case (zone_found i z now)
    with assms(3,4) show ?thesis
      by (auto simp: status_of_def doms.get_put key_kept_def option.map_comp comp_def split: if_splits)
  next
    case (schedule sched)
    with assms(3,4) show ?thesis by (simp add: status_of_def)
  next
    case other
    with assms(3,4) show ?thesis by (simp add: status_of_def domain_row_def)
  qed
qed

section \<open>Revoked claims stay revoked\<close>

text \<open>A claim that was revoked is revoked in every later state that still has it.\<close>

definition revoked_in :: "db \<Rightarrow> uuid \<Rightarrow> bool" where
  "revoked_in s j = (j < draws s \<and> (\<forall>c\<in>set (claims s). c_id c = j \<longrightarrow> c_status c = Claim_Revoked))"

lemma put_active_revoked:
  assumes "revoked_in s j" and "active_claim s i = Some claim" and "\<And>c. c_id (f c) = c_id c"
  shows "revoked_in (put_claim (c_id claim) f s) j"
proof -
  have "c_id claim \<noteq> j"
    using assms(1) active_claim_Some [OF assms(2)] by (auto simp: revoked_in_def)
  then show ?thesis
    using assms(1,3) by (auto simp: revoked_in_def put_claim_def set_update_row)
qed

lemma record_event_revoked: "record_event C i et p now s = Inr t \<Longrightarrow> revoked_in s j \<Longrightarrow> revoked_in t j"
  using record_event_frame(2,6) by (fastforce simp: revoked_in_def)

lemma transition_status_draws: "transition_status C i st why now s = Inr t \<Longrightarrow> draws s \<le> draws t"
  by (cases rule: transition_statusE) (auto dest!: record_event_frame(6))

lemma same_claims_revoked: "claims t = claims s \<Longrightarrow> draws s \<le> draws t \<Longrightarrow> revoked_in s j \<Longrightarrow> revoked_in t j"
  by (auto simp: revoked_in_def)

lemma record_check_draws:
  assumes "record_check C i ty st code message details at nxt s = Inr t"
  shows "draws s \<le> draws t"
  using assms
proof (rule record_checkE)
  fix d f u p
  assume ev: "record_event C i CHECK_UPDATED p at (upsert_check i ty f s) = Inr u"
    and next_: "st = Check_Failing \<and> d_status d = READY \<and>
        transition_status C i ATTENTION_REQUIRED (Some (check_type_value ty @ ''_check_failed'')) at u = Inr t
      \<or> \<not> (st = Check_Failing \<and> d_status d = READY) \<and> u = t"
  then show ?thesis
    using record_event_frame(6) [OF ev] by (auto dest!: transition_status_draws)
qed

lemma record_check_revoked:
  "record_check C i ty st code message details at nxt s = Inr t \<Longrightarrow> revoked_in s j \<Longrightarrow> revoked_in t j"
  by (rule same_claims_revoked [OF record_check_status(2) record_check_draws])

lemma transition_status_revoked: "transition_status C i st why now s = Inr t \<Longrightarrow> revoked_in s j \<Longrightarrow> revoked_in t j"
  by (rule same_claims_revoked [OF transition_status_row(2) transition_status_draws])

lemma revoke_live_claim_revoked:
  assumes "revoke_live_claim C i reason now s = Inr t" and "revoked_in s j"
  shows "revoked_in t j"
proof (cases "active_claim s i")
  case None
  with assms show ?thesis by (simp add: revoke_live_claim_def)
next
  case (Some claim)
  with assms show ?thesis
    by (auto simp: revoke_live_claim_def elim!: record_event_revoked intro!: put_active_revoked)
qed

lemma revoke_live_claim_revokes:
  assumes "revoke_live_claim C i reason now s = Inr t" and "active_claim s i = Some claim" and "tables_ok s"
  shows "revoked_in t (c_id claim)"
proof -
  let ?s1 = "put_claim (c_id claim) (\<lambda>c. c\<lparr>c_status := Claim_Revoked, c_revoked_at := Some now\<rparr>) s"
  have "c_id claim < draws s"
    using assms(3) active_claim_Some(1) [OF assms(2)] by (auto simp: tables_ok_def refs_ok_def)
  then have "revoked_in ?s1 (c_id claim)"
    by (auto simp: revoked_in_def put_claim_def set_update_row)
  with assms(1,2) show ?thesis
    by (auto simp: revoke_live_claim_def elim!: record_event_revoked)
qed

lemma revoke_live_claim_tokens:
  "revoke_live_claim C i reason now s = Inr t \<Longrightarrow> map c_token (claims t) = map c_token (claims s)"
  by (auto simp: revoke_live_claim_def put_claim_def map_update_row record_event_frame split: option.splits)

lemma issue_claim_revoked:
  assumes "issue_claim C i target now s = Inr t" and "revoked_in s j"
  shows "revoked_in t j"
  using assms(1)
proof (rule issue_claimE)
  fix d claim p
  assume id: "c_id claim = Suc (draws s)"
    and ev: "record_event C i CLAIM_ISSUED p now (s\<lparr>draws := Suc (Suc (draws s)), claims := claims s @ [claim]\<rparr>) = Inr t"
  have "revoked_in (s\<lparr>draws := Suc (Suc (draws s)), claims := claims s @ [claim]\<rparr>) j"
    using assms(2) id by (auto simp: revoked_in_def)
  with ev show ?thesis by (rule record_event_revoked)
qed

lemma reissue_rest_revoked:
  assumes 2: "fold_res (reset_check C i now) check_types s1 = Inr s2"
    and 3: "d_status d2 \<in> set RESET_ON_REISSUE \<and> transition_status C i PENDING_DNS (Some ''claim_reissued'') now s2 = Inr s3
      \<or> d_status d2 \<notin> set RESET_ON_REISSUE \<and> s3 = s2"
    and 4: "issue_claim C i target now s3 = Inr t" and "revoked_in s1 j"
  shows "revoked_in t j"
proof -
  have "revoked_in s2 j"
    by (rule fold_res_inv [where P = "\<lambda>s. revoked_in s j", OF 2 assms(4)])
      (auto simp: reset_check_def elim: record_check_revoked)
  with 3 4 show ?thesis by (auto intro: issue_claim_revoked transition_status_revoked)
qed

lemma reissue_claim_revoked:
  assumes "reissue_claim C a i now s = Inr t" and "revoked_in s j"
  shows "revoked_in t j"
  using assms(1) by (rule reissue_claimE) (rule reissue_rest_revoked, auto intro: revoke_live_claim_revoked assms(2))

lemma step_revoked:
  assumes "lifecycle_step C s t" and "db_inv s" and "revoked_in s j"
  shows "revoked_in t j"
proof -
  have ok: "tables_ok s" using assms(2) by (simp add: db_inv_def)
  show ?thesis using assms(1)
  proof cases
    case (claim a hostname reference metadata now i)
    then show ?thesis
    proof (rule claim_domainE)
      fix d u p
      assume 1: "record_event C i DOMAIN_CREATED p now (with_domain d s) = Inr u"
        and 2: "issue_claim C i (app_cname_target a) now u = Inr t"
      have "revoked_in (with_domain d s) j"
        using assms(3) by (auto simp: revoked_in_def with_domain_def)
      with 1 2 show ?thesis by (blast intro: record_event_revoked issue_claim_revoked)
    qed
  next
    case (reissue a i now)
    then show ?thesis using assms(3) by (rule reissue_claim_revoked)
  next
    case (verify i meth now)
    then show ?thesis
      by (rule mark_claim_verifiedE) (auto elim!: record_event_revoked intro!: put_active_revoked assms(3))
  next
    case (revoke i d reason now)
    with assms(3) show ?thesis by (blast intro: revoke_live_claim_revoked)
  next
    case (check i ty st code message details at nxt)
    then show ?thesis using assms(3) by (rule record_check_revoked)
  next
    case (status i st' why now)
    then show ?thesis using assms(3) by (rule transition_status_revoked)
  next
    case (delete a i now)
    then show ?thesis
    proof (cases rule: delete_domainE)
      case (gone d s2)
      have "revoked_in (put_domain i f s) j" for f
        using assms(3) by (simp add: revoked_in_def)
      with gone show ?thesis by (blast intro: record_event_revoked revoke_live_claim_revoked)
    qed (use assms(3) in simp)
  next
    case (recheck a i who now)
    then show ?thesis
      by (rule request_recheckE) (erule record_event_revoked, use assms(3) in \<open>simp add: revoked_in_def\<close>)
  next
    case (note_event et i payload now)
    with assms(3) show ?thesis by (blast intro: record_event_revoked)
  next
    case (purge now n)
    with assms(3) purge_core(2,5) [OF purge ok] show ?thesis
      by (auto simp: revoked_in_def drop_domains_def)
  qed (use assms(3) in \<open>auto simp: revoked_in_def\<close>)
qed

interpretation revoked_forever: stable_invariant "lifecycle_step C" "\<lambda>s. db_inv s \<and> revoked_in s j"
  by unfold_locales (auto intro: lifecycle_step_inv step_revoked)

section \<open>Rate limits hold over every window\<close>

definition in_window :: "event_type \<Rightarrow> uuid \<Rightarrow> instant \<Rightarrow> duration \<Rightarrow> domain_event \<Rightarrow> bool" where
  "in_window T aid w W e = (e_application_id e = aid \<and> e_event_type e = T
     \<and> w < e_created_at e \<and> e_created_at e \<le> w + W)"

text \<open>At most \<open>N\<close> events of type \<open>T\<close> per application in any window of length \<open>W\<close>.\<close>

definition within_budget :: "event_type \<Rightarrow> duration \<Rightarrow> nat \<Rightarrow> db \<Rightarrow> bool" where
  "within_budget T W N s = (\<forall>aid w. length (filter (in_window T aid w W) (events s)) \<le> N)"

text \<open>A step that is quiet about \<open>T\<close> adds no event of that type.\<close>

definition quiet :: "event_type \<Rightarrow> db \<Rightarrow> db \<Rightarrow> bool" where
  "quiet T s t = (\<exists>es. events t = events s @ es \<and> (\<forall>e\<in>set es. e_event_type e \<noteq> T))"

lemma quiet_same: "events t = events s \<Longrightarrow> quiet T s t"
  by (simp add: quiet_def)

lemma quiet_trans: "quiet T s t \<Longrightarrow> quiet T t u \<Longrightarrow> quiet T s u"
  by (force simp: quiet_def)

lemma quiet_from: "events s = events s' \<Longrightarrow> quiet T s t \<Longrightarrow> quiet T s' t"
  by (simp add: quiet_def)

lemma quiet_filter: "quiet T s t \<Longrightarrow> (\<And>e. P e \<Longrightarrow> e_event_type e = T) \<Longrightarrow> filter P (events t) = filter P (events s)"
  unfolding quiet_def by (fastforce simp: filter_empty_conv)

lemma quiet_budget:
  assumes "quiet T s t" and "within_budget T W N s"
  shows "within_budget T W N t"
proof -
  have "filter (in_window T aid w W) (events t) = filter (in_window T aid w W) (events s)" for aid w
    by (rule quiet_filter [OF assms(1)]) (simp add: in_window_def)
  with assms(2) show ?thesis by (simp add: within_budget_def)
qed

lemma length_filter_mono: "(\<And>x. P x \<Longrightarrow> Q x) \<Longrightarrow> length (filter P xs) \<le> length (filter Q xs)"
  by (induction xs) (auto intro: le_SucI)

lemma record_event_quiet:
  assumes "record_event C i et p now s1 = Inr t" and "events s1 = events s" and "et \<noteq> T"
  shows "quiet T s t"
  using assms by (auto simp: quiet_def event_of_def elim!: record_event_log)

definition routine :: "event_type \<Rightarrow> bool" where
  "routine T = (T \<in> {DOMAIN_CREATED, RECHECK_REQUESTED})"

lemma transition_status_quiet: "transition_status C i st why now s = Inr t \<Longrightarrow> routine T \<Longrightarrow> quiet T s t"
  by (cases rule: transition_statusE)
    (auto simp: routine_def intro: quiet_same record_event_quiet)

lemma record_check_quiet:
  assumes "record_check C i ty st code message details at nxt s = Inr t" and "routine T"
  shows "quiet T s t"
  using assms(1)
proof (rule record_checkE)
  fix d f u p
  assume ev: "record_event C i CHECK_UPDATED p at (upsert_check i ty f s) = Inr u"
    and next_: "st = Check_Failing \<and> d_status d = READY \<and>
        transition_status C i ATTENTION_REQUIRED (Some (check_type_value ty @ ''_check_failed'')) at u = Inr t
      \<or> \<not> (st = Check_Failing \<and> d_status d = READY) \<and> u = t"
  have "quiet T s u"
    by (rule record_event_quiet [OF ev]) (use assms(2) in \<open>auto simp: routine_def\<close>)
  with next_ assms(2) show ?thesis
    by (auto intro: quiet_trans transition_status_quiet)
qed

lemma revoke_live_claim_quiet:
  "revoke_live_claim C i reason now s = Inr t \<Longrightarrow> routine T \<Longrightarrow> quiet T s t"
  by (auto simp: revoke_live_claim_def routine_def quiet_same intro: record_event_quiet split: option.splits)

lemma mark_claim_verified_quiet:
  "mark_claim_verified C i meth now s = Inr t \<Longrightarrow> routine T \<Longrightarrow> quiet T s t"
  by (erule mark_claim_verifiedE) (auto simp: routine_def intro: record_event_quiet)

lemma issue_claim_quiet:
  "issue_claim C i target now s = Inr t \<Longrightarrow> routine T \<Longrightarrow> quiet T s t"
  by (erule issue_claimE) (auto simp: routine_def intro: record_event_quiet)

lemma reissue_claim_quiet:
  assumes "reissue_claim C a i now s = Inr t" and "routine T"
  shows "quiet T s t"
  using assms(1)
proof (rule reissue_claimE)
  fix d s1 s2 s3 d2
  assume 1: "revoke_live_claim C i ''reissued'' now s = Inr s1"
    and 2: "fold_res (reset_check C i now) check_types s1 = Inr s2"
    and 3: "d_status d2 \<in> set RESET_ON_REISSUE \<and> transition_status C i PENDING_DNS (Some ''claim_reissued'') now s2 = Inr s3
      \<or> d_status d2 \<notin> set RESET_ON_REISSUE \<and> s3 = s2"
    and 4: "issue_claim C i (app_cname_target a) now s3 = Inr t"
  have "quiet T s s2"
    by (rule fold_res_inv [where P = "quiet T s", OF 2 revoke_live_claim_quiet [OF 1 assms(2)]])
      (auto simp: reset_check_def intro: quiet_trans record_check_quiet assms(2))
  with 3 have "quiet T s s3"
    by (auto intro: quiet_trans transition_status_quiet assms(2))
  with 4 show ?thesis
    by (blast intro: quiet_trans issue_claim_quiet assms(2))
qed

lemma delete_domain_quiet:
  assumes "delete_domain C a i now s = Inr t" and "routine T"
  shows "quiet T s t"
  using assms(1)
proof (cases rule: delete_domainE)
  case (gone d s2)
  have "quiet T s s2"
    by (rule quiet_from [OF _ revoke_live_claim_quiet [OF gone(3) assms(2)]]) simp
  moreover have "quiet T s2 t"
    by (rule record_event_quiet [OF gone(4)]) (use assms(2) in \<open>auto simp: routine_def\<close>)
  ultimately show ?thesis by (rule quiet_trans)
qed (simp add: quiet_same)

text \<open>An event admitted below the limit keeps every window within the budget.\<close>

lemma admit_budget:
  assumes "within_budget T W N s" and "length (windowed s aid T (now - W)) < N"
    and "events t = events s @ [e]" and "e_application_id e = aid" and "now \<le> e_created_at e"
  shows "within_budget T W N t"
  unfolding within_budget_def
proof (intro allI)
  fix aid' w
  show "length (filter (in_window T aid' w W) (events t)) \<le> N"
  proof (cases "in_window T aid' w W e")
    case False
    with assms(1,3) show ?thesis by (simp add: within_budget_def)
  next
    case True
    have "length (filter (in_window T aid' w W) (events s)) \<le> length (windowed s aid T (now - W))"
      unfolding windowed_def
    proof (rule length_filter_mono)
      fix x assume "in_window T aid' w W x"
      with True assms(4,5) show "e_application_id x = aid \<and> e_event_type x = T \<and> now - W < e_created_at x"
        by (auto simp: in_window_def)
    qed
    with assms(2,3) True show ?thesis by simp
  qed
qed


lemma event_of_cols:
  "domain_row s i = Some d \<Longrightarrow> e_application_id (event_of s d et p now) = d_application_id d"
  "e_event_type (event_of s d et p now) = et" "now \<le> e_created_at (event_of s d et p now)"
  by (simp_all add: event_of_def event_stamp_bounds)

text \<open>The event an operation admits, after which it is quiet.\<close>

lemma claim_domain_admits:
  assumes "claim_domain C a hostname reference metadata now s = Inr (i, t)" and "tables_ok s"
  obtains u e where "events u = events s @ [e]" and "e_application_id e = app_id a" and "now \<le> e_created_at e"
    and "e_event_type e = DOMAIN_CREATED" and "length (windowed s (app_id a) DOMAIN_CREATED (now - REGISTRATION_WINDOW)) < REGISTRATION_MAX_PER_WINDOW"
    and "\<And>T. routine T \<Longrightarrow> quiet T u t"
  using assms(1)
proof (rule claim_domainE)
  fix canonical d u
  assume lim: "enforce_registration_limit s a now = Inr ()"
    and i: "i = draws s" and d: "d = new_domain C a canonical reference metadata now i"
    and free: "\<forall>d\<in>set (domains s). live d \<longrightarrow> d_hostname d \<noteq> canonical"
    and ev: "record_event C i DOMAIN_CREATED (Some [(''hostname'', JStr canonical), (''reference'', JStr (d_reference d))])
      now (with_domain d s) = Inr u"
    and cl: "issue_claim C i (app_cname_target a) now u = Inr t"
  have row: "domain_row (with_domain d s) i = Some d"
    unfolding i by (rule with_domain_rows(3) [OF assms(2)]) (use d i free in \<open>simp_all add: new_domain_def\<close>)
  have sev: "events (with_domain d s) = events s" by (simp add: with_domain_def)
  obtain d' where d': "domain_row (with_domain d s) i = Some d'"
    "events u = events (with_domain d s) @ [event_of (with_domain d s) d' DOMAIN_CREATED
      (Some [(''hostname'', JStr canonical), (''reference'', JStr (d_reference d))]) now]"
    using record_event_log [OF ev] by blast
  show thesis
  proof (rule that)
    show "events u = events s @ [event_of (with_domain d s) d DOMAIN_CREATED
        (Some [(''hostname'', JStr canonical), (''reference'', JStr (d_reference d))]) now]"
      using d' row sev by simp
    show "length (windowed s (app_id a) DOMAIN_CREATED (now - REGISTRATION_WINDOW)) < REGISTRATION_MAX_PER_WINDOW"
      using lim by (auto simp: enforce_registration_limit_def Let_def split: if_splits)
    show "quiet T u t" if "routine T" for T using issue_claim_quiet [OF cl that] .
  qed (use event_of_cols row d in \<open>simp_all add: new_domain_def event_of_def event_stamp_bounds\<close>)
qed

lemma request_recheck_admits:
  assumes "request_recheck C a i who now s = Inr t" and "tables_ok s"
  obtains d e where "domain_row s i = Some d" and "events t = events s @ [e]" and "e_domain_id e = i"
    and "e_application_id e = d_application_id d"
    and "now \<le> e_created_at e" and "e_event_type e = RECHECK_REQUESTED"
    and "enforce_recheck_limits s d now = Inr ()"
  using assms(1)
proof (rule request_recheckE)
  let ?f = "\<lambda>c. if ch_domain_id c = i then c\<lparr>ch_next_check_at := Some now\<rparr> else c"
  fix d
  assume g: "get_domain s a i True = Inr d" and lim: "enforce_recheck_limits s d now = Inr ()"
    and ev: "record_event C i RECHECK_REQUESTED (Some [(''requested_by'', JStr who)]) now
       (s\<lparr>checks := map ?f (checks s)\<rparr>) = Inr t"
  have d: "domain_row s i = Some d" by (rule get_domain_row [OF g assms(2)])
  from record_event_log [OF ev] obtain d' where
    "domain_row s i = Some d'" "events t = events s @ [event_of (s\<lparr>checks := map ?f (checks s)\<rparr>) d' RECHECK_REQUESTED
      (Some [(''requested_by'', JStr who)]) now]" by auto
  with d domain_rowD [OF d] show thesis
    by (intro that [OF d _ _ _ _ _ lim]) (auto simp: event_of_def event_stamp_bounds)
qed

lemma step_quiet:
  assumes "lifecycle_step C s t" and "db_inv s" and "routine T"
  obtains (quiet) "quiet T s t"
  | (fewer) P where "events t = filter P (events s)"
  | (claim) a hostname reference metadata now i where "T = DOMAIN_CREATED"
      "claim_domain C a hostname reference metadata now s = Inr (i, t)"
  | (recheck) a i who now where "T = RECHECK_REQUESTED" "request_recheck C a i who now s = Inr t"
proof -
  have ok: "tables_ok s" using assms(2) by (simp add: db_inv_def)
  show ?thesis using assms(1)
  proof cases
    case (claim a hostname reference metadata now i)
    show ?thesis
    proof (cases "T = DOMAIN_CREATED")
      case False
      obtain u e where "events u = events s @ [e]" "e_event_type e = DOMAIN_CREATED" "quiet T u t"
        using claim_domain_admits [OF claim ok] assms(3) by metis
      with False have "quiet T s t" by (force simp: quiet_def)
      then show ?thesis by (rule that(1))
    qed (use claim that(3) in blast)
  next
    case (recheck a i who now)
    show ?thesis
    proof (cases "T = RECHECK_REQUESTED")
      case False
      obtain e where "events t = events s @ [e]" "e_event_type e = RECHECK_REQUESTED"
        using request_recheck_admits [OF recheck ok] by metis
      with False have "quiet T s t" by (simp add: quiet_def)
      then show ?thesis by (rule that(1))
    qed (use recheck that(4) in blast)
  next
    case (note_event et i payload now)
    have "quiet T s t"
      by (rule record_event_quiet [OF note_event(2)]) (use note_event assms(3) in \<open>auto simp: routine_def\<close>)
    then show ?thesis by (rule that(1))
  next
    case (purge now n)
    show ?thesis by (rule that(2)) (simp add: purge_core(4) [OF purge ok] drop_domains_def)
  qed (use that(1) assms(3) reissue_claim_quiet mark_claim_verified_quiet revoke_live_claim_quiet
    record_check_quiet transition_status_quiet delete_domain_quiet quiet_same in \<open>auto\<close>)
qed

lemma fewer_budget: "events t = filter P (events s) \<Longrightarrow> within_budget T W N s \<Longrightarrow> within_budget T W N t"
  unfolding within_budget_def
  by (metis (no_types, lifting) filter_filter length_filter_mono order_trans)

definition budgets_ok :: "db \<Rightarrow> bool" where
  "budgets_ok s = (within_budget DOMAIN_CREATED REGISTRATION_WINDOW REGISTRATION_MAX_PER_WINDOW s
     \<and> within_budget RECHECK_REQUESTED RECHECK_WINDOW RECHECK_MAX_PER_WINDOW s)"

lemma recheck_limit_window:
  "enforce_recheck_limits s d now = Inr () \<Longrightarrow>
    length (windowed s (d_application_id d) RECHECK_REQUESTED (now - RECHECK_WINDOW)) < RECHECK_MAX_PER_WINDOW"
  by (auto simp: enforce_recheck_limits_def Let_def split: option.splits if_splits)

lemma step_budgets:
  assumes "lifecycle_step C s t" and "db_inv s" and "budgets_ok s"
  shows "budgets_ok t"
proof -
  have ok: "tables_ok s" using assms(2) by (simp add: db_inv_def)
  have "within_budget DOMAIN_CREATED REGISTRATION_WINDOW REGISTRATION_MAX_PER_WINDOW t"
    (is "?created t")
  proof -
    have old: "?created s" using assms(3) by (simp add: budgets_ok_def)
    have "routine DOMAIN_CREATED" by (simp add: routine_def)
    from assms(1,2) this show ?thesis
    proof (cases rule: step_quiet)
      case (claim a hostname reference metadata now i)
      then obtain u e where u: "events u = events s @ [e]" "e_application_id e = app_id a" "now \<le> e_created_at e"
        "length (windowed s (app_id a) DOMAIN_CREATED (now - REGISTRATION_WINDOW)) < REGISTRATION_MAX_PER_WINDOW"
        "quiet DOMAIN_CREATED u t"
        using claim_domain_admits [OF _ ok] by (metis routine_def insert_iff)
      show ?thesis by (rule quiet_budget [OF u(5) admit_budget [OF old u(4,1,2,3)]])
    qed (use old quiet_budget fewer_budget in auto)
  qed
  moreover have "within_budget RECHECK_REQUESTED RECHECK_WINDOW RECHECK_MAX_PER_WINDOW t"
    (is "?rechecks t")
  proof -
    have old: "?rechecks s" using assms(3) by (simp add: budgets_ok_def)
    have "routine RECHECK_REQUESTED" by (simp add: routine_def)
    from assms(1,2) this show ?thesis
    proof (cases rule: step_quiet)
      case (recheck a i who now)
      then obtain d e where u: "events t = events s @ [e]" "e_application_id e = d_application_id d" "now \<le> e_created_at e"
        "enforce_recheck_limits s d now = Inr ()"
        using request_recheck_admits [OF _ ok] by metis
      show ?thesis by (rule admit_budget [OF old recheck_limit_window [OF u(4)] u(1,2,3)])
    qed (use old quiet_budget fewer_budget in auto)
  qed
  ultimately show ?thesis by (simp add: budgets_ok_def)
qed

interpretation budgets: invariant_system "lifecycle_step C" "\<lambda>s. db_inv s \<and> budgets_ok s" fresh_db
proof unfold_locales
  show "db_inv s \<and> budgets_ok s" if "fresh_db s" for s
    using that fresh_db_inv by (simp add: budgets_ok_def within_budget_def fresh_db_def)
qed (auto intro: lifecycle_step_inv step_budgets)

section \<open>A run of the service\<close>

text \<open>
  A small deployment used to exercise the theorems: one application with one webhook, which
  registers a hostname, proves ownership and passes its checks.
\<close>

definition demo_cfg :: config where
  "demo_cfg = \<lparr>cfg_libs = plain_libs, cfg_setup = \<lparr>template_provider_id = [], template_service_id = [],
     signing_enabled = False, guide_url = ''https://docs.example/{provider}''\<rparr>, cfg_max_domains = [],
     cfg_allow_private = False\<rparr>"

definition demo_app :: application where
  "demo_app = \<lparr>app_id = 1, app_slug = ''acme'', app_name = ''Acme'', app_status = App_Active,
     app_cname_target = ''edge.example.net'', app_workspace_probe_enabled = False, app_max_domains = Some 5,
     app_rate_limit_per_minute = None, app_rate_limit_per_second = None, app_deleted_at = None,
     app_purge_after = None, app_updated_at = 0\<rparr>"

definition demo_hook :: webhook_subscription where
  "demo_hook = \<lparr>s_id = 2, s_application_id = 1, s_url = ''https://hooks.example.com/in'',
     s_events = [''domain.deleted'', ''domain.ready''], s_secret = ''whsec_s'', s_previous_secret = None,
     s_previous_secret_expires_at = None, s_revoked_at = None, s_created_at = 0\<rparr>"

definition demo_db :: db where
  "demo_db = \<lparr>applications = [demo_app], origins = [], credentials = [], assertion_keys = [], domains = [],
     claims = [], checks = [], events = [], zones = [], subscriptions = [demo_hook], deliveries = [],
     idempotency_keys = [], connect_sessions = [], traffic = [], counters = [], draws = 10,
     rng = (\<lambda>n. ''tok-'' @ str_of_nat n)\<rparr>"

definition demo_pass :: "check_type \<Rightarrow> db \<Rightarrow> error + db" where
  "demo_pass t = record_check demo_cfg 10 t Check_Passing None None None 2000 None"

definition demo_ops :: "(db \<Rightarrow> error + db) list" where
  "demo_ops = [\<lambda>s. bind_res (claim_domain demo_cfg demo_app ''WWW.Example.com.'' '' ws_1 '' None 1000 s) (Inr \<circ> snd),
     mark_claim_verified demo_cfg 10 ''dns_txt'' 1500,
     demo_pass OWNERSHIP, demo_pass ROUTING,
     transition_status demo_cfg 10 PROVISIONING (Some ''dns_verified'') 2000,
     demo_pass CERTIFICATE, demo_pass ORIGIN]"

definition demo_run :: "(db \<Rightarrow> error + db) list \<Rightarrow> db \<Rightarrow> db" where
  "demo_run ops s = projr (fold_res (\<lambda>f. f) ops s)"

definition demo_almost :: db where "demo_almost = demo_run demo_ops demo_db"
definition demo_ready :: db where
  "demo_ready = projr (transition_status demo_cfg 10 READY (Some ''checks_passing'') 3000 demo_almost)"
definition demo_deleted :: db where
  "demo_deleted = projr (delete_domain demo_cfg demo_app 10 4000 demo_ready)"

lemma run_reaches:
  assumes "fold_res (\<lambda>f. f) ops s = Inr t" and "\<And>f s t. f \<in> set ops \<Longrightarrow> f s = Inr t \<Longrightarrow> lifecycle_step C s t"
  shows "(lifecycle_step C)\<^sup>*\<^sup>* s t"
  using assms
proof (induction ops arbitrary: s)
  case (Cons f ops)
  from Cons.prems(1) obtain u where u: "f s = Inr u" "fold_res (\<lambda>f. f) ops u = Inr t"
    by (auto elim: bind_res_InrE)
  have "(lifecycle_step C)\<^sup>*\<^sup>* u t"
    by (rule Cons.IH [OF u(2)]) (use Cons.prems(2) in auto)
  with u(1) Cons.prems(2) [of f s u] show ?case by (simp add: converse_rtranclp_into_rtranclp)
qed simp

lemma demo_ops_steps: "f \<in> set demo_ops \<Longrightarrow> f s = Inr t \<Longrightarrow> lifecycle_step demo_cfg s t"
  by (auto simp: demo_ops_def demo_pass_def elim!: bind_res_InrE
      intro: lifecycle_step.intros)

lemma projr_eq: "isl x = False \<Longrightarrow> x = Inr (projr x)"
  by (cases x) auto

lemma demo_almost_run: "fold_res (\<lambda>f. f) demo_ops demo_db = Inr demo_almost"
  unfolding demo_almost_def demo_run_def by (rule projr_eq) code_simp

lemma demo_ready_run:
  "transition_status demo_cfg 10 READY (Some ''checks_passing'') 3000 demo_almost = Inr demo_ready"
  unfolding demo_ready_def by (rule projr_eq) code_simp

lemma demo_deleted_run: "delete_domain demo_cfg demo_app 10 4000 demo_ready = Inr demo_deleted"
  unfolding demo_deleted_def by (rule projr_eq) code_simp

lemma demo_reachable:
  "reachable demo_cfg demo_almost" "reachable demo_cfg demo_ready" "reachable demo_cfg demo_deleted"
proof -
  have f: "fresh_db demo_db" by (simp add: fresh_db_def demo_db_def)
  have 1: "(lifecycle_step demo_cfg)\<^sup>*\<^sup>* demo_db demo_almost"
    by (rule run_reaches [OF demo_almost_run]) (rule demo_ops_steps)
  have 2: "lifecycle_step demo_cfg demo_almost demo_ready"
    by (rule lifecycle_step.status [OF demo_ready_run])
  have 3: "lifecycle_step demo_cfg demo_ready demo_deleted"
    by (rule lifecycle_step.delete [OF demo_deleted_run])
  show "reachable demo_cfg demo_almost" "reachable demo_cfg demo_ready" "reachable demo_cfg demo_deleted"
    using f 1 2 3 unfolding reachable_def by (meson rtranclp.rtrancl_into_rtrancl)+
qed

text \<open>What the witnesses read off these states, so that each state is evaluated once.\<close>

definition ready_facts :: "db \<Rightarrow> bool" where
  "ready_facts s = (map d_hostname (domains s) = [''www.example.com''] \<and> map d_deleted_at (domains s) = [None]
   \<and> map_option d_hostname (domain_row s 10) = Some ''www.example.com''
   \<and> map_option d_deleted_at (domain_row s 10) = Some None
   \<and> map_option d_application_id (domain_row s 10) = Some 1
   \<and> length (domain_events s 10) = 9 \<and> status_of s 10 = Some READY
   \<and> filter (in_window DOMAIN_CREATED 1 0 (hours 1)) (events s) \<noteq> []
   \<and> subscriptions s = [demo_hook] \<and> live_domains s (Some demo_app) = 1
   \<and> isl (record_event demo_cfg 10 DOMAIN_DELETED None 5000 s) = False
   \<and> isl (reissue_claim demo_cfg demo_app 10 3500 s) = False
   \<and> isl (claim_domain demo_cfg demo_app ''shop.example.com'' ''ws_2'' None 5000 s) = False)"

lemma demo_ready_facts: "ready_facts demo_ready"
  by code_simp

definition deleted_facts :: "db \<Rightarrow> bool" where
  "deleted_facts s = (map_option d_deleted_at (domain_row s 10) = Some (Some 4000)
   \<and> map c_status (claims s) = [Claim_Revoked])"

lemma demo_deleted_facts: "deleted_facts demo_deleted"
  by code_simp

section \<open>Guarantees\<close>

text \<open>
  C4: in every reachable state a hostname has at most one live domain row, across all
  applications.
\<close>

theorem one_live_row_per_hostname:
  assumes "reachable C s" and "d \<in> set (domains s)" and "d' \<in> set (domains s)"
    and "d_deleted_at d = None" and "d_deleted_at d' = None" and "d_hostname d = d_hostname d'"
  shows "d = d'"
proof -
  have "inj_on d_hostname (set (filter live (domains s)))"
    using reachable_db_inv [OF assms(1)] by (simp add: db_inv_def tables_ok_def keys_ok_def distinct_map)
  with assms show ?thesis by (auto simp: live_def dest: inj_onD)
qed

theorem one_live_row_per_hostname_witness:
  "\<exists>d. domains demo_ready = [d] \<and> d_hostname d = ''www.example.com'' \<and> (\<forall>d'\<in>set (domains demo_ready). d = d')"
proof -
  have "map d_hostname (domains demo_ready) = [''www.example.com'']" "map d_deleted_at (domains demo_ready) = [None]"
    using demo_ready_facts unfolding ready_facts_def by - (elim conjE, assumption)+
  then obtain d where "domains demo_ready = [d]" "d_hostname d = ''www.example.com''" "d_deleted_at d = None"
    by auto
  with one_live_row_per_hostname [OF demo_reachable(2), of d] show ?thesis by auto
qed

text \<open>
  C3: the event log is an exact audit trail. In every reachable state, replaying the events of
  a domain yields its status, the status of each of its checks and the status of its live
  claim, and the timestamps of a domain's events are strictly increasing.
\<close>

theorem audit_trail_exact:
  assumes "reachable C s" and "domain_row s i = Some d"
  shows "replay_events (domain_events s i) = observe s d
    \<and> sorted_wrt (<) (map e_created_at (domain_events s i))"
  using reachable_db_inv [OF assms(1)] assms(2)
  by (auto simp: db_inv_def tables_ok_def log_ok_def dom_inv_def audit_at_def)

theorem audit_trail_exact_witness:
  "\<exists>d. domain_row demo_ready 10 = Some d \<and> replay_events (domain_events demo_ready 10) = observe demo_ready d
    \<and> length (domain_events demo_ready 10) = 9"
proof -
  have "map_option d_application_id (domain_row demo_ready 10) = Some 1" and len: "length (domain_events demo_ready 10) = 9"
    using demo_ready_facts unfolding ready_facts_def by - (elim conjE, assumption)+
  then obtain d where d: "domain_row demo_ready 10 = Some d" by auto
  with len audit_trail_exact [OF demo_reachable(2) d(1)] show ?thesis by blast
qed

text \<open>
  C1: \<open>ready\<close> can only be entered when the live claim is verified and every check passes:
  whatever step a deployment takes, a domain that becomes ready satisfies both in the
  resulting state.
\<close>

theorem ready_entered_only_when_verified:
  assumes "reachable C s" and "lifecycle_step C s t"
    and "status_of t i = Some READY" and "status_of s i \<noteq> Some READY"
  shows "map_option c_status (active_claim t i) = Some Claim_Verified \<and> checks_passing t i"
  using step_ready [OF assms(2) reachable_db_inv [OF assms(1)] assms(3,4)] by (simp add: ready_justified_def)

theorem ready_entered_only_when_verified_witness:
  "map_option c_status (active_claim demo_ready 10) = Some Claim_Verified \<and> checks_passing demo_ready 10
    \<and> status_of demo_almost 10 = Some PROVISIONING"
proof -
  have almost: "status_of demo_almost 10 = Some PROVISIONING" by code_simp
  have "status_of demo_ready 10 = Some READY"
    using demo_ready_facts unfolding ready_facts_def by (elim conjE)
  with almost ready_entered_only_when_verified [OF demo_reachable(1) lifecycle_step.status [OF demo_ready_run], of 10]
  show ?thesis by simp
qed



text \<open>
  C10: a revoked claim never comes back. Whatever happens later, no domain's live claim is one
  that was revoked before, so its token never verifies again.
\<close>

theorem revoked_claim_stays_revoked:
  assumes "reachable C s" and "(lifecycle_step C)\<^sup>*\<^sup>* s t"
    and "c \<in> set (claims s)" and "c_status c = Claim_Revoked"
  shows "(\<forall>c'\<in>set (claims t). c_id c' = c_id c \<longrightarrow> c_status c' = Claim_Revoked)
    \<and> (\<forall>i. map_option c_id (active_claim t i) \<noteq> Some (c_id c))"
proof -
  have inv: "db_inv s" by (rule reachable_db_inv [OF assms(1)])
  then have "distinct (map c_id (claims s))" "c_id c < draws s"
    using assms(3) by (auto simp: db_inv_def tables_ok_def keys_ok_def refs_ok_def)
  then have "revoked_in s (c_id c)"
    using assms(3,4) by (auto simp: revoked_in_def dest: find_row_unique)
      (metis find_row_unique option.inject)
  with inv revoked_forever.steps_inv [OF assms(2), of "c_id c"] have "revoked_in t (c_id c)" by blast
  then show ?thesis
    by (auto simp: revoked_in_def dest: active_claim_Some)
qed

theorem revoked_claim_stays_revoked_witness:
  "\<exists>c\<in>set (claims demo_deleted). c_status c = Claim_Revoked \<and> map_option c_id (active_claim demo_deleted 10) \<noteq> Some (c_id c)"
proof -
  have "map c_status (claims demo_deleted) = [Claim_Revoked]"
    using demo_deleted_facts unfolding deleted_facts_def by (elim conjE)
  then obtain c where c: "c \<in> set (claims demo_deleted)" "c_status c = Claim_Revoked" by auto
  with revoked_claim_stays_revoked [OF demo_reachable(3) rtranclp.rtrancl_refl c] show ?thesis by blast
qed

text \<open>
  C13: the rate limits hold over every window, not only the current one: in any interval of one
  hour an application has at most 120 registrations and at most 60 manual rechecks, even
  though events may carry nudged timestamps.
\<close>

theorem rate_limits_over_every_window:
  assumes "reachable C s"
  shows "length (filter (in_window DOMAIN_CREATED aid w (hours 1)) (events s)) \<le> 120
    \<and> length (filter (in_window RECHECK_REQUESTED aid w (hours 1)) (events s)) \<le> 60"
proof -
  have "budgets_ok s"
    using assms budgets.reachable_inv unfolding reachable_def by blast
  then show ?thesis
    by (auto simp: budgets_ok_def within_budget_def REGISTRATION_WINDOW_def REGISTRATION_MAX_PER_WINDOW_def
        RECHECK_WINDOW_def RECHECK_MAX_PER_WINDOW_def)
qed

theorem rate_limits_over_every_window_witness:
  "length (filter (in_window DOMAIN_CREATED 1 0 (hours 1)) (events demo_ready)) \<le> 120
    \<and> filter (in_window DOMAIN_CREATED 1 0 (hours 1)) (events demo_ready) \<noteq> []"
proof -
  have "filter (in_window DOMAIN_CREATED 1 0 (hours 1)) (events demo_ready) \<noteq> []"
    using demo_ready_facts unfolding ready_facts_def by (elim conjE)
  with rate_limits_over_every_window [OF demo_reachable(2)] show ?thesis by blast
qed

text \<open>
  C11: the outbox is exact. An operation that records an event appends exactly one event and,
  in the same transaction, exactly one pending delivery for every active subscription of
  the domain's application that asked for the event's webhook type, and nothing else.
\<close>

theorem outbox_exact:
  assumes "record_event C i et payload now s = Inr t"
  shows "\<exists>d e ds. domain_row s i = Some d \<and> events t = events s @ [e] \<and> deliveries t = deliveries s @ ds
    \<and> e_domain_id e = i \<and> e_event_type e = et \<and> e_payload e = payload
    \<and> map dl_subscription_id ds = map s_id (filter (\<lambda>w. s_application_id w = d_application_id d
        \<and> s_revoked_at w = None \<and> (\<exists>wt. webhook_event_type e = Some wt \<and> wt \<in> set (s_events w))) (subscriptions s))
    \<and> (\<forall>x\<in>set ds. dl_event_id x = e_id e \<and> Some (dl_event_type x) = webhook_event_type e
        \<and> dl_domain_id x = Some i \<and> delivery_state x = ''pending'' \<and> dl_attempts x = 0
        \<and> dl_next_attempt_at x = Some (e_created_at e))"
  using assms
proof (cases rule: record_event_effect)
  case (1 d ds)
  let ?e = "event_of s d et payload now"
  have "outbox_for s d ?e = filter (\<lambda>w. s_application_id w = d_application_id d
      \<and> s_revoked_at w = None \<and> (\<exists>wt. webhook_event_type ?e = Some wt \<and> wt \<in> set (s_events w))) (subscriptions s)"
    by (auto simp: outbox_for_def wanted_by_def intro!: filter_cong split: option.splits)
  with 1 domain_rowD [OF 1(1)] show ?thesis
    by (intro exI [of _ d] exI [of _ ?e] exI [of _ ds]) (simp add: event_of_def)
qed

theorem outbox_exact_witness:
  "\<exists>t ds. record_event demo_cfg 10 DOMAIN_DELETED None 5000 demo_ready = Inr t
    \<and> deliveries t = deliveries demo_ready @ ds \<and> map dl_subscription_id ds = [2]"
proof -
  let ?r = "record_event demo_cfg 10 DOMAIN_DELETED None 5000 demo_ready"
  have "isl ?r = False" and app: "map_option d_application_id (domain_row demo_ready 10) = Some 1"
    and subs: "subscriptions demo_ready = [demo_hook]"
    using demo_ready_facts unfolding ready_facts_def by - (elim conjE, assumption)+
  from this(1) have r: "?r = Inr (projr ?r)" by (rule projr_eq)
  from outbox_exact [OF r] obtain d e ds where "domain_row demo_ready 10 = Some d"
    "deliveries (projr ?r) = deliveries demo_ready @ ds" "e_event_type e = DOMAIN_DELETED"
    "map dl_subscription_id ds = map s_id (filter (\<lambda>w. s_application_id w = d_application_id d
        \<and> s_revoked_at w = None \<and> (\<exists>wt. webhook_event_type e = Some wt \<and> wt \<in> set (s_events w))) (subscriptions demo_ready))"
    by blast
  with app have "map dl_subscription_id ds = [2]"
    by (simp add: subs demo_hook_def webhook_event_type_def Let_def)
  with r \<open>deliveries (projr ?r) = deliveries demo_ready @ ds\<close> show ?thesis
    by (intro exI conjI)
qed


definition demo_other :: application where
  "demo_other = demo_app\<lparr>app_id := 99, app_slug := ''other''\<rparr>"


text \<open>
  Deletion is idempotent and frees the hostname: a second deletion changes nothing, no
  live row of the hostname is left (so the unique index admits a new claim of it), and no
  other domain's row changes.
\<close>

theorem delete_is_idempotent_and_frees_hostname:
  assumes "reachable C s" and "delete_domain C a i now s = Inr t"
    and "domain_row s i = Some d" and "d_deleted_at d = None"
  shows "delete_domain C a i now' t = Inr t
    \<and> (\<forall>x\<in>set (domains t). d_hostname x = d_hostname d \<longrightarrow> is_set (d_deleted_at x))
    \<and> (\<forall>j. j \<noteq> i \<longrightarrow> domain_row t j = domain_row s j)"
proof -
  have inv: "tables_ok s" "dom_inv s i"
    using reachable_db_inv [OF assms(1)] by (auto simp: db_inv_def)
  note r = delete_domain_sound [OF assms(2) inv]
  obtain d' where d': "domain_row t i = Some d'" "d_is_deleted d'" "d_application_id d' = app_id a"
    using r(4) by blast
  have get: "get_domain t a i True = Inr d'"
  proof -
    have "find (\<lambda>x. d_id x = i \<and> d_application_id x = app_id a) (domains t) = Some d'"
      using d' r(1) unfolding domain_row_def find_row_def
      by (auto simp: find_Some_iff tables_ok_def keys_ok_def)
    then show ?thesis by (simp add: get_domain_def domain_query_def)
  qed
  have row: "domain_row t j = Some x" if "x \<in> set (domains t)" "d_id x = j" for x j
    using that domain_row_intro [OF r(1)] by auto
  have free: "is_set (d_deleted_at x)" if x: "x \<in> set (domains t)" "d_hostname x = d_hostname d" for x
  proof (cases "d_id x = i")
    case True
    with row x d' show ?thesis by (auto simp: d_is_deleted_def)
  next
    case False
    then have "domain_row s (d_id x) = Some x"
      using row [OF x(1) refl] r(2) by (auto simp: touches_def)
    then have "x \<in> set (domains s)" by (auto dest: domain_rowD)
    moreover have "d \<in> set (domains s)" "d_id d = i" using domain_rowD [OF assms(3)] by auto
    moreover have "inj_on d_hostname (set (filter live (domains s)))"
      using inv by (simp add: tables_ok_def keys_ok_def distinct_map)
    ultimately show ?thesis
      using x(2) assms(4) False by (auto simp: live_def dest: inj_onD)
  qed
  with get d' free r(2) show ?thesis by (simp add: delete_domain_def touches_def)
qed


theorem delete_is_idempotent_and_frees_hostname_witness:
  "delete_domain demo_cfg demo_app 10 9000 demo_deleted = Inr demo_deleted
    \<and> filter (\<lambda>x. d_hostname x = ''www.example.com'' \<and> d_deleted_at x = None) (domains demo_deleted) = []"
proof -
  have "map_option d_deleted_at (domain_row demo_ready 10) = Some None"
    "map_option d_hostname (domain_row demo_ready 10) = Some ''www.example.com''"
    using demo_ready_facts unfolding ready_facts_def by - (elim conjE, assumption)+
  then obtain d where d: "domain_row demo_ready 10 = Some d" "d_deleted_at d = None" "d_hostname d = ''www.example.com''"
    by auto
  from delete_is_idempotent_and_frees_hostname [OF demo_reachable(2) demo_deleted_run d(1,2)] d(3) show ?thesis
    by (auto simp: filter_empty_conv)
qed

text \<open>
  Re-issuing ownership material carries nothing over. Afterwards the claim that was live is
  revoked, the new claim has a token no earlier claim had, is pending and names the
  application's current target, every check is pending, and the domain is neither ready nor
  serveable.
\<close>

theorem reissue_starts_over:
  assumes "reachable C s" and "reissue_claim C a i now s = Inr t"
  shows "(\<exists>c. active_claim t i = Some c \<and> c_status c = Claim_Pending \<and> c_cname_target c = app_cname_target a
        \<and> (\<forall>c'\<in>set (claims s). c_token c' \<noteq> c_token c))
    \<and> (\<forall>c. active_claim s i = Some c \<longrightarrow> (\<forall>j. map_option c_id (active_claim t j) \<noteq> Some (c_id c)))
    \<and> (\<forall>ty. check_status_of t i ty = Check_Pending)
    \<and> (\<exists>d. domain_row t i = Some d \<and> d_status d \<noteq> READY \<and> \<not> is_serveable t d)"
proof -
  have inv: "tables_ok s" "dom_inv s i" "audit_at s i" "tomb_at s i"
    using reachable_db_inv [OF assms(1)] by (auto simp: db_inv_def dom_inv_def)
  note r = reissue_claim_sound [OF assms(2) inv(1,2)]
  from assms(2) obtain d0 s1 s2 s3 d2 where g: "get_domain s a i False = Inr d0"
    and 1: "revoke_live_claim C i ''reissued'' now s = Inr s1"
    and 2: "fold_res (reset_check C i now) check_types s1 = Inr s2" and "domain_row s2 i = Some d2"
    and 3: "d_status d2 \<in> set RESET_ON_REISSUE \<and> transition_status C i PENDING_DNS (Some ''claim_reissued'') now s2 = Inr s3
      \<or> d_status d2 \<notin> set RESET_ON_REISSUE \<and> s3 = s2"
    and 4: "issue_claim C i (app_cname_target a) now s3 = Inr t"
    by (rule reissue_claimE)
  note row = get_domain_row(1) [OF g inv(1)]
  note r1 = revoke_live_claim_sound [OF 1 inv(1,3) row inv(4)]
  have same: "claims s3 = claims s1"
  proof -
    have "claims s2 = claims s1"
      by (rule fold_res_inv [where P = "\<lambda>s. claims s = claims s1", OF 2])
        (auto simp: reset_check_def record_check_status(2))
    with 3 transition_status_row(2) show ?thesis by auto
  qed
  from 4 obtain claim where cl: "c_id claim = Suc (draws s3)" "c_domain_id claim = i" "c_status claim = Claim_Pending"
    "c_cname_target claim = app_cname_target a" "\<forall>c\<in>set (claims s3). c_token c \<noteq> c_token claim"
    "claim \<in> set (claims t)"
    by (rule issue_claimE) (auto simp: record_event_frame)
  have "active_claim t i = Some claim"
    by (rule active_claim_intro) (use r(1) cl in \<open>auto simp: sound_step_def\<close>)
  moreover have "\<forall>c'\<in>set (claims s). c_token c' \<noteq> c_token claim"
  proof -
    have "c_token ` set (claims s) = c_token ` set (claims s3)"
      using revoke_live_claim_tokens [OF 1] same by (metis set_map)
    with cl(5) show ?thesis by (metis (no_types, lifting) imageE imageI)
  qed
  moreover have "\<forall>j. map_option c_id (active_claim t j) \<noteq> Some (c_id c)" if "active_claim s i = Some c" for c
  proof -
    have "revoked_in t (c_id c)"
      by (rule reissue_rest_revoked [OF 2 3 4 revoke_live_claim_revokes [OF 1 that inv(1)]])
    then show ?thesis by (auto simp: revoked_in_def dest: active_claim_Some)
  qed
  moreover have "\<exists>d. domain_row t i = Some d \<and> d_status d \<noteq> READY \<and> \<not> is_serveable t d"
    using r(5) by (auto simp: is_serveable_def)
  ultimately show ?thesis
    using cl(3,4) r(4) by (simp add: fun_eq_iff)
qed

theorem reissue_starts_over_witness:
  "\<exists>t. reissue_claim demo_cfg demo_app 10 3500 demo_ready = Inr t
    \<and> (\<exists>d. domain_row t 10 = Some d \<and> d_status d \<noteq> READY \<and> \<not> is_serveable t d)"
proof -
  let ?r = "reissue_claim demo_cfg demo_app 10 3500 demo_ready"
  have "isl ?r = False" using demo_ready_facts unfolding ready_facts_def by (elim conjE)
  then have r: "?r = Inr (projr ?r)" by (rule projr_eq)
  from reissue_starts_over [OF demo_reachable(2) r] r show ?thesis by blast
qed


text \<open>
  Limits on live domains are never exceeded by a registration: after a successful claim the
  application and the deployment are within their limits, however many rows exist.
\<close>

theorem registration_respects_limits:
  assumes "claim_domain C a hostname reference metadata now s = Inr (i, t)"
  shows "(\<forall>m. app_max_domains a = Some m \<longrightarrow> live_domains t (Some a) \<le> m)
    \<and> (\<forall>m. deployment_limit (cfg_max_domains C) = Inr (Some m) \<longrightarrow> live_domains t None \<le> m)
    \<and> live_domains t (Some a) = live_domains s (Some a) + 1"
  using assms
proof (rule claim_domainE)
  fix canonical d u
  assume lim: "limits_enforce C s a = Inr ()" and d: "d = new_domain C a canonical reference metadata now i"
    and ev: "record_event C i DOMAIN_CREATED (Some [(''hostname'', JStr canonical), (''reference'', JStr (d_reference d))])
      now (with_domain d s) = Inr u"
    and cl: "issue_claim C i (app_cname_target a) now u = Inr t"
  have "domains t = domains u"
    using cl by (rule issue_claimE) (simp add: record_event_frame)
  then have t: "domains t = domains s @ [d]"
    by (simp add: record_event_frame [OF ev] with_domain_def)
  have count: "live_domains t (Some a) = live_domains s (Some a) + 1" "live_domains t None = live_domains s None + 1"
    by (simp_all add: live_domains_def t d new_domain_def)
  have "live_domains s (Some a) < m" if "app_max_domains a = Some m" for m
    using lim that by (auto simp: limits_enforce_def Let_def elim!: bind_res_InrE split: if_splits)
  moreover have "live_domains s None < m" if "deployment_limit (cfg_max_domains C) = Inr (Some m)" for m
    using lim that by (auto simp: limits_enforce_def Let_def elim!: bind_res_InrE split: if_splits option.splits)
  ultimately show ?thesis
    using count by auto
qed

theorem registration_respects_limits_witness:
  "live_domains (snd (projr (claim_domain demo_cfg demo_app ''shop.example.com'' ''ws_2'' None 5000 demo_ready))) (Some demo_app) = 2
    \<and> app_max_domains demo_app = Some 5"
proof -
  let ?r = "claim_domain demo_cfg demo_app ''shop.example.com'' ''ws_2'' None 5000 demo_ready"
  have "isl ?r = False" and one: "live_domains demo_ready (Some demo_app) = 1"
    using demo_ready_facts unfolding ready_facts_def by - (elim conjE, assumption)+
  from this(1) have "?r = Inr (projr ?r)" by (rule projr_eq)
  then have r: "?r = Inr (fst (projr ?r), snd (projr ?r))" by simp
  with one registration_respects_limits [OF r] show ?thesis by (simp add: demo_app_def)
qed

text \<open>
  The advertised wait is honest. A registration refused because the application used up its
  budget (counted without excess, as every reachable state does) is no longer refused
  by that limit once \<open>Retry-After\<close> seconds have passed, if nothing was registered meanwhile.
\<close>

theorem registration_retry_after_is_enough:
  assumes "enforce_registration_limit s a now = Inl (RateLimited message retry_after)"
    and "length (windowed s (app_id a) DOMAIN_CREATED (now - REGISTRATION_WINDOW)) = REGISTRATION_MAX_PER_WINDOW"
    and "now + seconds retry_after \<le> later"
  shows "1 \<le> retry_after \<and> enforce_registration_limit s a later = Inr ()"
proof -
  let ?es = "\<lambda>t. windowed s (app_id a) DOMAIN_CREATED (t - REGISTRATION_WINDOW)"
  have ne: "?es now \<noteq> []"
    using assms(2) by (auto simp: REGISTRATION_MAX_PER_WINDOW_def)
  then obtain oldest where o: "min_of (map e_created_at (?es now)) = Some oldest"
    by (cases "min_of (map e_created_at (?es now))") auto
  have ra: "retry_after = max 1 (ceil_seconds (oldest + REGISTRATION_WINDOW - now))"
    using assms(1,2) o by (auto simp: enforce_registration_limit_def Let_def rate_limited_def window_wait_def)
  have "oldest + REGISTRATION_WINDOW - now \<le> seconds retry_after"
    using ceil_seconds_bounds(1) [of "oldest + REGISTRATION_WINDOW - now"] by (simp add: ra seconds_def)
  then have left: "oldest \<le> later - REGISTRATION_WINDOW" using assms(3) by simp
  obtain e where e: "e \<in> set (?es now)" "e_created_at e = oldest"
    using o by (auto simp: min_of_Some)
  have "now \<le> later" using ra assms(3) by (simp add: seconds_def)
  have "length (?es later) < length (?es now)"
  proof -
    have sub: "?es later = filter (\<lambda>e. later - REGISTRATION_WINDOW < e_created_at e) (?es now)"
      using \<open>now \<le> later\<close> by (auto simp: windowed_def intro!: filter_cong)
    show ?thesis
      unfolding sub by (rule length_filter_less [OF e(1)]) (use e(2) left in simp)
  qed
  with assms(2) ra show ?thesis
    by (simp add: enforce_registration_limit_def Let_def)
qed


definition demo_busy :: db where
  "demo_busy = demo_db\<lparr>events := replicate 120 \<lparr>e_id = 3, e_domain_id = 5, e_application_id = 1,
     e_event_type = DOMAIN_CREATED, e_payload = None, e_created_at = 1000\<rparr>\<rparr>"

theorem registration_retry_after_is_enough_witness:
  "\<exists>message. enforce_registration_limit demo_busy demo_app 2500 = Inl (RateLimited message 3600)
    \<and> enforce_registration_limit demo_busy demo_app (2500 + seconds 3600) = Inr ()"
proof -
  have len: "length (windowed demo_busy (app_id demo_app) DOMAIN_CREATED (2500 - REGISTRATION_WINDOW)) = REGISTRATION_MAX_PER_WINDOW"
    by (simp add: windowed_def demo_busy_def demo_app_def REGISTRATION_WINDOW_def REGISTRATION_MAX_PER_WINDOW_def duration_defs)
  have r: "enforce_registration_limit demo_busy demo_app 2500 =
      Inl (RateLimited ''At most 120 registrations per application per 1 hour(s)'' 3600)"
    by code_simp
  from registration_retry_after_is_enough [OF r len order_refl] r show ?thesis by blast
qed

section \<open>Listing\<close>

text \<open>
  pages tile the listing. With any page size the pages at multiples of it, put together,
  are a prefix of the full listing of the caller's domains, without gaps or repeats, and
  \<open>has_more\<close> is true exactly when rows follow the page.
\<close>

lemma pages_tile_the_listing:
  fixes s a reference status include_deleted
  assumes "1 \<le> limit" and "limit \<le> MAX_PAGE_SIZE"
  defines "page \<equiv> \<lambda>k. page_domains s a reference status include_deleted None limit (int k * limit)"
    and "rows \<equiv> list_query s a reference status include_deleted None"
  shows "concat (map (fst \<circ> page) [0..<n]) = take (n * nat limit) rows
    \<and> (snd (page n) \<longleftrightarrow> Suc n * nat limit < length rows)"
proof -
  let ?l = "nat limit"
  have page: "page k = (take ?l (drop (k * ?l) rows), Suc k * ?l < length rows)" for k
  proof -
    have "nat (int k * limit) = k * ?l" "0 \<le> int k * limit"
      using assms(1) by (simp_all add: nat_mult_distrib)
    moreover have "nat (clamp 1 MAX_PAGE_SIZE limit) = ?l"
      using assms(1,2) by (simp add: clamp_def)
    ultimately show ?thesis
      by (auto simp: page_def page_domains_def rows_def Let_def min_def less_diff_conv)
  qed
  have "concat (map (fst \<circ> page) [0..<n]) = take (n * ?l) rows"
  proof (induction n)
    case (Suc n)
    have "take (Suc n * ?l) rows = take (n * ?l) rows @ take ?l (drop (n * ?l) rows)"
      by (metis add.commute mult_Suc take_add)
    with Suc show ?case by (simp add: page)
  qed simp
  then show ?thesis by (simp add: page)
qed

subsection \<open>Searching\<close>

fun escape_like :: "string \<Rightarrow> string" where
  "escape_like [] = []"
| "escape_like (c # cs) = (if c \<in> set [CHR 0x5C, CHR ''%'', CHR ''_''] then [CHR 0x5C, c] else [c]) @ escape_like cs"

lemma str_replace_single:
  "str_replace [c] new s = concat (map (\<lambda>x. if x = c then new else [x]) s)"
proof (induction s)
  case Nil
  show ?case by (subst str_replace.simps) simp
next
  case (Cons x s)
  then show ?case by (subst str_replace.simps) (simp add: starts_with_def)
qed

lemma like_pattern_eq: "like_pattern q = ''%'' @ escape_like (lower q) @ ''%''"
proof -
  have "concat (map (\<lambda>x. if x = CHR ''_'' then [CHR 0x5C, CHR ''_''] else [x])
      (concat (map (\<lambda>x. if x = CHR ''%'' then [CHR 0x5C, CHR ''%''] else [x])
        (concat (map (\<lambda>x. if x = CHR 0x5C then [CHR 0x5C, CHR 0x5C] else [x]) r))))) = escape_like r" for r
    by (induction r) auto
  then show ?thesis by (simp add: like_pattern_def str_replace_single)
qed

lemma sql_like_percent: "sql_like (CHR ''%'' # ps) s \<longleftrightarrow> (\<exists>n\<le>length s. sql_like ps (drop n s))"
proof (induction s)
  case (Cons c s)
  have "sql_like (CHR ''%'' # ps) (c # s) \<longleftrightarrow> sql_like ps (c # s) \<or> sql_like (CHR ''%'' # ps) s" by simp
  also have "\<dots> \<longleftrightarrow> (\<exists>n\<le>length (c # s). sql_like ps (drop n (c # s)))"
    unfolding Cons by (auto simp: Suc_le_eq less_Suc_eq_le intro: exI [of _ 0] exI [of _ "Suc _"])
      (metis Suc_le_mono drop_Suc_Cons drop_0 not0_implies_Suc)
  finally show ?case .
qed simp

declare sql_like.simps(2) [simp del]

lemma sql_like_literal: "sql_like (escape_like q @ ''%'') s \<longleftrightarrow> (\<exists>post. s = q @ post)"
proof (induction q arbitrary: s)
  case Nil
  have "sql_like ''%'' s \<longleftrightarrow> True"
    unfolding sql_like_percent by (auto intro: exI [of _ "length s"])
  then show ?case by simp
next
  case (Cons c q)
  show ?case
  proof (cases s)
    case Nil
    then show ?thesis by (auto simp: sql_like.simps(2))
  next
    case (Cons d s')
    with Cons.IH [of s'] show ?thesis by (auto simp: sql_like.simps(2))
  qed
qed

text \<open>
  A search matches a text exactly when the lower-cased query occurs in it: the characters
  that are wildcards for SQL's \<open>LIKE\<close> are matched literally.
\<close>

theorem search_is_literal_substring:
  "sql_like (like_pattern q) s \<longleftrightarrow> (\<exists>pre post. s = pre @ lower q @ post)"
proof -
  have "sql_like (like_pattern q) s \<longleftrightarrow> (\<exists>n\<le>length s. \<exists>post. drop n s = lower q @ post)"
    by (simp add: like_pattern_eq sql_like_percent sql_like_literal)
  also have "\<dots> \<longleftrightarrow> (\<exists>pre post. s = pre @ lower q @ post)"
  proof
    assume "\<exists>n\<le>length s. \<exists>post. drop n s = lower q @ post"
    then show "\<exists>pre post. s = pre @ lower q @ post" by (metis append_take_drop_id)
  next
    assume "\<exists>pre post. s = pre @ lower q @ post"
    then obtain pre post where "s = pre @ lower q @ post" by blast
    then show "\<exists>n\<le>length s. \<exists>post. drop n s = lower q @ post"
      by (intro exI [of _ "length pre"]) simp
  qed
  finally show ?thesis .
qed

end
