(* ===== verification/Dns_Checks.thy ===== *)
theory Dns_Checks
  imports Guarantees
begin

text \<open>
  Ownership and routing checks from DNS and the status rules they drive
  (\<open>app/services/dns_checks.py\<close>), with the fast recheck of \<open>app/services/domain_connect.py\<close>
  and the resolver of local development (\<open>app/dns/resolver.py\<close>).
\<close>

section \<open>Outcomes\<close>

definition BACKOFF :: "duration list" where
  "BACKOFF = [minutes 1, minutes 2, minutes 5, minutes 15, minutes 30, hours 1]"
definition REVALIDATE_INTERVAL :: duration where "REVALIDATE_INTERVAL = hours 6"
definition OWNERSHIP_LOSS_GRACE :: duration where "OWNERSHIP_LOSS_GRACE = hours 24"
definition MAX_OBSERVED :: nat where "MAX_OBSERVED = 5"
definition FAST_RECHECK_WINDOW :: duration where "FAST_RECHECK_WINDOW = minutes 30"
definition FAST_RECHECK_INTERVAL :: duration where "FAST_RECHECK_INTERVAL = seconds 30"

record outcome =
  oc_status :: check_status
  oc_error_code :: "string option"
  oc_message :: "string option"
  oc_details :: dict

definition passing :: "outcome \<Rightarrow> bool" where
  "passing x = (oc_status x = Check_Passing)"

definition failing_outcome :: "string \<Rightarrow> string \<Rightarrow> dict \<Rightarrow> outcome" where
  "failing_outcome code message details = \<lparr>oc_status = Check_Failing, oc_error_code = Some code,
     oc_message = Some message, oc_details = details\<rparr>"

definition passing_outcome :: "dict \<Rightarrow> outcome" where
  "passing_outcome details = \<lparr>oc_status = Check_Passing, oc_error_code = None, oc_message = None,
     oc_details = details\<rparr>"

definition observed :: "string list \<Rightarrow> json" where
  "observed values = JList (map (\<lambda>v. JStr (take 120 v)) (take MAX_OBSERVED values))"

definition claim_revoked_outcome :: outcome where
  "claim_revoked_outcome = failing_outcome ''claim_revoked'' ''The domain has no live ownership claim'' []"

definition ownership_outcome :: "resolver \<Rightarrow> db \<Rightarrow> domain \<Rightarrow> outcome" where
  "ownership_outcome R s d = (case active_claim s (d_id d) of
     None \<Rightarrow> claim_revoked_outcome
   | Some claim \<Rightarrow>
     let name = c_txt_record_name claim in
     (case r_txt R name of
        Inl (DnsNameNotFound _) \<Rightarrow> failing_outcome ''txt_record_not_found'' (''No TXT record named '' @ name
          @ '' was found. Create it with the value shown in the domain'' @ [CHR 0x27]
          @ ''s DNS records; propagation can take up to the record'' @ [CHR 0x27] @ ''s TTL.'') []
      | Inl (DnsUnavailable exc) \<Rightarrow> failing_outcome ''dns_timeout'' (''DNS lookup for '' @ name @ '' failed: '' @ exc) []
      | Inr values \<Rightarrow>
        if values = [] then failing_outcome ''txt_record_not_found'' (name
          @ '' exists but has no TXT record. Add a TXT record with the value shown in the domain''
          @ [CHR 0x27] @ ''s DNS records.'') []
        else if list_ex (\<lambda>v. strip v = txt_record_value claim) values
        then passing_outcome [(''observed'', observed values)]
        else let stale = map txt_record_value (filter (\<lambda>c. c_status c = Claim_Revoked) (domain_claims s (d_id d)))
          in if list_ex (\<lambda>v. strip v \<in> set stale) values
             then failing_outcome ''txt_token_stale'' (name
               @ '' holds a token from a previous registration of this hostname. Replace it ''
               @ ''with the current value shown in the domain'' @ [CHR 0x27] @ ''s DNS records.'')
               [(''observed'', observed values)]
             else failing_outcome ''txt_token_mismatch'' (name
               @ '' has TXT records, but none is this registration'' @ [CHR 0x27] @ ''s value. Check that the ''
               @ ''value was copied exactly, without quotes or extra text.'')
               [(''observed'', observed values)]))"

definition routing_outcome :: "resolver \<Rightarrow> db \<Rightarrow> domain \<Rightarrow> outcome" where
  "routing_outcome R s d = (case active_claim s (d_id d) of
     None \<Rightarrow> claim_revoked_outcome
   | Some claim \<Rightarrow>
     let target = c_cname_target claim; h = d_hostname d in
     (case cname_chain R h (Some target) MAX_CNAME_HOPS of
        Inl (DnsNameNotFound _) \<Rightarrow> failing_outcome ''cname_not_found'' (h
          @ '' does not exist in DNS. Add a CNAME record pointing it at '' @ target @ ''.'') []
      | Inl (DnsUnavailable exc) \<Rightarrow> failing_outcome ''dns_timeout'' (''DNS lookup for '' @ h @ '' failed: '' @ exc) []
      | Inr chain \<Rightarrow>
        if chain = [] then
          (let has_address = (case r_has_address R h of Inr b \<Rightarrow> b | Inl _ \<Rightarrow> False) in
           if has_address then failing_outcome ''cname_not_found'' (h
             @ '' has A or AAAA records instead of a CNAME. Remove them and add a CNAME record pointing at ''
             @ target @ ''.'') []
           else failing_outcome ''cname_not_found'' (h @ '' has no CNAME record. Add one pointing at '' @ target @ ''.'') [])
        else if target \<in> set chain then passing_outcome [(''chain'', JList (map JStr chain))]
        else failing_outcome ''cname_target_mismatch'' (h @ '' points at '' @ last chain @ '', expected '' @ target
          @ ''. Update the CNAME record, and make sure no CDN or proxy rewrites it.'')
          [(''chain'', JList (map JStr chain))]))"

section \<open>Scheduling\<close>

text \<open>\<open>int(v)\<close> of a JSON value.\<close>

definition json_int :: "json \<Rightarrow> error + int" where
  "json_int j = (case j of JInt n \<Rightarrow> Inr n | JBool b \<Rightarrow> Inr (if b then 1 else 0)
     | JStr t \<Rightarrow> (case py_int t of Some n \<Rightarrow> Inr n | None \<Rightarrow> Inl (ValueError ''invalid literal for int()''))
     | _ \<Rightarrow> Inl (ValueError ''int() argument''))"

definition json_falsy :: "json \<Rightarrow> bool" where
  "json_falsy j = (j \<in> {JNull, JBool False, JInt 0, JStr [], JList [], JObj []})"

text \<open>\<open>table[min(attempts, len(table)) - 1]\<close>, with Python's negative indices.\<close>

definition backoff_delay :: "duration list \<Rightarrow> int \<Rightarrow> error + duration" where
  "backoff_delay table attempts = (let n = int (length table); i = min attempts n - 1
     in if i \<ge> 0 then Inr (table ! nat i)
        else if i + n \<ge> 0 then Inr (table ! nat (i + n))
        else Inl (ValueError ''tuple index out of range''))"

text \<open>
  The contract of a retry schedule: positive delays that never shrink as attempts grow and
  that the last entry bounds.
\<close>

locale retry_schedule =
  fixes table :: "duration list"
  assumes nonempty: "table \<noteq> []" and increasing: "sorted table" and positive: "0 < hd table"
begin

lemma entry_bounds:
  assumes "k < length table"
  shows "hd table \<le> table ! k" and "table ! k \<le> last table"
proof -
  show "hd table \<le> table ! k"
    using sorted_nth_mono [OF increasing, of 0 k] assms nonempty by (simp add: hd_conv_nth)
  show "table ! k \<le> last table"
    using sorted_nth_mono [OF increasing, of k "length table - 1"] assms nonempty by (simp add: last_conv_nth)
qed

lemma delay_bounds:
  assumes "backoff_delay table attempts = Inr d"
  shows "0 < d" and "hd table \<le> d" and "d \<le> last table"
proof -
  have pos: "0 < length table" using nonempty by simp
  let ?n = "int (length table)"
  have "d = table ! nat (min attempts ?n - 1) \<and> 0 \<le> min attempts ?n - 1
      \<or> d = table ! nat (min attempts ?n - 1 + ?n) \<and> min attempts ?n - 1 < 0"
    using assms by (auto simp: backoff_delay_def Let_def split: if_splits)
  then obtain k where "k < length table" "d = table ! k"
  proof
    assume *: "d = table ! nat (min attempts ?n - 1) \<and> 0 \<le> min attempts ?n - 1"
    have "nat (min attempts ?n - 1) < length table" using pos by linarith
    with * that show thesis by blast
  next
    assume *: "d = table ! nat (min attempts ?n - 1 + ?n) \<and> min attempts ?n - 1 < 0"
    have "nat (min attempts ?n - 1 + ?n) < length table" using pos * by linarith
    with * that show thesis by blast
  qed
  with entry_bounds show "hd table \<le> d" "d \<le> last table" by auto
  then show "0 < d" using positive by simp
qed

lemma delay_total: "1 \<le> attempts \<Longrightarrow> \<exists>d. backoff_delay table attempts = Inr d"
  using nonempty by (auto simp: backoff_delay_def Let_def Suc_le_eq)

lemma delay_mono:
  assumes "1 \<le> m" and "m \<le> n" and "backoff_delay table m = Inr d" and "backoff_delay table n = Inr e"
  shows "d \<le> e"
proof -
  have "0 < length table" using nonempty by simp
  then have "nat (min m (int (length table)) - 1) \<le> nat (min n (int (length table)) - 1)"
    "nat (min n (int (length table)) - 1) < length table"
    using assms(1,2) by linarith+
  then show ?thesis
    using assms nonempty sorted_nth_mono [OF increasing] by (auto simp: backoff_delay_def Let_def split: if_splits)
qed

end

interpretation dns_backoff: retry_schedule BACKOFF
  by unfold_locales (simp_all add: BACKOFF_def duration_defs)

definition schedule_next :: "domain_check option \<Rightarrow> outcome \<Rightarrow> instant \<Rightarrow> error + instant \<times> dict" where
  "schedule_next check x now = (let
     previous = (case check of None \<Rightarrow> [] | Some c \<Rightarrow> (case ch_details c of None \<Rightarrow> [] | Some m \<Rightarrow> m))
   in if passing x then Inr (now + REVALIDATE_INTERVAL, dict_set (oc_details x) ''attempts'' (JInt 0))
      else bind_res (case dict_get previous ''attempts'' of None \<Rightarrow> Inr 0 | Some j \<Rightarrow> json_int j) (\<lambda>n.
        let attempts = n + 1;
            since = (case dict_get previous ''failing_since'' of
              Some j \<Rightarrow> if json_falsy j then JTime now else j | None \<Rightarrow> JTime now);
            details = dict_set (dict_set (oc_details x) ''attempts'' (JInt attempts)) ''failing_since'' since
        in bind_res (backoff_delay BACKOFF attempts) (\<lambda>delay. Inr (now + delay, details))))"

definition fast_recheck_due :: "domain \<Rightarrow> instant \<Rightarrow> bool" where
  "fast_recheck_due d now = (case d_connect_started_at d of None \<Rightarrow> False
     | Some started \<Rightarrow> 0 \<le> now - started \<and> now - started < FAST_RECHECK_WINDOW)"

section \<open>Applying outcomes\<close>

definition record_dns :: "config \<Rightarrow> uuid \<Rightarrow> bool \<Rightarrow> instant \<Rightarrow> check_type \<Rightarrow> outcome \<Rightarrow> db \<Rightarrow> error + db" where
  "record_dns C i fast now t x s = bind_res (schedule_next (domain_check_of s i t) x now) (\<lambda>(next_at, details).
     record_check C i t (oc_status x) (oc_error_code x) (oc_message x) (Some details) now
       (Some (if fast \<and> \<not> passing x then min next_at (now + FAST_RECHECK_INTERVAL) else next_at)) s)"

definition failing_since :: "db \<Rightarrow> uuid \<Rightarrow> error + instant" where
  "failing_since s i = (case domain_check_of s i OWNERSHIP of
     None \<Rightarrow> Inl StaleDataError
   | Some c \<Rightarrow> (case ch_details c of None \<Rightarrow> Inl StaleDataError
     | Some m \<Rightarrow> (case dict_get m ''failing_since'' of
         Some (JTime t) \<Rightarrow> Inr t | _ \<Rightarrow> Inl (ValueError ''Invalid isoformat string''))))"

definition dns_passed :: "config \<Rightarrow> uuid \<Rightarrow> instant \<Rightarrow> db \<Rightarrow> error + db" where
  "dns_passed C i now s = bind_res
     (if map_option c_status (active_claim s i) = Some Claim_Pending
      then mark_claim_verified C i ''dns_txt'' now s else Inr s)
     (\<lambda>s1. case domain_row s1 i of
        None \<Rightarrow> Inl StaleDataError
      | Some d \<Rightarrow>
        if d_status d \<in> {PENDING_DNS, SUSPENDED}
        then transition_status C i PROVISIONING (Some ''dns_verified'') now s1
        else if d_status d = ATTENTION_REQUIRED \<and> checks_passing s1 i
        then transition_status C i READY (Some ''recovered'') now s1
        else Inr s1)"

definition dns_failed :: "config \<Rightarrow> uuid \<Rightarrow> outcome \<Rightarrow> instant \<Rightarrow> db \<Rightarrow> error + db" where
  "dns_failed C i ownership now s = (case domain_row s i of
     None \<Rightarrow> Inl StaleDataError
   | Some d \<Rightarrow>
     let failed = (if \<not> passing ownership then ''ownership'' else ''routing'') in
     if d_status d = PROVISIONING
     then transition_status C i PENDING_DNS (Some (failed @ ''_check_failed'')) now s
     else if d_status d = ATTENTION_REQUIRED \<and> \<not> passing ownership
       \<and> map_option c_status (active_claim s i) = Some Claim_Verified
     then bind_res (failing_since s i) (\<lambda>since.
       if now - since \<ge> OWNERSHIP_LOSS_GRACE
       then transition_status C i SUSPENDED (Some ''ownership_lost'') now s else Inr s)
     else Inr s)"

definition apply_dns_outcomes :: "config \<Rightarrow> uuid \<Rightarrow> outcome \<Rightarrow> outcome \<Rightarrow> instant \<Rightarrow> db \<Rightarrow> error + db" where
  "apply_dns_outcomes C i ownership routing now s = (case domain_row s i of
     None \<Rightarrow> Inl StaleDataError
   | Some d \<Rightarrow>
     let fast = fast_recheck_due d now in
     bind_res (record_dns C i fast now OWNERSHIP ownership s) (\<lambda>s1.
     bind_res (record_dns C i fast now ROUTING routing s1) (\<lambda>s2.
       if passing ownership \<and> passing routing then dns_passed C i now s2
       else dns_failed C i ownership now s2)))"

definition run_dns_checks :: "config \<Rightarrow> resolver \<Rightarrow> uuid \<Rightarrow> instant \<Rightarrow> db \<Rightarrow> error + db" where
  "run_dns_checks C R i now s = (case domain_row s i of
     None \<Rightarrow> Inl StaleDataError
   | Some d \<Rightarrow> apply_dns_outcomes C i (ownership_outcome R s d) (routing_outcome R s d) now s)"

section \<open>Answers from the service's own records\<close>

text \<open>\<open>IssuedRecordsResolver\<close>, the resolver of local development.\<close>

definition issued_resolver :: "db \<Rightarrow> resolver" where
  "issued_resolver s = \<lparr>
     r_txt = (\<lambda>name. let wanted = normalize_name name;
       values = map txt_record_value (filter (\<lambda>c. c_txt_record_name c = wanted \<and> c_status c \<noteq> Claim_Revoked
         \<and> list_ex (\<lambda>d. d_id d = c_domain_id c \<and> d_deleted_at d = None) (domains s)) (claims s))
       in if values = [] then Inl (DnsNameNotFound name) else Inr values),
     r_cname = (\<lambda>name. let wanted = normalize_name name in
       case find (\<lambda>d. d_hostname d = wanted \<and> d_deleted_at d = None) (domains s) of
         None \<Rightarrow> Inl (DnsNameNotFound name)
       | Some d \<Rightarrow> (case active_claim s (d_id d) of
           None \<Rightarrow> Inl (DnsNameNotFound name)
         | Some claim \<Rightarrow> Inr (Some (normalize_name (c_cname_target claim))))),
     r_has_address = (\<lambda>_. Inr False),
     r_ns = (\<lambda>_. Inr [])\<rparr>"

section \<open>The status rules\<close>

text \<open>The rules of \<open>docs/dns-verification.md\<close>, as a function of what is known.\<close>

fun dns_rule :: "domain_status \<Rightarrow> bool \<Rightarrow> bool \<Rightarrow> bool \<Rightarrow> domain_status" where
  "dns_rule st True others lost = (case st of
     PENDING_DNS \<Rightarrow> PROVISIONING | SUSPENDED \<Rightarrow> PROVISIONING
   | ATTENTION_REQUIRED \<Rightarrow> if others then READY else ATTENTION_REQUIRED
   | _ \<Rightarrow> st)"
| "dns_rule st False others lost = (case st of
     PROVISIONING \<Rightarrow> PENDING_DNS
   | READY \<Rightarrow> if lost then SUSPENDED else ATTENTION_REQUIRED
   | ATTENTION_REQUIRED \<Rightarrow> if lost then SUSPENDED else ATTENTION_REQUIRED
   | _ \<Rightarrow> st)"

lemma outcome_cases:
  "oc_status (ownership_outcome R s d) = Check_Passing \<or> oc_status (ownership_outcome R s d) = Check_Failing"
  "oc_status (routing_outcome R s d) = Check_Passing \<or> oc_status (routing_outcome R s d) = Check_Failing"
  by (auto simp: ownership_outcome_def routing_outcome_def claim_revoked_outcome_def failing_outcome_def
      passing_outcome_def Let_def split: option.splits sum.splits dns_error.splits)

lemma record_check_rowD:
  assumes "record_check C i ty st code message details at nxt s = Inr t"
  shows "\<exists>d d'. domain_row s i = Some d \<and> domain_row t i = Some d' \<and> d_is_deleted d' = d_is_deleted d
    \<and> d_status d' = (if st = Check_Failing \<and> d_status d = READY then ATTENTION_REQUIRED else d_status d)"
    and "active_claim t = active_claim s"
proof -
  from assms obtain d f u p where d: "domain_row s i = Some d"
    and ev: "record_event C i CHECK_UPDATED p at (upsert_check i ty f s) = Inr u"
    and next_: "st = Check_Failing \<and> d_status d = READY \<and>
        transition_status C i ATTENTION_REQUIRED (Some (check_type_value ty @ ''_check_failed'')) at u = Inr t
      \<or> \<not> (st = Check_Failing \<and> d_status d = READY) \<and> u = t"
    by (rule record_checkE) blast
  note f = record_event_frame [OF ev]
  show "\<exists>d d'. domain_row s i = Some d \<and> domain_row t i = Some d' \<and> d_is_deleted d' = d_is_deleted d
    \<and> d_status d' = (if st = Check_Failing \<and> d_status d = READY then ATTENTION_REQUIRED else d_status d)"
    using next_ d f transition_status_row(1) [of C i ATTENTION_REQUIRED "Some (check_type_value ty @ ''_check_failed'')" at u t]
    by (auto simp: d_is_deleted_def)
  have "claims t = claims u"
    using next_ transition_status_row(2) by auto
  then show "active_claim t = active_claim s"
    by (simp add: f active_claim_def domain_claims_def fun_eq_iff)
qed

lemma record_dnsE:
  assumes "record_dns C i fast now ty x s = Inr t"
  obtains at details where "schedule_next (domain_check_of s i ty) x now = Inr (at, details)"
    "record_check C i ty (oc_status x) (oc_error_code x) (oc_message x) (Some details) now
       (Some (if fast \<and> \<not> passing x then min at (now + FAST_RECHECK_INTERVAL) else at)) s = Inr t"
  using assms by (auto simp: record_dns_def elim!: bind_res_InrE)

lemma status_steps: "transition_status C i st why now s = Inr t \<Longrightarrow> (lifecycle_step C)\<^sup>*\<^sup>* s t"
  by (rule r_into_rtranclp) (rule lifecycle_step.status)

lemma dns_passed_steps:
  assumes "dns_passed C i now s = Inr t"
  shows "(lifecycle_step C)\<^sup>*\<^sup>* s t"
proof -
  from assms obtain s1 where 1: "(if map_option c_status (active_claim s i) = Some Claim_Pending
      then mark_claim_verified C i ''dns_txt'' now s else Inr s) = Inr s1"
    and 2: "(case domain_row s1 i of None \<Rightarrow> Inl StaleDataError | Some d \<Rightarrow>
        if d_status d \<in> {PENDING_DNS, SUSPENDED}
        then transition_status C i PROVISIONING (Some ''dns_verified'') now s1
        else if d_status d = ATTENTION_REQUIRED \<and> checks_passing s1 i
        then transition_status C i READY (Some ''recovered'') now s1
        else Inr s1) = Inr t"
    unfolding dns_passed_def by (rule bind_res_InrE)
  have "(lifecycle_step C)\<^sup>*\<^sup>* s s1"
    using 1 by (auto split: if_splits intro: lifecycle_step.verify)
  moreover have "(lifecycle_step C)\<^sup>*\<^sup>* s1 t"
    using 2 by (auto split: if_splits option.splits intro: lifecycle_step.status)
  ultimately show ?thesis by (rule rtranclp_trans)
qed

lemma dns_failed_steps: "dns_failed C i x now s = Inr t \<Longrightarrow> (lifecycle_step C)\<^sup>*\<^sup>* s t"
  by (auto simp: dns_failed_def Let_def elim!: bind_res_InrE split: if_splits option.splits
      intro: status_steps)

lemma apply_dns_outcomesE:
  assumes "apply_dns_outcomes C i own rout now s = Inr t"
  obtains d s1 s2 where "domain_row s i = Some d"
    "record_dns C i (fast_recheck_due d now) now OWNERSHIP own s = Inr s1"
    "record_dns C i (fast_recheck_due d now) now ROUTING rout s1 = Inr s2"
    "(if passing own \<and> passing rout then dns_passed C i now s2 else dns_failed C i own now s2) = Inr t"
  using assms unfolding apply_dns_outcomes_def Let_def
  by (auto simp del: if_split split: option.splits elim!: bind_res_InrE)

lemma apply_dns_outcomes_steps:
  assumes "apply_dns_outcomes C i own rout now s = Inr t"
  shows "(lifecycle_step C)\<^sup>*\<^sup>* s t"
  using assms
proof (rule apply_dns_outcomesE)
  fix d s1 s2
  assume 1: "record_dns C i (fast_recheck_due d now) now OWNERSHIP own s = Inr s1"
    and 2: "record_dns C i (fast_recheck_due d now) now ROUTING rout s1 = Inr s2"
    and 3: "(if passing own \<and> passing rout then dns_passed C i now s2 else dns_failed C i own now s2) = Inr t"
  have "lifecycle_step C s s1" using 1 by (rule record_dnsE) (rule lifecycle_step.check)
  moreover have "lifecycle_step C s1 s2" using 2 by (rule record_dnsE) (rule lifecycle_step.check)
  moreover have "(lifecycle_step C)\<^sup>*\<^sup>* s2 t"
    using 3 dns_passed_steps dns_failed_steps by (auto split: if_splits)
  ultimately show ?thesis
    by (meson converse_rtranclp_into_rtranclp)
qed

lemma checks_passing_status: "checks_passing s i \<longleftrightarrow> (\<forall>ty. check_status_of s i ty = Check_Passing)"
  unfolding checks_passing_iff check_status_of_def
  by (intro all_cong1) (auto split: option.splits)

lemma all_check_types: "(\<forall>ty. P ty) \<longleftrightarrow> P OWNERSHIP \<and> P ROUTING \<and> P CERTIFICATE \<and> P ORIGIN"
  by (metis check_type.exhaust)

lemma failing_since_checks: "checks t = checks s \<Longrightarrow> failing_since t i = failing_since s i"
  by (simp add: failing_since_def domain_check_of_def domain_checks_def)

lemma status_target:
  "transition_status C i st why now s = Inr t \<Longrightarrow> \<exists>d'. domain_row t i = Some d' \<and> d_status d' = st"
  using transition_status_row(1) by blast

lemma dns_passed_status:
  assumes "dns_passed C i now s = Inr t" and "domain_row s i = Some d"
  shows "\<exists>d'. domain_row t i = Some d' \<and> d_status d' = dns_rule (d_status d) True (checks_passing s i) lost"
proof -
  from assms obtain s1 where 1: "(if map_option c_status (active_claim s i) = Some Claim_Pending
      then mark_claim_verified C i ''dns_txt'' now s else Inr s) = Inr s1"
    and 2: "(case domain_row s1 i of None \<Rightarrow> Inl StaleDataError | Some d \<Rightarrow>
        if d_status d \<in> {PENDING_DNS, SUSPENDED}
        then transition_status C i PROVISIONING (Some ''dns_verified'') now s1
        else if d_status d = ATTENTION_REQUIRED \<and> checks_passing s1 i
        then transition_status C i READY (Some ''recovered'') now s1
        else Inr s1) = Inr t"
    unfolding dns_passed_def by (elim bind_res_InrE)
  have same: "domain_row s1 = domain_row s \<and> check_row s1 = check_row s"
  proof (cases "map_option c_status (active_claim s i) = Some Claim_Pending")
    case True
    with 1 have "mark_claim_verified C i ''dns_txt'' now s = Inr s1" by simp
    then show ?thesis
      by (rule mark_claim_verifiedE) (auto simp: record_event_frame)
  qed (use 1 in \<open>auto split: if_splits\<close>)
  then have "checks_passing s1 i = checks_passing s i" by (simp add: checks_passing_iff)
  with 2 same assms(2) show ?thesis
    by (cases "d_status d") (auto dest: status_target)
qed

lemma dns_failed_status:
  assumes "dns_failed C i own now s = Inr t" and "domain_row s i = Some d" and "d_status d \<noteq> READY"
  shows "\<exists>d'. domain_row t i = Some d' \<and> d_status d' = dns_rule (d_status d) False others
      (\<not> passing own \<and> map_option c_status (active_claim s i) = Some Claim_Verified
        \<and> (\<exists>since. failing_since s i = Inr since \<and> OWNERSHIP_LOSS_GRACE \<le> now - since))
    \<and> checks t = checks s"
proof (cases "d_status d = PROVISIONING")
  case True
  with assms have "transition_status C i PENDING_DNS (Some ((if \<not> passing own then ''ownership'' else ''routing'') @ ''_check_failed'')) now s = Inr t"
    by (simp add: dns_failed_def)
  with True show ?thesis using status_target transition_status_row(3) by fastforce
next
  case np: False
  let ?v = "\<not> passing own \<and> map_option c_status (active_claim s i) = Some Claim_Verified"
  show ?thesis
  proof (cases "d_status d = ATTENTION_REQUIRED \<and> ?v")
    case True
    with assms np obtain since where since: "failing_since s i = Inr since"
      "(if now - since \<ge> OWNERSHIP_LOSS_GRACE
       then transition_status C i SUSPENDED (Some ''ownership_lost'') now s else Inr s) = Inr t"
      by (auto simp: dns_failed_def Let_def elim!: bind_res_InrE)
    show ?thesis
    proof (cases "OWNERSHIP_LOSS_GRACE \<le> now - since")
      case lost: True
      with since have "transition_status C i SUSPENDED (Some ''ownership_lost'') now s = Inr t" by simp
      with lost since(1) True show ?thesis using status_target transition_status_row(3) by fastforce
    next
      case kept: False
      with since True assms(2) show ?thesis by auto
    qed
  next
    case False
    with assms np have "t = s" by (auto simp: dns_failed_def Let_def split: if_splits)
    with False np assms(2,3) show ?thesis by (cases "d_status d") auto
  qed
qed

text \<open>
  One run of the DNS checks moves a domain exactly as the documented rules say: on both
  checks passing a waiting or suspended domain starts provisioning and one that needs
  attention returns to ready if its other checks pass; on a failure a provisioning domain
  falls back to waiting, a ready one needs attention, and service is suspended only when
  the ownership of a verified claim has been failing for at least a day.
\<close>

theorem dns_status_rules:
  assumes "run_dns_checks C R i now s = Inr t" and "domain_row s i = Some d"
  defines "own \<equiv> passing (ownership_outcome R s d)" and "rout \<equiv> passing (routing_outcome R s d)"
  shows "\<exists>d'. domain_row t i = Some d' \<and> d_status d' = dns_rule (d_status d) (own \<and> rout)
      (check_status_of s i CERTIFICATE = Check_Passing \<and> check_status_of s i ORIGIN = Check_Passing)
      (\<not> own \<and> map_option c_status (active_claim s i) = Some Claim_Verified
        \<and> (\<exists>since. failing_since t i = Inr since \<and> hours 24 \<le> now - since))"
proof -
  let ?own = "ownership_outcome R s d" and ?rout = "routing_outcome R s d"
  from assms(1,2) have "apply_dns_outcomes C i ?own ?rout now s = Inr t" by (simp add: run_dns_checks_def)
  then obtain s1 s2 where 1: "record_dns C i (fast_recheck_due d now) now OWNERSHIP ?own s = Inr s1"
    and 2: "record_dns C i (fast_recheck_due d now) now ROUTING ?rout s1 = Inr s2"
    and 3: "(if passing ?own \<and> passing ?rout then dns_passed C i now s2 else dns_failed C i ?own now s2) = Inr t"
    using assms(2) by (auto elim: apply_dns_outcomesE)
  obtain a1 m1 where c1: "record_check C i OWNERSHIP (oc_status ?own) (oc_error_code ?own) (oc_message ?own) (Some m1) now a1 s = Inr s1"
    using 1 by (rule record_dnsE)
  obtain a2 m2 where c2: "record_check C i ROUTING (oc_status ?rout) (oc_error_code ?rout) (oc_message ?rout) (Some m2) now a2 s1 = Inr s2"
    using 2 by (rule record_dnsE)
  have fail: "oc_status ?own = Check_Failing \<longleftrightarrow> \<not> own" "oc_status ?rout = Check_Failing \<longleftrightarrow> \<not> rout"
    using outcome_cases [of R s d] by (auto simp: own_def rout_def passing_def)
  obtain d2 where d2: "domain_row s2 i = Some d2"
    "d_status d2 = (if \<not> (own \<and> rout) \<and> d_status d = READY then ATTENTION_REQUIRED else d_status d)"
    using record_check_rowD(1) [OF c1] record_check_rowD(1) [OF c2] assms(2) fail by (auto split: if_splits)
  have claim: "active_claim s2 = active_claim s"
    using record_check_rowD(2) [OF c1] record_check_rowD(2) [OF c2] by simp
  have st: "check_status_of s2 i = (check_status_of s i)(OWNERSHIP := oc_status ?own, ROUTING := oc_status ?rout)"
    using record_check_status(1) [OF c1] record_check_status(1) [OF c2] by simp
  show ?thesis
  proof (cases "own \<and> rout")
    case True
    have "checks_passing s2 i \<longleftrightarrow> check_status_of s i CERTIFICATE = Check_Passing \<and> check_status_of s i ORIGIN = Check_Passing"
      using True by (simp add: checks_passing_status all_check_types st own_def rout_def passing_def)
    moreover have "dns_passed C i now s2 = Inr t" using True 3 by (simp add: own_def rout_def)
    ultimately show ?thesis
      using dns_passed_status [OF _ d2(1)] True d2(2) by auto
  next
    case False
    have f: "dns_failed C i ?own now s2 = Inr t" using False 3 by (auto simp: own_def rout_def split: if_splits)
    have "d_status d2 \<noteq> READY" using d2(2) False by simp
    from dns_failed_status [OF f d2(1) this, of False] obtain d' where row: "domain_row t i = Some d'"
      and st': "d_status d' = dns_rule (d_status d2) False False (\<not> passing ?own
        \<and> map_option c_status (active_claim s2 i) = Some Claim_Verified
        \<and> (\<exists>since. failing_since s2 i = Inr since \<and> OWNERSHIP_LOSS_GRACE \<le> now - since))"
      and chk: "checks t = checks s2" by (elim exE conjE) (rule that)
    from st' failing_since_checks [OF chk] have d': "d_status d' = dns_rule (d_status d2) False False (\<not> own
        \<and> map_option c_status (active_claim s i) = Some Claim_Verified
        \<and> (\<exists>since. failing_since t i = Inr since \<and> hours 24 \<le> now - since))"
      by (simp only: claim own_def OWNERSHIP_LOSS_GRACE_def simp_thms)
    have eq: "(own \<and> rout) = False" using False by simp
    have rule: "dns_rule (d_status d2) False False lost = dns_rule (d_status d) False others lost" for others lost
      using d2(2) False by (cases "d_status d") auto
    show ?thesis
      unfolding eq by (intro exI [of _ d'] conjI row) (rule trans [OF d' rule])
  qed
qed


definition demo_new :: db where
  "demo_new = demo_run [hd demo_ops] demo_db"

lemma demo_new_reachable: "reachable demo_cfg demo_new"
proof -
  have run: "fold_res (\<lambda>f. f) [hd demo_ops] demo_db = Inr demo_new"
    unfolding demo_new_def demo_run_def by (rule projr_eq) code_simp
  have "hd demo_ops \<in> set demo_ops" by (simp add: demo_ops_def)
  then have "(lifecycle_step demo_cfg)\<^sup>*\<^sup>* demo_db demo_new"
    by (intro run_reaches [OF run]) (auto intro: demo_ops_steps)
  moreover have "fresh_db demo_db" by (simp add: fresh_db_def demo_db_def)
  ultimately show ?thesis unfolding reachable_def by blast
qed

definition demo_again :: db where
  "demo_again = projr (reissue_claim demo_cfg demo_app 10 3500 demo_new)"

lemma demo_again_reachable: "reachable demo_cfg demo_again"
proof -
  have "reissue_claim demo_cfg demo_app 10 3500 demo_new = Inr demo_again"
    unfolding demo_again_def by (rule projr_eq) code_simp
  then have "lifecycle_step demo_cfg demo_new demo_again" by (rule lifecycle_step.reissue)
  then show ?thesis
    using demo_new_reachable unfolding reachable_def by (meson rtranclp.rtrancl_into_rtrancl)
qed

theorem dns_status_rules_witness:
  "\<exists>t d'. run_dns_checks demo_cfg (issued_resolver demo_new) 10 60000 demo_new = Inr t
    \<and> domain_row t 10 = Some d' \<and> d_status d' = PROVISIONING"
proof -
  let ?r = "run_dns_checks demo_cfg (issued_resolver demo_new) 10 60000 demo_new"
  have "let s = demo_new in isl (run_dns_checks demo_cfg (issued_resolver s) 10 60000 s) = False
      \<and> (case domain_row s 10 of Some d \<Rightarrow> d_status d = PENDING_DNS
        \<and> passing (ownership_outcome (issued_resolver s) s d)
        \<and> passing (routing_outcome (issued_resolver s) s d) | None \<Rightarrow> False)" by code_simp
  note facts = this [unfolded Let_def]
  have r: "?r = Inr (projr ?r)" by (rule projr_eq [OF conjunct1 [OF facts]])
  from conjunct2 [OF facts] obtain d where d: "domain_row demo_new 10 = Some d" "d_status d = PENDING_DNS"
    "passing (ownership_outcome (issued_resolver demo_new) demo_new d)"
    "passing (routing_outcome (issued_resolver demo_new) demo_new d)" by (auto split: option.splits)
  from dns_status_rules [OF r d(1)] d(2-4) r show ?thesis
    by (intro exI [of _ "projr ?r"]) auto
qed

lemma txt_record_value_inject: "txt_record_value c = txt_record_value c' \<longleftrightarrow> c_token c = c_token c'"
  by (simp add: txt_record_value_def)


text \<open>
  The retry schedule is bounded. A check that does not pass is due again within an hour and
  no sooner than a minute, its attempt counter grows by one and the start of the failure
  is kept; a passing check is revalidated after six hours with its counter reset.
\<close>

lemma schedule_next_bounds:
  assumes "schedule_next check x now = Inr (at, details)"
  shows "(passing x \<longrightarrow> at = now + hours 6 \<and> dict_get details ''attempts'' = Some (JInt 0))
    \<and> (\<not> passing x \<longrightarrow> now + minutes 1 \<le> at \<and> at \<le> now + hours 1
      \<and> (\<forall>c m n. check = Some c \<and> ch_details c = Some m \<and> dict_get m ''attempts'' = Some (JInt n)
          \<longrightarrow> dict_get details ''attempts'' = Some (JInt (n + 1)))
      \<and> (\<forall>c m t. check = Some c \<and> ch_details c = Some m \<and> dict_get m ''failing_since'' = Some (JTime t)
          \<longrightarrow> dict_get details ''failing_since'' = Some (JTime t)))"
proof (cases "passing x")
  case True
  with assms show ?thesis
    by (auto simp: schedule_next_def REVALIDATE_INTERVAL_def)
next
  case False
  let ?prev = "case check of None \<Rightarrow> [] | Some c \<Rightarrow> (case ch_details c of None \<Rightarrow> [] | Some m \<Rightarrow> m)"
  from assms False obtain n delay where n: "(case dict_get ?prev ''attempts'' of None \<Rightarrow> Inr 0 | Some j \<Rightarrow> json_int j) = Inr n"
    and delay: "backoff_delay BACKOFF (n + 1) = Inr delay" and at: "at = now + delay"
    and details: "details = dict_set (dict_set (oc_details x) ''attempts'' (JInt (n + 1))) ''failing_since''
      (case dict_get ?prev ''failing_since'' of Some j \<Rightarrow> if json_falsy j then JTime now else j | None \<Rightarrow> JTime now)"
    unfolding schedule_next_def Let_def by (auto elim!: bind_res_InrE)
  have "minutes 1 \<le> delay" "delay \<le> hours 1"
    using dns_backoff.delay_bounds [OF delay] by (simp_all add: BACKOFF_def)
  moreover have "\<not> json_falsy (JTime t)" for t by (simp add: json_falsy_def)
  ultimately show ?thesis
    using False at n details by (auto simp: json_int_def)
qed


definition demo_failing_check :: domain_check where
  "demo_failing_check = \<lparr>ch_domain_id = 10, ch_check_type = OWNERSHIP, ch_status = Check_Failing,
     ch_error_code = Some ''dns_timeout'', ch_message = None,
     ch_details = Some [(''attempts'', JInt 2), (''failing_since'', JTime 500)], ch_observed_at = Some 500,
     ch_next_check_at = None\<rparr>"


end
