(* ===== verification/Edge_Checks.thy ===== *)
theory Edge_Checks
  imports Dns_Checks
begin

text \<open>
  Certificate authorization, the certificate and origin checks and readiness
  (\<open>app/services/edge_checks.py\<close>, \<open>routable\<close> of \<open>app/edge/config.py\<close>).
\<close>

section \<open>The edge's settings and probes\<close>

text \<open>
  The settings the modelled code reads, and what a probe through the edge reports. The probes
  themselves (TLS and HTTP requests) are arguments.
\<close>

record edge_settings =
  es_disable_https :: bool
  es_edge_hostname :: "string option"
  es_edge_token :: "string option"
  es_ask_trusted_hosts :: "string list"
  es_assertion_keys :: "(string \<times> string) list"
  es_assertion_ttl :: int
  es_https_port :: int
  es_http_port :: int
  es_acme_email :: "string option"
  es_tls_issuer :: string
  es_ask_url :: string
  es_assert_upstream :: string
  es_portal_allowed_ips :: "string list"
  es_operator_allowed_ips :: "string list"
  es_operator_api_enabled :: bool
  es_public_api :: bool

record edge_probe =
  pb_address :: string
  pb_not_after :: instant
  pb_issuer :: string
  pb_status :: int
  pb_edge_header :: "string option"
  pb_not_before :: "instant option"

record workspace_probe =
  wp_address :: string
  wp_status :: int
  wp_reference :: "string option"
  wp_application_id :: "string option"

record prober =
  probe :: "string \<Rightarrow> (string \<times> string) + edge_probe"
  probe_workspace :: "string \<Rightarrow> (string \<times> string) + workspace_probe"

definition CERTIFICATE_EXPIRY_WARNING :: duration where "CERTIFICATE_EXPIRY_WARNING = days 7"
definition EDGE_HEALTH_VALUE :: string where "EDGE_HEALTH_VALUE = ''1''"
definition NOT_ISSUABLE :: "domain_status list" where "NOT_ISSUABLE = [PENDING_DNS, SUSPENDED, DELETING]"
definition ROUTABLE_STATUSES :: "domain_status list" where
  "ROUTABLE_STATUSES = [PROVISIONING, READY, ATTENTION_REQUIRED]"

section \<open>Authorization\<close>

definition owner_active :: "db \<Rightarrow> domain \<Rightarrow> bool" where
  "owner_active s d = (case application_row s (d_application_id d) of
     None \<Rightarrow> False | Some a \<Rightarrow> app_status a = App_Active)"

definition certificate_authorized :: "db \<Rightarrow> domain option \<Rightarrow> bool" where
  "certificate_authorized s x = (case x of
     None \<Rightarrow> False
   | Some d \<Rightarrow>
     if d_is_deleted d \<or> d_status d \<in> set NOT_ISSUABLE then False
     else if \<not> owner_active s d then False
     else (case active_claim s (d_id d) of None \<Rightarrow> False | Some claim \<Rightarrow> c_status claim = Claim_Verified))"

definition eligible_for_edge_checks :: "db \<Rightarrow> domain \<Rightarrow> bool" where
  "eligible_for_edge_checks s d = certificate_authorized s (Some d)"

definition routable :: "db \<Rightarrow> domain \<Rightarrow> bool" where
  "routable s d =
     (if d_is_deleted d \<or> d_status d \<notin> set ROUTABLE_STATUSES then False
      else if \<not> owner_active s d then False
      else (case active_claim s (d_id d) of None \<Rightarrow> False | Some claim \<Rightarrow> c_status claim = Claim_Verified))"

definition is_edge_name :: "libs \<Rightarrow> db \<Rightarrow> string \<Rightarrow> edge_settings option \<Rightarrow> bool" where
  "is_edge_name L s hostname settings = (case canonicalize L True (Some hostname) of
     Inl _ \<Rightarrow> False
   | Inr canonical \<Rightarrow>
     if (case settings of None \<Rightarrow> False | Some es \<Rightarrow> es_edge_hostname es = Some canonical) then True
     else if list_ex (\<lambda>a. app_cname_target a = canonical \<and> app_status a = App_Active) (applications s) then True
     else list_ex (\<lambda>c. c_cname_target c = canonical \<and> c_status c \<noteq> Claim_Revoked
       \<and> list_ex (\<lambda>d. d_id d = c_domain_id c \<and> d_deleted_at d = None
           \<and> list_ex (\<lambda>a. app_id a = d_application_id d \<and> app_status a = App_Active) (applications s)) (domains s))
       (claims s))"

section \<open>Outcomes of the edge checks\<close>

text \<open>\<open>timedelta / 3\<close>, rounded to the nearest microsecond.\<close>

definition third :: "duration \<Rightarrow> duration" where
  "third d = (d + 1) div 3"

definition certificate_outcome :: "prober \<Rightarrow> domain \<Rightarrow> edge_settings \<Rightarrow> instant \<Rightarrow> (instant \<Rightarrow> string) \<Rightarrow> outcome" where
  "certificate_outcome P d es now isofmt =
     (if es_disable_https es then passing_outcome [(''tls'', JStr ''disabled'')]
      else case probe P (d_hostname d) of
        Inl (code, message) \<Rightarrow> failing_outcome code message []
      | Inr p \<Rightarrow>
        if pb_status p \<noteq> 204 \<or> pb_edge_header p \<noteq> Some EDGE_HEALTH_VALUE
        then failing_outcome ''edge_not_reached'' (d_hostname d @ '' answered over HTTPS (HTTP '' @ str_of_int (pb_status p)
          @ '') but not from this edge; traffic is reaching another server. Check the CNAME target and any proxy or CDN ''
          @ ''in front of the hostname.'') [(''address'', JStr (pb_address p))]
        else let
          remaining = pb_not_after p - now;
          warning = (case pb_not_before p of None \<Rightarrow> CERTIFICATE_EXPIRY_WARNING
            | Some b \<Rightarrow> min CERTIFICATE_EXPIRY_WARNING (third (pb_not_after p - b)));
          details = [(''address'', JStr (pb_address p)), (''issuer'', JStr (pb_issuer p)),
            (''not_after'', JTime (pb_not_after p))]
        in if remaining \<le> 0 then failing_outcome ''certificate_expired'' (''The certificate for '' @ d_hostname d
             @ '' expired at '' @ isofmt (pb_not_after p) @ ''; renewal has failed. Check Caddy'' @ [CHR 0x27]
             @ ''s log for ACME errors, CAA records and rate limits.'') details
           else if remaining < warning then failing_outcome ''certificate_expiring'' (''The certificate for ''
             @ d_hostname d @ '' expires at '' @ isofmt (pb_not_after p)
             @ '' and has not been renewed. Check Caddy'' @ [CHR 0x27]
             @ ''s log for ACME errors, CAA records and rate limits.'') details
           else passing_outcome details)"

definition origin_outcome :: "db \<Rightarrow> domain \<Rightarrow> prober option \<Rightarrow> outcome" where
  "origin_outcome s d prober = (case application_row s (d_application_id d) of
     None \<Rightarrow> failing_outcome ''origin_not_ready'' (''Application ? has no verified active origin. Run ''
       @ ''`custom-domain origin verify --activate` for it.'') []
   | Some a \<Rightarrow> (case serving_origin s (app_id a) of
       None \<Rightarrow> failing_outcome ''origin_not_ready'' (''Application '' @ app_slug a
         @ '' has no verified active origin. Run `custom-domain origin verify --activate` for it.'') []
     | Some origin \<Rightarrow>
       let details = [(''origin'', JStr (origin_url origin))] in
       (case (if app_workspace_probe_enabled a then prober else None) of
          None \<Rightarrow> passing_outcome (dict_set details ''workspace_probe'' (JStr ''disabled''))
        | Some P \<Rightarrow> (case probe_workspace P (d_hostname d) of
            Inl (code, message) \<Rightarrow> failing_outcome code message details
          | Inr w \<Rightarrow>
            let details = dict_set details ''address'' (JStr (wp_address w)) in
            if wp_status w \<noteq> 200
            then failing_outcome ''workspace_probe_failed'' (d_hostname d @ '' answered HTTP '' @ str_of_int (wp_status w)
              @ '' on the workspace path; the origin must return 200 with the workspace it selected from the assertion ''
              @ ''(docs/lifecycle.md).'') details
            else (case wp_reference w of
              None \<Rightarrow> failing_outcome ''workspace_probe_invalid'' (d_hostname d
                @ '': the workspace path returned 200 without a JSON `reference` ''
                @ ''field; the origin must echo the reference from the verified assertion.'') details
            | Some ref \<Rightarrow>
              if ref \<noteq> d_reference d
                \<or> (case wp_application_id w of None \<Rightarrow> False | Some i \<Rightarrow> i \<noteq> uuid_str (d_application_id d))
              then failing_outcome ''workspace_mismatch'' (d_hostname d @ '' is served for workspace '' @ py_repr ref
                @ '' but is registered for '' @ py_repr (d_reference d) @ ''; the origin must select the workspace from the ''
                @ ''assertion'' @ [CHR 0x27] @ ''s `ref`, never from the hostname or other input.'')
                (dict_set details ''observed_reference'' (JStr ref))
              else passing_outcome (dict_set details ''workspace'' (JStr ref)))))))"

section \<open>Applying outcomes\<close>

definition record_edge :: "config \<Rightarrow> uuid \<Rightarrow> instant \<Rightarrow> check_type \<Rightarrow> outcome \<Rightarrow> db \<Rightarrow> error + db" where
  "record_edge C i now t x s = bind_res (schedule_next (domain_check_of s i t) x now) (\<lambda>(next_at, details).
     record_check C i t (oc_status x) (oc_error_code x) (oc_message x) (Some details) now (Some next_at) s)"

definition apply_edge_outcomes :: "config \<Rightarrow> uuid \<Rightarrow> outcome \<Rightarrow> outcome \<Rightarrow> instant \<Rightarrow> db \<Rightarrow> error + db" where
  "apply_edge_outcomes C i certificate origin now s =
     bind_res (record_edge C i now CERTIFICATE certificate s) (\<lambda>s1.
     bind_res (record_edge C i now ORIGIN origin s1) (\<lambda>s2.
       case domain_row s2 i of
         None \<Rightarrow> Inl StaleDataError
       | Some d \<Rightarrow>
         if d_status d \<in> {PROVISIONING, ATTENTION_REQUIRED}
           \<and> map_option c_status (active_claim s2 i) = Some Claim_Verified \<and> checks_passing s2 i
         then transition_status C i READY
           (Some (if d_status d = PROVISIONING then ''readiness_probe_passed'' else ''recovered'')) now s2
         else Inr s2))"

definition run_edge_checks ::
    "config \<Rightarrow> prober \<Rightarrow> edge_settings \<Rightarrow> (instant \<Rightarrow> string) \<Rightarrow> uuid \<Rightarrow> instant \<Rightarrow> db \<Rightarrow> error + db" where
  "run_edge_checks C P es isofmt i now s = (case domain_row s i of
     None \<Rightarrow> Inl StaleDataError
   | Some d \<Rightarrow> apply_edge_outcomes C i (certificate_outcome P d es now isofmt) (origin_outcome s d (Some P)) now s)"

section \<open>What the edge may do\<close>

text \<open>
  Serving is the narrowest of the edge's rules. A hostname that is served may hold a
  certificate and is routed; certificate and routing rules agree; and none of them ever
  admits a domain that is deleted, whose ownership is not currently verified or whose
  application is not active.
\<close>

lemma edge_rules_nest:
  "(is_serveable s d \<longrightarrow> certificate_authorized s (Some d))
    \<and> (certificate_authorized s (Some d) \<longleftrightarrow> routable s d)
    \<and> (routable s d \<longrightarrow> d_deleted_at d = None \<and> map_option c_status (active_claim s (d_id d)) = Some Claim_Verified
        \<and> (\<exists>a. application_row s (d_application_id d) = Some a \<and> app_status a = App_Active))"
  by (cases "d_status d")
    (auto simp: is_serveable_def certificate_authorized_def routable_def owner_active_def NOT_ISSUABLE_def
      ROUTABLE_STATUSES_def d_is_deleted_def split: option.splits if_splits)

text \<open>
  The certificate check passes, with HTTPS on, only if the probe reached this edge and the
  certificate is valid for longer than its warning margin: a third of its lifetime, at most
  seven days.
\<close>

lemma certificate_check_sound:
  assumes "passing (certificate_outcome P d es now isofmt)" and "\<not> es_disable_https es"
  shows "\<exists>p. probe P (d_hostname d) = Inr p \<and> pb_status p = 204 \<and> pb_edge_header p = Some ''1''
    \<and> now < pb_not_after p
    \<and> (days 7 \<le> pb_not_after p - now
       \<or> (\<exists>b. pb_not_before p = Some b \<and> 3 * (pb_not_after p - now) + 1 \<ge> pb_not_after p - b))"
proof -
  from assms obtain p where p: "probe P (d_hostname d) = Inr p"
    by (auto simp: certificate_outcome_def passing_def failing_outcome_def split: sum.splits)
  with assms have ok: "pb_status p = 204" "pb_edge_header p = Some EDGE_HEALTH_VALUE" "0 < pb_not_after p - now"
    "\<not> pb_not_after p - now < (case pb_not_before p of None \<Rightarrow> CERTIFICATE_EXPIRY_WARNING
            | Some b \<Rightarrow> min CERTIFICATE_EXPIRY_WARNING (third (pb_not_after p - b)))"
    by (auto simp: certificate_outcome_def Let_def passing_def failing_outcome_def split: if_splits)
  have "3 * third x \<ge> x - 1" for x by (simp add: third_def)
  then have "days 7 \<le> pb_not_after p - now
       \<or> (\<exists>b. pb_not_before p = Some b \<and> 3 * (pb_not_after p - now) + 1 \<ge> pb_not_after p - b)"
    using ok(4) by (auto simp: CERTIFICATE_EXPIRY_WARNING_def min_def split: option.splits if_splits)
      (smt (verit) \<open>\<And>x. 3 * third x \<ge> x - 1\<close>)+
  with p ok show ?thesis by (auto simp: EDGE_HEALTH_VALUE_def)
qed

text \<open>
  The origin check passes only for a verified active origin, and where the application has
  the workspace probe on, only if the origin answered through the edge with the domain's
  own workspace reference (and, if it names an application, with the owner's).
\<close>

lemma origin_check_sound:
  assumes "passing (origin_outcome s d (Some P))"
  shows "\<exists>a x. application_row s (d_application_id d) = Some a \<and> serving_origin s (app_id a) = Some x
    \<and> o_is_active x \<and> o_status x = Origin_Verified
    \<and> (app_workspace_probe_enabled a \<longrightarrow> (\<exists>w. probe_workspace P (d_hostname d) = Inr w \<and> wp_status w = 200
        \<and> wp_reference w = Some (d_reference d)
        \<and> (wp_application_id w = None \<or> wp_application_id w = Some (uuid_str (d_application_id d)))))"
proof -
  from assms obtain a where a: "application_row s (d_application_id d) = Some a"
    by (auto simp: origin_outcome_def passing_def failing_outcome_def split: option.splits)
  with assms obtain x where x: "serving_origin s (app_id a) = Some x"
    by (auto simp: origin_outcome_def passing_def failing_outcome_def split: option.splits)
  then have act: "o_is_active x" "o_status x = Origin_Verified"
    by (auto simp: serving_origin_def active_origin_def dest: find_SomeD split: option.splits if_splits)
  have "\<exists>w. probe_workspace P (d_hostname d) = Inr w \<and> wp_status w = 200 \<and> wp_reference w = Some (d_reference d)
        \<and> (wp_application_id w = None \<or> wp_application_id w = Some (uuid_str (d_application_id d)))"
    if on: "app_workspace_probe_enabled a"
  proof -
    from assms a x on obtain w where w: "probe_workspace P (d_hostname d) = Inr w"
      by (cases "probe_workspace P (d_hostname d)")
        (auto simp: origin_outcome_def Let_def passing_def failing_outcome_def)
    with assms a x on have "wp_status w = 200"
      by (auto simp: origin_outcome_def Let_def passing_def failing_outcome_def split: if_splits)
    with assms a x on w show ?thesis
      by (auto simp: origin_outcome_def Let_def passing_def failing_outcome_def split: if_splits option.splits)
  qed
  with a x act show ?thesis by blast
qed

section \<open>The readiness rule\<close>

lemma record_edgeE:
  assumes "record_edge C i now ty x s = Inr t"
  obtains at details where
    "record_check C i ty (oc_status x) (oc_error_code x) (oc_message x) (Some details) now (Some at) s = Inr t"
  using assms by (auto simp: record_edge_def elim!: bind_res_InrE)

lemma apply_edge_outcomesE:
  assumes "apply_edge_outcomes C i certificate origin now s = Inr t"
  obtains s1 s2 d where "record_edge C i now CERTIFICATE certificate s = Inr s1"
    "record_edge C i now ORIGIN origin s1 = Inr s2" "domain_row s2 i = Some d"
    "(if d_status d \<in> {PROVISIONING, ATTENTION_REQUIRED}
           \<and> map_option c_status (active_claim s2 i) = Some Claim_Verified \<and> checks_passing s2 i
         then transition_status C i READY
           (Some (if d_status d = PROVISIONING then ''readiness_probe_passed'' else ''recovered'')) now s2
         else Inr s2) = Inr t"
proof -
  from assms obtain s1 where 1: "record_edge C i now CERTIFICATE certificate s = Inr s1"
    unfolding apply_edge_outcomes_def by (rule bind_res_InrE)
  with assms obtain s2 where 2: "record_edge C i now ORIGIN origin s1 = Inr s2"
    by (auto simp: apply_edge_outcomes_def elim: bind_res_InrE)
  with assms 1 obtain d where 3: "domain_row s2 i = Some d"
    by (auto simp: apply_edge_outcomes_def split: option.splits)
  show ?thesis
    by (rule that [OF 1 2 3]) (use assms 1 2 3 in \<open>simp only: apply_edge_outcomes_def bind_res_Inr option.case\<close>)
qed

lemma apply_edge_outcomes_steps:
  assumes "apply_edge_outcomes C i certificate origin now s = Inr t"
  shows "(lifecycle_step C)\<^sup>*\<^sup>* s t"
  using assms
proof (rule apply_edge_outcomesE)
  fix s1 s2 d
  assume 1: "record_edge C i now CERTIFICATE certificate s = Inr s1"
    and 2: "record_edge C i now ORIGIN origin s1 = Inr s2"
    and 3: "(if d_status d \<in> {PROVISIONING, ATTENTION_REQUIRED}
           \<and> map_option c_status (active_claim s2 i) = Some Claim_Verified \<and> checks_passing s2 i
         then transition_status C i READY
           (Some (if d_status d = PROVISIONING then ''readiness_probe_passed'' else ''recovered'')) now s2
         else Inr s2) = Inr t"
  have "lifecycle_step C s s1" using 1 by (rule record_edgeE) (rule lifecycle_step.check)
  moreover have "lifecycle_step C s1 s2" using 2 by (rule record_edgeE) (rule lifecycle_step.check)
  moreover have "(lifecycle_step C)\<^sup>*\<^sup>* s2 t"
    using 3 by (auto split: if_splits intro: status_steps)
  ultimately show ?thesis
    by (meson converse_rtranclp_into_rtranclp)
qed

lemma edge_outcome_cases:
  "oc_status (certificate_outcome P d es now isofmt) \<in> {Check_Passing, Check_Failing}"
  "oc_status (origin_outcome s d prober) \<in> {Check_Passing, Check_Failing}"
  by (auto simp: certificate_outcome_def origin_outcome_def failing_outcome_def
      passing_outcome_def Let_def split: option.splits sum.splits)


text \<open>
  One run of the edge checks moves a domain to ready exactly when it was provisioning or in
  need of attention, its claim is verified and all four checks pass, takes a ready domain
  with a failed edge check out of service, and changes no other status.
\<close>

definition edge_rule :: "domain_status \<Rightarrow> bool \<Rightarrow> bool \<Rightarrow> domain_status" where
  "edge_rule st edge_ok rest_ok =
     (if st = READY \<and> \<not> edge_ok then ATTENTION_REQUIRED
      else if st \<in> {PROVISIONING, ATTENTION_REQUIRED} \<and> edge_ok \<and> rest_ok then READY
      else st)"

theorem edge_status_rules:
  assumes "run_edge_checks C P es isofmt i now s = Inr t" and "domain_row s i = Some d"
  shows "\<exists>d'. domain_row t i = Some d' \<and> d_status d' = edge_rule (d_status d)
      (passing (certificate_outcome P d es now isofmt) \<and> passing (origin_outcome s d (Some P)))
      (map_option c_status (active_claim s i) = Some Claim_Verified
        \<and> check_status_of s i OWNERSHIP = Check_Passing \<and> check_status_of s i ROUTING = Check_Passing)"
proof -
  let ?cert = "certificate_outcome P d es now isofmt" and ?orig = "origin_outcome s d (Some P)"
  let ?ok = "passing ?cert \<and> passing ?orig"
  from assms have "apply_edge_outcomes C i ?cert ?orig now s = Inr t" by (simp add: run_edge_checks_def)
  then obtain s1 s2 d2 where 1: "record_edge C i now CERTIFICATE ?cert s = Inr s1"
    and 2: "record_edge C i now ORIGIN ?orig s1 = Inr s2" and d2: "domain_row s2 i = Some d2"
    and 3: "(if d_status d2 \<in> {PROVISIONING, ATTENTION_REQUIRED}
           \<and> map_option c_status (active_claim s2 i) = Some Claim_Verified \<and> checks_passing s2 i
         then transition_status C i READY
           (Some (if d_status d2 = PROVISIONING then ''readiness_probe_passed'' else ''recovered'')) now s2
         else Inr s2) = Inr t"
    by (rule apply_edge_outcomesE)
  obtain a1 m1 where c1: "record_check C i CERTIFICATE (oc_status ?cert) (oc_error_code ?cert) (oc_message ?cert) (Some m1) now a1 s = Inr s1"
    using 1 by (rule record_edgeE)
  obtain a2 m2 where c2: "record_check C i ORIGIN (oc_status ?orig) (oc_error_code ?orig) (oc_message ?orig) (Some m2) now a2 s1 = Inr s2"
    using 2 by (rule record_edgeE)
  have fail: "oc_status ?cert = Check_Failing \<longleftrightarrow> \<not> passing ?cert" "oc_status ?orig = Check_Failing \<longleftrightarrow> \<not> passing ?orig"
    using edge_outcome_cases(1) [of P d es now isofmt] edge_outcome_cases(2) [of s d "Some P"]
    by (auto simp: passing_def)
  have st2: "d_status d2 = (if \<not> ?ok \<and> d_status d = READY then ATTENTION_REQUIRED else d_status d)"
    using record_check_rowD(1) [OF c1] record_check_rowD(1) [OF c2] assms(2) d2 fail by (auto split: if_splits)
  have claim: "active_claim s2 = active_claim s"
    using record_check_rowD(2) [OF c1] record_check_rowD(2) [OF c2] by simp
  have st: "check_status_of s2 i = (check_status_of s i)(CERTIFICATE := oc_status ?cert, ORIGIN := oc_status ?orig)"
    using record_check_status(1) [OF c1] record_check_status(1) [OF c2] by simp
  have all: "checks_passing s2 i \<longleftrightarrow> ?ok \<and> check_status_of s i OWNERSHIP = Check_Passing \<and> check_status_of s i ROUTING = Check_Passing"
    by (auto simp: checks_passing_status all_check_types st passing_def)
  show ?thesis
  proof (cases "d_status d2 \<in> {PROVISIONING, ATTENTION_REQUIRED}
           \<and> map_option c_status (active_claim s2 i) = Some Claim_Verified \<and> checks_passing s2 i")
    case True
    from 3 have "transition_status C i READY
        (Some (if d_status d2 = PROVISIONING then ''readiness_probe_passed'' else ''recovered'')) now s2 = Inr t"
      by (simp only: if_P [OF True])
    from status_target [OF this] obtain d' where "domain_row t i = Some d'" "d_status d' = READY" by blast
    with True st2 all claim show ?thesis
      by (intro exI [of _ d']) (auto simp: edge_rule_def)
  next
    case False
    then have "t = s2" using 3 by (simp only: if_False sum.inject)
    with False d2 st2 all claim show ?thesis
      by (intro exI [of _ d2]) (auto simp: edge_rule_def)
  qed
qed


definition demo_origin :: verified_origin where
  "demo_origin = \<lparr>o_id = 3, o_application_id = 1, o_scheme = ''https'', o_host = ''app.example.com'', o_port = 443,
     o_host_header = Host_Customer, o_status = Origin_Verified, o_is_active = True, o_verification_token = None,
     o_verified_at = Some 0, o_last_checked_at = Some 0, o_last_error_code = None, o_last_error_message = None,
     o_created_at = 0\<rparr>"

definition demo_prober :: prober where
  "demo_prober = \<lparr>probe = (\<lambda>h. Inr \<lparr>pb_address = ''203.0.113.9'', pb_not_after = days 60, pb_issuer = ''CA'',
       pb_status = 204, pb_edge_header = Some ''1'', pb_not_before = Some 0\<rparr>),
     probe_workspace = (\<lambda>h. Inr \<lparr>wp_address = ''203.0.113.9'', wp_status = 200, wp_reference = Some ''ws_1'',
       wp_application_id = Some ''1''\<rparr>)\<rparr>"

definition demo_settings :: edge_settings where
  "demo_settings = \<lparr>es_disable_https = False, es_edge_hostname = Some ''edge.example.net'', es_edge_token = Some ''edge-secret'',
     es_ask_trusted_hosts = [''127.0.0.1''], es_assertion_keys = [(''k1'', ''0123456789abcdef'')], es_assertion_ttl = 60,
     es_https_port = 443, es_http_port = 80, es_acme_email = None, es_tls_issuer = ''acme'',
     es_ask_url = ''http://localhost:9000/internal/tls/ask'', es_assert_upstream = ''localhost:9000'',
     es_portal_allowed_ips = [], es_operator_allowed_ips = [], es_operator_api_enabled = False, es_public_api = True\<rparr>"

definition demo_iso :: "instant \<Rightarrow> string" where "demo_iso t = str_of_int t"

definition demo_prov :: db where
  "demo_prov = (projr (run_dns_checks demo_cfg (issued_resolver demo_new) 10 60000 demo_new))
     \<lparr>origins := [demo_origin], applications := [demo_app\<lparr>app_workspace_probe_enabled := True\<rparr>]\<rparr>"

lemma demo_prov_row:
  "\<exists>d. domain_row demo_prov 10 = Some d \<and> d_status d = PROVISIONING \<and> d_hostname d = ''www.example.com''
    \<and> passing (certificate_outcome demo_prober d demo_settings 90000 demo_iso)
    \<and> passing (origin_outcome demo_prov d (Some demo_prober))"
proof -
  have "let s = demo_prov in (case domain_row s 10 of Some d \<Rightarrow> d_status d = PROVISIONING \<and> d_hostname d = ''www.example.com''
      \<and> passing (certificate_outcome demo_prober d demo_settings 90000 demo_iso)
      \<and> passing (origin_outcome s d (Some demo_prober)) | None \<Rightarrow> False)" by code_simp
  then show ?thesis by (auto simp: Let_def split: option.splits)
qed

theorem edge_status_rules_witness:
  "\<exists>t d'. run_edge_checks demo_cfg demo_prober demo_settings demo_iso 10 90000 demo_prov = Inr t
    \<and> domain_row t 10 = Some d' \<and> d_status d' = READY"
proof -
  let ?r = "run_edge_checks demo_cfg demo_prober demo_settings demo_iso 10 90000 demo_prov"
  have "let s = demo_prov in isl (run_edge_checks demo_cfg demo_prober demo_settings demo_iso 10 90000 s) = False
      \<and> map_option c_status (active_claim s 10) = Some Claim_Verified
      \<and> check_status_of s 10 OWNERSHIP = Check_Passing \<and> check_status_of s 10 ROUTING = Check_Passing"
    by code_simp
  note facts = this [unfolded Let_def]
  have r: "?r = Inr (projr ?r)" by (rule projr_eq [OF conjunct1 [OF facts]])
  note rest = conjunct2 [OF facts]
  obtain d where d: "domain_row demo_prov 10 = Some d" "d_status d = PROVISIONING"
    "passing (certificate_outcome demo_prober d demo_settings 90000 demo_iso)"
    "passing (origin_outcome demo_prov d (Some demo_prober))" using demo_prov_row by blast
  obtain d' where "domain_row (projr ?r) 10 = Some d'" "d_status d' = READY"
    using edge_status_rules [OF r d(1)] d(2-4) rest by (auto simp: edge_rule_def)
  with r show ?thesis by (intro exI conjI)
qed

end
