(* ===== verification/Checks_Worker.thy ===== *)
theory Checks_Worker
  imports Edge_Checks
begin

text \<open>
  The check worker (src/app/dns/worker.py): which domains are due, the lease that keeps two
  workers off one domain, the claim version that discards observations made against a
  replaced claim, and the four transactions of \<open>process_domain\<close> with the network between
  them. What other transactions do between two phases is an explicit argument, so the
  theorems hold under every interleaving.
\<close>

section \<open>Due checks and leases\<close>

definition DNS_CHECK_TYPES :: "check_type list" where "DNS_CHECK_TYPES = [OWNERSHIP, ROUTING]"
definition EDGE_CHECK_TYPES :: "check_type list" where "EDGE_CHECK_TYPES = [CERTIFICATE, ORIGIN]"
definition LEASE :: duration where "LEASE = minutes 2"

record processed =
  pr_done :: bool
  pr_status_changed :: bool

definition check_due :: "instant \<Rightarrow> domain_check \<Rightarrow> bool" where
  "check_due now c = (case ch_next_check_at c of None \<Rightarrow> True | Some t \<Rightarrow> t \<le> now)"

definition due_domain_ids :: "db \<Rightarrow> instant \<Rightarrow> nat \<Rightarrow> uuid list" where
  "due_domain_ids s now limit = take limit (sort (remdups (map ch_domain_id (filter (\<lambda>c. check_due now c
     \<and> list_ex (\<lambda>d. d_id d = ch_domain_id c \<and> d_deleted_at d = None \<and> d_status d \<noteq> DELETING) (domains s))
     (checks s)))))"

definition due_check_types :: "db \<Rightarrow> uuid \<Rightarrow> instant \<Rightarrow> check_type list" where
  "due_check_types s i now = map ch_check_type (filter (\<lambda>c. ch_domain_id c = i \<and> check_due now c) (checks s))"

text \<open>\<open>lease_domain\<close> reports whether its \<open>UPDATE\<close> changed a row.\<close>

definition lease_domain :: "uuid \<Rightarrow> instant \<Rightarrow> check_type list \<Rightarrow> bool \<Rightarrow> db \<Rightarrow> bool \<times> db" where
  "lease_domain i now types force s = (let
     chosen = (\<lambda>c. ch_domain_id c = i \<and> ch_check_type c \<in> set types \<and> (force \<or> check_due now c))
   in (list_ex chosen (checks s),
       s\<lparr>checks := map (\<lambda>c. c\<lparr>ch_next_check_at := if chosen c then Some (now + LEASE) else ch_next_check_at c\<rparr>) (checks s)\<rparr>))"

definition load :: "db \<Rightarrow> uuid \<Rightarrow> domain option" where
  "load s i = (case find (\<lambda>d. d_id d = i) (domain_query False s) of
     None \<Rightarrow> None | Some d \<Rightarrow> if d_status d = DELETING then None else Some d)"

definition claim_version :: "db \<Rightarrow> domain \<Rightarrow> (uuid \<times> string \<times> string) option" where
  "claim_version s d = map_option (\<lambda>c. (c_id c, c_token c, c_cname_target c)) (active_claim s (d_id d))"

section \<open>One domain\<close>

text \<open>
  \<open>process_domain\<close> runs four transactions with network work between them. What other
  transactions do meanwhile is an argument: \<open>env n\<close> maps the state at the end of phase \<open>n\<close>
  to the state the next phase finds, and \<open>clk n\<close> is the clock read there. A phase returns
  the committed state with an error, with the value to return, or with \<open>None\<close> to go on.
  \<open>zone\<close> is what the zone detector found (\<open>None\<close> without one).
\<close>

type_synonym 'a phase = "db \<times> (error + 'a)"

definition make_dns_due :: "uuid \<Rightarrow> instant \<Rightarrow> db \<Rightarrow> db" where
  "make_dns_due i at s = s\<lparr>checks := map (\<lambda>c. c\<lparr>ch_next_check_at :=
     if ch_domain_id c = i \<and> ch_check_type c \<in> set DNS_CHECK_TYPES then Some at else ch_next_check_at c\<rparr>) (checks s)\<rparr>"

text \<open>\<open>if zone is not None and domain.zone != zone: domain.zone = zone\<close>.\<close>

definition set_zone :: "uuid \<Rightarrow> string option \<Rightarrow> instant \<Rightarrow> db \<Rightarrow> db" where
  "set_zone i zone now s = (case (zone, domain_row s i) of
     (Some z, Some d) \<Rightarrow>
       if d_zone d \<noteq> Some z then put_domain i (\<lambda>d. d\<lparr>d_zone := Some z, d_updated_at := now\<rparr>) s else s
   | _ \<Rightarrow> s)"

definition dns_apply ::
    "config \<Rightarrow> uuid \<Rightarrow> outcome \<Rightarrow> outcome \<Rightarrow> string option \<Rightarrow> domain_status \<Rightarrow> bool \<Rightarrow> instant \<Rightarrow> db
      \<Rightarrow> error + bool \<times> db" where
  "dns_apply C i ownership routing zone status_before edge_due now s =
     bind_res (apply_dns_outcomes C i ownership routing now s) (\<lambda>s1.
       let s2 = set_zone i zone now s1;
         dns_changed = (map_option d_status (domain_row s2 i) \<noteq> Some status_before)
       in if dns_changed \<and> \<not> edge_due
          then (let (leased, s3) = lease_domain i now EDGE_CHECK_TYPES True s2 in Inr (leased, s3))
          else Inr (edge_due, s2))"

definition dns_phase ::
    "config \<Rightarrow> resolver \<Rightarrow> string option \<Rightarrow> uuid \<Rightarrow> domain_status \<Rightarrow> bool \<Rightarrow> domain \<Rightarrow> (nat \<Rightarrow> instant) \<Rightarrow> (db \<Rightarrow> db) \<Rightarrow> db
      \<Rightarrow> (processed option \<times> bool) phase" where
  "dns_phase C R zone i status_before edge_due d clk meanwhile s = (let
     queried = claim_version s d;
     ownership = ownership_outcome R s d;
     routing = routing_outcome R s d;
     s1 = meanwhile s
   in case load s1 i of
        None \<Rightarrow> (s1, Inr (Some \<lparr>pr_done = False, pr_status_changed = False\<rparr>, False))
      | Some d1 \<Rightarrow>
        if claim_version s1 d1 \<noteq> queried
        then (make_dns_due i (clk 1) s1, Inr (Some \<lparr>pr_done = False, pr_status_changed = False\<rparr>, False))
        else (case dns_apply C i ownership routing zone status_before edge_due (clk 1) s1 of
            Inl e \<Rightarrow> (s1, Inl e)
          | Inr (edge_due', s2) \<Rightarrow> (s2, Inr (None, edge_due'))))"

definition edge_phase ::
    "config \<Rightarrow> prober \<Rightarrow> edge_settings \<Rightarrow> (instant \<Rightarrow> string) \<Rightarrow> uuid \<Rightarrow> domain_status \<Rightarrow> bool
      \<Rightarrow> (nat \<Rightarrow> instant) \<Rightarrow> (db \<Rightarrow> db) \<Rightarrow> db \<Rightarrow> processed phase" where
  "edge_phase C P es isofmt i status_before edge_due clk meanwhile s = (case load s i of
     None \<Rightarrow> (s, Inr \<lparr>pr_done = True, pr_status_changed = True\<rparr>)
   | Some d \<Rightarrow>
     if \<not> edge_due \<or> \<not> eligible_for_edge_checks s d
     then (s, Inr \<lparr>pr_done = True, pr_status_changed = (d_status d \<noteq> status_before)\<rparr>)
     else let probed = claim_version s d;
         certificate = certificate_outcome P d es (clk 2) isofmt;
         origin = origin_outcome s d (Some P);
         s1 = meanwhile s
       in case load s1 i of
            None \<Rightarrow> (s1, Inr \<lparr>pr_done = True, pr_status_changed = True\<rparr>)
          | Some d1 \<Rightarrow>
            if claim_version s1 d1 \<noteq> probed \<or> \<not> eligible_for_edge_checks s1 d1
            then (s1, Inr \<lparr>pr_done = True, pr_status_changed = (d_status d1 \<noteq> status_before)\<rparr>)
            else (case apply_edge_outcomes C i certificate origin (clk 3) s1 of
                Inl e \<Rightarrow> (s1, Inl e)
              | Inr s2 \<Rightarrow> (s2, Inr \<lparr>pr_done = True,
                  pr_status_changed = (map_option d_status (domain_row s2 i) \<noteq> Some status_before)\<rparr>)))"

definition process_domain ::
    "config \<Rightarrow> resolver \<Rightarrow> prober \<Rightarrow> edge_settings \<Rightarrow> (instant \<Rightarrow> string) \<Rightarrow> string option \<Rightarrow> uuid
      \<Rightarrow> (nat \<Rightarrow> instant) \<Rightarrow> (nat \<Rightarrow> db \<Rightarrow> db) \<Rightarrow> db \<Rightarrow> processed phase" where
  "process_domain C R P es isofmt zone i clk env s = (let
     now = clk 0; types = due_check_types s i now
   in if types = [] then (s, Inr \<lparr>pr_done = False, pr_status_changed = False\<rparr>)
      else let (leased, s1) = lease_domain i now types False s
      in if \<not> leased then (s, Inr \<lparr>pr_done = False, pr_status_changed = False\<rparr>)
         else let s2 = env 0 s1 in
           (case load s2 i of
              None \<Rightarrow> (s2, Inr \<lparr>pr_done = False, pr_status_changed = False\<rparr>)
            | Some d \<Rightarrow>
              let dns_due = list_ex (\<lambda>t. t \<in> set DNS_CHECK_TYPES) types;
                  edge_due = list_ex (\<lambda>t. t \<in> set EDGE_CHECK_TYPES) types
              in (case (if dns_due then dns_phase C R zone i (d_status d) edge_due d clk (env 1) s2
                        else (s2, Inr (None, edge_due))) of
                    (s3, Inl e) \<Rightarrow> (s3, Inl e)
                  | (s3, Inr (Some p, _)) \<Rightarrow> (s3, Inr p)
                  | (s3, Inr (None, edge_due')) \<Rightarrow>
                      edge_phase C P es isofmt i (d_status d) edge_due' clk (env 3) (env 2 s3))))"

text \<open>
  \<open>run_due_checks\<close>: the batch, one domain after the other; an exception is counted and does
  not stop it.
\<close>

definition run_due_checks ::
    "(uuid \<Rightarrow> db \<Rightarrow> processed phase) \<Rightarrow> instant \<Rightarrow> nat \<Rightarrow> db \<Rightarrow> (nat \<times> nat \<times> nat) \<times> db" where
  "run_due_checks process batch_now limit s = foldl (\<lambda>((processed, failed, changes), s) i.
     case process i s of
       (s', Inl _) \<Rightarrow> ((processed, Suc failed, changes), s')
     | (s', Inr p) \<Rightarrow> (((if pr_done p then Suc processed else processed), failed,
         (if pr_status_changed p then Suc changes else changes)), s'))
     ((0, 0, 0), s) (due_domain_ids s batch_now limit)"

section \<open>Guarantees of the worker\<close>

lemma reachable_step: "reachable C s \<Longrightarrow> lifecycle_step C s t \<Longrightarrow> reachable C t"
  unfolding reachable_def by (meson rtranclp.rtrancl_into_rtrancl)

lemma reachable_steps: "reachable C s \<Longrightarrow> (lifecycle_step C)\<^sup>*\<^sup>* s t \<Longrightarrow> reachable C t"
  unfolding reachable_def by (meson rtranclp_trans)

lemma lease_step: "lifecycle_step C s (snd (lease_domain i now types force s))"
  unfolding lease_domain_def Let_def snd_conv by (rule lifecycle_step.schedule)

lemma make_dns_due_step: "lifecycle_step C s (make_dns_due i at s)"
  unfolding make_dns_due_def by (rule lifecycle_step.schedule)

lemma dns_apply_reachable:
  assumes "dns_apply C i ownership routing zone st edge_due now s = Inr (e, t)" and "reachable C s"
  shows "reachable C t"
proof -
  from assms(1) obtain s1 where 1: "apply_dns_outcomes C i ownership routing now s = Inr s1"
    by (auto simp: dns_apply_def elim: bind_res_InrE)
  have r1: "reachable C s1" using reachable_steps assms(2) apply_dns_outcomes_steps [OF 1] by blast
  then have r2: "reachable C (set_zone i zone now s1)"
    by (auto simp: set_zone_def split: option.splits intro: reachable_step lifecycle_step.zone_found)
  have "t = set_zone i zone now s1 \<or> t = snd (lease_domain i now EDGE_CHECK_TYPES True (set_zone i zone now s1))"
    using assms(1) 1 by (auto simp: dns_apply_def Let_def split: if_splits prod.splits)
  with r2 show ?thesis by (auto intro: reachable_step lease_step)
qed

lemma dns_phase_reachable:
  assumes "reachable C s" and "\<And>s. reachable C s \<Longrightarrow> reachable C (meanwhile s)"
  shows "reachable C (fst (dns_phase C R zone i st edge_due d clk meanwhile s))"
proof -
  let ?s1 = "meanwhile s"
  have r1: "reachable C ?s1" using assms by blast
  show ?thesis
  proof (cases "load ?s1 i")
    case None
    with r1 show ?thesis by (simp add: dns_phase_def Let_def)
  next
    case (Some d1)
    show ?thesis
    proof (cases "claim_version ?s1 d1 = claim_version s d")
      case False
      with Some reachable_step [OF r1 make_dns_due_step] show ?thesis by (simp add: dns_phase_def Let_def)
    next
      case True
      show ?thesis
      proof (cases "dns_apply C i (ownership_outcome R s d) (routing_outcome R s d) zone st edge_due (clk 1) ?s1")
        case (Inl e)
        with Some True r1 show ?thesis by (simp add: dns_phase_def Let_def)
      next
        case (Inr p)
        obtain e t where p: "p = (e, t)" by fastforce
        with Some True Inr dns_apply_reachable [OF Inr [unfolded p] r1] show ?thesis
          by (simp add: dns_phase_def Let_def)
      qed
    qed
  qed
qed

lemma edge_phase_reachable:
  assumes "reachable C s" and "\<And>s. reachable C s \<Longrightarrow> reachable C (meanwhile s)"
  shows "reachable C (fst (edge_phase C P es isofmt i st edge_due clk meanwhile s))"
proof -
  have step: "reachable C t" if "apply_edge_outcomes C i x y now (meanwhile s) = Inr t" for x y now t
    using reachable_steps [OF _ apply_edge_outcomes_steps [OF that]] assms by blast
  show ?thesis
    using assms by (auto simp: edge_phase_def Let_def split: option.splits if_splits sum.splits intro: step)
qed




text \<open>
  C15: observations made against a claim that has since been replaced are discarded. If the live
  claim changed while the DNS was queried, nothing is recorded: rows, claims, check results
  and events are those the other transaction left, and the DNS checks are due again at once.
\<close>

theorem stale_observations_discarded:
  assumes "load (meanwhile s) i = Some d1" and "claim_version (meanwhile s) d1 \<noteq> claim_version s d"
    and "dns_phase C R zone i st edge_due d clk meanwhile s = (t, r)"
  shows "r = Inr (Some \<lparr>pr_done = False, pr_status_changed = False\<rparr>, False)
    \<and> domains t = domains (meanwhile s) \<and> claims t = claims (meanwhile s) \<and> events t = events (meanwhile s)
    \<and> map ch_status (checks t) = map ch_status (checks (meanwhile s))
    \<and> (\<forall>c\<in>set (checks t). ch_domain_id c = i \<and> ch_check_type c \<in> {OWNERSHIP, ROUTING} \<longrightarrow> check_due (clk 1) c)"
proof -
  have t: "t = make_dns_due i (clk 1) (meanwhile s)" "r = Inr (Some \<lparr>pr_done = False, pr_status_changed = False\<rparr>, False)"
    using assms by (simp_all add: dns_phase_def Let_def)
  then show ?thesis
    by (auto simp: make_dns_due_def check_due_def DNS_CHECK_TYPES_def)
qed

theorem stale_observations_discarded_witness:
  "\<exists>t d. domain_row demo_new 10 = Some d \<and>
     dns_phase demo_cfg (issued_resolver demo_new) None 10 PENDING_DNS False d (\<lambda>_. 60000) (\<lambda>_. demo_again) demo_new
       = (t, Inr (Some \<lparr>pr_done = False, pr_status_changed = False\<rparr>, False)) \<and> events t = events demo_again"
proof -
  have "let s = demo_new; t = demo_again in (case (domain_row s 10, load t 10) of (Some d, Some d1) \<Rightarrow>
      claim_version t d1 \<noteq> claim_version s d | _ \<Rightarrow> False)" by code_simp
  then obtain d d1 where d: "domain_row demo_new 10 = Some d" and l: "load demo_again 10 = Some d1"
    "claim_version demo_again d1 \<noteq> claim_version demo_new d" by (auto simp: Let_def split: option.splits)
  let ?r = "dns_phase demo_cfg (issued_resolver demo_new) None 10 PENDING_DNS False d (\<lambda>_. 60000) (\<lambda>_. demo_again) demo_new"
  have r: "?r = (fst ?r, snd ?r)" by simp
  from stale_observations_discarded [of "\<lambda>_. demo_again", OF l r] d show ?thesis
    by (intro exI [of _ "fst ?r"] exI [of _ d]) (metis prod.collapse)
qed

text \<open>
  A lease excludes other workers. Once a worker has leased the checks that were due, no worker
  can lease any of them again before the lease has run out.
\<close>

theorem lease_excludes_other_workers:
  assumes "reachable C s" and "lease_domain i now (due_check_types s i now) False s = (True, t)"
    and "now \<le> later" and "later < now + minutes 2"
  shows "fst (lease_domain i later (due_check_types s i now) False t) = False"
proof -
  let ?types = "due_check_types s i now"
  have keys: "distinct (map check_key (checks s))"
    using reachable_db_inv [OF assms(1)] by (simp add: db_inv_def tables_ok_def keys_ok_def)
  have due: "check_due now c" if "c \<in> set (checks s)" "ch_domain_id c = i" "ch_check_type c \<in> set ?types" for c
  proof -
    from that(3) obtain c' where c': "c' \<in> set (checks s)" "ch_domain_id c' = i" "check_due now c'"
      "ch_check_type c' = ch_check_type c" by (auto simp: due_check_types_def)
    have "check_key c' = check_key c" using c' that by (simp add: check_key_def)
    with keys c'(1) that(1) have "c' = c" by (auto simp: distinct_map dest: inj_onD)
    with c'(3) show ?thesis by simp
  qed
  have t: "t = snd (lease_domain i now ?types False s)" using assms(2) by simp
  have "\<not> check_due later c" if "c \<in> set (checks t)" "ch_domain_id c = i" "ch_check_type c \<in> set ?types" for c
  proof -
    from that(1) obtain c0 where c0: "c0 \<in> set (checks s)"
      "c = c0\<lparr>ch_next_check_at := if ch_domain_id c0 = i \<and> ch_check_type c0 \<in> set ?types \<and> (False \<or> check_due now c0)
         then Some (now + LEASE) else ch_next_check_at c0\<rparr>"
      by (auto simp: t lease_domain_def Let_def)
    with that due have "ch_next_check_at c = Some (now + LEASE)" by auto
    with assms(4) show ?thesis by (simp add: check_due_def LEASE_def)
  qed
  then show ?thesis
    by (auto simp: lease_domain_def Let_def list_ex_iff)
qed

theorem lease_excludes_other_workers_witness:
  "fst (lease_domain 10 60000000 (due_check_types demo_new 10 0) False
      (snd (lease_domain 10 0 (due_check_types demo_new 10 0) False demo_new))) = False
   \<and> fst (lease_domain 10 0 (due_check_types demo_new 10 0) False demo_new)"
proof -
  have "let s = demo_new in fst (lease_domain 10 0 (due_check_types s 10 0) False s)" by code_simp
  note l = this [unfolded Let_def]
  from l have "lease_domain 10 0 (due_check_types demo_new 10 0) False demo_new
      = (True, snd (lease_domain 10 0 (due_check_types demo_new 10 0) False demo_new))"
    by (simp add: prod_eq_iff)
  from lease_excludes_other_workers [OF demo_new_reachable this, of 60000000] l show ?thesis
    by (simp add: duration_defs)
qed

end
