(* ===== verification/Signature.thy ===== *)
theory Signature
  imports Encoding Checks_Worker
begin

text \<open>
  Webhook signatures (src/app/webhooks/signature.py, and src/sdk/custom_domain/webhooks.py, the
  copy consumers run): the header \<open>t=...,v1=...\<close> is written by \<open>sign\<close> and read by
  \<open>verify\<close>. The theorems relate the two, and \<open>sign\<close> to the rotation of a
  subscription's secret in \<open>Webhooks\<close>.
\<close>

section \<open>Signing and verifying a delivery\<close>

definition DEFAULT_TOLERANCE :: int where "DEFAULT_TOLERANCE = 300"

text \<open>
  What verification raises: a \<open>SignatureInvalid\<close> with its code, or the \<open>TypeError\<close> of
  \<open>hmac.compare_digest\<close> on a text with a character outside ASCII.
\<close>

datatype signature_error = SignatureInvalid string string | SignatureTypeError

definition signature_digest :: "string \<Rightarrow> int \<Rightarrow> string \<Rightarrow> string" where
  "signature_digest secret timestamp body =
     hexdigest (hmac_sha256 (utf8_encode secret) (str_of_int timestamp @ ''.'' @ body))"

definition sign :: "string \<Rightarrow> string list \<Rightarrow> int \<Rightarrow> string" where
  "sign body secrets stamp = join '','' ((''t='' @ str_of_int stamp)
     # map (\<lambda>secret. ''v1='' @ signature_digest secret stamp body) secrets)"

text \<open>The loop over the parts of the header, with \<open>timestamp\<close> and \<open>given\<close> as its state.\<close>

fun header_parts :: "string list \<Rightarrow> int option \<Rightarrow> string list \<Rightarrow> signature_error + int option \<times> string list" where
  "header_parts [] timestamp given = Inr (timestamp, given)"
| "header_parts (part # parts) timestamp given = (case str_partition (CHR ''='') (strip part) of
     None \<Rightarrow> header_parts parts timestamp given
   | Some (key, v) \<Rightarrow>
     if key = ''t'' then (case py_int v of
         None \<Rightarrow> Inl (SignatureInvalid ''malformed'' ''Timestamp is not an integer'')
       | Some n \<Rightarrow> header_parts parts (Some n) given)
     else if key = ''v1'' then header_parts parts timestamp (given @ [v])
     else header_parts parts timestamp given)"

definition ascii :: "string \<Rightarrow> bool" where
  "ascii s = list_all (\<lambda>c. (of_char c :: nat) < 128) s"

definition compare_digest :: "string \<Rightarrow> string \<Rightarrow> signature_error + bool" where
  "compare_digest a b = (if ascii a \<and> ascii b then Inr (a = b) else Inl SignatureTypeError)"

text \<open>\<open>any(hmac.compare_digest(expected, candidate) for candidate in given)\<close>.\<close>

fun any_match :: "string \<Rightarrow> string list \<Rightarrow> signature_error + bool" where
  "any_match expected [] = Inr False"
| "any_match expected (candidate # given) =
     bind_res (compare_digest expected candidate) (\<lambda>m. if m then Inr True else any_match expected given)"

fun try_secrets :: "string list \<Rightarrow> int \<Rightarrow> string \<Rightarrow> string list \<Rightarrow> signature_error + int" where
  "try_secrets [] timestamp body given = Inl (SignatureInvalid ''bad_signature'' ''No signature matched'')"
| "try_secrets (secret # secrets) timestamp body given =
     bind_res (any_match (signature_digest secret timestamp body) given)
       (\<lambda>m. if m then Inr timestamp else try_secrets secrets timestamp body given)"

definition verify :: "string option \<Rightarrow> string \<Rightarrow> string list \<Rightarrow> int \<Rightarrow> int \<Rightarrow> signature_error + int" where
  "verify header body secrets current tolerance = (case header of
     None \<Rightarrow> Inl (SignatureInvalid ''missing'' ''No signature header'')
   | Some h \<Rightarrow>
     if h = [] then Inl (SignatureInvalid ''missing'' ''No signature header'')
     else bind_res (header_parts (split_on (CHR '','') h) None []) (\<lambda>(timestamp, given).
       case timestamp of
         None \<Rightarrow> Inl (SignatureInvalid ''malformed'' ''Signature header lacks t= or v1='')
       | Some t \<Rightarrow>
         if given = [] then Inl (SignatureInvalid ''malformed'' ''Signature header lacks t= or v1='')
         else if \<bar>current - t\<bar> > tolerance
         then Inl (SignatureInvalid ''stale'' ''Delivery timestamp outside tolerance'')
         else try_secrets secrets t body given))"

section \<open>A signature is accepted, and only a signature\<close>

lemma digest_chars: "c \<in> set (signature_digest k t body) \<Longrightarrow> c \<in> set hex_chars"
  by (simp only: signature_digest_def hexdigest_hex)

lemma ball_subset: "\<forall>x\<in>B. P x \<Longrightarrow> (\<And>x. x \<in> A \<Longrightarrow> x \<in> B) \<Longrightarrow> \<forall>x\<in>A. P x"
  by blast

lemma digest_plain:
  "CHR '','' \<notin> set (signature_digest k t body)" "ascii (signature_digest k t body)"
  "strip (''v1='' @ signature_digest k t body) = ''v1='' @ signature_digest k t body"
proof -
  let ?d = "signature_digest k t body"
  have "\<forall>c\<in>set hex_chars. (of_char c :: nat) < 128 \<and> \<not> py_space c \<and> c \<noteq> CHR '',''"
    by (simp add: hex_chars_def py_space_def)
  then have *: "\<forall>c\<in>set ?d. (of_char c :: nat) < 128 \<and> \<not> py_space c \<and> c \<noteq> CHR '',''"
    by (rule ball_subset) (rule digest_chars)
  then show "CHR '','' \<notin> set ?d" "ascii ?d" by (auto simp: ascii_def list_all_iff)
  have v: "\<not> py_space (CHR ''v'') \<and> \<not> py_space (CHR ''='')" by (simp add: py_space_def)
  have "\<not> py_space (last (''v1='' @ ?d))"
    using * v by (cases "?d = []") auto
  then show "strip (''v1='' @ ?d) = ''v1='' @ ?d"
    using v by (intro strip_id) simp
qed

lemma header_parts_v1:
  "header_parts (map (\<lambda>k. ''v1='' @ signature_digest k t body) ks) ts given
    = Inr (ts, given @ map (\<lambda>k. signature_digest k t body) ks)"
proof (induction ks arbitrary: given)
  case (Cons k ks)
  have "str_partition (CHR ''='') (''v1'' @ CHR ''='' # signature_digest k t body)
      = Some (''v1'', signature_digest k t body)"
    by (rule str_partition_append) simp
  with Cons digest_plain(3) [of k t body] show ?case by simp
qed simp

lemma stamp_plain:
  "strip (''t='' @ str_of_int t) = ''t='' @ str_of_int t" "CHR '','' \<notin> set (str_of_int t)"
proof -
  have *: "\<not> py_space c" if "c \<in> set (str_of_int t)" for c
    using str_of_int_chars [OF that] is_digit_not_space [of c] by (auto simp: py_space_def)
  have "str_of_int t \<noteq> []" by (simp add: str_of_int_def)
  with * show "strip (''t='' @ str_of_int t) = ''t='' @ str_of_int t"
    by (intro strip_id) (simp add: py_space_def)
  show "CHR '','' \<notin> set (str_of_int t)"
    using str_of_int_chars [of "CHR '',''" t] by (auto simp: is_digit_def)
qed

text \<open>Reading back a header: the stamp and the digests, in the order of the secrets.\<close>

lemma header_parts_sign:
  assumes "\<bar>stamp\<bar> < 10 ^ 18"
  shows "header_parts (split_on (CHR '','') (sign body secrets stamp)) None []
    = Inr (Some stamp, map (\<lambda>k. signature_digest k stamp body) secrets)"
proof -
  have "split_on (CHR '','') (sign body secrets stamp)
      = (''t='' @ str_of_int stamp) # map (\<lambda>k. ''v1='' @ signature_digest k stamp body) secrets"
    unfolding sign_def using digest_plain(1) stamp_plain(2) by (intro split_on_join) auto
  moreover have "str_partition (CHR ''='') (''t'' @ CHR ''='' # str_of_int stamp) = Some (''t'', str_of_int stamp)"
    by (rule str_partition_append) simp
  moreover have "py_int (str_of_int stamp) = Some stamp"
    using py_int_str_of_int [of stamp 17] assms by simp
  ultimately show ?thesis
    using stamp_plain(1) [of stamp] header_parts_v1 by simp
qed

lemma any_match_ascii:
  "ascii expected \<Longrightarrow> \<forall>g\<in>set given. ascii g \<Longrightarrow> any_match expected given = Inr (expected \<in> set given)"
  by (induction given) (auto simp: compare_digest_def)

lemma try_secrets_ascii:
  assumes "\<forall>g\<in>set given. ascii g"
  shows "try_secrets secrets t body given = (if \<exists>k\<in>set secrets. signature_digest k t body \<in> set given
    then Inr t else Inl (SignatureInvalid ''bad_signature'' ''No signature matched''))"
  using assms by (induction secrets) (auto simp: any_match_ascii digest_plain(2))

lemma sign_nonempty: "sign body secrets stamp \<noteq> []"
  by (cases secrets) (simp_all add: sign_def)

text \<open>What a receiver makes of a genuine header: everything depends on age and shared digests.\<close>

lemma verify_sign:
  assumes "\<bar>stamp\<bar> < 10 ^ 18" and "secrets \<noteq> []"
  shows "verify (Some (sign body secrets stamp)) body' held current tolerance =
    (if \<bar>current - stamp\<bar> > tolerance then Inl (SignatureInvalid ''stale'' ''Delivery timestamp outside tolerance'')
     else if \<exists>k\<in>set held. \<exists>k'\<in>set secrets. signature_digest k stamp body' = signature_digest k' stamp body
     then Inr stamp else Inl (SignatureInvalid ''bad_signature'' ''No signature matched''))"
proof -
  have "try_secrets held stamp body' (map (\<lambda>k. signature_digest k stamp body) secrets)
      = (if \<exists>k\<in>set held. \<exists>k'\<in>set secrets. signature_digest k stamp body' = signature_digest k' stamp body
         then Inr stamp else Inl (SignatureInvalid ''bad_signature'' ''No signature matched''))"
    using digest_plain(2) by (subst try_secrets_ascii) auto
  with header_parts_sign [OF assms(1), of body secrets] assms(2) show ?thesis
    by (simp add: verify_def sign_nonempty)
qed

lemma any_match_True: "any_match expected given = Inr True \<Longrightarrow> expected \<in> set given"
  by (induction given) (auto simp: compare_digest_def bind_res_eq_Inr split: if_splits)

lemma try_secrets_sound:
  assumes "try_secrets secrets t body given = Inr r"
  shows "r = t \<and> (\<exists>k\<in>set secrets. signature_digest k t body \<in> set given)"
  using assms by (induction secrets) (auto simp: bind_res_eq_Inr dest: any_match_True split: if_splits)

lemma header_parts_given:
  assumes "header_parts parts ts given = Inr (ts', given')"
  shows "set given' \<subseteq> set given \<union> {v. \<exists>part\<in>set parts. strip part = ''v1='' @ v}"
  using assms
proof (induction parts arbitrary: ts given)
  case (Cons part parts)
  show ?case
  proof (cases "str_partition (CHR ''='') (strip part)")
    case None
    with Cons show ?thesis by (auto dest!: Cons.IH)
  next
    case (Some kv)
    obtain k v where kv: "kv = (k, v)" by fastforce
    with Some have st: "strip part = k @ CHR ''='' # v" by (simp add: str_partition_eq_Some)
    from Cons.prems Some kv st Cons.IH show ?thesis
      by (fastforce split: if_splits option.splits)
  qed
qed auto

lemma header_parts_stamp:
  assumes "header_parts parts ts given = Inr (Some t, given')"
  shows "ts = Some t \<or> (\<exists>part\<in>set parts. \<exists>v. strip part = ''t='' @ v \<and> py_int v = Some t)"
  using assms
proof (induction parts arbitrary: ts given)
  case (Cons part parts)
  show ?case
  proof (cases "str_partition (CHR ''='') (strip part)")
    case None
    with Cons show ?thesis by (auto dest!: Cons.IH)
  next
    case (Some kv)
    obtain k v where kv: "kv = (k, v)" by fastforce
    with Some have st: "strip part = k @ CHR ''='' # v" by (simp add: str_partition_eq_Some)
    from Cons.prems Some kv st Cons.IH show ?thesis
      by (fastforce split: if_splits option.splits)
  qed
qed auto

lemma header_parts_error:
  "header_parts parts ts given = Inl e \<Longrightarrow> \<exists>c m. e = SignatureInvalid c m"
  by (induction parts ts given rule: header_parts.induct) (auto split: option.splits if_splits prod.splits)

text \<open>
  C18: verification accepts only a genuine signature. If a header is accepted, some comma-separated
  part of it carries the HMAC-SHA256 of exactly the returned timestamp and the given body
  under one of the secrets held, some part carries that timestamp, and it is within the
  tolerance. A header whose text is ASCII is never answered by anything but the timestamp or
  a \<open>SignatureInvalid\<close>.
\<close>

theorem verify_only_genuine:
  "(verify header body held current tolerance = Inr t \<longrightarrow>
      (\<exists>h k. header = Some h \<and> k \<in> set held \<and> \<bar>current - t\<bar> \<le> tolerance
        \<and> (\<exists>part\<in>set (split_on (CHR '','') h). strip part = ''v1='' @ signature_digest k t body)
        \<and> (\<exists>part\<in>set (split_on (CHR '','') h). \<exists>v. strip part = ''t='' @ v \<and> py_int v = Some t)))
    \<and> (ascii (case header of None \<Rightarrow> [] | Some h \<Rightarrow> h) \<longrightarrow>
       verify header body held current tolerance \<noteq> Inl SignatureTypeError)"
proof (intro conjI impI)
  assume a: "verify header body held current tolerance = Inr t"
  then obtain h where h: "header = Some h" by (auto simp: verify_def split: option.splits)
  from a h obtain ts given where parts: "header_parts (split_on (CHR '','') h) None [] = Inr (ts, given)"
    and rest: "(case ts of None \<Rightarrow> Inl (SignatureInvalid ''malformed'' ''Signature header lacks t= or v1='')
       | Some t \<Rightarrow>
         if given = [] then Inl (SignatureInvalid ''malformed'' ''Signature header lacks t= or v1='')
         else if \<bar>current - t\<bar> > tolerance
         then Inl (SignatureInvalid ''stale'' ''Delivery timestamp outside tolerance'')
         else try_secrets held t body given) = Inr t"
    by (auto simp: verify_def bind_res_eq_Inr split: if_splits)
  from rest obtain t' where ts: "ts = Some t'" and tol: "\<bar>current - t'\<bar> \<le> tolerance"
    and try_t: "try_secrets held t' body given = Inr t"
    by (auto split: option.splits if_splits)
  from try_secrets_sound [OF try_t] obtain k where k: "t = t'" "k \<in> set held"
    "signature_digest k t body \<in> set given" by blast
  have "\<exists>part\<in>set (split_on (CHR '','') h). strip part = ''v1='' @ signature_digest k t body"
    using header_parts_given [OF parts] k(3) by auto
  moreover have "\<exists>part\<in>set (split_on (CHR '','') h). \<exists>v. strip part = ''t='' @ v \<and> py_int v = Some t"
    using header_parts_stamp [of _ None "[]" t'] parts ts k(1) by auto
  ultimately show "\<exists>h k. header = Some h \<and> k \<in> set held \<and> \<bar>current - t\<bar> \<le> tolerance
        \<and> (\<exists>part\<in>set (split_on (CHR '','') h). strip part = ''v1='' @ signature_digest k t body)
        \<and> (\<exists>part\<in>set (split_on (CHR '','') h). \<exists>v. strip part = ''t='' @ v \<and> py_int v = Some t)"
    using h k tol by blast
next
  assume asc: "ascii (case header of None \<Rightarrow> [] | Some h \<Rightarrow> h)"
  show "verify header body held current tolerance \<noteq> Inl SignatureTypeError"
  proof
    assume bad: "verify header body held current tolerance = Inl SignatureTypeError"
    then obtain h where h: "header = Some h" by (auto simp: verify_def split: option.splits)
    from bad h obtain ts given where parts: "header_parts (split_on (CHR '','') h) None [] = Inr (Some ts, given)"
      and bad': "try_secrets held ts body given = Inl SignatureTypeError"
      by (auto simp: verify_def bind_res_eq_Inl split: if_splits option.splits dest: header_parts_error)
    have "\<forall>g\<in>set given. ascii g"
    proof
      fix g assume "g \<in> set given"
      with header_parts_given [OF parts] obtain part where
        p: "part \<in> set (split_on (CHR '','') h)" "strip part = ''v1='' @ g" by auto
      have "set g \<subseteq> set (strip part)" using p(2) by auto
      also have "\<dots> \<subseteq> set part"
        by (auto simp: strip_chars_def lstrip_def rstrip_def dest!: set_dropWhileD)
      also have "\<dots> \<subseteq> set h" using p(1) set_split_on by blast
      finally show "ascii g" using asc h by (auto simp: ascii_def list_all_iff)
    qed
    from try_secrets_ascii [OF this] bad' show False by (simp split: if_splits)
  qed
qed

theorem verify_only_genuine_witness:
  "\<exists>h. verify (Some h) ''{}'' [''whsec_a''] 1700000100 300 = Inr 1700000000
    \<and> (\<exists>part\<in>set (split_on (CHR '','') h). strip part = ''v1='' @ signature_digest ''whsec_a'' 1700000000 ''{}'')
    \<and> verify (Some h) ''{}'' [''whsec_a''] 1700000100 300 \<noteq> Inl SignatureTypeError"
proof -
  let ?h = "sign ''{}'' [''whsec_a''] 1700000000"
  have v: "verify (Some ?h) ''{}'' [''whsec_a''] 1700000100 300 = Inr 1700000000"
    by (simp add: verify_sign)
  with verify_only_genuine [of "Some ?h" "''{}''" "[''whsec_a'']" 1700000100 300 1700000000]
  show ?thesis by (intro exI [of _ ?h]) simp
qed

text \<open>
  C17: rotating a webhook secret never breaks a receiver. Deliveries signed after the rotation
  verify with the new secret alone; until the grace period ends they verify with the old
  secret alone as well; from then on the header holds no digest of the old secret.
\<close>

theorem rotation_never_breaks_receivers:
  assumes "rotate_secret a i grace now s = Inr (new, t)" and "subscription_row s i = Some w"
    and "\<bar>stamp\<bar> < 10 ^ 18" and "\<bar>current - stamp\<bar> \<le> tolerance"
  shows "\<exists>w'. subscription_row t i = Some w'
    \<and> verify (Some (sign body (signing_secrets w' at) stamp)) body [new] current tolerance = Inr stamp
    \<and> (at < now + grace \<and> s_secret w \<noteq> [] \<longrightarrow>
        verify (Some (sign body (signing_secrets w' at) stamp)) body [s_secret w] current tolerance = Inr stamp)
    \<and> (now + grace \<le> at \<longrightarrow> sign body (signing_secrets w' at) stamp = sign body [new] stamp)"
proof -
  let ?w = "w\<lparr>s_previous_secret := Some (s_secret w), s_previous_secret_expires_at := Some (now + grace), s_secret := new\<rparr>"
  from assms(1) have "t = put_subscription i (\<lambda>w. w\<lparr>s_previous_secret := Some (s_secret w),
      s_previous_secret_expires_at := Some (now + grace), s_secret := new\<rparr>) (snd (token_urlsafe s))"
    by (auto simp: rotate_secret_def bind_res_eq_Inr Let_def split: prod.splits)
  with assms(2) have row: "subscription_row t i = Some ?w"
    by (auto simp: subscription_row_def put_subscription_def token_urlsafe_def find_update_row key_kept_def)
  have secrets: "signing_secrets ?w at = new # (if s_secret w \<noteq> [] \<and> at < now + grace then [s_secret w] else [])"
    by (simp add: signing_secrets_def)
  show ?thesis
    using row assms(3,4) by (intro exI [of _ ?w]) (auto simp: secrets verify_sign)
qed

definition demo_hooks :: db where
  "demo_hooks = demo_db\<lparr>rng := (\<lambda>n. if n = draws demo_db then ''new'' else ''other''),
     subscriptions := [\<lparr>s_id = 5, s_application_id = 1, s_url = ''https://hooks.example.com/in'',
       s_events = [''domain.ready''], s_secret = ''whsec_old'', s_previous_secret = None,
       s_previous_secret_expires_at = None, s_revoked_at = None, s_created_at = 0\<rparr>]\<rparr>"

theorem rotation_never_breaks_receivers_witness:
  "\<exists>t w'. rotate_secret demo_app 5 ROTATION_GRACE 1000 demo_hooks = Inr (''whsec_new'', t)
    \<and> subscription_row t 5 = Some w'
    \<and> verify (Some (sign ''{}'' (signing_secrets w' 2000) 1700000000)) ''{}'' [''whsec_new''] 1700000000 300 = Inr 1700000000
    \<and> verify (Some (sign ''{}'' (signing_secrets w' 2000) 1700000000)) ''{}'' [''whsec_old''] 1700000000 300 = Inr 1700000000"
proof -
  let ?r = "rotate_secret demo_app 5 ROTATION_GRACE 1000 demo_hooks"
  have ok: "isl ?r = False" "fst (projr ?r) = ''whsec_new''" by code_simp+
  have w: "map_option s_secret (subscription_row demo_hooks 5) = Some ''whsec_old''" by code_simp
  then obtain w where w: "subscription_row demo_hooks 5 = Some w" "s_secret w = ''whsec_old''" by auto
  obtain t where t: "?r = Inr (''whsec_new'', t)" using ok by (cases ?r) auto
  have "(2000 :: int) < 1000 + ROTATION_GRACE" by code_simp
  with rotation_never_breaks_receivers [OF t w(1), of 1700000000 1700000000 300 "''{}''" 2000] w(2) t
  show ?thesis by auto
qed

text \<open>A signature value outside ASCII makes the comparison raise instead of being refused.\<close>

lemma non_ascii_signature_raises:
  "verify (Some (''t=0,v1='' @ [CHR 0xE9])) body [k] 0 300 = Inl SignatureTypeError"
proof -
  have parts: "header_parts (split_on (CHR '','') (''t=0,v1='' @ [CHR 0xE9])) None [] = Inr (Some 0, [[CHR 0xE9]])"
    by code_simp
  have "\<not> ascii [CHR 0xE9]" by code_simp
  then have "try_secrets [k] 0 body [[CHR 0xE9]] = Inl SignatureTypeError"
    by (simp add: compare_digest_def)
  with parts show ?thesis by (simp add: verify_def del: split_on.simps)
qed

end
