(* ===== verification/Webhook_Worker.thy ===== *)
theory Webhook_Worker
  imports Signature
begin

text \<open>
  The webhook worker (src/app/webhooks/worker.py): due deliveries and their lease, the request
  with the address policy applied to it, the three transactions of one attempt, the batch, and
  the webhooks of deleted applications. Attempts are shown to be bounded under every
  interleaving, deliveries to settle within the backoff schedule, and requests to go to public
  addresses only.
\<close>

section \<open>Due deliveries and leases\<close>

definition DELIVERY_BACKOFF :: "duration list" where
  "DELIVERY_BACKOFF = [minutes 1, minutes 5, minutes 30, hours 2, hours 12, hours 24]"

definition MAX_ATTEMPTS :: int where "MAX_ATTEMPTS = 8"
definition DELIVERY_LEASE :: duration where "DELIVERY_LEASE = minutes 2"

definition delivery_due :: "instant \<Rightarrow> webhook_delivery \<Rightarrow> bool" where
  "delivery_due now d = (dl_delivered_at d = None \<and> dl_abandoned_at d = None
     \<and> (case dl_next_attempt_at d of None \<Rightarrow> False | Some t \<Rightarrow> t \<le> now))"

definition due_delivery_ids :: "db \<Rightarrow> instant \<Rightarrow> nat \<Rightarrow> uuid list" where
  "due_delivery_ids s now limit = take limit (map dl_id
     (sort_key (\<lambda>d. case dl_next_attempt_at d of None \<Rightarrow> 0 | Some t \<Rightarrow> t)
       (sort_key dl_id (filter (delivery_due now) (deliveries s)))))"

definition lease_delivery :: "uuid \<Rightarrow> instant \<Rightarrow> db \<Rightarrow> bool \<times> db" where
  "lease_delivery i now s = (let chosen = (\<lambda>d. dl_id d = i \<and> delivery_due now d)
   in (list_ex chosen (deliveries s),
       s\<lparr>deliveries := map (\<lambda>d. if chosen d then d\<lparr>dl_next_attempt_at := Some (now + DELIVERY_LEASE)\<rparr> else d)
         (deliveries s)\<rparr>))"

section \<open>The request\<close>

text \<open>
  A sender posts a body with headers to a URL and yields the status with the start of the
  answer, or the type and text of an exception.
\<close>

type_synonym sender = "string \<Rightarrow> string \<Rightarrow> (string \<times> string) list \<Rightarrow> string \<times> string + int \<times> string"

record connection =
  cn_address :: string
  cn_port :: int
  cn_server_hostname :: "string option"
    \<comment> \<open>the name TLS is negotiated for; \<open>None\<close> without TLS\<close>
  cn_path :: string
  cn_headers :: "(string \<times> string) list"

definition send_plan :: "network \<Rightarrow> bool \<Rightarrow> string \<Rightarrow> (string \<times> string) list \<Rightarrow> error + connection" where
  "send_plan N allow_private url headers = bind_res (url_split url) (\<lambda>parts.
     case url_hostname (u_netloc parts) of
       None \<Rightarrow> Inl (InvalidWebhook ''Webhook URL must be an absolute http(s) URL'')
     | Some host \<Rightarrow>
       if u_scheme parts \<notin> {''https'', ''http''}
       then Inl (InvalidWebhook ''Webhook URL must be an absolute http(s) URL'')
       else if u_scheme parts = ''http'' \<and> \<not> allow_private
       then Inl (InvalidWebhook ''Webhook URL must use https'')
       else bind_res (url_port (u_netloc parts)) (\<lambda>given.
         let port = effective_port (u_scheme parts) given in
         bind_res (resolve_public N host port allow_private) (\<lambda>addresses. Inr \<lparr>
           cn_address = hd addresses, cn_port = port,
           cn_server_hostname = (if u_scheme parts = ''https'' then Some host else None),
           cn_path = (if u_path parts = [] then ''/'' else u_path parts)
             @ (if u_query parts \<noteq> [] then ''?'' @ u_query parts else []),
           cn_headers = (''Host'', if port \<in> {80, 443} then host else host @ '':'' @ str_of_int port)
             # headers\<rparr>)))"

fun exception_text :: "error \<Rightarrow> string \<times> string" where
  "exception_text (InvalidWebhook m) = (''InvalidWebhook'', m)"
| "exception_text (ValueError m) = (''ValueError'', m)"
| "exception_text _ = (''Exception'', [])"

definition http_sender ::
    "network \<Rightarrow> bool \<Rightarrow> (connection \<Rightarrow> string \<Rightarrow> string \<times> string + int \<times> string) \<Rightarrow> sender" where
  "http_sender N allow_private exchange url body headers = (case send_plan N allow_private url headers of
     Inl e \<Rightarrow> Inl (exception_text e)
   | Inr c \<Rightarrow> (case exchange c body of
       Inl exc \<Rightarrow> Inl exc
     | Inr (status, answer) \<Rightarrow> Inr (status, take 500 answer)))"

section \<open>One attempt\<close>

text \<open>\<open>int(now.timestamp())\<close>.\<close>

definition unix_seconds :: "instant \<Rightarrow> int" where
  "unix_seconds t = (if 0 \<le> t then t div 1000000 else - ((- t) div 1000000))"

definition delivery_body :: "(instant \<Rightarrow> string) \<Rightarrow> webhook_delivery \<Rightarrow> string" where
  "delivery_body fmt d = utf8_encode (json_dumps fmt (dl_payload d))"

definition delivery_headers ::
    "(instant \<Rightarrow> string) \<Rightarrow> webhook_delivery \<Rightarrow> webhook_subscription \<Rightarrow> instant \<Rightarrow> (string \<times> string) list" where
  "delivery_headers fmt d w now =
     [(''Content-Type'', ''application/json''), (''User-Agent'', ''custom-domain-webhooks/1''),
      (''X-Custom-Domain-Signature'', sign (delivery_body fmt d) (signing_secrets w now) (unix_seconds now)),
      (''X-Custom-Domain-Event'', dl_event_type d),
      (''X-Custom-Domain-Event-Id'', uuid_str (dl_event_id d)),
      (''X-Custom-Domain-Delivery-Id'', uuid_str (dl_id d)),
      (''X-Custom-Domain-Attempt'', str_of_int (dl_attempts d + 1))]"

definition answer_of :: "string \<times> string + int \<times> string \<Rightarrow> int option \<times> string option" where
  "answer_of r = (case r of
     Inl (name, message) \<Rightarrow> (None, Some (take 500 (name @ '': '' @ message)))
   | Inr (status, answer) \<Rightarrow> (Some status, if 200 \<le> status \<and> status < 300 then None
       else Some (''HTTP '' @ str_of_int status @ '': '' @ take 200 answer)))"

definition settle_attempt ::
    "instant \<Rightarrow> int option \<times> string option \<Rightarrow> webhook_delivery \<Rightarrow> error + string \<times> webhook_delivery" where
  "settle_attempt now answer d = (let
     d1 = d\<lparr>dl_attempts := dl_attempts d + 1, dl_last_attempt_at := Some now,
       dl_last_status := fst answer, dl_last_error := snd answer\<rparr>
   in if snd answer = None
      then Inr (''delivered'', d1\<lparr>dl_delivered_at := Some now, dl_next_attempt_at := None\<rparr>)
      else if dl_attempts d1 \<ge> MAX_ATTEMPTS
      then Inr (''abandoned'', d1\<lparr>dl_abandoned_at := Some now, dl_next_attempt_at := None\<rparr>)
      else bind_res (backoff_delay DELIVERY_BACKOFF (dl_attempts d1)) (\<lambda>delay.
        Inr (''retry'', d1\<lparr>dl_next_attempt_at := Some (now + delay)\<rparr>)))"

text \<open>
  \<open>attempt_delivery\<close> commits three times; what other transactions do after the first two
  commits is an argument. A row deleted meanwhile makes the attempt raise.
\<close>

definition attempt_delivery ::
    "(instant \<Rightarrow> string) \<Rightarrow> sender \<Rightarrow> uuid \<Rightarrow> instant \<Rightarrow> (nat \<Rightarrow> db \<Rightarrow> db) \<Rightarrow> db \<Rightarrow> string phase" where
  "attempt_delivery fmt send i now env s = (let (leased, s1) = lease_delivery i now s in
     if \<not> leased then (s, Inr ''skipped'')
     else let s2 = env 0 s1 in
       (case delivery_row s2 i of
          None \<Rightarrow> (s2, Inl (AttributeError ''subscription_id''))
        | Some d \<Rightarrow>
          (case Option.bind (subscription_row s2 (dl_subscription_id d)) (\<lambda>w. if s_is_active w then Some w else None) of
             None \<Rightarrow> (put_delivery i (\<lambda>d. d\<lparr>dl_abandoned_at := Some now,
                dl_last_error := Some ''subscription revoked''\<rparr>) s2, Inr ''abandoned'')
           | Some w \<Rightarrow>
             let answer = answer_of (send (s_url w) (delivery_body fmt d) (delivery_headers fmt d w now));
                 s3 = env 1 s2
             in (case delivery_row s3 i of
                   None \<Rightarrow> (s3, Inl (AttributeError ''attempts''))
                 | Some d1 \<Rightarrow> (case settle_attempt now answer d1 of
                     Inl e \<Rightarrow> (s3, Inl e)
                   | Inr (outcome, d2) \<Rightarrow> (put_delivery i (\<lambda>_. d2) s3, Inr outcome))))))"

text \<open>\<open>deliver_due\<close>: the batch; a crash counts as a failure and does not stop it.\<close>

definition deliver_due ::
    "(uuid \<Rightarrow> db \<Rightarrow> string phase) \<Rightarrow> instant \<Rightarrow> nat \<Rightarrow> db \<Rightarrow> (nat \<times> nat \<times> nat) \<times> db" where
  "deliver_due attempt batch_now limit s = foldl (\<lambda>((attempted, delivered, failed), s) i.
     case attempt i s of
       (s', Inl _) \<Rightarrow> ((attempted, delivered, Suc failed), s')
     | (s', Inr outcome) \<Rightarrow>
         if outcome = ''skipped'' then ((attempted, delivered, failed), s')
         else if outcome = ''delivered'' then ((Suc attempted, Suc delivered, failed), s')
         else ((Suc attempted, delivered, Suc failed), s'))
     ((0, 0, 0), s) (due_delivery_ids s batch_now limit)"

section \<open>Webhooks of deleted applications\<close>

definition has_pending :: "db \<Rightarrow> webhook_subscription \<Rightarrow> bool" where
  "has_pending s w = list_ex (\<lambda>d. dl_subscription_id d = s_id w \<and> dl_delivered_at d = None
     \<and> dl_abandoned_at d = None) (deliveries s)"

definition settle_deleted_applications :: "instant \<Rightarrow> db \<Rightarrow> nat \<times> db" where
  "settle_deleted_applications now s = (let
     settled = (\<lambda>w. s_revoked_at w = None
       \<and> list_ex (\<lambda>a. app_id a = s_application_id w \<and> is_set (app_deleted_at a)) (applications s)
       \<and> \<not> has_pending s w)
   in (length (filter settled (subscriptions s)),
       s\<lparr>subscriptions := map (\<lambda>w. if settled w then w\<lparr>s_revoked_at := Some now\<rparr> else w) (subscriptions s)\<rparr>))"

section \<open>Every transaction on deliveries\<close>

interpretation delivery_backoff: retry_schedule DELIVERY_BACKOFF
  by unfold_locales (simp_all add: DELIVERY_BACKOFF_def duration_defs)

text \<open>
  A delivery that is still pending has attempts left and is scheduled.
\<close>

definition pending_ok :: "webhook_delivery \<Rightarrow> bool" where
  "pending_ok d = (0 \<le> dl_attempts d \<and> (delivery_state d = ''pending'' \<longrightarrow>
     dl_attempts d < MAX_ATTEMPTS \<and> is_set (dl_next_attempt_at d)))"

definition deliveries_ok :: "db \<Rightarrow> bool" where
  "deliveries_ok s = list_all pending_ok (deliveries s)"

inductive delivery_step :: "db \<Rightarrow> db \<Rightarrow> bool" where
  enqueue: "enqueue_for_event C d e now s = Inr t \<Longrightarrow> delivery_step s t"
| replay: "replay_delivery a i j now s = Inr t \<Longrightarrow> delivery_step s t"
| replay_all: "replay_since a i since now s = Inr (n, t) \<Longrightarrow> delivery_step s t"
| lease: "lease_delivery i now s = (b, t) \<Longrightarrow> delivery_step s t"
| revoked: "delivery_step s (put_delivery i (\<lambda>d. d\<lparr>dl_abandoned_at := Some now,
    dl_last_error := Some ''subscription revoked''\<rparr>) s)"
| settle: "delivery_row s i = Some d \<Longrightarrow> settle_attempt now answer d = Inr (outcome, d') \<Longrightarrow>
    delivery_step s (put_delivery i (\<lambda>_. d') s)"
| drop: "set (deliveries t) \<subseteq> set (deliveries s) \<Longrightarrow> delivery_step s t"
    \<comment> \<open>deleting a subscription, purging, and whatever does not write to deliveries\<close>

lemma settle_attempt_ok:
  assumes "settle_attempt now answer d = Inr (outcome, d')" and "0 \<le> dl_attempts d"
  shows "pending_ok d'" and "dl_id d' = dl_id d" and "dl_attempts d' = dl_attempts d + 1"
  using assms by (auto simp: settle_attempt_def Let_def pending_ok_def delivery_state_def bind_res_eq_Inr split: if_splits)

lemma settle_attempt_total: "settle_attempt now answer d = Inl e \<Longrightarrow> dl_attempts d < 0"
  using delivery_backoff.delay_total [of "dl_attempts d + 1"]
  by (cases "dl_attempts d < 0") (auto simp: settle_attempt_def Let_def split: if_splits)

lemma put_delivery_ok:
  assumes "deliveries_ok s" and "\<And>d. pending_ok d \<Longrightarrow> pending_ok (f d)"
  shows "deliveries_ok (put_delivery i f s)"
  using assms by (auto simp: deliveries_ok_def list_all_iff put_delivery_def update_row_def)

lemma delivery_row_in: "delivery_row s i = Some d \<Longrightarrow> d \<in> set (deliveries s) \<and> dl_id d = i"
  by (auto simp: delivery_row_def dest: find_row_Some)

lemma requeue_ok: "pending_ok (requeue now d)"
  by (simp add: requeue_def pending_ok_def MAX_ATTEMPTS_def)

lemma delivery_step_ok:
  assumes "delivery_step s t" and ok: "deliveries_ok s"
  shows "deliveries_ok t"
  using assms(1)
proof cases
  case (enqueue C d e now)
  from enqueue_effect [OF this] obtain ds where "deliveries t = deliveries s @ ds"
    and ds: "\<And>x. x \<in> set ds \<Longrightarrow> delivery_state x = ''pending'' \<and> dl_attempts x = 0 \<and> dl_next_attempt_at x = Some (e_created_at e)"
    by (metis (no_types, lifting) db.select_convs(11) db.surjective db.update_convs(11) db.update_convs(16))
  with ok show ?thesis
    by (auto simp: deliveries_ok_def list_all_iff pending_ok_def MAX_ATTEMPTS_def)
next
  case (replay a i j now)
  then have "t = put_delivery j (requeue now) s"
    by (auto simp: replay_delivery_def bind_res_eq_Inr split: option.splits)
  with ok show ?thesis by (simp add: put_delivery_ok requeue_ok)
next
  case (replay_all a i since now n)
  with ok show ?thesis
    by (auto simp: replay_since_def bind_res_eq_Inr Let_def deliveries_ok_def list_all_iff requeue_ok)
next
  case (lease i now b)
  with ok show ?thesis
    by (auto simp: lease_delivery_def Let_def deliveries_ok_def list_all_iff pending_ok_def delivery_state_def)
next
  case (revoked i now)
  with ok show ?thesis
    by (auto intro!: put_delivery_ok simp: pending_ok_def delivery_state_def)
next
  case (settle i d now answer outcome d')
  from settle(2) ok have "0 \<le> dl_attempts d"
    by (auto simp: deliveries_ok_def list_all_iff pending_ok_def dest: delivery_row_in)
  with settle ok show ?thesis by (auto intro!: put_delivery_ok dest: settle_attempt_ok(1))
next
  case drop
  with ok show ?thesis by (auto simp: deliveries_ok_def list_all_iff)
qed

interpretation delivering: stable_invariant delivery_step deliveries_ok
  by unfold_locales (rule delivery_step_ok)

lemma attempt_delivery_steps:
  assumes env: "\<And>n s. delivery_step\<^sup>*\<^sup>* s (env n s)"
  shows "delivery_step\<^sup>*\<^sup>* s (fst (attempt_delivery fmt send i now env s))"
proof -
  obtain leased s1 where l: "lease_delivery i now s = (leased, s1)" by fastforce
  have s2: "delivery_step\<^sup>*\<^sup>* s (env 0 s1)"
    using delivery_step.lease [OF l] env [of s1 0] by (rule converse_rtranclp_into_rtranclp)
  have s3: "delivery_step\<^sup>*\<^sup>* s (env (Suc 0) (env 0 s1))" using s2 env by (rule rtranclp_trans)
  have abandon: "delivery_step\<^sup>*\<^sup>* s (put_delivery i (\<lambda>d. d\<lparr>dl_abandoned_at := Some now,
      dl_last_error := Some ''subscription revoked''\<rparr>) (env 0 s1))"
    using s2 delivery_step.revoked by (rule rtranclp.rtrancl_into_rtrancl)
  have settled: "delivery_step\<^sup>*\<^sup>* s (put_delivery i (\<lambda>_. d') (env (Suc 0) (env 0 s1)))"
    if "delivery_row (env (Suc 0) (env 0 s1)) i = Some d" "settle_attempt now answer d = Inr (outcome, d')"
    for d answer outcome d'
    using s3 delivery_step.settle [OF that] by (rule rtranclp.rtrancl_into_rtrancl)
  show ?thesis
    using s2 s3 abandon settled
    by (auto simp: attempt_delivery_def l Let_def split: option.splits sum.splits prod.splits)
qed

text \<open>
  C29: a delivery is attempted at most \<open>MAX_ATTEMPTS\<close> times. Whatever other transactions on
  deliveries run between the phases of an attempt, afterwards a delivery that is still
  pending has used fewer than eight attempts and is scheduled again; and the attempt never
  fails by indexing the backoff table out of range.
\<close>

theorem pending_deliveries_have_attempts_left:
  assumes "deliveries_ok s" and "\<forall>n s. delivery_step\<^sup>*\<^sup>* s (env n s)"
  shows "deliveries_ok (fst (attempt_delivery fmt send i now env s))
    \<and> (\<forall>m. snd (attempt_delivery fmt send i now env s) \<noteq> Inl (ValueError m))"
proof -
  have env: "\<And>n s. delivery_step\<^sup>*\<^sup>* s (env n s)" using assms(2) by blast
  have ok: "deliveries_ok (fst (attempt_delivery fmt send i now env s))"
    by (rule delivering.steps_inv [OF attempt_delivery_steps assms(1)]) (rule env)
  obtain leased s1 where l: "lease_delivery i now s = (leased, s1)" by fastforce
  have "deliveries_ok (env (Suc 0) (env 0 s1))"
    using delivering.steps_inv [OF env] delivery_step_ok [OF delivery_step.lease [OF l] assms(1)] by blast
  then have pos: "0 \<le> dl_attempts d" if "delivery_row (env (Suc 0) (env 0 s1)) i = Some d" for d
    using delivery_row_in [OF that] by (auto simp: deliveries_ok_def list_all_iff pending_ok_def)
  have "snd (attempt_delivery fmt send i now env s) \<noteq> Inl (ValueError m)" for m
    by (auto simp: attempt_delivery_def l Let_def split: option.splits sum.splits prod.splits
        dest!: settle_attempt_total pos)
  with ok show ?thesis by blast
qed

definition demo_delivery :: webhook_delivery where
  "demo_delivery = \<lparr>dl_id = 7, dl_subscription_id = 5, dl_application_id = 1, dl_event_id = 8,
     dl_event_type = ''domain.ready'', dl_domain_id = Some 10, dl_payload = JObj [], dl_attempts = 0,
     dl_next_attempt_at = Some 1000, dl_delivered_at = None, dl_abandoned_at = None,
     dl_last_attempt_at = None, dl_last_status = None, dl_last_error = None, dl_created_at = 1000\<rparr>"

definition demo_outbox :: db where "demo_outbox = demo_hooks\<lparr>deliveries := [demo_delivery]\<rparr>"

theorem pending_deliveries_have_attempts_left_witness:
  "deliveries_ok (fst (attempt_delivery demo_iso (\<lambda>_ _ _. Inr (500, [])) 7 2000 (\<lambda>_ s. s) demo_outbox))
    \<and> snd (attempt_delivery demo_iso (\<lambda>_ _ _. Inr (500, [])) 7 2000 (\<lambda>_ s. s) demo_outbox) \<noteq> Inl (ValueError [])"
proof -
  have ok: "deliveries_ok demo_outbox" by code_simp
  show ?thesis
    using pending_deliveries_have_attempts_left [OF ok, of "\<lambda>_ s. s" demo_iso "\<lambda>_ _ _. Inr (500, [])" 7 2000] by blast
qed

section \<open>Deliveries settle\<close>

text \<open>
  A worker that attempts a delivery whenever it falls due, \<open>n\<close> times at most.
\<close>

fun attempt_when_due :: "(instant \<Rightarrow> string) \<Rightarrow> sender \<Rightarrow> uuid \<Rightarrow> nat \<Rightarrow> db \<Rightarrow> db" where
  "attempt_when_due fmt send i 0 s = s"
| "attempt_when_due fmt send i (Suc n) s = (case Option.bind (delivery_row s i) dl_next_attempt_at of
     None \<Rightarrow> s
   | Some t \<Rightarrow> attempt_when_due fmt send i n (fst (attempt_delivery fmt send i t (\<lambda>_ s. s) s)))"

definition settled_at :: "webhook_delivery \<Rightarrow> instant option" where
  "settled_at d = (case dl_delivered_at d of Some t \<Rightarrow> Some t | None \<Rightarrow> dl_abandoned_at d)"

text \<open>The delays still to come after \<open>a\<close> attempts.\<close>

definition delays_after :: "int \<Rightarrow> duration" where
  "delays_after a = (\<Sum>k\<leftarrow>[a + 1..MAX_ATTEMPTS - 1]. DELIVERY_BACKOFF ! nat (min k 6 - 1))"

definition active_hook :: "db \<Rightarrow> uuid \<Rightarrow> bool" where
  "active_hook s k = (\<exists>w. subscription_row s k = Some w \<and> s_is_active w)"

lemma delivery_state_pending:
  "delivery_state d = ''pending'' \<longleftrightarrow> dl_delivered_at d = None \<and> dl_abandoned_at d = None"
  by (simp add: delivery_state_def)

lemma delays_after_step:
  assumes "a + 1 < MAX_ATTEMPTS"
  shows "delays_after a = DELIVERY_BACKOFF ! nat (min (a + 1) 6 - 1) + delays_after (a + 1)"
  using assms by (simp add: delays_after_def upto.simps [of "a + 1"])

lemma lease_delivery_row:
  assumes "delivery_row s i = Some d" and "delivery_due now d"
  shows "\<exists>s1. lease_delivery i now s = (True, s1) \<and> subscriptions s1 = subscriptions s
    \<and> delivery_row s1 i = Some (d\<lparr>dl_next_attempt_at := Some (now + DELIVERY_LEASE)\<rparr>)"
proof -
  let ?f = "\<lambda>x. if dl_id x = i \<and> delivery_due now x then x\<lparr>dl_next_attempt_at := Some (now + DELIVERY_LEASE)\<rparr> else x"
  have "find (\<lambda>x. dl_id x = i) (map ?f ds) = map_option ?f (find (\<lambda>x. dl_id x = i) ds)" for ds
    by (induction ds) auto
  with assms delivery_row_in [OF assms(1)] show ?thesis
    by (auto simp: lease_delivery_def Let_def delivery_row_def find_row_def list_ex_iff)
qed

lemma put_delivery_row:
  assumes "delivery_row s i = Some d" and "dl_id d' = i"
  shows "delivery_row (put_delivery i (\<lambda>_. d') s) i = Some d'"
proof -
  have "find_row dl_id i (update_row dl_id i (\<lambda>_. d') ds) = map_option (\<lambda>_. d') (find_row dl_id i ds)" for ds
    using assms(2) by (induction ds) auto
  with assms(1) show ?thesis by (simp add: delivery_row_def put_delivery_def)
qed

text \<open>The effect of one attempt on a due delivery when nothing interferes.\<close>

lemma attempt_effect:
  assumes "delivery_row s i = Some d" and "delivery_due now d" and "active_hook s (dl_subscription_id d)"
    and "0 \<le> dl_attempts d"
  shows "\<exists>answer outcome d'. settle_attempt now answer (d\<lparr>dl_next_attempt_at := Some (now + DELIVERY_LEASE)\<rparr>) = Inr (outcome, d')
    \<and> delivery_row (fst (attempt_delivery fmt send i now (\<lambda>_ s. s) s)) i = Some d'
    \<and> subscriptions (fst (attempt_delivery fmt send i now (\<lambda>_ s. s) s)) = subscriptions s"
proof -
  let ?d = "d\<lparr>dl_next_attempt_at := Some (now + DELIVERY_LEASE)\<rparr>"
  obtain s1 where s1: "lease_delivery i now s = (True, s1)" "subscriptions s1 = subscriptions s"
    "delivery_row s1 i = Some ?d" using lease_delivery_row [OF assms(1,2)] by blast
  from assms(3) s1(2) obtain w where w: "subscription_row s1 (dl_subscription_id d) = Some w" "s_is_active w"
    by (auto simp: active_hook_def subscription_row_def)
  let ?answer = "answer_of (send (s_url w) (delivery_body fmt ?d) (delivery_headers fmt ?d w now))"
  obtain outcome d' where settle: "settle_attempt now ?answer ?d = Inr (outcome, d')"
    using settle_attempt_total [of now ?answer ?d] assms(4) by (cases "settle_attempt now ?answer ?d") auto
  then have "dl_id d' = i"
    using settle_attempt_ok(2) [OF settle] assms(4) delivery_row_in [OF assms(1)] by simp
  note row = put_delivery_row [OF s1(3) this]
  have "fst (attempt_delivery fmt send i now (\<lambda>_ s. s) s) = put_delivery i (\<lambda>_. d') s1"
    using s1 w settle by (simp add: attempt_delivery_def)
  with row settle s1(2) show ?thesis
    by (intro exI [of _ ?answer] exI [of _ outcome] exI [of _ d']) (simp add: put_delivery_def)
qed

text \<open>What an attempt leaves: settled now, or due again after the next delay.\<close>

lemma settle_attempt_cases:
  assumes "settle_attempt now answer d = Inr (outcome, d')" and "0 \<le> dl_attempts d" and "delivery_state d = ''pending''"
  shows "delivery_state d' \<noteq> ''pending'' \<and> settled_at d' = Some now \<and> dl_next_attempt_at d' = None
    \<or> dl_attempts d + 1 < MAX_ATTEMPTS \<and> delivery_state d' = ''pending''
      \<and> dl_next_attempt_at d' = Some (now + DELIVERY_BACKOFF ! nat (min (dl_attempts d + 1) 6 - 1))"
    and "dl_attempts d' = dl_attempts d + 1" and "dl_subscription_id d' = dl_subscription_id d"
  using assms
  by (auto simp: settle_attempt_def Let_def delivery_state_pending settled_at_def backoff_delay_def DELIVERY_BACKOFF_def
      split: if_splits)

lemma delay_nonneg: "0 \<le> DELIVERY_BACKOFF ! nat (min k 6 - 1)"
proof -
  have "nat (min k 6 - 1) < length DELIVERY_BACKOFF" by (simp add: DELIVERY_BACKOFF_def)
  from delivery_backoff.entry_bounds(1) [OF this] show ?thesis
    by (simp add: DELIVERY_BACKOFF_def duration_defs)
qed

lemma delays_nonneg: "0 \<le> delays_after a"
  unfolding delays_after_def by (intro sum_list_nonneg) (auto simp: delay_nonneg)

lemma settles:
  assumes "delivery_row s i = Some d" and "delivery_state d = ''pending''" and "0 \<le> dl_attempts d"
    and "dl_attempts d + int n = MAX_ATTEMPTS" and "0 < n"
    and "dl_next_attempt_at d = Some t" and "active_hook s (dl_subscription_id d)"
  shows "\<exists>d' u. delivery_row (attempt_when_due fmt send i n s) i = Some d' \<and> delivery_state d' \<noteq> ''pending''
    \<and> dl_attempts d < dl_attempts d' \<and> dl_attempts d' \<le> MAX_ATTEMPTS
    \<and> settled_at d' = Some u \<and> t \<le> u \<and> u \<le> t + delays_after (dl_attempts d)"
  using assms
proof (induction n arbitrary: s d t)
  case (Suc n)
  let ?s = "fst (attempt_delivery fmt send i t (\<lambda>_ s. s) s)"
  let ?d = "d\<lparr>dl_next_attempt_at := Some (t + DELIVERY_LEASE)\<rparr>"
  have due: "delivery_due t d" using Suc.prems(2,6) by (simp add: delivery_due_def delivery_state_pending)
  obtain answer outcome d1 where d1: "settle_attempt t answer ?d = Inr (outcome, d1)"
    "delivery_row ?s i = Some d1" "subscriptions ?s = subscriptions s"
    using attempt_effect [OF Suc.prems(1) due Suc.prems(7,3), of fmt send] by blast
  have pend: "delivery_state ?d = ''pending''" using Suc.prems(2) by (simp add: delivery_state_pending)
  note c = settle_attempt_cases [OF d1(1) _ pend]
  have run: "attempt_when_due fmt send i (Suc n) s = attempt_when_due fmt send i n ?s"
    using Suc.prems(1,6) by simp
  show ?case
  proof (cases "delivery_state d1 = ''pending''")
    case False
    have stay: "attempt_when_due fmt send i n ?s = ?s"
      using c(1) False Suc.prems(3) d1(2) by (cases n) auto
    show ?thesis
      using c False Suc.prems(3,4) d1(2) delays_nonneg unfolding run stay by auto
  next
    case True
    let ?t = "t + DELIVERY_BACKOFF ! nat (min (dl_attempts d + 1) 6 - 1)"
    have nx: "dl_attempts d + 1 < MAX_ATTEMPTS" "dl_next_attempt_at d1 = Some ?t" "dl_attempts d1 = dl_attempts d + 1"
      using c True Suc.prems(3) by auto
    have hook: "active_hook ?s (dl_subscription_id d1)"
      using Suc.prems(7) d1(3) c(3) Suc.prems(3) by (simp add: active_hook_def subscription_row_def)
    have n: "0 < n" "dl_attempts d1 + int n = MAX_ATTEMPTS" using Suc.prems(4) nx(1,3) by auto
    obtain d' u where d': "delivery_row (attempt_when_due fmt send i n ?s) i = Some d'" "delivery_state d' \<noteq> ''pending''"
      "dl_attempts d1 < dl_attempts d'" "dl_attempts d' \<le> MAX_ATTEMPTS" "settled_at d' = Some u" "?t \<le> u"
      "u \<le> ?t + delays_after (dl_attempts d1)"
      using Suc.IH [OF d1(2) True _ n(2,1) nx(2) hook] nx(3) Suc.prems(3) by auto
    with delay_nonneg [of "dl_attempts d + 1"] d' nx show ?thesis
      unfolding run delays_after_step [OF nx(1)] by (intro exI [of _ d'] exI [of _ u]) auto
  qed
qed simp

text \<open>
  C30: every delivery settles. Whatever the receiver answers, a fresh pending delivery of an active
  webhook that is attempted each time it falls due is delivered or abandoned after at most
  eight attempts, and no later than 62 hours and 36 minutes after it was first due.
\<close>

theorem deliveries_settle:
  assumes "delivery_row s i = Some d" and "delivery_state d = ''pending''" and "dl_attempts d = 0"
    and "dl_next_attempt_at d = Some t" and "active_hook s (dl_subscription_id d)"
  shows "\<exists>d' u. delivery_row (attempt_when_due fmt send i 8 s) i = Some d'
    \<and> delivery_state d' \<in> {''delivered'', ''abandoned''} \<and> 1 \<le> dl_attempts d' \<and> dl_attempts d' \<le> 8
    \<and> settled_at d' = Some u \<and> t \<le> u \<and> u \<le> t + hours 62 + minutes 36"
proof -
  have total: "delays_after 0 = hours 62 + minutes 36" by code_simp
  obtain d' u where d': "delivery_row (attempt_when_due fmt send i 8 s) i = Some d'" "delivery_state d' \<noteq> ''pending''"
    "dl_attempts d < dl_attempts d'" "dl_attempts d' \<le> MAX_ATTEMPTS" "settled_at d' = Some u" "t \<le> u"
    "u \<le> t + delays_after (dl_attempts d)"
    using settles [OF assms(1,2) _ _ _ assms(4,5), of 8 fmt send] assms(3) by (auto simp: MAX_ATTEMPTS_def)
  have "delivery_state d' \<in> {''delivered'', ''abandoned''}" using d'(2) by (simp add: delivery_state_def split: if_splits)
  with d' total assms(3) show ?thesis by (intro exI [of _ d'] exI [of _ u]) (simp add: MAX_ATTEMPTS_def)
qed

theorem deliveries_settle_witness:
  "\<exists>d' u. delivery_row (attempt_when_due demo_iso (\<lambda>_ _ _. Inr (500, [])) 7 8 demo_outbox) 7 = Some d'
    \<and> settled_at d' = Some u \<and> u \<le> 1000 + hours 62 + minutes 36"
proof -
  have d: "delivery_row demo_outbox 7 = Some demo_delivery" "delivery_state demo_delivery = ''pending''"
    "dl_attempts demo_delivery = 0" "dl_next_attempt_at demo_delivery = Some 1000"
    "map_option s_is_active (subscription_row demo_outbox (dl_subscription_id demo_delivery)) = Some True" by code_simp+
  from d(5) have "active_hook demo_outbox (dl_subscription_id demo_delivery)" by (auto simp: active_hook_def)
  from deliveries_settle [OF d(1-4) this, of demo_iso "\<lambda>_ _ _. Inr (500, [])"] show ?thesis by blast
qed

text \<open>
  C31: every attempt enforces the address policy on the addresses the host has at that moment.
  A request is only ever planned for an address just resolved for the URL's own host; unless
  private origins are allowed it is public, and the request is made over TLS for that host.
\<close>

theorem deliveries_only_to_public_addresses:
  assumes "send_plan N allow_private url headers = Inr c"
  shows "\<exists>parts host infos. url_split url = Inr parts \<and> url_hostname (u_netloc parts) = Some host
    \<and> getaddrinfo N host (cn_port c) = Inr infos \<and> cn_address c \<in> set infos
    \<and> (\<not> allow_private \<longrightarrow> (\<forall>a\<in>set infos. is_global N a) \<and> cn_server_hostname c = Some host)"
proof -
  from assms obtain parts where sp: "url_split url = Inr parts"
    by (auto simp: send_plan_def elim: bind_res_InrE)
  from assms sp obtain host where h: "url_hostname (u_netloc parts) = Some host"
    by (auto simp: send_plan_def split: option.splits)
  from assms sp h have scheme: "u_scheme parts \<in> {''https'', ''http''}" "\<not> allow_private \<longrightarrow> u_scheme parts = ''https''"
    by (auto simp: send_plan_def split: if_splits)
  from assms sp h obtain given addresses where
    res: "resolve_public N host (effective_port (u_scheme parts) given) allow_private = Inr addresses"
    and c: "cn_address c = hd addresses" "cn_port c = effective_port (u_scheme parts) given"
      "cn_server_hostname c = (if u_scheme parts = ''https'' then Some host else None)"
    by (auto simp: send_plan_def Let_def bind_res_eq_Inr split: if_splits)
  from resolve_public_Inr [OF res] obtain infos where
    "getaddrinfo N host (cn_port c) = Inr infos" "set addresses = set infos" "addresses \<noteq> []"
    "\<not> allow_private \<longrightarrow> list_all (is_global N) addresses" using c(2) by auto
  moreover have "\<not> allow_private \<longrightarrow> cn_server_hostname c = Some host" using scheme(2) c(3) by simp
  moreover have "cn_address c \<in> set infos"
    using c(1) \<open>set addresses = set infos\<close> \<open>addresses \<noteq> []\<close> by auto
  ultimately show ?thesis using sp h
    by (intro exI [of _ parts] exI [of _ host] exI [of _ infos]) (simp add: list_all_iff)
qed

theorem deliveries_only_to_public_addresses_witness:
  "\<exists>c infos. send_plan demo_network False ''https://hooks.example.com/in'' [] = Inr c
    \<and> getaddrinfo demo_network ''hooks.example.com'' (cn_port c) = Inr infos \<and> cn_address c \<in> set infos
    \<and> isl (send_plan demo_network False ''https://intranet/in'' [])"
proof -
  let ?p = "send_plan demo_network False ''https://hooks.example.com/in'' []"
  have a: "isl ?p = False" "isl (send_plan demo_network False ''https://intranet/in'' [])"
    "(case url_split ''https://hooks.example.com/in'' of Inr parts \<Rightarrow> url_hostname (u_netloc parts) | Inl _ \<Rightarrow> None)
      = Some ''hooks.example.com''" by code_simp+
  then obtain c where c: "?p = Inr c" by (cases ?p) auto
  from deliveries_only_to_public_addresses [OF c] a c show ?thesis by auto
qed

end
