(* ===== verification/Applications.thy ===== *)
theory Applications
  imports Webhook_Worker
begin

text \<open>
  Applications, their API credentials and their origins (src/app/services/applications.py): one
  definition per operation, the invariant of the three tables over every operation, and what
  it gives: only verified origins serve, a key rotation overlaps exactly for its grace period,
  and deleting an application locks it out.
\<close>

section \<open>Rows\<close>

definition origin_row :: "db \<Rightarrow> uuid \<Rightarrow> verified_origin option" where
  "origin_row s i = find_row o_id i (origins s)"

definition put_origin :: "uuid \<Rightarrow> (verified_origin \<Rightarrow> verified_origin) \<Rightarrow> db \<Rightarrow> db" where
  "put_origin i f s = s\<lparr>origins := update_row o_id i f (origins s)\<rparr>"

interpretation orgs: row_store origin_row put_origin "key_kept o_id"
  by unfold_locales (auto simp: origin_row_def put_origin_def row_store_facts)

definition credential_row :: "db \<Rightarrow> uuid \<Rightarrow> api_credential option" where
  "credential_row s i = find_row cr_id i (credentials s)"

definition put_credential :: "uuid \<Rightarrow> (api_credential \<Rightarrow> api_credential) \<Rightarrow> db \<Rightarrow> db" where
  "put_credential i f s = s\<lparr>credentials := update_row cr_id i f (credentials s)\<rparr>"

interpretation creds: row_store credential_row put_credential "key_kept cr_id"
  by unfold_locales (auto simp: credential_row_def put_credential_def row_store_facts)

section \<open>Applications\<close>

definition CREDENTIAL_PREFIX :: string where "CREDENTIAL_PREFIX = ''cd_''"
definition KEY_PREFIX_LENGTH :: nat where "KEY_PREFIX_LENGTH = 11"
definition MAX_RATE :: int where "MAX_RATE = 1000000"

definition slug_core :: "string \<Rightarrow> bool" where
  "slug_core l = (label_core l \<and> length l \<le> 64)"

definition slug_re :: "string \<Rightarrow> bool" where
  "slug_re l = re_dollar slug_core l"

text \<open>\<open>except InvalidHostname as exc: raise E(prefix + exc.message)\<close>.\<close>

definition canonical_or :: "(string \<Rightarrow> error) \<Rightarrow> libs \<Rightarrow> string \<Rightarrow> error + string" where
  "canonical_or err L raw = (case canonicalize L True (Some raw) of
     Inl (InvalidHostname code message) \<Rightarrow> Inl (err message)
   | r \<Rightarrow> r)"

definition create_application ::
    "config \<Rightarrow> string \<Rightarrow> string \<Rightarrow> string \<Rightarrow> instant \<Rightarrow> db \<Rightarrow> error + application \<times> db" where
  "create_application C slug name cname_target now s =
     (if \<not> slug_re slug
      then Inl (InvalidApplication ''Slug must be lowercase letters, digits and hyphens (1-64 characters)'')
      else if strip name = [] then Inl (InvalidApplication ''Name is required'')
      else bind_res (canonical_or (\<lambda>m. InvalidApplication (''CNAME target is not valid: '' @ m)) (cfg_libs C) cname_target)
        (\<lambda>target. if list_ex (\<lambda>a. app_slug a = slug) (applications s)
          then Inl (ApplicationAlreadyExists (''Application '' @ [CHR 0x27] @ slug @ [CHR 0x27] @ '' already exists''))
          else let (i, s1) = uuid4 s;
            a = \<lparr>app_id = i, app_slug = slug, app_name = strip name, app_status = App_Active,
              app_cname_target = target, app_workspace_probe_enabled = True, app_max_domains = None,
              app_rate_limit_per_minute = None, app_rate_limit_per_second = None, app_deleted_at = None,
              app_purge_after = None, app_updated_at = now\<rparr>
          in Inr (a, s1\<lparr>applications := applications s1 @ [a]\<rparr>)))"

definition rename_application :: "application \<Rightarrow> string \<Rightarrow> instant \<Rightarrow> db \<Rightarrow> error + db" where
  "rename_application a name now s =
     (if strip name = [] then Inl (InvalidApplication ''Name is required'')
      else if length (strip name) > 200 then Inl (InvalidApplication ''Name must be at most 200 characters'')
      else Inr (put_application (app_id a) (\<lambda>a. a\<lparr>app_name := strip name, app_updated_at := now\<rparr>) s))"

definition rate_ok :: "int option \<Rightarrow> bool" where
  "rate_ok v = (case v of None \<Rightarrow> True | Some n \<Rightarrow> 1 \<le> n \<and> n \<le> MAX_RATE)"

definition set_rate_limits :: "application \<Rightarrow> int option \<Rightarrow> int option \<Rightarrow> instant \<Rightarrow> db \<Rightarrow> error + db" where
  "set_rate_limits a per_minute per_second now s =
     (if \<not> rate_ok per_minute then Inl (InvalidApplication ''Requests per minute must be 1 to 1,000,000, or none'')
      else if \<not> rate_ok per_second then Inl (InvalidApplication ''Requests per second must be 1 to 1,000,000, or none'')
      else Inr (put_application (app_id a) (\<lambda>a. a\<lparr>app_rate_limit_per_minute := per_minute,
        app_rate_limit_per_second := per_second, app_updated_at := now\<rparr>) s))"

definition set_domain_limit :: "application \<Rightarrow> int option \<Rightarrow> instant \<Rightarrow> db \<Rightarrow> error + db" where
  "set_domain_limit a max_domains now s = (case validate_application_limit max_domains of
     Inl (InvalidLimit m) \<Rightarrow> Inl (InvalidApplication m)
   | Inl e \<Rightarrow> Inl e
   | Inr v \<Rightarrow> Inr (put_application (app_id a) (\<lambda>a. a\<lparr>app_max_domains := v, app_updated_at := now\<rparr>) s))"

definition list_credentials :: "db \<Rightarrow> application \<Rightarrow> api_credential list" where
  "list_credentials s a = sort_key cr_created_at (filter (\<lambda>c. cr_application_id c = app_id a) (credentials s))"

definition list_origins :: "db \<Rightarrow> application \<Rightarrow> verified_origin list" where
  "list_origins s a = sort_key o_created_at (filter (\<lambda>x. o_application_id x = app_id a) (origins s))"

definition revoke_all :: "application \<Rightarrow> instant \<Rightarrow> db \<Rightarrow> db" where
  "revoke_all a now s = s\<lparr>credentials := map (\<lambda>c. if c \<in> set (list_credentials s a) \<and> cr_revoked_at c = None
     then c\<lparr>cr_revoked_at := Some now\<rparr> else c) (credentials s)\<rparr>"

definition retire_all :: "application \<Rightarrow> db \<Rightarrow> db" where
  "retire_all a s = s\<lparr>origins := map (\<lambda>x. if x \<in> set (list_origins s a)
     then x\<lparr>o_is_active := False, o_status := Origin_Retired\<rparr> else x) (origins s)\<rparr>"

text \<open>\<open>f"{slug[:46]}~{id.hex[:12]}"\<close>.\<close>

definition archived_slug :: "application \<Rightarrow> string" where
  "archived_slug a = take 46 (app_slug a) @ ''~'' @ take 12 (uuid_str (app_id a))"

definition latest_purge :: "db \<Rightarrow> application \<Rightarrow> instant \<Rightarrow> instant" where
  "latest_purge s a now = (case max_of (List.map_filter d_purge_after
       (filter (\<lambda>d. d_application_id d = app_id a) (domains s))) of
     None \<Rightarrow> now + TOMBSTONE_RETENTION
   | Some t \<Rightarrow> max t (now + TOMBSTONE_RETENTION))"

definition delete_application ::
    "config \<Rightarrow> application \<Rightarrow> string \<Rightarrow> bool \<Rightarrow> instant \<Rightarrow> db \<Rightarrow> error + int \<times> db" where
  "delete_application C a confirm_slug delete_domains now s =
     (if strip confirm_slug \<noteq> app_slug a
      then Inl (ConfirmationMismatch (''Type the application'' @ [CHR 0x27] @ ''s slug ('' @ app_slug a
        @ '') to confirm the deletion''))
      else let live = live_domains s (Some a) in
        if live \<noteq> 0 \<and> \<not> delete_domains
        then Inl (ApplicationNotEmpty (''Application '' @ [CHR 0x27] @ app_slug a @ [CHR 0x27] @ '' still has ''
            @ str_of_int live @ '' live domain(s); delete them first, or confirm that they are deleted with it'')
          [(''live_domains'', JInt live)])
        else bind_res (fold_res (\<lambda>i. delete_domain C a i now)
            (map d_id (filter (\<lambda>d. d_application_id d = app_id a \<and> d_deleted_at d = None) (domains s))) s)
          (\<lambda>s1. let s2 = retire_all a (revoke_all a now s1) in
             if list_ex (\<lambda>b. app_id b \<noteq> app_id a \<and> app_slug b = archived_slug a) (applications s2)
             then Inl (IntegrityError ''applications.slug'')
             else Inr (live, put_application (app_id a) (\<lambda>b. b\<lparr>app_status := App_Suspended,
                 app_deleted_at := Some now, app_purge_after := Some (latest_purge s2 a now),
                 app_slug := archived_slug a, app_updated_at := now\<rparr>) s2)))"

definition set_cname_target :: "config \<Rightarrow> application \<Rightarrow> string \<Rightarrow> instant \<Rightarrow> db \<Rightarrow> error + string \<times> db" where
  "set_cname_target C a cname_target now s =
     bind_res (canonical_or (\<lambda>m. InvalidApplication (''CNAME target is not valid: '' @ m)) (cfg_libs C) cname_target)
       (\<lambda>target. Inr (target, put_application (app_id a)
          (\<lambda>a. a\<lparr>app_cname_target := target, app_updated_at := now\<rparr>) s))"

definition claimed_targets :: "db \<Rightarrow> application \<Rightarrow> string list" where
  "claimed_targets s a = remdups (map c_cname_target (filter (\<lambda>c. c_status c \<noteq> Claim_Revoked
     \<and> list_ex (\<lambda>d. d_id d = c_domain_id c \<and> d_application_id d = app_id a \<and> d_deleted_at d = None) (domains s))
     (claims s)))"

definition edge_names :: "db \<Rightarrow> application \<Rightarrow> string list" where
  "edge_names s a = foldl (\<lambda>names target. if target \<in> set names then names else names @ [target])
     [app_cname_target a] (claimed_targets s a)"

definition get_application :: "db \<Rightarrow> uuid \<Rightarrow> error + application" where
  "get_application s i = (case application_row s i of
     None \<Rightarrow> Inl (ApplicationNotFound [])
   | Some a \<Rightarrow> if app_is_deleted a then Inl (ApplicationNotFound []) else Inr a)"

definition get_application_by_slug :: "db \<Rightarrow> string \<Rightarrow> bool \<Rightarrow> error + application" where
  "get_application_by_slug s slug include_deleted =
     (case find (\<lambda>a. app_slug a = slug \<and> (include_deleted \<or> app_deleted_at a = None)) (applications s) of
        None \<Rightarrow> Inl (ApplicationNotFound (''Application '' @ [CHR 0x27] @ slug @ [CHR 0x27] @ '' not found''))
      | Some a \<Rightarrow> Inr a)"

definition list_applications :: "db \<Rightarrow> application list" where
  "list_applications s = map snd (sort_by_key (map (\<lambda>a. (app_slug a, a))
     (filter (\<lambda>a. app_deleted_at a = None) (applications s))))"

definition list_deleted_applications :: "db \<Rightarrow> application list" where
  "list_deleted_applications s = sort_key (\<lambda>a. case app_deleted_at a of None \<Rightarrow> 0 | Some t \<Rightarrow> - t)
     (filter (\<lambda>a. is_set (app_deleted_at a)) (applications s))"

definition set_application_status :: "application \<Rightarrow> application_status \<Rightarrow> db \<Rightarrow> db" where
  "set_application_status a status s = put_application (app_id a) (\<lambda>a. a\<lparr>app_status := status\<rparr>) s"

section \<open>Credentials\<close>

definition generate_secret :: "db \<Rightarrow> string \<times> db" where
  "generate_secret s = (let (token, s1) = token_urlsafe s in (CREDENTIAL_PREFIX @ token, s1))"

definition hash_secret :: "string \<Rightarrow> string" where
  "hash_secret secret = hexdigest (sha256 (utf8_encode secret))"

definition credential_scope_of :: "string \<Rightarrow> error + credential_scope" where
  "credential_scope_of v = (let x = lower (strip v) in
     if x = ''full'' then Inr Scope_Full else if x = ''read'' then Inr Scope_Read
     else Inl (InvalidCredential ''Scope must be full or read''))"

fun scope_value :: "credential_scope \<Rightarrow> string" where
  "scope_value Scope_Full = ''full''"
| "scope_value Scope_Read = ''read''"

definition issue_credential ::
    "application \<Rightarrow> string \<Rightarrow> instant option \<Rightarrow> string \<Rightarrow> instant \<Rightarrow> db \<Rightarrow> error + (api_credential \<times> string) \<times> db" where
  "issue_credential a label expires_at scope now s =
     (if strip label = [] then Inl (InvalidCredential ''Label is required'')
      else bind_res (credential_scope_of scope) (\<lambda>sc.
        let (secret, s1) = generate_secret s; (i, s2) = uuid4 s1;
          c = \<lparr>cr_id = i, cr_application_id = app_id a, cr_label = strip label,
            cr_key_prefix = take KEY_PREFIX_LENGTH secret, cr_key_hash = hash_secret secret, cr_scope = sc,
            cr_last_used_at = None, cr_expires_at = expires_at, cr_revoked_at = None, cr_created_at = now\<rparr>
        in if list_ex (\<lambda>x. cr_key_hash x = hash_secret secret) (credentials s)
           then Inl (IntegrityError ''api_credentials.key_hash'')
           else Inr ((c, secret), s2\<lparr>credentials := credentials s2 @ [c]\<rparr>)))"

definition authenticate_credential :: "string option \<Rightarrow> instant \<Rightarrow> db \<Rightarrow> error + api_credential \<times> db" where
  "authenticate_credential secret now s = (case secret of
     None \<Rightarrow> Inl (InvalidCredential [])
   | Some x \<Rightarrow>
     if x = [] \<or> \<not> starts_with CREDENTIAL_PREFIX x then Inl (InvalidCredential [])
     else (case find (\<lambda>c. cr_key_hash c = hash_secret x) (credentials s) of
         None \<Rightarrow> Inl (InvalidCredential [])
       | Some c \<Rightarrow>
         if \<not> cr_is_usable c now then Inl (InvalidCredential [])
         else (case application_row s (cr_application_id c) of
             None \<Rightarrow> Inl (AttributeError ''status'')
           | Some a \<Rightarrow>
             if app_status a \<noteq> App_Active then Inl (InvalidCredential [])
             else let c' = c\<lparr>cr_last_used_at := Some now\<rparr>
               in Inr (c', put_credential (cr_id c) (\<lambda>c. c\<lparr>cr_last_used_at := Some now\<rparr>) s))))"

definition credential_of :: "db \<Rightarrow> application \<Rightarrow> uuid \<Rightarrow> error + api_credential" where
  "credential_of s a i = (case find (\<lambda>c. cr_id c = i \<and> cr_application_id c = app_id a) (credentials s) of
     None \<Rightarrow> Inl CredentialNotFound | Some c \<Rightarrow> Inr c)"

definition revoke_credential :: "application \<Rightarrow> uuid \<Rightarrow> instant \<Rightarrow> db \<Rightarrow> error + db" where
  "revoke_credential a i now s = bind_res (credential_of s a i) (\<lambda>c.
     if cr_revoked_at c = None then Inr (put_credential i (\<lambda>c. c\<lparr>cr_revoked_at := Some now\<rparr>) s) else Inr s)"

definition delete_credential :: "application \<Rightarrow> uuid \<Rightarrow> instant \<Rightarrow> db \<Rightarrow> error + db" where
  "delete_credential a i now s = bind_res (credential_of s a i) (\<lambda>c.
     if cr_is_usable c now then Inl (CredentialInUse ''Revoke the credential before deleting it'')
     else Inr (s\<lparr>credentials := filter (\<lambda>c. cr_id c \<noteq> i) (credentials s)\<rparr>))"

definition rotate_credential ::
    "application \<Rightarrow> uuid \<Rightarrow> string option \<Rightarrow> duration \<Rightarrow> instant \<Rightarrow> db
      \<Rightarrow> error + (api_credential \<times> string) \<times> db" where
  "rotate_credential a i label grace now s = bind_res (credential_of s a i) (\<lambda>old.
     bind_res (issue_credential a (case label of None \<Rightarrow> cr_label old | Some l \<Rightarrow> if l = [] then cr_label old else l)
         None (scope_value (cr_scope old)) now s) (\<lambda>(issued, s1).
       let cutoff = now + grace in
       if cr_revoked_at old = None \<and> (case cr_expires_at old of None \<Rightarrow> True | Some t \<Rightarrow> t > cutoff)
       then Inr (issued, put_credential i (\<lambda>c. c\<lparr>cr_expires_at := Some cutoff\<rparr>) s1)
       else Inr (issued, s1)))"

section \<open>Origins\<close>

definition get_origin ::
    "config \<Rightarrow> db \<Rightarrow> application \<Rightarrow> uuid option \<Rightarrow> string option \<Rightarrow> error + verified_origin" where
  "get_origin C s a origin_id host = (let
     newest = (\<lambda>rows. case sort_key (\<lambda>x. - o_created_at x) rows of
         [] \<Rightarrow> Inl (OriginNotFound ''No such origin for this application'') | x # _ \<Rightarrow> Inr x);
     mine = filter (\<lambda>x. o_application_id x = app_id a) (origins s)
   in case origin_id of
        Some i \<Rightarrow> newest (filter (\<lambda>x. o_id x = i) mine)
      | None \<Rightarrow> (case host of
          Some h \<Rightarrow> bind_res (canonicalize (cfg_libs C) True (Some h)) (\<lambda>c. newest (filter (\<lambda>x. o_host x = c) mine))
        | None \<Rightarrow> Inl (InvalidOrigin ''Give an origin id or host'')))"

definition host_header_of :: "string \<Rightarrow> error + origin_host_header" where
  "host_header_of v = (let x = lower (strip v) in
     if x = ''customer'' then Inr Host_Customer else if x = ''origin'' then Inr Host_Origin
     else Inl (InvalidOrigin ''Host header mode must be customer or origin''))"

definition default_port :: "string \<Rightarrow> int option" where
  "default_port scheme = (if scheme = ''https'' then Some 443 else if scheme = ''http'' then Some 80 else None)"

definition register_origin ::
    "config \<Rightarrow> application \<Rightarrow> string \<Rightarrow> string \<Rightarrow> int option \<Rightarrow> string \<Rightarrow> instant \<Rightarrow> db
      \<Rightarrow> error + verified_origin \<times> db" where
  "register_origin C a raw_host raw_scheme raw_port host_header now s = (let scheme = lower raw_scheme in
     bind_res (host_header_of host_header) (\<lambda>mode.
       case default_port scheme of
         None \<Rightarrow> Inl (InvalidOrigin ''Scheme must be https or http'')
       | Some dport \<Rightarrow>
         bind_res (canonical_or (\<lambda>m. InvalidOrigin (''Origin host is not valid: '' @ m)) (cfg_libs C) raw_host) (\<lambda>host.
           let port = (case raw_port of None \<Rightarrow> dport | Some p \<Rightarrow> if p = 0 then dport else p) in
           if \<not> (0 < port \<and> port < 65536) then Inl (InvalidOrigin ''Port must be between 1 and 65535'')
           else let (token, s1) = token_urlsafe s; (i, s2) = uuid4 s1;
             x = \<lparr>o_id = i, o_application_id = app_id a, o_scheme = scheme, o_host = host, o_port = port,
               o_host_header = mode, o_status = Origin_Pending, o_is_active = False,
               o_verification_token = Some token, o_verified_at = None, o_last_checked_at = None,
               o_last_error_code = None, o_last_error_message = None, o_created_at = now\<rparr>
           in if list_ex (\<lambda>y. o_application_id y = app_id a \<and> o_scheme y = scheme \<and> o_host y = host \<and> o_port y = port) (origins s)
              then Inl (OriginConflict (''Origin '' @ origin_url x @ '' is already registered''))
              else Inr (x, s2\<lparr>origins := origins s2 @ [x]\<rparr>))))"

definition set_origin_host_header :: "uuid \<Rightarrow> string \<Rightarrow> db \<Rightarrow> error + db" where
  "set_origin_host_header i host_header s =
     bind_res (host_header_of host_header) (\<lambda>mode. Inr (put_origin i (\<lambda>x. x\<lparr>o_host_header := mode\<rparr>) s))"

definition record_origin_verification ::
    "uuid \<Rightarrow> bool \<Rightarrow> string option \<Rightarrow> string option \<Rightarrow> instant \<Rightarrow> db \<Rightarrow> db" where
  "record_origin_verification i verified error_code message now s = put_origin i (\<lambda>x.
     if verified
     then x\<lparr>o_last_checked_at := Some now, o_status := Origin_Verified, o_verified_at := Some now,
       o_last_error_code := None, o_last_error_message := None\<rparr>
     else x\<lparr>o_last_checked_at := Some now, o_status := Origin_Failed,
       o_last_error_code := Some (case error_code of None \<Rightarrow> ''origin_verification_failed''
         | Some c \<Rightarrow> if c = [] then ''origin_verification_failed'' else c),
       o_last_error_message := message, o_is_active := False\<rparr>) s"

definition activate_origin :: "uuid \<Rightarrow> db \<Rightarrow> error + db" where
  "activate_origin i s = (case origin_row s i of
     None \<Rightarrow> Inl StaleDataError
   | Some x \<Rightarrow>
     if o_status x \<noteq> Origin_Verified then Inl (OriginNotVerified ''Only a verified origin can be activated'')
     else let s1 = s\<lparr>origins := map (\<lambda>y. if o_application_id y = o_application_id x \<and> o_id y \<noteq> i \<and> o_is_active y
             then y\<lparr>o_is_active := False\<rparr> else y) (origins s)\<rparr>
       in Inr (put_origin i (\<lambda>x. x\<lparr>o_is_active := True\<rparr>) s1))"

definition delete_origin :: "uuid \<Rightarrow> db \<Rightarrow> error + db" where
  "delete_origin i s = (case origin_row s i of
     None \<Rightarrow> Inl StaleDataError
   | Some x \<Rightarrow>
     if o_is_active x then Inl (OriginInUse (''The active origin carries the application'' @ [CHR 0x27] @ ''s traffic; retire it first''))
     else Inr (s\<lparr>origins := filter (\<lambda>x. o_id x \<noteq> i) (origins s)\<rparr>))"

definition retire_origin :: "uuid \<Rightarrow> db \<Rightarrow> db" where
  "retire_origin i s = put_origin i (\<lambda>x. x\<lparr>o_is_active := False, o_status := Origin_Retired\<rparr>) s"

definition get_active_origin :: "db \<Rightarrow> application \<Rightarrow> verified_origin option" where
  "get_active_origin s a = find (\<lambda>x. o_application_id x = app_id a \<and> o_is_active x) (origins s)"

section \<open>The invariant of applications, credentials and origins\<close>

definition rates_ok :: "application \<Rightarrow> bool" where
  "rates_ok a = (rate_ok (app_rate_limit_per_minute a) \<and> rate_ok (app_rate_limit_per_second a))"

definition apps_ok :: "db \<Rightarrow> bool" where
  "apps_ok s = (distinct (map app_id (applications s)) \<and> distinct (map app_slug (applications s))
     \<and> (\<forall>a\<in>set (applications s). app_id a < draws s \<and> rates_ok a))"

definition credentials_ok :: "db \<Rightarrow> bool" where
  "credentials_ok s = (distinct (map cr_id (credentials s)) \<and> distinct (map cr_key_hash (credentials s))
     \<and> (\<forall>c\<in>set (credentials s). cr_id c < draws s))"

definition origins_ok :: "db \<Rightarrow> bool" where
  "origins_ok s = (distinct (map o_id (origins s)) \<and> distinct (map o_application_id (filter o_is_active (origins s)))
     \<and> (\<forall>x\<in>set (origins s). o_id x < draws s \<and> 0 < o_port x \<and> o_port x < 65536
       \<and> (o_is_active x \<longrightarrow> o_status x = Origin_Verified)))"

definition tenants_ok :: "db \<Rightarrow> bool" where
  "tenants_ok s = (apps_ok s \<and> credentials_ok s \<and> origins_ok s)"

text \<open>Every operation of the applications service is a step.\<close>

inductive tenant_step :: "config \<Rightarrow> db \<Rightarrow> db \<Rightarrow> bool" for C where
  create: "create_application C slug name target now s = Inr (a, t) \<Longrightarrow> tenant_step C s t"
| rename: "rename_application a name now s = Inr t \<Longrightarrow> tenant_step C s t"
| rates: "set_rate_limits a per_minute per_second now s = Inr t \<Longrightarrow> tenant_step C s t"
| limit: "set_domain_limit a m now s = Inr t \<Longrightarrow> tenant_step C s t"
| delete_app: "application_row s (app_id a) = Some a \<Longrightarrow>
    delete_application C a confirm dd now s = Inr (n, t) \<Longrightarrow> tenant_step C s t"
| target: "set_cname_target C a target now s = Inr (canonical, t) \<Longrightarrow> tenant_step C s t"
| status: "tenant_step C s (set_application_status a st s)"
| issue: "issue_credential a label exp scope now s = Inr (issued, t) \<Longrightarrow> tenant_step C s t"
| authenticate: "authenticate_credential secret now s = Inr (c, t) \<Longrightarrow> tenant_step C s t"
| revoke: "revoke_credential a i now s = Inr t \<Longrightarrow> tenant_step C s t"
| delete_key: "delete_credential a i now s = Inr t \<Longrightarrow> tenant_step C s t"
| rotate: "rotate_credential a i l grace now s = Inr (issued, t) \<Longrightarrow> tenant_step C s t"
| register: "register_origin C a host scheme port mode now s = Inr (x, t) \<Longrightarrow> tenant_step C s t"
| host_mode: "set_origin_host_header i mode s = Inr t \<Longrightarrow> tenant_step C s t"
| verification: "tenant_step C s (record_origin_verification i verified code message now s)"
| activate: "activate_origin i s = Inr t \<Longrightarrow> tenant_step C s t"
| delete_origin: "delete_origin i s = Inr t \<Longrightarrow> tenant_step C s t"
| retire: "tenant_step C s (retire_origin i s)"
| purge: "purge_tombstones now s = (n, t) \<Longrightarrow> tenant_step C s t"
| other: "applications t = applications s \<Longrightarrow> credentials t = credentials s \<Longrightarrow> origins t = origins s \<Longrightarrow>
    draws s \<le> draws t \<Longrightarrow> tenant_step C s t"

lemma apps_ok_cong:
  "applications t = applications s \<Longrightarrow> draws s \<le> draws t \<Longrightarrow> apps_ok s \<Longrightarrow> apps_ok t"
  by (force simp: apps_ok_def)

lemma credentials_ok_cong:
  "credentials t = credentials s \<Longrightarrow> draws s \<le> draws t \<Longrightarrow> credentials_ok s \<Longrightarrow> credentials_ok t"
  by (force simp: credentials_ok_def)

lemma origins_ok_cong:
  "origins t = origins s \<Longrightarrow> draws s \<le> draws t \<Longrightarrow> origins_ok s \<Longrightarrow> origins_ok t"
  by (force simp: origins_ok_def)

lemmas tenants_cong = apps_ok_cong credentials_ok_cong origins_ok_cong

lemma tenants_okI:
  assumes "tenants_ok s" and "draws s \<le> draws t"
    and "applications t = applications s \<or> apps_ok t" and "credentials t = credentials s \<or> credentials_ok t"
    and "origins t = origins s \<or> origins_ok t"
  shows "tenants_ok t"
  using assms tenants_cong [OF _ assms(2)] unfolding tenants_ok_def by blast

text \<open>Rows changed by key.\<close>

lemma put_application_frame [simp]:
  "credentials (put_application i f s) = credentials s" "origins (put_application i f s) = origins s"
  "draws (put_application i f s) = draws s" "applications (put_application i f s) = update_row app_id i f (applications s)"
  by (simp_all add: put_application_def)

lemma put_credential_frame [simp]:
  "applications (put_credential i f s) = applications s" "origins (put_credential i f s) = origins s"
  "draws (put_credential i f s) = draws s" "credentials (put_credential i f s) = update_row cr_id i f (credentials s)"
  by (simp_all add: put_credential_def)

lemma put_origin_frame [simp]:
  "applications (put_origin i f s) = applications s" "credentials (put_origin i f s) = credentials s"
  "draws (put_origin i f s) = draws s" "origins (put_origin i f s) = update_row o_id i f (origins s)"
  by (simp_all add: put_origin_def)

lemma put_application_ok:
  assumes "tenants_ok s" and "\<And>a. app_id (f a) = app_id a" and "\<And>a. app_slug (f a) = app_slug a"
    and "\<And>a. rates_ok a \<Longrightarrow> rates_ok (f a)"
  shows "tenants_ok (put_application i f s)"
proof (rule tenants_okI [OF assms(1)])
  show "applications (put_application i f s) = applications s \<or> apps_ok (put_application i f s)"
    using assms by (auto simp: tenants_ok_def apps_ok_def map_update_row set_update_row)
qed auto

lemma put_credential_ok:
  assumes "tenants_ok s" and "\<And>a. cr_id (f a) = cr_id a" and "\<And>a. cr_key_hash (f a) = cr_key_hash a"
  shows "tenants_ok (put_credential i f s)"
proof (rule tenants_okI [OF assms(1)])
  show "credentials (put_credential i f s) = credentials s \<or> credentials_ok (put_credential i f s)"
    using assms by (auto simp: tenants_ok_def credentials_ok_def map_update_row set_update_row)
qed auto

text \<open>Deactivating origins, or changing anything but their activity, keeps the invariant.\<close>

lemma map_origins_ok:
  assumes "origins_ok s" and f: "\<And>x. o_id (f x) = o_id x" "\<And>x. o_application_id (f x) = o_application_id x"
    "\<And>x. o_is_active (f x) \<Longrightarrow> o_is_active x" "\<And>x. x \<in> set (origins s) \<Longrightarrow> o_is_active (f x) \<Longrightarrow> o_status (f x) = Origin_Verified"
    "\<And>x. o_port (f x) = o_port x"
  shows "origins_ok (s\<lparr>origins := map f (origins s)\<rparr>)"
proof -
  have sub: "map o_application_id (filter o_is_active (map f xs))
      = map o_application_id (filter (\<lambda>x. o_is_active x \<and> o_is_active (f x)) xs)" for xs
    by (induction xs) (auto simp: f dest: f(3))
  have ids: "map o_id (map f xs) = map o_id xs" for xs by (simp add: f)
  show ?thesis
    using assms(1) f(4) unfolding origins_ok_def
    by (auto simp: sub f comp_def intro: distinct_map_filter simp flip: filter_filter)
qed

lemma put_origin_ok:
  assumes "tenants_ok s" and f: "\<And>x. o_id (f x) = o_id x" "\<And>x. o_application_id (f x) = o_application_id x"
    "\<And>x. o_is_active (f x) \<Longrightarrow> o_is_active x"
    "\<And>x. x \<in> set (origins s) \<Longrightarrow> o_is_active (f x) \<Longrightarrow> o_status (f x) = Origin_Verified"
    "\<And>x. o_port (f x) = o_port x"
  shows "tenants_ok (put_origin i f s)"
proof (rule tenants_okI [OF assms(1)])
  have "origins_ok (s\<lparr>origins := map (\<lambda>x. if o_id x = i then f x else x) (origins s)\<rparr>)"
    using assms(1) by (intro map_origins_ok) (auto simp: f tenants_ok_def origins_ok_def split: if_splits dest: f(3))
  then show "origins (put_origin i f s) = origins s \<or> origins_ok (put_origin i f s)"
    by (simp add: put_origin_def update_row_def)
qed auto

lemma map_app_update_slug:
  assumes "distinct (map app_slug as)" and "\<And>a. app_id (f a) = app_id a" and "distinct (map app_id as)"
    and "\<And>a. app_slug (f a) = slug" and "\<forall>b\<in>set as. app_id b \<noteq> i \<longrightarrow> app_slug b \<noteq> slug"
  shows "distinct (map app_slug (update_row app_id i f as))"
  using assms
proof (induction as)
  case (Cons a as)
  have same: "update_row app_id i f as = as" if "app_id a = i"
    unfolding update_row_def by (rule map_idI) (use Cons.prems(3) that in \<open>auto simp: image_iff\<close>)
  have "slug \<notin> app_slug ` set (update_row app_id i f as)" if "app_id a = i"
    using Cons.prems(3,5) that unfolding same [OF that] by (auto simp: image_iff) metis
  moreover have "app_slug a \<notin> app_slug ` set (update_row app_id i f as)" if "app_id a \<noteq> i"
    using Cons.prems that by (auto simp: set_update_row image_iff)
  ultimately show ?case using Cons by (auto split: if_splits)
qed simp

lemma record_event_tenants:
  assumes "record_event C i et payload now s = Inr t"
  shows "applications t = applications s \<and> credentials t = credentials s \<and> origins t = origins s
    \<and> draws s \<le> draws t \<and> subscriptions t = subscriptions s"
  by (rule record_event_effect [OF assms]) simp

lemma delete_domain_tenants:
  assumes "delete_domain C a i now s = Inr t"
  shows "applications t = applications s \<and> credentials t = credentials s \<and> origins t = origins s
    \<and> draws s \<le> draws t \<and> subscriptions t = subscriptions s"
  using assms
proof (cases rule: delete_domainE)
  case (gone d s2)
  then show ?thesis
    by (auto simp: revoke_live_claim_def put_domain_def put_claim_def split: option.splits dest!: record_event_tenants)
qed simp

lemma delete_domains_tenants:
  assumes "fold_res (\<lambda>i. delete_domain C a i now) is s = Inr t"
  shows "applications t = applications s \<and> credentials t = credentials s \<and> origins t = origins s
    \<and> draws s \<le> draws t \<and> subscriptions t = subscriptions s"
  by (rule fold_res_inv [OF assms]) (auto dest!: delete_domain_tenants)

text \<open>What \<open>delete_application\<close> does, in one step.\<close>

lemma delete_applicationE:
  assumes "delete_application C a confirm dd now s = Inr (n, t)"
  obtains s1 where "fold_res (\<lambda>i. delete_domain C a i now)
      (map d_id (filter (\<lambda>d. d_application_id d = app_id a \<and> d_deleted_at d = None) (domains s))) s = Inr s1"
    and "\<forall>b\<in>set (applications s). app_id b \<noteq> app_id a \<longrightarrow> app_slug b \<noteq> archived_slug a"
    and "t = put_application (app_id a) (\<lambda>b. b\<lparr>app_status := App_Suspended, app_deleted_at := Some now,
        app_purge_after := Some (latest_purge (retire_all a (revoke_all a now s1)) a now),
        app_slug := archived_slug a, app_updated_at := now\<rparr>) (retire_all a (revoke_all a now s1))"
    and "n = live_domains s (Some a)" and "strip confirm = app_slug a" and "n \<noteq> 0 \<longrightarrow> dd"
proof -
  from assms obtain s1 where 1: "fold_res (\<lambda>i. delete_domain C a i now)
      (map d_id (filter (\<lambda>d. d_application_id d = app_id a \<and> d_deleted_at d = None) (domains s))) s = Inr s1"
    unfolding delete_application_def Let_def by (auto split: if_splits elim!: bind_res_InrE)
  from delete_domains_tenants [OF this] have "applications s1 = applications s" by simp
  with assms 1 that [OF 1] show thesis
    unfolding delete_application_def Let_def
    by (auto simp: retire_all_def revoke_all_def list_ex_iff split: if_splits)
qed

lemma delete_application_ok:
  assumes "delete_application C a confirm dd now s = Inr (n, t)" and ok: "tenants_ok s"
  shows "tenants_ok t"
proof -
  from assms(1) obtain s1 where s1: "fold_res (\<lambda>i. delete_domain C a i now)
      (map d_id (filter (\<lambda>d. d_application_id d = app_id a \<and> d_deleted_at d = None) (domains s))) s = Inr s1"
    and free: "\<forall>b\<in>set (applications s). app_id b \<noteq> app_id a \<longrightarrow> app_slug b \<noteq> archived_slug a"
    and t: "t = put_application (app_id a) (\<lambda>b. b\<lparr>app_status := App_Suspended, app_deleted_at := Some now,
        app_purge_after := Some (latest_purge (retire_all a (revoke_all a now s1)) a now),
        app_slug := archived_slug a, app_updated_at := now\<rparr>) (retire_all a (revoke_all a now s1))"
    by (rule delete_applicationE)
  note frame = delete_domains_tenants [OF s1]
  have ok1: "tenants_ok s1" using ok frame by (intro tenants_okI [OF ok]) auto
  let ?cs = "map (\<lambda>c. if c \<in> set (list_credentials s1 a) \<and> cr_revoked_at c = None
     then c\<lparr>cr_revoked_at := Some now\<rparr> else c) (credentials s1)"
  have keys: "map cr_id ?cs = map cr_id (credentials s1)" "map cr_key_hash ?cs = map cr_key_hash (credentials s1)"
    by (simp_all cong: map_cong)
  have cred: "credentials_ok (revoke_all a now s1)"
    using ok1 unfolding credentials_ok_def tenants_ok_def revoke_all_def by (auto simp: keys simp del: map_map)
  have org: "origins_ok (retire_all a (revoke_all a now s1))"
    unfolding retire_all_def
    using ok1 by (intro map_origins_ok) (auto simp: revoke_all_def tenants_ok_def origins_ok_def split: if_splits)
  have app: "apps_ok t"
    using ok1 free frame unfolding t
    by (auto simp: retire_all_def revoke_all_def tenants_ok_def apps_ok_def map_update_row set_update_row
        rates_ok_def
        intro!: map_app_update_slug)
  show ?thesis
    using app credentials_ok_cong [OF _ _ cred, of t] origins_ok_cong [OF _ _ org, of t]
    unfolding tenants_ok_def by (simp add: t retire_all_def)
qed

lemma issue_credentialE:
  assumes "issue_credential a label exp scope now s = Inr ((c, secret), t)"
  obtains sc where "credential_scope_of scope = Inr sc" and "secret = CREDENTIAL_PREFIX @ rng s (draws s)"
    and "c = \<lparr>cr_id = Suc (draws s), cr_application_id = app_id a, cr_label = strip label,
      cr_key_prefix = take KEY_PREFIX_LENGTH secret, cr_key_hash = hash_secret secret, cr_scope = sc,
      cr_last_used_at = None, cr_expires_at = exp, cr_revoked_at = None, cr_created_at = now\<rparr>"
    and "\<forall>x\<in>set (credentials s). cr_key_hash x \<noteq> hash_secret secret"
    and "t = s\<lparr>draws := Suc (Suc (draws s)), credentials := credentials s @ [c]\<rparr>"
  using assms unfolding issue_credential_def generate_secret_def token_urlsafe_def uuid4_def Let_def
  by (auto simp: list_ex_iff bind_res_eq_Inr split: if_splits)

lemma issue_credential_ok:
  assumes "issue_credential a label exp scope now s = Inr (issued, t)" and "tenants_ok s"
  shows "tenants_ok t"
proof -
  obtain c secret where "issued = (c, secret)" by fastforce
  with assms(1) show ?thesis
    by (auto elim!: issue_credentialE)
      (use assms(2) in \<open>force simp: tenants_ok_def apps_ok_def credentials_ok_def origins_ok_def\<close>)
qed

lemma register_origin_ok:
  assumes "register_origin C a host scheme port mode now s = Inr (x, t)" and "tenants_ok s"
  shows "tenants_ok t"
proof -
  from assms(1) have "t = s\<lparr>draws := Suc (Suc (draws s)), origins := origins s @ [x]\<rparr>"
    and "o_id x = Suc (draws s)" and "\<not> o_is_active x" and "0 < o_port x" and "o_port x < 65536"
    unfolding register_origin_def token_urlsafe_def uuid4_def Let_def
    by (auto simp: bind_res_eq_Inr split: if_splits option.splits)
  with assms(2) show ?thesis
    by (force simp: tenants_ok_def apps_ok_def credentials_ok_def origins_ok_def)
qed

lemma activate_origin_ok:
  assumes "activate_origin i s = Inr t" and ok: "tenants_ok s"
  shows "tenants_ok t"
proof -
  from assms(1) obtain x where x: "origin_row s i = Some x" "o_status x = Origin_Verified"
    and t: "origins t = update_row o_id i (\<lambda>x. x\<lparr>o_is_active := True\<rparr>) (map (\<lambda>y.
      if o_application_id y = o_application_id x \<and> o_id y \<noteq> i \<and> o_is_active y then y\<lparr>o_is_active := False\<rparr> else y) (origins s))"
    and same: "applications t = applications s" "credentials t = credentials s" "draws t = draws s"
    unfolding activate_origin_def Let_def by (auto split: option.splits if_splits)
  have xin: "x \<in> set (origins s)" "o_id x = i" using x(1) by (auto simp: origin_row_def dest: find_row_Some)
  define g where "g = (\<lambda>y :: verified_origin. if o_id y = i then y\<lparr>o_is_active := True\<rparr>
    else if o_application_id y = o_application_id x then y\<lparr>o_is_active := False\<rparr> else y)"
  have t': "origins t = map g (origins s)"
    unfolding t update_row_def map_map by (rule map_cong) (auto simp: g_def)
  have inj_ids: "inj_on o_id (set (origins s))" using ok by (simp add: tenants_ok_def origins_ok_def distinct_map)
  have g_active: "w = x \<or> o_application_id w \<noteq> o_application_id x \<and> o_is_active w"
    if "w \<in> set (origins s)" "o_is_active (g w)" for w
    using that inj_onD [OF inj_ids, of w x] xin by (auto simp: g_def split: if_splits)
  have actives: "inj_on o_application_id {w \<in> set (origins s). o_is_active w}"
    using ok by (simp add: tenants_ok_def origins_ok_def distinct_map)
  have "inj_on o_application_id {w \<in> set (origins s). o_is_active (g w)}"
  proof (rule inj_onI)
    fix v w assume v: "v \<in> {w \<in> set (origins s). o_is_active (g w)}" and w: "w \<in> {w \<in> set (origins s). o_is_active (g w)}"
      and same: "o_application_id v = o_application_id w"
    from g_active [of v] g_active [of w] v w same have "v = x \<and> w = x \<or> o_is_active v \<and> o_is_active w" by auto
    with v w same inj_onD [OF actives same] show "v = w" by auto
  qed
  moreover have "distinct (origins s)" using ok by (simp add: tenants_ok_def origins_ok_def distinct_map)
  moreover have "o_application_id (g w) = o_application_id w" for w by (simp add: g_def)
  ultimately have dist: "distinct (map o_application_id (filter o_is_active (map g (origins s))))"
    by (simp add: filter_map comp_def distinct_map)
  have ids: "o_id (g w) = o_id w" for w by (simp add: g_def)
  have "origins_ok t"
    unfolding origins_ok_def t' same(3)
  proof (intro conjI ballI impI)
    show "distinct (map o_id (map g (origins s)))"
      using ok by (simp add: comp_def ids tenants_ok_def origins_ok_def)
    show "distinct (map o_application_id (filter o_is_active (map g (origins s))))" by (rule dist)
    fix y assume "y \<in> set (map g (origins s))"
    then obtain w where w: "w \<in> set (origins s)" "y = g w" by auto
    moreover have "o_port (g w) = o_port w" by (simp add: g_def)
    ultimately show "o_id y < draws s" "0 < o_port y" "o_port y < 65536"
      using ok by (simp_all add: ids tenants_ok_def origins_ok_def)
    assume "o_is_active y"
    with g_active [OF w(1)] w ok x(2) show "o_status y = Origin_Verified"
      by (auto simp: g_def tenants_ok_def origins_ok_def)
  qed
  then show ?thesis using same by (intro tenants_okI [OF ok]) auto
qed

lemma delete_credential_ok:
  assumes "delete_credential a i now s = Inr t" and "tenants_ok s"
  shows "tenants_ok t"
  using assms by (auto simp: delete_credential_def bind_res_eq_Inr tenants_ok_def apps_ok_def credentials_ok_def
      origins_ok_def distinct_map_filter split: if_splits)

lemma rotate_credential_ok:
  assumes "rotate_credential a i l grace now s = Inr (issued, t)" and "tenants_ok s"
  shows "tenants_ok t"
proof -
  from assms(1) obtain lab sc s1 c where 1: "issue_credential a lab None sc now s = Inr (issued, s1)"
    and t: "t = s1 \<or> t = put_credential i (\<lambda>c. c\<lparr>cr_expires_at := Some (now + grace)\<rparr>) s1"
    unfolding rotate_credential_def Let_def by (auto simp: bind_res_eq_Inr split: if_splits)
  from issue_credential_ok [OF 1 assms(2)] t show ?thesis by (auto intro: put_credential_ok)
qed

lemma drop_tenants_ok:
  assumes "tenants_ok s" and "applications t = filter P (applications s)" and "credentials t = filter Q (credentials s)"
    and "origins t = filter R (origins s)" and "draws t = draws s"
  shows "tenants_ok t"
proof -
  have "filter o_is_active (filter R (origins s)) = filter R (filter o_is_active (origins s))"
    by (simp add: conj_commute)
  then have "distinct (map o_application_id (filter o_is_active (origins t)))"
    using assms(1,4) by (simp add: tenants_ok_def origins_ok_def distinct_map_filter del: filter_filter)
  with assms show ?thesis
    by (auto simp: tenants_ok_def apps_ok_def credentials_ok_def origins_ok_def distinct_map_filter simp del: filter_filter)
qed

lemma purge_tombstones_tenants:
  assumes "purge_tombstones now s = (n, t)"
  shows "\<exists>P Q R. applications t = filter P (applications s) \<and> credentials t = filter Q (credentials s)
    \<and> origins t = filter R (origins s) \<and> draws t = draws s"
proof -
  obtain gone s1 where t: "t = purge_zones now (drop_applications gone (drop_domains s1 s))"
    using assms by (auto simp: purge_tombstones_def Let_def)
  show ?thesis
    by (rule exI [of _ "\<lambda>a. \<not> gone (app_id a)"], rule exI [of _ "\<lambda>x. \<not> gone (cr_application_id x)"],
        rule exI [of _ "\<lambda>x. \<not> gone (o_application_id x)"])
      (simp add: t purge_zones_def drop_applications_def drop_domains_def)
qed

lemma tenant_step_ok:
  assumes "tenant_step C s t" and ok: "tenants_ok s"
  shows "tenants_ok t"
proof -
  have act: "o_status x = Origin_Verified" if "x \<in> set (origins s)" "o_is_active x" for x
    using ok that by (simp add: tenants_ok_def origins_ok_def)
  show ?thesis
    using assms(1)
  proof cases
    case (create slug name target now a)
    then have "t = s\<lparr>draws := Suc (draws s), applications := applications s @ [a]\<rparr>" "app_id a = draws s" "rates_ok a"
      "\<forall>b\<in>set (applications s). app_slug b \<noteq> app_slug a"
      unfolding create_application_def uuid4_def Let_def
      by (auto simp: bind_res_eq_Inr list_ex_iff rates_ok_def rate_ok_def split: if_splits)
    with ok show ?thesis
      by (force simp: tenants_ok_def apps_ok_def credentials_ok_def origins_ok_def)
  next
    case (rename a name now)
    with ok show ?thesis by (auto simp: rename_application_def split: if_splits simp: rates_ok_def intro!: put_application_ok)
  next
    case (rates a per_minute per_second now)
    with ok show ?thesis by (auto simp: set_rate_limits_def split: if_splits simp: rates_ok_def intro!: put_application_ok)
  next
    case (limit a m now)
    then obtain v where "t = put_application (app_id a) (\<lambda>a. a\<lparr>app_max_domains := v, app_updated_at := now\<rparr>) s"
      by (auto simp: set_domain_limit_def split: sum.splits error.splits)
    with ok show ?thesis by (auto simp: rates_ok_def intro!: put_application_ok)
  next
    case (delete_app a confirm dd now n)
    with ok show ?thesis by (blast intro: delete_application_ok)
  next
    case (target a target now canonical)
    with ok show ?thesis by (auto simp: set_cname_target_def bind_res_eq_Inr simp: rates_ok_def intro!: put_application_ok)
  next
    case (status a st)
    with ok show ?thesis by (auto simp: set_application_status_def simp: rates_ok_def intro!: put_application_ok)
  next
    case (issue a label exp scope now issued)
    with ok show ?thesis by (blast intro: issue_credential_ok)
  next
    case (authenticate secret now c)
    then have "\<exists>i. t = put_credential i (\<lambda>c. c\<lparr>cr_last_used_at := Some now\<rparr>) s"
      unfolding authenticate_credential_def Let_def by (auto split: option.splits if_splits)
    with ok show ?thesis by (auto intro: put_credential_ok)
  next
    case (revoke a i now)
    with ok show ?thesis
      by (auto simp: revoke_credential_def bind_res_eq_Inr split: if_splits intro: put_credential_ok)
  next
    case (delete_key a i now)
    with ok show ?thesis by (blast intro: delete_credential_ok)
  next
    case (rotate a i l grace now issued)
    with ok show ?thesis by (blast intro: rotate_credential_ok)
  next
    case (register a host scheme port mode now x)
    with ok show ?thesis by (blast intro: register_origin_ok)
  next
    case (host_mode i mode)
    with ok show ?thesis
      by (auto simp: set_origin_host_header_def bind_res_eq_Inr act intro!: put_origin_ok)
  next
    case (verification i verified code message now)
    with ok show ?thesis
      by (auto simp: record_origin_verification_def act intro!: put_origin_ok split: if_splits)
  next
    case (activate i)
    with ok show ?thesis by (blast intro: activate_origin_ok)
  next
    case (delete_origin i)
    then obtain R where "t = s\<lparr>origins := filter R (origins s)\<rparr>"
      by (auto simp: delete_origin_def split: option.splits if_splits)
    with ok show ?thesis by (intro drop_tenants_ok [OF ok, of t "\<lambda>_. True" "\<lambda>_. True" R]) auto
  next
    case (retire i)
    with ok show ?thesis by (auto simp: retire_origin_def intro!: put_origin_ok)
  next
    case (purge now n)
    from purge_tombstones_tenants [OF this] ok show ?thesis by (blast intro: drop_tenants_ok)
  next
    case other
    with ok show ?thesis by (intro tenants_okI [OF ok]) auto
  qed
qed

definition no_tenants :: "db \<Rightarrow> bool" where
  "no_tenants s = (applications s = [] \<and> credentials s = [] \<and> origins s = [])"

interpretation tenants: invariant_system "tenant_step C" tenants_ok no_tenants
proof unfold_locales
  show "tenants_ok s \<Longrightarrow> tenant_step C s t \<Longrightarrow> tenants_ok t" for s t by (rule tenant_step_ok)
  show "no_tenants s \<Longrightarrow> tenants_ok s" for s
    by (simp add: no_tenants_def tenants_ok_def apps_ok_def credentials_ok_def origins_ok_def)
qed

text \<open>
  C32: only a verified origin ever receives traffic. Whatever operations ran since the deployment
  was empty, an origin that is active is verified, is the one origin its application serves
  from, and no other origin of that application is active.
\<close>

theorem only_a_verified_origin_serves:
  assumes "no_tenants s" and "(tenant_step C)\<^sup>*\<^sup>* s t" and "x \<in> set (origins t)" and "o_is_active x"
  shows "o_status x = Origin_Verified \<and> serving_origin t (o_application_id x) = Some x
    \<and> (\<forall>y\<in>set (origins t). o_is_active y \<and> o_application_id y = o_application_id x \<longrightarrow> y = x)"
proof -
  have ok: "origins_ok t" using tenants.reachable_inv [OF assms(1,2)] by (simp add: tenants_ok_def)
  then have v: "o_status x = Origin_Verified" using assms(3,4) by (simp add: origins_ok_def)
  have inj: "inj_on o_application_id {w \<in> set (origins t). o_is_active w}"
    using ok by (simp add: origins_ok_def distinct_map)
  then have one: "\<forall>y\<in>set (origins t). o_is_active y \<and> o_application_id y = o_application_id x \<longrightarrow> y = x"
    using assms(3,4) by (auto dest: inj_onD)
  have "find o_is_active (application_origins t (o_application_id x)) \<noteq> None"
    using assms(3,4) by (auto simp: find_None_iff application_origins_def)
  then obtain y where "find o_is_active (application_origins t (o_application_id x)) = Some y" by auto
  moreover from find_SomeD [OF this] one have "y = x" by (auto simp: application_origins_def)
  ultimately show ?thesis using v one by (simp add: serving_origin_def active_origin_def)
qed

section \<open>Credentials in use\<close>

lemma authenticate_known:
  assumes "credentials_ok s" and "c \<in> set (credentials s)" and "cr_key_hash c = hash_secret k"
    and "starts_with CREDENTIAL_PREFIX k" and "application_row s (cr_application_id c) = Some row"
    and "app_status row = App_Active"
  shows "authenticate_credential (Some k) later s = (if cr_is_usable c later
    then Inr (c\<lparr>cr_last_used_at := Some later\<rparr>, put_credential (cr_id c) (\<lambda>c. c\<lparr>cr_last_used_at := Some later\<rparr>) s)
    else Inl (InvalidCredential []))"
proof -
  have "find_row cr_key_hash (cr_key_hash c) (credentials s) = Some c"
    using assms(1,2) by (intro find_row_unique) (auto simp: credentials_ok_def)
  then have "find (\<lambda>x. cr_key_hash x = hash_secret k) (credentials s) = Some c"
    by (simp add: find_row_def assms(3))
  moreover have "k \<noteq> []" using assms(4) by (auto simp: starts_with_def CREDENTIAL_PREFIX_def)
  ultimately show ?thesis using assms(4-6) by (simp add: authenticate_credential_def Let_def)
qed

lemma rotate_credentialE:
  assumes "rotate_credential a i l grace now s = Inr ((new, secret), t)" and "credential_of s a i = Inr old"
  obtains lab s1 where "issue_credential a lab None (scope_value (cr_scope old)) now s = Inr ((new, secret), s1)"
    and "t = (if cr_revoked_at old = None \<and> (case cr_expires_at old of None \<Rightarrow> True | Some u \<Rightarrow> u > now + grace)
      then put_credential i (\<lambda>c. c\<lparr>cr_expires_at := Some (now + grace)\<rparr>) s1 else s1)"
  using assms unfolding rotate_credential_def Let_def
  by (auto simp: bind_res_eq_Inr split: if_splits)

lemma scope_roundtrip: "credential_scope_of (scope_value sc) = Inr sc"
proof (cases sc)
  case Scope_Full
  have "credential_scope_of (scope_value Scope_Full) = Inr Scope_Full" by code_simp
  with Scope_Full show ?thesis by simp
next
  case Scope_Read
  have "credential_scope_of (scope_value Scope_Read) = Inr Scope_Read" by code_simp
  with Scope_Read show ?thesis by simp
qed

text \<open>
  Rotating an API key overlaps the two keys for exactly the grace period. The new secret
  authenticates for the same application with the same scope; the old secret authenticates
  as long as it was usable anyway and the grace period has not ended, and never after.
\<close>

theorem credential_rotation_overlaps:
  assumes "tenants_ok s" and "rotate_credential a i l grace now s = Inr ((new, secret), t)"
    and "credential_of s a i = Inr old" and "cr_key_hash old = hash_secret k" and "starts_with CREDENTIAL_PREFIX k"
    and "application_row s (app_id a) = Some row" and "app_status row = App_Active"
  shows "(\<exists>c u. authenticate_credential (Some secret) later t = Inr (c, u)
      \<and> cr_application_id c = app_id a \<and> cr_scope c = cr_scope old)
    \<and> ((\<exists>c u. authenticate_credential (Some k) later t = Inr (c, u) \<and> cr_id c = i)
        \<longleftrightarrow> cr_is_usable old later \<and> later < now + grace)"
proof -
  obtain lab s1 where 1: "issue_credential a lab None (scope_value (cr_scope old)) now s = Inr ((new, secret), s1)"
    and t: "t = (if cr_revoked_at old = None \<and> (case cr_expires_at old of None \<Rightarrow> True | Some u \<Rightarrow> u > now + grace)
      then put_credential i (\<lambda>c. c\<lparr>cr_expires_at := Some (now + grace)\<rparr>) s1 else s1)"
    using rotate_credentialE [OF assms(2,3)] by blast
  have new: "secret = CREDENTIAL_PREFIX @ rng s (draws s)" "cr_id new = Suc (draws s)" "cr_application_id new = app_id a"
    "cr_key_hash new = hash_secret secret" "cr_scope new = cr_scope old" "cr_revoked_at new = None" "cr_expires_at new = None"
    and s1: "s1 = s\<lparr>draws := Suc (Suc (draws s)), credentials := credentials s @ [new]\<rparr>"
    by (rule issue_credentialE [OF 1], simp add: scope_roundtrip)+
  have old: "old \<in> set (credentials s)" "cr_id old = i" "cr_application_id old = app_id a"
    using assms(3) by (auto simp: credential_of_def split: option.splits dest!: find_SomeD)
  have "cr_id new \<noteq> i" using assms(1) old new(2) by (force simp: tenants_ok_def credentials_ok_def)
  let ?cut = "cr_revoked_at old = None \<and> (case cr_expires_at old of None \<Rightarrow> True | Some u \<Rightarrow> u > now + grace)"
  let ?old = "if ?cut then old\<lparr>cr_expires_at := Some (now + grace)\<rparr> else old"
  have ok: "credentials_ok t" using rotate_credential_ok [OF assms(2,1)] by (simp add: tenants_ok_def)
  have mem: "new \<in> set (credentials t)" "?old \<in> set (credentials t)"
    using old \<open>cr_id new \<noteq> i\<close> by (auto simp: t s1 set_update_row image_iff split: if_splits)
  have app: "application_row t (app_id a) = Some row" using assms(6) by (simp add: t s1 application_row_def)
  have secret: "starts_with CREDENTIAL_PREFIX secret" by (simp add: new(1))
  have "cr_is_usable new later" using new(6,7) by (simp add: cr_is_usable_def)
  with authenticate_known [OF ok mem(1) new(4) secret, of row later] app assms(7) new
  have fresh: "\<exists>c u. authenticate_credential (Some secret) later t = Inr (c, u)
      \<and> cr_application_id c = app_id a \<and> cr_scope c = cr_scope old" by simp
  have hash: "cr_key_hash ?old = hash_secret k" "application_row t (cr_application_id ?old) = Some row"
    using assms(4) old(3) app by simp_all
  have usable: "cr_is_usable ?old later \<longleftrightarrow> cr_is_usable old later \<and> later < now + grace"
    by (auto simp: cr_is_usable_def split: option.splits)
  have "(\<exists>c u. authenticate_credential (Some k) later t = Inr (c, u) \<and> cr_id c = i) \<longleftrightarrow> cr_is_usable ?old later"
    using old(2) unfolding authenticate_known [OF ok mem(2) hash(1) assms(5) hash(2) assms(7)] by simp
  with fresh usable show ?thesis by blast
qed

section \<open>Deleting an application\<close>

lemma delete_domains_rows:
  assumes "fold_res (\<lambda>i. delete_domain C a i now) is s = Inr t" and "db_inv s"
  shows "db_inv t \<and> (\<forall>j. j \<notin> set is \<longrightarrow> domain_row t j = domain_row s j)
    \<and> (\<forall>j\<in>set is. \<exists>d. domain_row t j = Some d \<and> d_is_deleted d)"
  using assms
proof (induction "is" arbitrary: s)
  case (Cons i "is")
  then obtain s1 where s1: "delete_domain C a i now s = Inr s1" "fold_res (\<lambda>i. delete_domain C a i now) is s1 = Inr t"
    by (auto elim: bind_res_InrE)
  have inv: "db_inv s1" by (rule lifecycle_step_inv [OF lifecycle_step.delete [OF s1(1)] Cons.prems(2)])
  have r: "touches i s s1" "\<exists>d. domain_row s1 i = Some d \<and> d_is_deleted d"
    using delete_domain_sound(2,4) [OF s1(1)] Cons.prems(2) by (auto simp: db_inv_def)
  from Cons.IH [OF s1(2) inv] r show ?case by (auto simp: touches_def)
qed simp

lemma slug_no_tilde: "slug_re slug \<Longrightarrow> CHR 0x7E \<notin> set slug"
proof -
  have core: "slug_core x \<Longrightarrow> CHR 0x7E \<notin> set x" for x
    by (auto simp: slug_core_def label_core_def list_all_iff label_char_def is_digit_def)
  assume "slug_re slug"
  then show ?thesis
    by (cases slug rule: rev_cases) (auto simp: slug_re_def re_dollar_def dest: core)
qed

text \<open>
  C33: deleting an application locks it out at once. Afterwards no credential of it authenticates,
  it has no live domain and no serving origin, its slug is free for a new application, its
  webhooks are untouched so that the deletion events still reach it, and every invariant of
  the deployment holds.
\<close>

theorem deleted_application_is_locked_out:
  assumes "reachable C s" and "tenants_ok s" and "slug_re (app_slug a)"
    and "application_row s (app_id a) = Some a" and "delete_application C a confirm dd now s = Inr (n, t)"
  shows "reachable C t \<and> tenants_ok t
    \<and> (\<forall>secret later c u. authenticate_credential secret later t = Inr (c, u) \<longrightarrow> cr_application_id c \<noteq> app_id a)
    \<and> live_domains t (Some a) = 0 \<and> serving_origin t (app_id a) = None
    \<and> app_slug a \<notin> app_slug ` set (applications t) \<and> subscriptions t = subscriptions s"
proof -
  let ?gone = "map d_id (filter (\<lambda>d. d_application_id d = app_id a \<and> d_deleted_at d = None) (domains s))"
  obtain s1 where s1: "fold_res (\<lambda>i. delete_domain C a i now) ?gone s = Inr s1"
    and t: "t = put_application (app_id a) (\<lambda>b. b\<lparr>app_status := App_Suspended, app_deleted_at := Some now,
        app_purge_after := Some (latest_purge (retire_all a (revoke_all a now s1)) a now),
        app_slug := archived_slug a, app_updated_at := now\<rparr>) (retire_all a (revoke_all a now s1))"
    using assms(5) by (rule delete_applicationE)
  have inv: "db_inv s" by (rule reachable_db_inv [OF assms(1)])
  note rows = delete_domains_rows [OF s1 inv] and frame = delete_domains_tenants [OF s1]
  have core: "domains t = domains s1" "claims t = claims s1" "checks t = checks s1" "events t = events s1"
    "subscriptions t = subscriptions s1" "draws t = draws s1"
    by (simp_all add: t put_application_def retire_all_def revoke_all_def)
  have "reachable C s1"
    by (rule fold_res_inv [where P = "reachable C", OF s1 assms(1)])
      (rule reachable_step, assumption, rule lifecycle_step.delete)
  moreover have "lifecycle_step C s1 t" by (rule lifecycle_step.other) (simp_all add: core)
  ultimately have reach: "reachable C t" by (rule reachable_step)
  have ok: "tenants_ok t" by (rule delete_application_ok [OF assms(5,2)])
  have apps: "applications t = update_row app_id (app_id a) (\<lambda>b. b\<lparr>app_status := App_Suspended, app_deleted_at := Some now,
        app_purge_after := Some (latest_purge (retire_all a (revoke_all a now s1)) a now),
        app_slug := archived_slug a, app_updated_at := now\<rparr>) (applications s)"
    using frame by (simp add: t retire_all_def revoke_all_def)
  have suspended: "\<exists>b. application_row t (app_id a) = Some b \<and> app_status b = App_Suspended"
    using assms(4) unfolding application_row_def apps by (simp add: find_update_row)
  then have lock: "cr_application_id c \<noteq> app_id a" if "authenticate_credential secret later t = Inr (c, u)" for secret later c u
    using that by (auto simp: authenticate_credential_def Let_def split: option.splits if_splits)
  have dead: "\<not> (d_deleted_at d = None \<and> d_application_id d = app_id a)" if "d \<in> set (domains s1)" for d
  proof
    assume live: "d_deleted_at d = None \<and> d_application_id d = app_id a"
    have d1: "domain_row s1 (d_id d) = Some d" using domain_row_intro that rows by (simp add: db_inv_def)
    show False
    proof (cases "d_id d \<in> set ?gone")
      case True
      with rows d1 live show ?thesis by (auto simp: d_is_deleted_def)
    next
      case False
      with rows d1 have "domain_row s (d_id d) = Some d" by auto
      with False live show ?thesis by (auto dest: domain_rowD)
    qed
  qed
  then have "live_domains t (Some a) = 0" by (auto simp: live_domains_def core filter_empty_conv)
  moreover have "serving_origin t (app_id a) = None"
  proof -
    have "origins t = map (\<lambda>x. if o_application_id x = app_id a
        then x\<lparr>o_is_active := False, o_status := Origin_Retired\<rparr> else x) (origins s1)"
      unfolding t put_application_frame retire_all_def by (simp add: list_origins_def revoke_all_def)
    then have "find o_is_active (application_origins t (app_id a)) = None"
      by (auto simp: find_None_iff application_origins_def split: if_splits)
    then show ?thesis by (simp add: serving_origin_def active_origin_def)
  qed
  moreover have "app_slug a \<notin> app_slug ` set (applications t)"
  proof -
    have "archived_slug a \<noteq> app_slug a"
    proof
      assume "archived_slug a = app_slug a"
      then have "CHR 0x7E \<in> set (app_slug a)" by (metis archived_slug_def in_set_conv_decomp append_Cons append_Nil)
      with slug_no_tilde [OF assms(3)] show False by blast
    qed
    moreover have "b = a" if "b \<in> set (applications s)" "app_slug b = app_slug a" for b
      using assms(2,4) that by (auto simp: tenants_ok_def apps_ok_def application_row_def distinct_map
          dest!: find_row_Some dest: inj_onD)
    ultimately show ?thesis unfolding apps by (auto simp: set_update_row)
  qed
  ultimately show ?thesis using reach ok lock core frame by auto
qed

section \<open>A deployment in use\<close>

definition demo_empty :: db where
  "demo_empty = demo_db\<lparr>applications := [], credentials := [], origins := [], subscriptions := [], draws := 100,
     rng := (\<lambda>n. if n = 101 then ''key'' else str_of_nat n)\<rparr>"

definition demo_created :: db where
  "demo_created = snd (projr (create_application demo_cfg ''acme'' ''Acme'' ''edge.example.net'' 0 demo_empty))"

definition demo_tenant :: application where "demo_tenant = hd (applications demo_created)"

definition demo_origin_added :: db where
  "demo_origin_added = snd (projr (register_origin demo_cfg demo_tenant ''origin.example.net'' ''https'' None ''customer'' 5 demo_created))"

definition demo_serving :: db where
  "demo_serving = projr (activate_origin 102 (record_origin_verification 102 True None None 6 demo_origin_added))"

lemma projr_pair: "isl r = False \<Longrightarrow> r = Inr (fst (projr r), snd (projr r))"
  by (cases r) auto

lemma demo_serving_steps: "(tenant_step demo_cfg)\<^sup>*\<^sup>* demo_empty demo_serving"
proof -
  have c: "isl (create_application demo_cfg ''acme'' ''Acme'' ''edge.example.net'' 0 demo_empty) = False"
    "isl (register_origin demo_cfg demo_tenant ''origin.example.net'' ''https'' None ''customer'' 5 demo_created) = False"
    "isl (activate_origin 102 (record_origin_verification 102 True None None 6 demo_origin_added)) = False" by code_simp+
  have 1: "tenant_step demo_cfg demo_empty demo_created"
    using tenant_step.create [OF projr_pair [OF c(1)]] by (simp add: demo_created_def)
  have 2: "tenant_step demo_cfg demo_created demo_origin_added"
    using tenant_step.register [OF projr_pair [OF c(2)]] by (simp add: demo_origin_added_def)
  have 3: "tenant_step demo_cfg (record_origin_verification 102 True None None 6 demo_origin_added) demo_serving"
    using tenant_step.activate [OF projr_eq [OF c(3)]] by (simp add: demo_serving_def)
  from 1 2 tenant_step.verification 3 show ?thesis
    by (meson converse_rtranclp_into_rtranclp rtranclp.rtrancl_refl)
qed

lemma demo_no_tenants: "no_tenants demo_empty"
  by (simp add: no_tenants_def demo_empty_def)

theorem only_a_verified_origin_serves_witness:
  "\<exists>x. origins demo_serving = [x] \<and> o_status x = Origin_Verified
    \<and> serving_origin demo_serving (o_application_id x) = Some x"
proof -
  have one: "map o_is_active (origins demo_serving) = [True]" by code_simp
  then obtain x where x: "origins demo_serving = [x]" "o_is_active x" by auto
  with only_a_verified_origin_serves [OF demo_no_tenants demo_serving_steps, of x] show ?thesis by simp
qed

definition demo_key :: api_credential where
  "demo_key = \<lparr>cr_id = 50, cr_application_id = 1, cr_label = ''ci'', cr_key_prefix = ''cd_old'',
     cr_key_hash = hash_secret ''cd_old'', cr_scope = Scope_Read, cr_last_used_at = None, cr_expires_at = None,
     cr_revoked_at = None, cr_created_at = 0\<rparr>"

definition demo_keyed :: db where
  "demo_keyed = demo_db\<lparr>credentials := [demo_key], origins := [], draws := 100, rng := (\<lambda>_. ''new'')\<rparr>"

lemma demo_hashes:
  "hash_secret ''cd_old'' = ''cd7ee9ec459c931221b59bff54f148687ae742615eb645978d4142713bc2dfa5''"
  "hash_secret ''cd_new'' = ''55fbc8b377b1fd5685848fe499c273a5a823ed7ca23298b411fa250566fb1b5c''"
  by code_simp+

theorem credential_rotation_overlaps_witness:
  "\<exists>new secret t c u. rotate_credential demo_app 50 None (hours 24) 1000 demo_keyed = Inr ((new, secret), t)
    \<and> authenticate_credential (Some secret) 2000 t = Inr (c, u) \<and> cr_scope c = Scope_Read
    \<and> (\<exists>c u. authenticate_credential (Some ''cd_old'') 2000 t = Inr (c, u))
    \<and> \<not> (\<exists>c u. authenticate_credential (Some ''cd_old'') (1000 + hours 24) t = Inr (c, u) \<and> cr_id c = 50)"
proof -
  let ?r = "rotate_credential demo_app 50 None (hours 24) 1000 demo_keyed"
  have scope: "credential_scope_of ''read'' = Inr Scope_Read" using scope_roundtrip [of Scope_Read] by simp
  have "isl ?r = False"
    by (simp add: rotate_credential_def credential_of_def demo_keyed_def demo_key_def demo_app_def issue_credential_def
        generate_secret_def token_urlsafe_def uuid4_def scope CREDENTIAL_PREFIX_def demo_hashes Let_def
        strip_chars_def lstrip_def rstrip_def py_space_def)
  then obtain new secret t where r: "?r = Inr ((new, secret), t)" by (cases ?r) auto
  have old: "credential_of demo_keyed demo_app 50 = Inr demo_key"
    by (simp add: credential_of_def demo_keyed_def demo_key_def demo_app_def)
  have app: "application_row demo_keyed (app_id demo_app) = Some demo_app" "app_status demo_app = App_Active"
    by (simp_all add: application_row_def demo_keyed_def demo_db_def demo_app_def)
  have ok: "tenants_ok demo_keyed"
    by (simp add: tenants_ok_def apps_ok_def rates_ok_def rate_ok_def credentials_ok_def origins_ok_def demo_keyed_def demo_key_def
        demo_db_def demo_app_def)
  have k: "starts_with CREDENTIAL_PREFIX ''cd_old''" "cr_key_hash demo_key = hash_secret ''cd_old''"
    "cr_is_usable demo_key later" "cr_scope demo_key = Scope_Read" for later
    by (simp_all add: starts_with_def CREDENTIAL_PREFIX_def demo_key_def cr_is_usable_def)
  have "(2000 :: int) < 1000 + hours 24" by code_simp
  with credential_rotation_overlaps [OF ok r old k(2,1) app, of 2000]
    credential_rotation_overlaps [OF ok r old k(2,1) app, of "1000 + hours 24"] k r
  show ?thesis by auto
qed

theorem deleted_application_is_locked_out_witness:
  "\<exists>t. delete_application demo_cfg demo_app ''acme'' True 9000 demo_ready = Inr (1, t)
    \<and> reachable demo_cfg t \<and> live_domains t (Some demo_app) = 0
    \<and> ''acme'' \<notin> app_slug ` set (applications t)"
proof -
  let ?r = "delete_application demo_cfg demo_app ''acme'' True 9000 demo_ready"
  have "let s = demo_ready; r = delete_application demo_cfg demo_app ''acme'' True 9000 s in
      isl r = False \<and> fst (projr r) = 1 \<and> tenants_ok s" by code_simp
  note facts = this [unfolded Let_def]
  note ok = conjunct2 [OF conjunct2 [OF facts]]
  from facts obtain t where r: "?r = Inr (1, t)" by (cases ?r) auto
  have slug: "slug_re (app_slug demo_app)" "app_slug demo_app = ''acme''" by code_simp+
  have row: "application_row demo_ready (app_id demo_app) = Some demo_app" by code_simp
  from deleted_application_is_locked_out [OF demo_reachable(2) ok slug(1) row r] r slug(2) show ?thesis
    by (intro exI [of _ t]) simp
qed

text \<open>Python's \<open>$\<close> lets a final newline through.\<close>

lemma slug_with_newline: "slug_re (''acme'' @ [CHR 0x0A])"
  by code_simp

end
