(* ===== verification/Api.thy ===== *)
theory Api
  imports Applications
begin

text \<open>
  The v1 API (src/app/v1): who is calling (deps.py) with the two limiters in the process's memory
  (throttle.py), idempotency keys (src/app/services/idempotency.py), the domain endpoints
  (router.py) and the status of an error (errors.py). The theorems: a create with an
  idempotency key happens once, the request budget of a credential holds over every minute, and
  only usable credentials pass.
\<close>

section \<open>Idempotency keys\<close>

definition IDEMPOTENCY_TTL :: duration where "IDEMPOTENCY_TTL = hours 24"
definition MAX_KEY_LENGTH :: nat where "MAX_KEY_LENGTH = 255"

definition fingerprint :: "(instant \<Rightarrow> string) \<Rightarrow> json \<Rightarrow> string" where
  "fingerprint fmt payload = hexdigest (sha256 (utf8_encode (json_dumps fmt payload)))"

definition key_row :: "db \<Rightarrow> uuid \<Rightarrow> string \<Rightarrow> idempotency_key option" where
  "key_row s i key = find (\<lambda>k. ik_application_id k = i \<and> ik_key k = key) (idempotency_keys s)"

definition put_key :: "uuid \<Rightarrow> string \<Rightarrow> (idempotency_key \<Rightarrow> idempotency_key) \<Rightarrow> db \<Rightarrow> db" where
  "put_key i key f s = s\<lparr>idempotency_keys := map (\<lambda>k. if ik_application_id k = i \<and> ik_key k = key then f k else k)
     (idempotency_keys s)\<rparr>"

definition begin_request ::
    "application \<Rightarrow> string \<Rightarrow> string \<Rightarrow> instant \<Rightarrow> db \<Rightarrow> error + (idempotency_key \<times> bool) \<times> db" where
  "begin_request a key request_hash now s =
     (if key = [] \<or> length key > MAX_KEY_LENGTH
      then Inl (ServiceError ''Idempotency key must be 1-255 characters'')
      else let record = \<lparr>ik_application_id = app_id a, ik_key = key, ik_request_hash = request_hash,
          ik_domain_id = None, ik_created_at = now, ik_expires_at = now + IDEMPOTENCY_TTL\<rparr>
        in case key_row s (app_id a) key of
             None \<Rightarrow> Inr ((record, True), s\<lparr>idempotency_keys := idempotency_keys s @ [record]\<rparr>)
           | Some existing \<Rightarrow>
             if ik_expires_at existing \<le> now
             then Inr ((record, True), put_key (app_id a) key (\<lambda>k. k\<lparr>ik_request_hash := request_hash,
               ik_domain_id := None, ik_created_at := now, ik_expires_at := now + IDEMPOTENCY_TTL\<rparr>) s)
             else Inr ((existing, False), s))"

definition complete :: "application \<Rightarrow> string \<Rightarrow> uuid \<Rightarrow> db \<Rightarrow> db" where
  "complete a key i s = put_key (app_id a) key (\<lambda>k. k\<lparr>ik_domain_id := Some i\<rparr>) s"

definition purge_expired :: "instant \<Rightarrow> db \<Rightarrow> nat \<times> db" where
  "purge_expired now s = (length (filter (\<lambda>k. ik_expires_at k \<le> now) (idempotency_keys s)),
     s\<lparr>idempotency_keys := filter (\<lambda>k. \<not> ik_expires_at k \<le> now) (idempotency_keys s)\<rparr>)"

section \<open>Throttles\<close>

text \<open>
  The clock of the limiters is \<open>time.monotonic()\<close>, here in microseconds. A limiter's memory
  is an association list from buckets to timestamps, in insertion order.
\<close>

definition WINDOW :: duration where "WINDOW = seconds 60"
definition MAX_TRACKED :: nat where "MAX_TRACKED = 50000"
definition PREFIX48_FACTOR :: nat where "PREFIX48_FACTOR = 10"

type_synonym stamps = "(string \<times> instant list) list"

definition stamps_of :: "stamps \<Rightarrow> string \<Rightarrow> instant list" where
  "stamps_of m k = (case map_of m k of None \<Rightarrow> [] | Some ts \<Rightarrow> ts)"

definition recent :: "instant \<Rightarrow> instant list \<Rightarrow> instant list" where
  "recent now ts = filter (\<lambda>t. now - t < WINDOW) ts"

text \<open>\<open>int(stamps[0] + window - now) + 1\<close>.\<close>

definition wait_for :: "instant \<Rightarrow> instant list \<Rightarrow> int" where
  "wait_for now ts = (hd ts + WINDOW - now) div 1000000 + 1"

text \<open>
  \<open>buckets(address)\<close> is the parser of addresses: the networks an address counts against with
  their factor.
\<close>

record auth_limiter =
  fl_max_failures :: nat
  fl_max_tracked :: nat
  fl_failures :: stamps

definition retry_after :: "(string \<Rightarrow> (string \<times> nat) list) \<Rightarrow> auth_limiter \<Rightarrow> string \<Rightarrow> instant \<Rightarrow> int" where
  "retry_after buckets L address now = (if fl_max_failures L = 0 then 0
     else foldl (\<lambda>wait (key, factor). let ts = recent now (stamps_of (fl_failures L) key) in
       if length ts \<ge> fl_max_failures L * factor then max wait (wait_for now ts) else wait) 0 (buckets address))"

definition evict :: "nat \<Rightarrow> stamps \<Rightarrow> stamps" where
  "evict n m = drop (length m - n) m"

definition record_failure :: "(string \<Rightarrow> (string \<times> nat) list) \<Rightarrow> auth_limiter \<Rightarrow> string \<Rightarrow> instant \<Rightarrow> auth_limiter" where
  "record_failure buckets L address now = (if fl_max_failures L = 0 then L
     else L\<lparr>fl_failures := foldl (\<lambda>m (key, factor). let limit = fl_max_failures L * factor;
         ts = recent now (stamps_of m key) @ [now]
       in evict (fl_max_tracked L) (filter (\<lambda>(k, _). k \<noteq> key) m @ [(key, drop (length ts - limit) ts)]))
       (fl_failures L) (buckets address)\<rparr>)"

record rate_limiter =
  rl_per_minute :: nat
  rl_seen :: "string \<Rightarrow> instant list"

definition rl_take :: "rate_limiter \<Rightarrow> string \<Rightarrow> instant \<Rightarrow> int \<times> rate_limiter" where
  "rl_take L c now = (if rl_per_minute L = 0 then (0, L)
     else let ts = recent now (rl_seen L c) in
       if length ts \<ge> rl_per_minute L
       then (wait_for now ts, L\<lparr>rl_seen := (rl_seen L)(c := ts)\<rparr>)
       else (0, L\<lparr>rl_seen := (rl_seen L)(c := ts @ [now])\<rparr>))"

section \<open>Who is calling\<close>

text \<open>The state of the API process: the database and the two limiters.\<close>

record api =
  api_db :: db
  api_auth :: auth_limiter
  api_rate :: rate_limiter

record request =
  rq_method :: string
  rq_client :: "string option"
    \<comment> \<open>\<open>limited_client(request)\<close>\<close>
  rq_authorization :: "(string \<times> string) option"
    \<comment> \<open>scheme and credentials of the Authorization header\<close>

definition READ_ONLY_METHODS :: "string list" where "READ_ONLY_METHODS = [''GET'', ''HEAD'']"

definition note_failure :: "(string \<Rightarrow> (string \<times> nat) list) \<Rightarrow> request \<Rightarrow> instant \<Rightarrow> api \<Rightarrow> api" where
  "note_failure buckets r clock x = (case rq_client r of
     None \<Rightarrow> x | Some c \<Rightarrow> x\<lparr>api_auth := record_failure buckets (api_auth x) c clock\<rparr>)"

definition current_application ::
    "(string \<Rightarrow> (string \<times> nat) list) \<Rightarrow> request \<Rightarrow> instant \<Rightarrow> instant \<Rightarrow> api \<Rightarrow> api \<times> (error + application)" where
  "current_application buckets r now clock x = (let
     wait = (case rq_client r of None \<Rightarrow> 0 | Some c \<Rightarrow> retry_after buckets (api_auth x) c clock)
   in if wait \<noteq> 0
      then (x, Inl (rate_limited ''Too many requests with an invalid credential from this address; retry later'' wait))
      else case rq_authorization r of
        None \<Rightarrow> (note_failure buckets r clock x, Inl Unauthorized)
      | Some (scheme, secret) \<Rightarrow>
        if lower scheme \<noteq> ''bearer'' then (note_failure buckets r clock x, Inl Unauthorized)
        else (case authenticate_credential (Some secret) now (api_db x) of
            Inl (InvalidCredential _) \<Rightarrow> (note_failure buckets r clock x, Inl Unauthorized)
          | Inl e \<Rightarrow> (x, Inl e)
          | Inr (c, s1) \<Rightarrow>
            let (wait, rate) = rl_take (api_rate x) (uuid_str (cr_id c)) clock;
                x1 = x\<lparr>api_db := s1, api_rate := rate\<rparr>
            in if wait \<noteq> 0
               then (x1, Inl (rate_limited (''More than '' @ str_of_nat (rl_per_minute rate)
                 @ '' requests a minute with this credential; retry later'') wait))
               else if cr_scope c \<noteq> Scope_Full \<and> rq_method r \<notin> set READ_ONLY_METHODS
               then (x1, Inl (CredentialReadOnly ''This credential is read-only; it can only make GET and HEAD requests''
                 [(''scope'', JStr (scope_value (cr_scope c))), (''method'', JStr (rq_method r))]))
               else (case application_row s1 (cr_application_id c) of
                   None \<Rightarrow> (x1, Inl (AttributeError ''slug'')) | Some a \<Rightarrow> (x1, Inr a))))"

section \<open>The domain endpoints\<close>

record domain_create =
  dc_hostname :: string
  dc_reference :: string
  dc_metadata :: "dict option"

definition payload_json :: "domain_create \<Rightarrow> json" where
  "payload_json p = JObj [(''hostname'', JStr (dc_hostname p)), (''reference'', JStr (dc_reference p)),
     (''metadata'', jopt JObj (dc_metadata p))]"

text \<open>
  A response is the status with the resource. An endpoint returns the committed state with the
  error or the response; what raises before the commit leaves the state as it was.
\<close>

definition respond :: "config \<Rightarrow> int \<Rightarrow> uuid \<Rightarrow> db \<Rightarrow> (int \<times> json) phase" where
  "respond C status i s = (case domain_row s i of
     None \<Rightarrow> (s, Inl StaleDataError)
   | Some d \<Rightarrow> (s, bind_res (domain_resource C s d) (\<lambda>r. Inr (status, r))))"

definition replay_request :: "config \<Rightarrow> application \<Rightarrow> idempotency_key \<Rightarrow> string \<Rightarrow> db \<Rightarrow> (int \<times> json) phase" where
  "replay_request C a record request_hash s =
     (if ik_request_hash record \<noteq> request_hash
      then (s, Inl (IdempotencyKeyReused ''Idempotency-Key was already used with a different request body''))
      else case ik_domain_id record of
        None \<Rightarrow> (s, Inl (IdempotencyInProgress ''A request with this Idempotency-Key is still being processed''))
      | Some i \<Rightarrow> (case get_domain s a i True of
          Inl e \<Rightarrow> (s, Inl e)
        | Inr d \<Rightarrow> (s, bind_res (domain_resource C s d) (\<lambda>r. Inr (200, r)))))"

definition register_domain ::
    "config \<Rightarrow> application \<Rightarrow> domain_create \<Rightarrow> string option \<Rightarrow> instant \<Rightarrow> db \<Rightarrow> db \<Rightarrow> (int \<times> json) phase" where
  "register_domain C a p key now s0 s =
     (case claim_domain C a (dc_hostname p) (dc_reference p) (dc_metadata p) now s of
        Inl e \<Rightarrow> (s0, Inl e)
      | Inr (i, s1) \<Rightarrow> respond C 201 i (case key of None \<Rightarrow> s1 | Some k \<Rightarrow> complete a k i s1))"

definition api_create_domain ::
    "config \<Rightarrow> (instant \<Rightarrow> string) \<Rightarrow> application \<Rightarrow> domain_create \<Rightarrow> string option \<Rightarrow> instant \<Rightarrow> db \<Rightarrow> (int \<times> json) phase" where
  "api_create_domain C fmt a p idempotency_key now s = (let
     key = (case idempotency_key of None \<Rightarrow> None | Some k \<Rightarrow> if k = [] then None else Some k)
   in case key of
        None \<Rightarrow> register_domain C a p None now s s
      | Some k \<Rightarrow> (let request_hash = fingerprint fmt (payload_json p) in
          case begin_request a k request_hash now s of
            Inl e \<Rightarrow> (s, Inl e)
          | Inr ((record, created), s1) \<Rightarrow>
            if \<not> created then replay_request C a record request_hash s1
            else register_domain C a p (Some k) now s s1))"

fun res_map :: "('a \<Rightarrow> 'e + 'b) \<Rightarrow> 'a list \<Rightarrow> 'e + 'b list" where
  "res_map f [] = Inr []"
| "res_map f (x # xs) = bind_res (f x) (\<lambda>y. bind_res (res_map f xs) (\<lambda>ys. Inr (y # ys)))"

definition api_list_domains ::
    "config \<Rightarrow> application \<Rightarrow> string option \<Rightarrow> domain_status option \<Rightarrow> bool \<Rightarrow> int \<Rightarrow> int \<Rightarrow> db
      \<Rightarrow> error + json list \<times> int option" where
  "api_list_domains C a reference status include_deleted limit offset s = (let
     (rows, has_more) = page_domains s a reference status include_deleted None limit offset
   in bind_res (res_map (domain_resource C s) rows) (\<lambda>items.
        Inr (items, if has_more then Some (offset + limit) else None)))"

definition api_get_domain :: "config \<Rightarrow> application \<Rightarrow> uuid \<Rightarrow> bool \<Rightarrow> db \<Rightarrow> error + json" where
  "api_get_domain C a i include_deleted s = bind_res (get_domain s a i include_deleted) (domain_resource C s)"

definition api_request_recheck :: "config \<Rightarrow> application \<Rightarrow> uuid \<Rightarrow> instant \<Rightarrow> db \<Rightarrow> (int \<times> json) phase" where
  "api_request_recheck C a i now s = (case request_recheck C a i ''api'' now s of
     Inl e \<Rightarrow> (s, Inl e) | Inr s1 \<Rightarrow> respond C 202 i s1)"

definition api_delete_domain :: "config \<Rightarrow> application \<Rightarrow> uuid \<Rightarrow> instant \<Rightarrow> db \<Rightarrow> (int \<times> json) phase" where
  "api_delete_domain C a i now s = (case delete_domain C a i now s of
     Inl e \<Rightarrow> (s, Inl e) | Inr s1 \<Rightarrow> respond C 202 i s1)"

fun status_for :: "error \<Rightarrow> int" where
  "status_for (InvalidCredential _) = 401"
| "status_for ApplicationSuspended = 403"
| "status_for (CredentialReadOnly _ _) = 403"
| "status_for DomainNotFound = 404"
| "status_for (HostnameAlreadyClaimed _) = 409"
| "status_for (DomainLimitReached _ _) = 409"
| "status_for (InvalidStatusTransition _) = 409"
| "status_for (IdempotencyInProgress _) = 409"
| "status_for (IdempotencyKeyReused _) = 422"
| "status_for (InvalidReference _) = 422"
| "status_for (RateLimited _ _) = 429"
| "status_for (DomainConnectUnavailable _ _) = 409"
| "status_for (DomainConnectSignerUnavailable _ _) = 503"
| "status_for (InvalidConnectRequest _ _) = 422"
| "status_for (ConnectPageUnavailable _) = 409"
| "status_for (ConnectSessionNotFound _) = 404"
| "status_for WebhookNotFound = 404"
| "status_for DeliveryNotFound = 404"
| "status_for (InvalidWebhook _) = 422"
| "status_for (ApplicationNotFound _) = 404"
| "status_for (ApplicationAlreadyExists _) = 409"
| "status_for (ApplicationNotEmpty _ _) = 409"
| "status_for (InvalidApplication _) = 422"
| "status_for (ConfirmationMismatch _) = 422"
| "status_for CredentialNotFound = 404"
| "status_for (OriginNotFound _) = 404"
| "status_for (AssertionKeyNotFound _) = 404"
| "status_for (InvalidAssertionKey _) = 422"
| "status_for (CredentialInUse _) = 409"
| "status_for (InvalidOrigin _) = 422"
| "status_for (OriginConflict _) = 409"
| "status_for (OriginNotVerified _) = 409"
| "status_for (OriginInUse _) = 409"
| "status_for (InvalidSignerConfig _ _) = 422"
| "status_for (SecretKeyMissing _) = 503"
| "status_for _ = 400"

section \<open>Creating a domain once\<close>

lemma record_event_keys: "record_event C i et payload now s = Inr t \<Longrightarrow> idempotency_keys t = idempotency_keys s"
  by (erule record_event_effect) simp

lemma claim_domain_keys:
  assumes "claim_domain C a hostname reference metadata now s = Inr (i, t)"
  shows "idempotency_keys t = idempotency_keys s"
proof (rule claim_domainE [OF assms])
  fix canonical d u
  assume 1: "record_event C i DOMAIN_CREATED (Some [(''hostname'', JStr canonical), (''reference'', JStr (d_reference d))])
       now (with_domain d s) = Inr u" and 2: "issue_claim C i (app_cname_target a) now u = Inr t"
  from 2 have "idempotency_keys t = idempotency_keys u"
    by (auto simp: issue_claim_def token_urlsafe_def uuid4_def Let_def split: option.splits if_splits dest!: record_event_keys)
  with record_event_keys [OF 1] show ?thesis by (simp add: with_domain_def)
qed

lemma key_row_put_key:
  assumes "\<And>k. ik_application_id (f k) = ik_application_id k" and "\<And>k. ik_key (f k) = ik_key k"
  shows "key_row (put_key i key f s) i key = map_option f (key_row s i key)"
proof -
  have "find (\<lambda>k. ik_application_id k = i \<and> ik_key k = key)
      (map (\<lambda>k. if ik_application_id k = i \<and> ik_key k = key then f k else k) ks)
    = map_option f (find (\<lambda>k. ik_application_id k = i \<and> ik_key k = key) ks)" for ks
    by (induction ks) (auto simp: assms)
  then show ?thesis by (simp add: key_row_def put_key_def)
qed

lemma find_append_None: "find P xs = None \<Longrightarrow> find P (xs @ ys) = find P ys"
  by (induction xs) (auto split: if_splits)

lemma begin_created:
  assumes "begin_request a key h now s = Inr ((kr, True), t)"
  shows "\<exists>r. key_row t (app_id a) key = Some r \<and> ik_request_hash r = h \<and> ik_expires_at r = now + IDEMPOTENCY_TTL"
proof (cases "key_row s (app_id a) key")
  case None
  with assms show ?thesis
    by (auto simp: begin_request_def Let_def key_row_def find_append_None split: if_splits)
next
  case (Some r)
  with assms have "t = put_key (app_id a) key (\<lambda>k. k\<lparr>ik_request_hash := h,
      ik_domain_id := None, ik_created_at := now, ik_expires_at := now + IDEMPOTENCY_TTL\<rparr>) s"
    by (auto simp: begin_request_def Let_def split: if_splits)
  with Some show ?thesis by (simp add: key_row_put_key)
qed

lemma respond_state: "fst (respond C status i s) = s"
  by (simp add: respond_def split: option.splits)

lemma api_createE:
  assumes "api_create_domain C fmt a p (Some k) now s = (t, Inr (201, r))" and "k \<noteq> []"
  obtains i s1 s2 kr where "begin_request a k (fingerprint fmt (payload_json p)) now s = Inr ((kr, True), s1)"
    and "claim_domain C a (dc_hostname p) (dc_reference p) (dc_metadata p) now s1 = Inr (i, s2)"
    and "t = complete a k i s2"
proof -
  have replay: "snd (replay_request C a kr h s1) \<noteq> Inr (201, r)" for kr h s1
    by (auto simp: replay_request_def bind_res_eq_Inr split: option.splits sum.splits)
  from assms obtain kr s1 where 1: "begin_request a k (fingerprint fmt (payload_json p)) now s = Inr ((kr, True), s1)"
    and 2: "register_domain C a p (Some k) now s s1 = (t, Inr (201, r))"
    using replay
    by (auto simp: api_create_domain_def Let_def split: sum.splits if_splits prod.splits) (metis snd_conv)+
  from 2 obtain i s2 where "claim_domain C a (dc_hostname p) (dc_reference p) (dc_metadata p) now s1 = Inr (i, s2)"
    and "respond C 201 i (complete a k i s2) = (t, Inr (201, r))"
    by (auto simp: register_domain_def split: sum.splits prod.splits)
  with 1 that respond_state show thesis by (metis fst_conv)
qed

lemma begin_repeat:
  assumes "key_row s (app_id a) k = Some r" and "now < ik_expires_at r" and "k \<noteq> []" and "length k \<le> MAX_KEY_LENGTH"
  shows "begin_request a k h now s = Inr ((r, False), s)"
  using assms by (simp add: begin_request_def Let_def)

lemma get_domain_intro:
  assumes "domain_row s i = Some d" and "d_application_id d = app_id a"
  shows "get_domain s a i True = Inr d"
proof -
  have "find (\<lambda>x. d_id x = i) ds = Some d \<Longrightarrow> find (\<lambda>x. d_id x = i \<and> d_application_id x = app_id a) ds = Some d" for ds
    using assms(2) by (induction ds) (auto split: if_splits)
  with assms(1) show ?thesis by (simp add: get_domain_def domain_query_def domain_row_def find_row_def)
qed

text \<open>
  C34: creating a domain with an idempotency key happens once. After a create that answered 201,
  and as long as the key's record is still there and its 24 hours have not passed, repeating
  the request answers 200 with the same domain and changes nothing, and the same key with a
  body of another fingerprint is refused and changes nothing, whatever else happened to the
  database in between.
\<close>

theorem create_is_idempotent:
  assumes "reachable C s" and "api_create_domain C fmt a p (Some k) t0 s = (s1, Inr (201, r))" and "k \<noteq> []"
    and "key_row s2 (app_id a) k = key_row s1 (app_id a) k" and "t1 < t0 + IDEMPOTENCY_TTL"
  shows "\<exists>i. domain_row s i = None \<and> (\<exists>d. get_domain s1 a i True = Inr d)
    \<and> (\<forall>d. get_domain s2 a i True = Inr d \<longrightarrow>
         api_create_domain C fmt a p (Some k) t1 s2 = (s2, bind_res (domain_resource C s2 d) (\<lambda>r. Inr (200, r))))
    \<and> (\<forall>p'. fingerprint fmt (payload_json p') \<noteq> fingerprint fmt (payload_json p) \<longrightarrow>
         api_create_domain C fmt a p' (Some k) t1 s2
           = (s2, Inl (IdempotencyKeyReused ''Idempotency-Key was already used with a different request body'')))"
proof -
  let ?h = "fingerprint fmt (payload_json p)"
  obtain i b c kr where b: "begin_request a k ?h t0 s = Inr ((kr, True), b)"
    and c: "claim_domain C a (dc_hostname p) (dc_reference p) (dc_metadata p) t0 b = Inr (i, c)"
    and s1: "s1 = complete a k i c" by (rule api_createE [OF assms(2,3)])
  have len: "length k \<le> MAX_KEY_LENGTH" using b by (auto simp: begin_request_def split: if_splits)
  obtain r0 where r0: "key_row b (app_id a) k = Some r0" "ik_request_hash r0 = ?h" "ik_expires_at r0 = t0 + IDEMPOTENCY_TTL"
    using begin_created [OF b] by blast
  let ?rk = "r0\<lparr>ik_domain_id := Some i\<rparr>"
  have "key_row c (app_id a) k = Some r0" using r0(1) claim_domain_keys [OF c] by (simp add: key_row_def)
  then have row: "key_row s2 (app_id a) k = Some ?rk"
    unfolding assms(4) s1 complete_def by (simp add: key_row_put_key)
  have rk: "ik_request_hash ?rk = ?h" "ik_expires_at ?rk = t0 + IDEMPOTENCY_TTL" "ik_domain_id ?rk = Some i"
    using r0 by simp_all
  have again: "begin_request a k h t1 s2 = Inr ((?rk, False), s2)" for h
    by (rule begin_repeat [OF row _ assms(3) len]) (simp add: r0(3) assms(5))
  have same: "domains b = domains s" "claims b = claims s" "checks b = checks s" "events b = events s" "draws b = draws s"
    using b by (auto simp: begin_request_def Let_def put_key_def split: option.splits if_splits)
  have "lifecycle_step C s b" by (rule lifecycle_step.other) (simp_all add: same)
  then have ok: "tables_ok b" using reachable_db_inv [OF reachable_step [OF assms(1)]] by (simp add: db_inv_def)
  have "domain_row s i = None" using claim_domain_sound(4) [OF c ok] by (simp add: domain_row_def same)
  moreover obtain d where "domain_row c i = Some d" "d_application_id d = app_id a"
    using claim_domain_sound(5) [OF c ok] by auto
  then have "get_domain s1 a i True = Inr d"
    by (intro get_domain_intro) (simp_all add: s1 complete_def put_key_def domain_row_def)
  ultimately show ?thesis
    using assms(3) by (intro exI [of _ i]) (simp add: api_create_domain_def again replay_request_def r0(2))
qed

section \<open>The request budget of a credential\<close>

text \<open>Serving a sequence of requests: the times at which requests of \<open>c\<close> were admitted.\<close>

definition serve :: "string \<Rightarrow> rate_limiter \<Rightarrow> (string \<times> instant) list \<Rightarrow> instant list \<times> rate_limiter" where
  "serve c L rs = foldl (\<lambda>(admitted, L) (c', now). let (wait, L') = rl_take L c' now in
     (if wait = 0 \<and> c' = c then admitted @ [now] else admitted, L')) ([], L) rs"

definition in_any_window :: "instant list \<Rightarrow> nat \<Rightarrow> bool" where
  "in_any_window us n = (\<forall>t. length (filter (\<lambda>u. t \<le> u \<and> u < t + WINDOW) us) \<le> n)"

lemma serve_Nil [simp]: "serve c L [] = ([], L)"
  by (simp add: serve_def)

lemma serve_snoc:
  "serve c L (rs @ [(c', now)]) = (let (admitted, L1) = serve c L rs; (wait, L2) = rl_take L1 c' now
     in (if wait = 0 \<and> c' = c then admitted @ [now] else admitted, L2))"
  by (simp add: serve_def case_prod_beta Let_def)

lemma wait_positive:
  assumes "t \<in> set (recent now ts)" and "sorted ts"
  shows "0 < wait_for now (recent now ts)"
proof -
  have "recent now ts \<noteq> []" using assms(1) by auto
  then have "hd (recent now ts) \<in> set (recent now ts)" by simp
  then show ?thesis by (auto simp: recent_def wait_for_def)
qed

lemma recent_recent: "now \<le> now' \<Longrightarrow> recent now' (recent now ts) = recent now' ts"
  by (auto simp: recent_def intro!: filter_cong)

lemma recent_length: "length (recent now ts) \<le> length ts"
  by (simp add: recent_def)

text \<open>
  What the limiter remembers of a credential: its admissions within the window, at most
  \<open>per_minute\<close> of them.
\<close>

lemma serve_invariant:
  assumes "sorted (map snd rs)" and "rl_seen L c = []" and "0 < rl_per_minute L"
    and "serve c L rs = (admitted, L')"
  shows "rl_per_minute L' = rl_per_minute L \<and> sorted admitted \<and> set admitted \<subseteq> snd ` set rs
    \<and> (\<forall>now. (\<forall>r\<in>set rs. snd r \<le> now) \<longrightarrow> recent now (rl_seen L' c) = recent now admitted)
    \<and> length (rl_seen L' c) \<le> rl_per_minute L \<and> in_any_window admitted (rl_per_minute L)"
  using assms
proof (induction rs arbitrary: admitted L' rule: rev_induct)
  case Nil
  then show ?case by (simp add: in_any_window_def)
next
  case (snoc r rs)
  obtain c' now where r: "r = (c', now)" by fastforce
  obtain adm L1 where s1: "serve c L rs = (adm, L1)" by fastforce
  have le: "\<forall>x\<in>set rs. snd x \<le> now" and srt: "sorted (map snd rs)"
    using snoc.prems(1) by (auto simp: r sorted_append)
  note IH = snoc.IH [OF srt snoc.prems(2,3) s1]
  let ?n = "rl_per_minute L" and ?ts = "recent now (rl_seen L1 c')"
  have res: "(admitted, L') = (if length ?ts \<ge> ?n then (if wait_for now ?ts = 0 \<and> c' = c then adm @ [now] else adm, L1\<lparr>rl_seen := (rl_seen L1)(c' := ?ts)\<rparr>)
      else (if c' = c then adm @ [now] else adm, L1\<lparr>rl_seen := (rl_seen L1)(c' := ?ts @ [now])\<rparr>))"
    using snoc.prems(3,4) IH unfolding r serve_snoc s1
    by (auto simp: rl_take_def Let_def)
  show ?case
  proof (cases "c' = c")
    case False
    with res IH le show ?thesis by (auto simp: r split: if_splits)
  next
    case c: True
    have ts: "?ts = recent now adm" using IH le c by blast
    have adm_le: "\<forall>u\<in>set adm. u \<le> now" using IH le by fastforce
    show ?thesis
    proof (cases "?n \<le> length ?ts")
      case True
      then have "?ts \<noteq> []" using snoc.prems(3) by auto
      then have "wait_for now ?ts \<noteq> 0"
        using wait_positive [of "hd ?ts" now adm] IH by (simp add: ts)
      with res c True have "admitted = adm" "L' = L1\<lparr>rl_seen := (rl_seen L1)(c := ?ts)\<rparr>" by auto
      moreover have "length ?ts \<le> rl_per_minute L" using IH recent_length [of now "rl_seen L1 c"] c by simp
      ultimately show ?thesis using IH ts c by (auto simp: r recent_recent)
    next
      case no: False
      with res c have eq: "admitted = adm @ [now]" "L' = L1\<lparr>rl_seen := (rl_seen L1)(c := ?ts @ [now])\<rparr>" by auto
      have "length (filter (\<lambda>u. t \<le> u \<and> u < t + WINDOW) (adm @ [now])) \<le> ?n" for t
      proof (cases "t \<le> now \<and> now < t + WINDOW")
        case True
        have "length (filter (\<lambda>u. t \<le> u \<and> u < t + WINDOW) adm) \<le> length (recent now adm)"
          unfolding recent_def by (rule length_filter_mono) (use True adm_le in auto)
        with no ts True show ?thesis by simp
      next
        case False
        with IH show ?thesis by (auto simp: in_any_window_def)
      qed
      moreover have "recent now' (?ts @ [now]) = recent now' (adm @ [now])" if "now \<le> now'" for now'
      proof -
        have "recent now' ?ts = recent now' adm" unfolding ts by (rule recent_recent [OF that])
        then show ?thesis by (simp add: recent_def)
      qed
      ultimately show ?thesis
        using IH eq no c adm_le by (auto simp: r in_any_window_def sorted_append)
    qed
  qed
qed

text \<open>
  C35: the request budget of a credential holds over every minute. Whatever requests of any
  credentials arrive, in every window of 60 seconds at most \<open>per_minute\<close> requests of a
  credential are admitted; and after a refusal, waiting as long as the answer says is enough
  for the next request to be admitted.
\<close>

theorem credential_budget_over_every_minute:
  assumes "sorted (map snd rs)" and "rl_seen L c = []" and "0 < rl_per_minute L"
    and "serve c L rs = (admitted, L')"
  shows "(\<forall>t. length (filter (\<lambda>u. t \<le> u \<and> u < t + WINDOW) admitted) \<le> rl_per_minute L)
    \<and> (\<forall>now wait L''. rl_take L' c now = (wait, L'') \<and> wait \<noteq> 0 \<longrightarrow>
        fst (rl_take L'' c (now + wait * 1000000)) = 0)"
proof (intro conjI allI impI)
  note inv = serve_invariant [OF assms]
  then show "length (filter (\<lambda>u. t \<le> u \<and> u < t + WINDOW) admitted) \<le> rl_per_minute L" for t
    by (simp add: in_any_window_def)
  fix now wait L''
  assume a: "rl_take L' c now = (wait, L'') \<and> wait \<noteq> 0"
  let ?ts = "recent now (rl_seen L' c)" and ?now = "now + wait * 1000000"
  have len: "rl_per_minute L \<le> length ?ts" and L'': "L'' = L'\<lparr>rl_seen := (rl_seen L')(c := ?ts)\<rparr>" and w: "wait = wait_for now ?ts"
    using a inv assms(3) by (auto simp: rl_take_def Let_def split: if_splits)
  obtain t us where ts: "?ts = t # us" using len assms(3) by (cases ?ts) auto
  have "length (t # us) \<le> rl_per_minute L"
    using inv recent_length [of now "rl_seen L' c"] unfolding ts by simp
  moreover have "\<not> ?now - t < WINDOW"
  proof -
    have "t + WINDOW - now < (wait) * 1000000" unfolding w ts wait_for_def by (simp add: field_simps)
    then show ?thesis by simp
  qed
  then have "recent ?now ?ts = recent ?now us" unfolding ts by (simp add: recent_def)
  moreover have "length (recent ?now us) \<le> length us" by (rule recent_length)
  ultimately show "fst (rl_take L'' c ?now) = 0"
    using inv by (simp add: rl_take_def L'' Let_def)
qed

definition demo_limiter :: rate_limiter where
  "demo_limiter = \<lparr>rl_per_minute = 2, rl_seen = (\<lambda>_. [])\<rparr>"

theorem credential_budget_over_every_minute_witness:
  "\<exists>admitted L'. serve ''7'' demo_limiter [(''7'', 0), (''9'', 5), (''7'', 10), (''7'', 20)] = (admitted, L')
    \<and> admitted = [0, 10] \<and> length (filter (\<lambda>u. 0 \<le> u \<and> u < 0 + WINDOW) admitted) \<le> 2
    \<and> fst (rl_take (snd (rl_take L' ''7'' 30)) ''7'' (30 + fst (rl_take L' ''7'' 30) * 1000000)) = 0"
proof -
  let ?rs = "[(''7'', 0), (''9'', 5), (''7'', 10), (''7'', 20)] :: (string \<times> instant) list"
  obtain admitted L' where s: "serve ''7'' demo_limiter ?rs = (admitted, L')" by fastforce
  have adm: "fst (serve ''7'' demo_limiter ?rs) = [0, 10]" "fst (rl_take (snd (serve ''7'' demo_limiter ?rs)) ''7'' 30) = 60"
    by code_simp+
  have L: "sorted (map snd ?rs)" "rl_seen demo_limiter ''7'' = []" "0 < rl_per_minute demo_limiter" by (simp_all add: demo_limiter_def)
  obtain wait L'' where t: "rl_take L' ''7'' 30 = (wait, L'')" by fastforce
  from credential_budget_over_every_minute [OF L s] have
    "length (filter (\<lambda>u. 0 \<le> u \<and> u < 0 + WINDOW) admitted) \<le> rl_per_minute demo_limiter"
    "wait \<noteq> 0 \<Longrightarrow> fst (rl_take L'' ''7'' (30 + wait * 1000000)) = 0" using t by blast+
  with s adm t show ?thesis by (simp add: demo_limiter_def)
qed

section \<open>The gate of the API\<close>

text \<open>
  C36: every request is scoped by a usable credential. If the dependency admits a request, its
  client is not throttled, its bearer secret hashes to a credential that is neither revoked
  nor expired, the application returned is the one that credential belongs to and is active,
  and a credential that is not of full scope is only ever used to read.
\<close>

theorem only_usable_credentials_pass:
  assumes "current_application buckets r now clock x = (x', Inr a)"
  shows "\<exists>scheme secret c. rq_authorization r = Some (scheme, secret) \<and> lower scheme = ''bearer''
    \<and> c \<in> set (credentials (api_db x)) \<and> cr_key_hash c = hash_secret secret \<and> cr_is_usable c now
    \<and> a \<in> set (applications (api_db x)) \<and> app_id a = cr_application_id c \<and> app_status a = App_Active
    \<and> (cr_scope c = Scope_Full \<or> rq_method r \<in> {''GET'', ''HEAD''})
    \<and> (\<forall>client. rq_client r = Some client \<longrightarrow> retry_after buckets (api_auth x) client clock = 0)"
proof -
  from assms obtain scheme secret c s1 where au: "rq_authorization r = Some (scheme, secret)" "lower scheme = ''bearer''"
    and auth: "authenticate_credential (Some secret) now (api_db x) = Inr (c, s1)"
    and scope: "cr_scope c = Scope_Full \<or> rq_method r \<in> set READ_ONLY_METHODS"
    and app: "application_row s1 (cr_application_id c) = Some a"
    and wait: "(case rq_client r of None \<Rightarrow> 0 | Some c \<Rightarrow> retry_after buckets (api_auth x) c clock) = 0"
    unfolding current_application_def Let_def
    by (auto split: if_splits option.splits sum.splits error.splits prod.splits)
  from auth obtain c0 row where c0: "find (\<lambda>c. cr_key_hash c = hash_secret secret) (credentials (api_db x)) = Some c0"
    "cr_is_usable c0 now" "application_row (api_db x) (cr_application_id c0) = Some row" "app_status row = App_Active"
    "c = c0\<lparr>cr_last_used_at := Some now\<rparr>" "applications s1 = applications (api_db x)"
    unfolding authenticate_credential_def Let_def by (auto split: if_splits option.splits)
  have "a = row" using app c0 by (simp add: application_row_def)
  moreover have "row \<in> set (applications (api_db x))" "app_id row = cr_application_id c0"
    using c0(3) by (auto simp: application_row_def dest: find_row_Some)
  moreover have "c0 \<in> set (credentials (api_db x))" "cr_key_hash c0 = hash_secret secret"
    using find_SomeD [OF c0(1)] by auto
  ultimately show ?thesis
    using au c0 scope wait by (intro exI [of _ scheme] exI [of _ secret] exI [of _ c0]) (auto simp: READ_ONLY_METHODS_def)
qed

definition demo_api :: api where
  "demo_api = \<lparr>api_db = demo_keyed, api_auth = \<lparr>fl_max_failures = 30, fl_max_tracked = 50000, fl_failures = []\<rparr>,
     api_rate = \<lparr>rl_per_minute = 0, rl_seen = (\<lambda>_. [])\<rparr>\<rparr>"

definition demo_request :: request where
  "demo_request = \<lparr>rq_method = ''GET'', rq_client = None, rq_authorization = Some (''Bearer'', ''cd_old'')\<rparr>"

theorem only_usable_credentials_pass_witness:
  "\<exists>x' a. current_application (\<lambda>c. [(c, 1)]) demo_request 2000 0 demo_api = (x', Inr a) \<and> app_status a = App_Active
    \<and> (\<exists>e. snd (current_application (\<lambda>c. [(c, 1)]) (demo_request\<lparr>rq_method := ''POST''\<rparr>) 2000 0 demo_api) = Inl e)"
proof -
  have b: "lower ''Bearer'' = ''bearer''" by code_simp
  have "\<exists>x'. current_application (\<lambda>c. [(c, 1)]) demo_request 2000 0 demo_api = (x', Inr demo_app)"
    "\<exists>e. snd (current_application (\<lambda>c. [(c, 1)]) (demo_request\<lparr>rq_method := ''POST''\<rparr>) 2000 0 demo_api) = Inl e"
    by (simp_all add: current_application_def demo_request_def demo_api_def b authenticate_credential_def
        CREDENTIAL_PREFIX_def starts_with_def demo_keyed_def demo_key_def cr_is_usable_def demo_db_def demo_app_def
        application_row_def Let_def rl_take_def READ_ONLY_METHODS_def)
  with only_usable_credentials_pass show ?thesis by meson
qed

section \<open>A request repeated\<close>

definition demo_payload :: domain_create where
  "demo_payload = \<lparr>dc_hostname = ''shop.example.com'', dc_reference = ''ws_2'', dc_metadata = None\<rparr>"

theorem create_is_idempotent_witness:
  "\<exists>s1 r i. api_create_domain demo_cfg demo_iso demo_app demo_payload (Some ''k'') 9000 demo_ready = (s1, Inr (201, r))
    \<and> domain_row demo_ready i = None \<and> (\<exists>d. get_domain s1 demo_app i True = Inr d)
    \<and> fst (api_create_domain demo_cfg demo_iso demo_app demo_payload (Some ''k'') 9500 s1) = s1"
proof -
  let ?c = "api_create_domain demo_cfg demo_iso demo_app demo_payload (Some ''k'') 9000 demo_ready"
  have "case snd ?c of Inr (status, _) \<Rightarrow> status = 201 | Inl _ \<Rightarrow> False" by code_simp
  then obtain s1 r where c: "?c = (s1, Inr (201, r))" by (cases ?c) (auto split: sum.splits)
  have "9500 < 9000 + IDEMPOTENCY_TTL" by code_simp
  from create_is_idempotent [OF demo_reachable(2) c _ refl this] obtain i d where
    i: "domain_row demo_ready i = None" "get_domain s1 demo_app i True = Inr d"
    and again: "api_create_domain demo_cfg demo_iso demo_app demo_payload (Some ''k'') 9500 s1
        = (s1, bind_res (domain_resource demo_cfg s1 d) (\<lambda>r. Inr (200, r)))" by blast
  from c i again show ?thesis by auto
qed

end
