(* ===== verification/Addresses.thy ===== *)
theory Addresses
  imports Api
begin

text \<open>
  Addresses and networks as \<open>ipaddress\<close> reads and writes them, and the client allowlists of
  \<open>EdgeSettings\<close> (src/app/edge/settings.py) that rest on them.
\<close>

section \<open>Addresses\<close>

datatype ip_address = IPv4 int | IPv6 int

fun ip_version :: "ip_address \<Rightarrow> int" where
  "ip_version (IPv4 _) = 4"
| "ip_version (IPv6 _) = 6"

fun ip_int :: "ip_address \<Rightarrow> int" where
  "ip_int (IPv4 n) = n"
| "ip_int (IPv6 n) = n"

definition hex_val :: "char \<Rightarrow> int" where
  "hex_val c = (if is_digit c then of_char c - 48 else of_char (lower_char c) - 87)"

definition hextet_int :: "string \<Rightarrow> int" where
  "hextet_int t = foldl (\<lambda>n c. 16 * n + hex_val c) 0 t"

definition ipv4_int :: "string \<Rightarrow> int" where
  "ipv4_int t = foldl (\<lambda>n p. 256 * n + int (nat_of_digits p)) 0 (split_on (CHR ''.'') t)"

text \<open>The eight groups of an address: those before the \<open>::\<close>, zeros, those after it.\<close>

definition ipv6_groups :: "string list \<Rightarrow> int list \<Rightarrow> int list" where
  "ipv6_groups parts values = (let n = length parts in
     case filter (\<lambda>i. parts ! i = []) [1..<n - 1] of
       [] \<Rightarrow> values
     | i # _ \<Rightarrow>
         (let hi = (if hd parts = [] then i - 1 else i);
              lo = (if last parts = [] then n - i - 2 else n - i - 1)
          in take hi values @ replicate (8 - hi - lo) 0 @ drop (n - lo) values))"

definition ipv6_int :: "string \<Rightarrow> int" where
  "ipv6_int t = (let parts = split_on (CHR '':'') (takeWhile (\<lambda>c. c \<noteq> CHR ''%'') t);
     v4 = (CHR ''.'' \<in> set (last parts));
     low = ipv4_int (last parts);
     names = (if v4 then butlast parts @ [''0'', ''0''] else parts);
     values = (if v4 then map hextet_int (butlast parts) @ [low div 65536, low mod 65536] else map hextet_int parts)
   in foldl (\<lambda>n g. 65536 * n + g) 0 (ipv6_groups names values))"

text \<open>\<open>ipaddress.ip_address(s)\<close>; \<open>None\<close> is its \<open>ValueError\<close>.\<close>

definition ip_address :: "string \<Rightarrow> ip_address option" where
  "ip_address s = (if is_ipv4 s then Some (IPv4 (ipv4_int s))
     else if is_ipv6 s then Some (IPv6 (ipv6_int s)) else None)"

section \<open>Networks\<close>

record ip_network =
  nw_address :: ip_address
  nw_scope :: string
  nw_prefix :: int

fun ip_bits :: "ip_address \<Rightarrow> int" where
  "ip_bits (IPv4 _) = 32"
| "ip_bits (IPv6 _) = 128"

definition prefix_from_string :: "int \<Rightarrow> string \<Rightarrow> int option" where
  "prefix_from_string bits m = (if m \<noteq> [] \<and> list_all is_digit m \<and> length m \<le> 4300 \<and> int (nat_of_digits m) \<le> bits
     then Some (int (nat_of_digits m)) else None)"

text \<open>\<open>_prefix_from_ip_string\<close>: a netmask such as \<open>255.255.0.0\<close>, else a hostmask such as \<open>0.0.255.255\<close>.\<close>

definition prefix_from_mask :: "string \<Rightarrow> int option" where
  "prefix_from_mask m = (if \<not> is_ipv4 m then None
     else let netmask = (\<lambda>v. find (\<lambda>p. v = 4294967296 - 2 ^ nat (32 - p)) [0..32]) in
       case netmask (ipv4_int m) of
         Some p \<Rightarrow> Some p
       | None \<Rightarrow> netmask (4294967295 - ipv4_int m))"

fun mask_prefix :: "ip_address \<Rightarrow> string \<Rightarrow> int option" where
  "mask_prefix (IPv4 n) m = (case prefix_from_string 32 m of Some p \<Rightarrow> Some p | None \<Rightarrow> prefix_from_mask m)"
| "mask_prefix (IPv6 n) m = prefix_from_string 128 m"

definition host_bits :: "ip_address \<Rightarrow> int \<Rightarrow> int" where
  "host_bits a p = 2 ^ nat (ip_bits a - p)"

fun with_int :: "ip_address \<Rightarrow> int \<Rightarrow> ip_address" where
  "with_int (IPv4 _) n = IPv4 n"
| "with_int (IPv6 _) n = IPv6 n"

text \<open>\<open>ipaddress.ip_network(entry, strict=False)\<close>: the host bits are cleared, and with them a scope.\<close>

definition ip_network :: "string \<Rightarrow> ip_network option" where
  "ip_network entry = (let parts = split_on (CHR ''/'') entry in
     if length parts > 2 then None
     else case ip_address (hd parts) of
       None \<Rightarrow> None
     | Some a \<Rightarrow>
       (case (if length parts = 2 then mask_prefix a (parts ! 1) else Some (ip_bits a)) of
          None \<Rightarrow> None
        | Some p \<Rightarrow> let host = ip_int a mod host_bits a p in
            Some \<lparr>nw_address = with_int a (ip_int a - host),
              nw_scope = (if host = 0 then dropWhile (\<lambda>c. c \<noteq> CHR ''%'') (hd parts) else []), nw_prefix = p\<rparr>))"

text \<open>\<open>client in network\<close>.\<close>

definition in_network :: "ip_address \<Rightarrow> ip_network \<Rightarrow> bool" where
  "in_network a n = (ip_version a = ip_version (nw_address n)
     \<and> ip_int a div host_bits a (nw_prefix n) = ip_int (nw_address n) div host_bits a (nw_prefix n))"

section \<open>Networks as text\<close>

definition ipv4_str :: "int \<Rightarrow> string" where
  "ipv4_str n = join ''.'' (map str_of_int [n div 16777216, n div 65536 mod 256, n div 256 mod 256, n mod 256])"

definition hextet_str :: "int \<Rightarrow> string" where
  "hextet_str g = (let digits = map (\<lambda>p. hex_char (g div p mod 16)) [4096, 256, 16, 1];
     stripped = dropWhile (\<lambda>c. c = CHR ''0'') digits in if stripped = [] then ''0'' else stripped)"

text \<open>The longest run of zero groups, the first of that length: (best start, best length, current start, current length).\<close>

definition zero_run :: "int list \<Rightarrow> nat \<times> nat" where
  "zero_run gs = (let (bs, bl, cs, cl) = foldl (\<lambda>(bs, bl, cs, cl) (i, g).
       if g = 0 then (let cs' = (if cl = 0 then i else cs); cl' = cl + 1
         in if cl' > bl then (cs', cl', cs', cl') else (bs, bl, cs', cl'))
       else (bs, bl, 0, 0)) (0, 0, 0, 0) (enumerate 0 gs) in (bs, bl))"

definition ipv6_str :: "int \<Rightarrow> string" where
  "ipv6_str n = (let gs = map (\<lambda>p. n div p mod 65536)
       [5192296858534827628530496329220096, 79228162514264337593543950336, 1208925819614629174706176,
        18446744073709551616, 281474976710656, 4294967296, 65536, 1];
     (start, len) = zero_run gs; texts = map hextet_str gs
   in if len \<le> 1 then join '':'' texts
      else join '':'' ((if start = 0 then [[]] else []) @ take start texts @ [[]]
        @ drop (start + len) texts @ (if start + len = 8 then [[]] else [])))"

fun ip_str :: "ip_address \<Rightarrow> string" where
  "ip_str (IPv4 n) = ipv4_str n"
| "ip_str (IPv6 n) = ipv6_str n"

definition network_str :: "ip_network \<Rightarrow> string" where
  "network_str n = ip_str (nw_address n) @ nw_scope n @ ''/'' @ str_of_int (nw_prefix n)"

section \<open>Allowlists\<close>

definition listed_network :: "ip_address \<Rightarrow> string \<Rightarrow> bool" where
  "listed_network client entry = (case ip_network entry of None \<Rightarrow> False | Some n \<Rightarrow> in_network client n)"

definition allowed :: "network \<Rightarrow> string option \<Rightarrow> string list \<Rightarrow> bool" where
  "allowed N address entries = (case address of None \<Rightarrow> False
   | Some a \<Rightarrow> if a = [] then False else (case ip_address a of None \<Rightarrow> False
     | Some client \<Rightarrow> if \<not> is_global N a then True else list_ex (listed_network client) entries))"

definition portal_allows :: "network \<Rightarrow> edge_settings \<Rightarrow> string option \<Rightarrow> bool" where
  "portal_allows N es address = allowed N address (es_portal_allowed_ips es)"

definition operator_allows :: "network \<Rightarrow> edge_settings \<Rightarrow> string option \<Rightarrow> bool" where
  "operator_allows N es address = allowed N address (es_operator_allowed_ips es)"

definition trusts :: "edge_settings \<Rightarrow> string option \<Rightarrow> bool" where
  "trusts es address = (case address of None \<Rightarrow> False
   | Some a \<Rightarrow> if a = [] then False
     else if a \<in> set (es_ask_trusted_hosts es) then True
     else (case ip_address a of None \<Rightarrow> False
       | Some client \<Rightarrow> list_ex (\<lambda>entry. CHR ''/'' \<in> set entry \<and> listed_network client entry) (es_ask_trusted_hosts es)))"

definition ranges :: "string list \<Rightarrow> error + string list" where
  "ranges entries = res_map (\<lambda>e. case ip_network e of
     None \<Rightarrow> Inl (ValueError (py_repr e @ '' does not appear to be an IPv4 or IPv6 network''))
   | Some n \<Rightarrow> Inr (network_str n)) entries"

definition portal_ranges :: "edge_settings \<Rightarrow> error + string list" where
  "portal_ranges es = ranges (es_portal_allowed_ips es)"

definition operator_ranges :: "edge_settings \<Rightarrow> error + string list" where
  "operator_ranges es = (if es_operator_api_enabled es then ranges (es_operator_allowed_ips es) else Inr [])"

text \<open>The loop over both allowlists at the end of \<open>EdgeSettings.validate\<close>.\<close>

definition validate_allowlist :: "string \<Rightarrow> string list \<Rightarrow> error + unit" where
  "validate_allowlist name entries = fold_res (\<lambda>entry _. case ip_network entry of
     None \<Rightarrow> Inl (ValueError (name @ '' entry '' @ py_repr entry @ '' is not an address or CIDR network''))
   | Some n \<Rightarrow> if ip_bits (nw_address n) - nw_prefix n > 0 \<and> nw_prefix n = 0
       then Inl (ValueError (name @ '' must not contain the whole address space'')) else Inr ()) entries ()"

definition validate_allowlists :: "edge_settings \<Rightarrow> error + unit" where
  "validate_allowlists es = bind_res (validate_allowlist ''PORTAL_ALLOWED_IPS'' (es_portal_allowed_ips es))
     (\<lambda>_. validate_allowlist ''OPERATOR_ALLOWED_IPS'' (es_operator_allowed_ips es))"

end
