(* ===== verification/Origins.thy ===== *)
theory Origins
  imports Addresses
begin

text \<open>
  src/app/services/origin_verification.py: the proof that an operator controls an origin, and the
  address the edge dials for it. Name resolution is the \<open>network\<close> of \<open>Urls\<close>; the
  exchange with one address is an argument.
\<close>

section \<open>Resolving and probing\<close>

definition WELL_KNOWN_PATH :: string where
  "WELL_KNOWN_PATH = ''/.well-known/custom-domain-origin-verification''"

record origin_probe =
  op_address :: string
  op_status :: int
  op_body :: string

text \<open>\<open>OriginVerificationFailed(code, message)\<close>.\<close>

type_synonym origin_failure = "string \<times> string"

definition resolve :: "network \<Rightarrow> string \<Rightarrow> int \<Rightarrow> bool \<Rightarrow> origin_failure + string list" where
  "resolve N host port allow_private = (case getaddrinfo N host port of
     Inl exc \<Rightarrow> Inl (''dns_resolution_failed'', host @ '' does not resolve: '' @ exc)
   | Inr infos \<Rightarrow>
     let addresses = rev (remdups (rev infos)) in
     if addresses = [] then Inl (''dns_resolution_failed'', host @ '' has no addresses'')
     else let blocked = filter (\<lambda>a. \<not> is_global N a) addresses in
       if \<not> allow_private \<and> blocked \<noteq> []
       then Inl (''private_address_blocked'', host @ '' resolves to non-public address(es) '' @ join '', '' blocked
         @ ''; origins must be publicly routable. Set ORIGIN_ALLOW_PRIVATE=true only for a trusted self-hosted deployment.'')
       else Inr addresses)"

text \<open>
  The loop over the addresses: an address that cannot be reached leaves the next one, and the
  last failure is reported. \<open>exchange\<close> is \<open>_probe\<close>, the request to one address.
\<close>

fun try_addresses :: "(string \<Rightarrow> origin_failure + origin_probe) \<Rightarrow> origin_failure \<Rightarrow> string list \<Rightarrow> origin_failure + origin_probe" where
  "try_addresses exchange failure [] = Inl failure"
| "try_addresses exchange failure (a # rest) = (case exchange a of
     Inr p \<Rightarrow> Inr p
   | Inl (code, message) \<Rightarrow>
       if code \<in> {''connection_failed'', ''timeout''} then try_addresses exchange (code, message) rest
       else Inl (code, message))"

definition fetch_token ::
    "network \<Rightarrow> (string \<Rightarrow> origin_failure + origin_probe) \<Rightarrow> string \<Rightarrow> int \<Rightarrow> bool \<Rightarrow> origin_failure + origin_probe" where
  "fetch_token N exchange host port allow_private =
     bind_res (resolve N host port allow_private) (\<lambda>addresses. try_addresses exchange ([], []) addresses)"

text \<open>
  \<open>verify_origin\<close> returns the database it wrote and what it raised: a recorded failure, or the
  \<open>TypeError\<close> of \<open>hmac.compare_digest\<close> on a body with a character outside ASCII, which
  passes the handler and is not recorded.
\<close>

datatype verify_result = Origin_Proved | Origin_Refused origin_failure | Origin_TypeError

definition verify_origin ::
    "network \<Rightarrow> (string \<Rightarrow> origin_failure + origin_probe) \<Rightarrow> bool \<Rightarrow> verified_origin \<Rightarrow> instant \<Rightarrow> db \<Rightarrow> db \<times> verify_result" where
  "verify_origin N exchange allow_private x now s = (let
     expected = (case o_verification_token x of None \<Rightarrow> [] | Some t \<Rightarrow> t);
     refuse = (\<lambda>(code, message). (record_origin_verification (o_id x) False (Some code) (Some message) now s,
       Origin_Refused (code, message)))
   in case fetch_token N exchange (o_host x) (o_port x) allow_private of
        Inl f \<Rightarrow> refuse f
      | Inr p \<Rightarrow>
        if op_status p \<noteq> 200
        then refuse (''unexpected_status'', ''GET '' @ WELL_KNOWN_PATH @ '' on '' @ o_host x @ '' returned HTTP ''
          @ str_of_int (op_status p) @ ''; expected 200 with the verification token as the plain-text body'')
        else if expected \<noteq> [] \<and> isl (compare_digest (op_body p) expected) then (s, Origin_TypeError)
        else if expected = [] \<or> compare_digest (op_body p) expected \<noteq> Inr True
        then refuse (''token_mismatch'', ''GET '' @ WELL_KNOWN_PATH @ '' on '' @ o_host x
          @ '' returned a body that is not this origin'' @ [CHR 0x27]
          @ ''s verification token; check the token was copied exactly'')
        else (record_origin_verification (o_id x) True None None now s, Origin_Proved))"

section \<open>The address the edge dials\<close>

definition dial_text :: "string \<Rightarrow> int \<Rightarrow> string" where
  "dial_text address port = (if CHR '':'' \<in> set address then ''['' @ address @ '']:'' @ str_of_int port
     else address @ '':'' @ str_of_int port)"

definition resolve_dials :: "network \<Rightarrow> string \<Rightarrow> int \<Rightarrow> bool \<Rightarrow> origin_failure + string list" where
  "resolve_dials N host port allow_private =
     bind_res (resolve N host port allow_private) (\<lambda>as. Inr (map (\<lambda>a. dial_text a port) as))"

text \<open>\<open>dial.rsplit(":", 1)[0].strip("[]")\<close>.\<close>

definition dial_address :: "string \<Rightarrow> string" where
  "dial_address dial = strip_chars (\<lambda>c. c \<in> set ''[]'')
     (case str_rpartition (CHR '':'') dial of None \<Rightarrow> dial | Some (a, _) \<Rightarrow> a)"

definition dial_order :: "string \<Rightarrow> (int \<times> int) option" where
  "dial_order dial = map_option (\<lambda>a. (ip_version a, ip_int a)) (ip_address (dial_address dial))"

text \<open>\<open>min(dials, key=_dial_order)\<close>: the first of the least; \<open>None\<close> when a key raises.\<close>

fun min_dial :: "string \<Rightarrow> int \<times> int \<Rightarrow> string list \<Rightarrow> string option" where
  "min_dial best k [] = Some best"
| "min_dial best k (d # ds) = (case dial_order d of None \<Rightarrow> None
   | Some k' \<Rightarrow> if fst k' < fst k \<or> (fst k' = fst k \<and> snd k' < snd k) then min_dial d k' ds else min_dial best k ds)"

text \<open>The outer failure is \<open>OriginVerificationFailed\<close>, the inner one the \<open>ValueError\<close> of \<open>ip_address\<close>.\<close>

definition pinned_dial :: "network \<Rightarrow> string \<Rightarrow> int \<Rightarrow> bool \<Rightarrow> origin_failure + error + string \<times> string" where
  "pinned_dial N host port allow_private = (case resolve_dials N host port allow_private of
     Inl f \<Rightarrow> Inl f
   | Inr dials \<Rightarrow> Inr (case (case dials of [] \<Rightarrow> None
         | d # ds \<Rightarrow> (case dial_order d of None \<Rightarrow> None | Some k \<Rightarrow> min_dial d k ds)) of
       None \<Rightarrow> Inl (ValueError ''does not appear to be an IPv4 or IPv6 address'')
     | Some d \<Rightarrow> Inr (d, host)))"

section \<open>The choice of the address\<close>

definition key_le :: "int \<times> int \<Rightarrow> int \<times> int \<Rightarrow> bool" where
  "key_le k k' = (fst k < fst k' \<or> (fst k = fst k' \<and> snd k \<le> snd k'))"

lemma key_le_total: "key_le a b \<or> key_le b a"
  by (auto simp: key_le_def)

lemma key_le_trans: "key_le a b \<Longrightarrow> key_le b c \<Longrightarrow> key_le a c"
  by (auto simp: key_le_def)

lemma key_le_antisym: "key_le a b \<Longrightarrow> key_le b a \<Longrightarrow> a = b"
  by (auto simp: key_le_def prod_eq_iff)

lemma min_dial_least:
  assumes "min_dial best k ds = Some d" and "dial_order best = Some k"
  shows "\<exists>m. d \<in> set (best # ds) \<and> dial_order d = Some m \<and> (\<forall>e\<in>set (best # ds). \<exists>n. dial_order e = Some n \<and> key_le m n)"
  using assms
proof (induction ds arbitrary: best k)
  case Nil
  then show ?case by (auto simp: key_le_def)
next
  case (Cons e ds)
  then obtain n where n: "dial_order e = Some n" by (cases "dial_order e") auto
  define b where "b = (if fst n < fst k \<or> (fst n = fst k \<and> snd n < snd k) then (e, n) else (best, k))"
  have b: "min_dial (fst b) (snd b) ds = Some d" "dial_order (fst b) = Some (snd b)"
    using Cons.prems n by (auto simp: b_def split: if_splits)
  have le: "key_le (snd b) n" "key_le (snd b) k" by (auto simp: b_def key_le_def)
  from Cons.IH [OF b] obtain m where m: "d \<in> set (fst b # ds)" "dial_order d = Some m"
    "\<forall>e\<in>set (fst b # ds). \<exists>n. dial_order e = Some n \<and> key_le m n" by blast
  then have "key_le m (snd b)" using b(2) by auto
  with le have "key_le m n" "key_le m k" by (blast intro: key_le_trans)+
  moreover have "d \<in> set (best # e # ds)" using m(1) by (auto simp: b_def split: if_splits)
  ultimately show ?case using m n Cons.prems(2) by (auto simp del: split_paired_Ex)
qed

lemma min_dial_None: "dial_order best = Some k \<Longrightarrow> min_dial best k ds = None \<longleftrightarrow> (\<exists>d\<in>set ds. dial_order d = None)"
  by (induction ds arbitrary: best k) (auto split: option.splits)

definition least_dial :: "string list \<Rightarrow> string option" where
  "least_dial dials = (case dials of [] \<Rightarrow> None
     | d # ds \<Rightarrow> (case dial_order d of None \<Rightarrow> None | Some k \<Rightarrow> min_dial d k ds))"

lemma least_dial_Some:
  assumes "least_dial dials = Some d"
  shows "\<exists>m. d \<in> set dials \<and> dial_order d = Some m \<and> (\<forall>e\<in>set dials. \<exists>n. dial_order e = Some n \<and> key_le m n)"
  using assms min_dial_least [of "hd dials" _ "tl dials" d]
  by (auto simp: least_dial_def split: list.splits option.splits)

lemma least_dial_None: "least_dial dials = None \<longleftrightarrow> dials = [] \<or> (\<exists>d\<in>set dials. dial_order d = None)"
  by (auto simp: least_dial_def min_dial_None split: list.splits option.splits)

lemma least_dial_set:
  assumes "set dials = set dials'" and "inj_on dial_order (set dials)"
  shows "least_dial dials = least_dial dials'"
proof (cases "least_dial dials")
  case None
  then have "least_dial dials' = None" unfolding least_dial_None using assms(1) by auto
  with None show ?thesis by simp
next
  case (Some d)
  then have "least_dial dials' \<noteq> None" using least_dial_None [of dials] least_dial_None [of dials'] assms(1) by auto
  then obtain d' where d': "least_dial dials' = Some d'" by blast
  from least_dial_Some [OF Some] obtain m where
    m: "d \<in> set dials" "dial_order d = Some m" "\<forall>e\<in>set dials. \<exists>n. dial_order e = Some n \<and> key_le m n" by blast
  from least_dial_Some [OF d'] obtain m' where
    m': "d' \<in> set dials" "dial_order d' = Some m'" "\<forall>e\<in>set dials. \<exists>n. dial_order e = Some n \<and> key_le m' n"
    unfolding assms(1) by blast
  have "m = m'" using m m' by (metis key_le_antisym option.inject)
  then have "d = d'" using inj_onD [OF assms(2)] m m' by auto
  with Some d' show ?thesis by simp
qed

lemma pinned_dial_least:
  "pinned_dial N host port ap = (case resolve_dials N host port ap of Inl f \<Rightarrow> Inl f
     | Inr dials \<Rightarrow> Inr (case least_dial dials of
         None \<Rightarrow> Inl (ValueError ''does not appear to be an IPv4 or IPv6 address'') | Some d \<Rightarrow> Inr (d, host)))"
  by (simp add: pinned_dial_def least_dial_def split: sum.splits list.splits)

text \<open>
  The address the edge dials depends only on the set of addresses the origin's name resolves
  to, not on the order or repetition in the resolver's answer, and is the least of them with IPv4
  before IPv6.
\<close>

theorem pinned_dial_ignores_order:
  assumes "resolve_dials N host port ap = Inr dials" and "resolve_dials N' host port ap = Inr dials'"
    and "set dials' = set dials" and "inj_on dial_order (set dials)"
  shows "pinned_dial N' host port ap = pinned_dial N host port ap
    \<and> (\<forall>d h. pinned_dial N host port ap = Inr (Inr (d, h)) \<longrightarrow> h = host \<and> d \<in> set dials
      \<and> (\<exists>m. dial_order d = Some m \<and> (\<forall>e\<in>set dials. \<exists>n. dial_order e = Some n \<and> key_le m n)))"
  using assms least_dial_set [OF assms(3) [symmetric] assms(4)] least_dial_Some [of dials]
  by (auto simp: pinned_dial_least split: option.splits)

definition rotating_network :: "string list \<Rightarrow> network" where
  "rotating_network addresses = \<lparr>getaddrinfo = (\<lambda>host port. Inr addresses), is_global = (\<lambda>a. True)\<rparr>"

theorem pinned_dial_ignores_order_witness:
  "pinned_dial (rotating_network [''2001:db8::1'', ''203.0.113.10'', ''203.0.113.9'']) ''app.example.com'' 443 False
     = pinned_dial (rotating_network [''203.0.113.9'', ''203.0.113.10'', ''2001:db8::1'', ''203.0.113.10'']) ''app.example.com'' 443 False
   \<and> pinned_dial (rotating_network [''203.0.113.9'', ''203.0.113.10'', ''2001:db8::1'', ''203.0.113.10'']) ''app.example.com'' 443 False
     = Inr (Inr (''203.0.113.9:443'', ''app.example.com''))"
proof -
  let ?a = "rotating_network [''203.0.113.9'', ''203.0.113.10'', ''2001:db8::1'', ''203.0.113.10'']"
  let ?b = "rotating_network [''2001:db8::1'', ''203.0.113.10'', ''203.0.113.9'']"
  have a: "resolve_dials ?a ''app.example.com'' 443 False = Inr [''203.0.113.9:443'', ''203.0.113.10:443'', ''[2001:db8::1]:443'']"
    by code_simp
  have b: "resolve_dials ?b ''app.example.com'' 443 False = Inr [''[2001:db8::1]:443'', ''203.0.113.10:443'', ''203.0.113.9:443'']"
    by code_simp
  have k: "dial_order ''203.0.113.9:443'' = Some (4, 3405803785)" "dial_order ''203.0.113.10:443'' = Some (4, 3405803786)"
    "dial_order ''[2001:db8::1]:443'' = Some (6, 42540766411282592856903984951653826561)"
    by code_simp+
  have "inj_on dial_order (set [''203.0.113.9:443'', ''203.0.113.10:443'', ''[2001:db8::1]:443''])" by (simp add: k)
  from conjunct1 [OF pinned_dial_ignores_order [OF a b _ this]]
  have "pinned_dial ?b ''app.example.com'' 443 False = pinned_dial ?a ''app.example.com'' 443 False" by auto
  moreover have "pinned_dial ?a ''app.example.com'' 443 False = Inr (Inr (''203.0.113.9:443'', ''app.example.com''))"
    by code_simp
  ultimately show ?thesis by (intro conjI)
qed

section \<open>What a proof of control proves\<close>

lemma resolve_Inr:
  assumes "resolve N host port ap = Inr addresses"
  shows "(\<exists>infos. getaddrinfo N host port = Inr infos \<and> set addresses = set infos)
    \<and> (\<forall>a\<in>set addresses. ap \<or> is_global N a)"
  using assms by (auto simp: resolve_def Let_def filter_empty_conv split: sum.splits if_splits)

lemma try_addresses_Inr:
  "try_addresses exchange f addresses = Inr p \<Longrightarrow> \<exists>a\<in>set addresses. exchange a = Inr p"
  by (induction exchange f addresses rule: try_addresses.induct) (auto split: sum.splits if_splits)

lemma recorded_origin:
  assumes "origin_row s i = Some x"
  shows "\<exists>y. origin_row (record_origin_verification i ok code message now s) i = Some y
    \<and> o_status y = (if ok then Origin_Verified else Origin_Failed) \<and> (\<not> ok \<longrightarrow> \<not> o_is_active y)"
  using assms unfolding record_origin_verification_def
  by (cases ok) (simp_all add: orgs.get_put_same key_kept_def)

text \<open>
  C38: an origin is recorded as verified only when an address its name resolves to right now,
  public unless private origins are allowed, answered 200 with exactly the stored non-empty
  token. Every failure that is reported is recorded: the origin is failed and carries no traffic.
\<close>

theorem verified_origin_proved_control:
  assumes "origin_row s (o_id x) = Some x" and "verify_origin N exchange ap x now s = (t, r)"
  shows "case r of
      Origin_Proved \<Rightarrow> \<exists>infos a p token. getaddrinfo N (o_host x) (o_port x) = Inr infos \<and> a \<in> set infos \<and> (ap \<or> is_global N a)
        \<and> exchange a = Inr p \<and> op_status p = 200 \<and> o_verification_token x = Some token \<and> token \<noteq> [] \<and> op_body p = token
        \<and> map_option o_status (origin_row t (o_id x)) = Some Origin_Verified
    | Origin_Refused f \<Rightarrow> \<exists>y. origin_row t (o_id x) = Some y \<and> o_status y = Origin_Failed \<and> \<not> o_is_active y
    | Origin_TypeError \<Rightarrow> t = s \<and> (\<exists>a p token. exchange a = Inr p \<and> op_status p = 200
        \<and> o_verification_token x = Some token \<and> \<not> (ascii (op_body p) \<and> ascii token))"
proof -
  let ?rec = "\<lambda>ok code message. record_origin_verification (o_id x) ok code message now s"
  from assms(2) consider
      (proved) p token where "fetch_token N exchange (o_host x) (o_port x) ap = Inr p" "op_status p = 200"
        "o_verification_token x = Some token" "token \<noteq> []" "op_body p = token" "t = ?rec True None None" "r = Origin_Proved"
    | (refused) code message where "t = ?rec False (Some code) (Some message)" "r = Origin_Refused (code, message)"
    | (crashed) p token where "fetch_token N exchange (o_host x) (o_port x) ap = Inr p" "op_status p = 200"
        "o_verification_token x = Some token" "\<not> (ascii (op_body p) \<and> ascii token)" "t = s" "r = Origin_TypeError"
    unfolding verify_origin_def Let_def
    by (fastforce split: sum.splits if_splits option.splits simp: compare_digest_def)
  then show ?thesis
  proof cases
    case proved
    from proved(1) obtain addresses where a: "resolve N (o_host x) (o_port x) ap = Inr addresses"
      "try_addresses exchange ([], []) addresses = Inr p" by (auto simp: fetch_token_def bind_res_eq_Inr)
    from recorded_origin [OF assms(1), of True None None now]
    have "map_option o_status (origin_row t (o_id x)) = Some Origin_Verified" unfolding proved(6) by auto
    with resolve_Inr [OF a(1)] try_addresses_Inr [OF a(2)] proved show ?thesis by auto
  next
    case refused
    from recorded_origin [OF assms(1), of False "Some code" "Some message" now] refused show ?thesis by auto
  next
    case crashed
    from crashed(1) obtain a where "exchange a = Inr p"
      by (auto simp: fetch_token_def bind_res_eq_Inr dest: try_addresses_Inr)
    with crashed show ?thesis by auto
  qed
qed

definition pending_origin :: verified_origin where
  "pending_origin = demo_origin\<lparr>o_status := Origin_Pending, o_is_active := False, o_verification_token := Some ''tok-11''\<rparr>"

definition token_served :: "string \<Rightarrow> origin_failure + origin_probe" where
  "token_served a = (if a = ''203.0.113.9'' then Inr \<lparr>op_address = a, op_status = 200, op_body = ''tok-11''\<rparr>
     else Inl (''timeout'', ''timed out''))"

theorem verified_origin_proved_control_witness:
  "\<exists>t. verify_origin (rotating_network [''203.0.113.8'', ''203.0.113.9'']) token_served False pending_origin 5000
      (demo_db\<lparr>origins := [pending_origin]\<rparr>) = (t, Origin_Proved)
    \<and> map_option o_status (origin_row t 3) = Some Origin_Verified"
proof -
  let ?s = "demo_db\<lparr>origins := [pending_origin]\<rparr>"
  let ?v = "verify_origin (rotating_network [''203.0.113.8'', ''203.0.113.9'']) token_served False pending_origin 5000 ?s"
  have x: "origin_row ?s (o_id pending_origin) = Some pending_origin" "o_id pending_origin = 3"
    by (simp_all add: origin_row_def find_row_def pending_origin_def demo_origin_def)
  have "snd ?v = Origin_Proved" by code_simp
  then have v: "?v = (fst ?v, Origin_Proved)" by (simp add: prod_eq_iff)
  from verified_origin_proved_control [OF x(1) v] have "map_option o_status (origin_row (fst ?v) 3) = Some Origin_Verified"
    by (auto simp: x(2))
  with v show ?thesis by (intro exI [of _ "fst ?v"] conjI)
qed

end
