(* ===== verification/Edge_Config.thy ===== *)
theory Edge_Config
  imports Origins
begin

text \<open>
  src/app/edge/config.py: the Caddy configuration as a function of the database and the edge
  settings. A configuration is the JSON value the reconciler sends.
\<close>

section \<open>Constants\<close>

definition SERVER_NAME :: string where "SERVER_NAME = ''edge''"
definition HEALTH_PATH :: string where "HEALTH_PATH = ''/.well-known/custom-domain-edge-health''"
definition WORKSPACE_PATH :: string where "WORKSPACE_PATH = ''/.well-known/custom-domain-workspace''"
definition ASSERT_PATH :: string where "ASSERT_PATH = ''/internal/edge/assert''"
definition ASSERTION_HEADER :: string where "ASSERTION_HEADER = ''X-Custom-Domain-Assertion''"
definition EDGE_HEALTH_HEADER :: string where "EDGE_HEALTH_HEADER = ''X-Custom-Domain-Edge''"
definition EDGE_HOST_HEADER :: string where "EDGE_HOST_HEADER = ''X-Custom-Domain-Edge-Host''"
definition EDGE_SNI_HEADER :: string where "EDGE_SNI_HEADER = ''X-Custom-Domain-Edge-Sni''"
definition EDGE_REQUEST_ID_HEADER :: string where "EDGE_REQUEST_ID_HEADER = ''X-Custom-Domain-Edge-Request-Id''"
definition EDGE_TOKEN_HEADER :: string where "EDGE_TOKEN_HEADER = ''X-Custom-Domain-Edge-Token''"

definition STRIPPED_REQUEST_HEADERS :: "string list" where
  "STRIPPED_REQUEST_HEADERS = [ASSERTION_HEADER, EDGE_HOST_HEADER, EDGE_SNI_HEADER, EDGE_REQUEST_ID_HEADER,
     EDGE_TOKEN_HEADER, ''X-Custom-Domain-Reference'', ''X-Custom-Domain-Application'']"

definition strs :: "string list \<Rightarrow> json" where "strs xs = JList (map JStr xs)"

section \<open>What is routed\<close>

record route_group =
  rg_application_slug :: string
  rg_origin :: string
  rg_origin_host :: string
  rg_origin_tls :: bool
  rg_hostnames :: "string list"
  rg_per_minute :: "int option"
  rg_per_second :: "int option"
  rg_host_header :: string
  rg_origin_port :: int

fun host_header_value :: "origin_host_header \<Rightarrow> string" where
  "host_header_value Host_Customer = ''customer''"
| "host_header_value Host_Origin = ''origin''"

text \<open>\<open>.order_by(Application.slug)\<close> and \<open>.order_by(Domain.hostname)\<close>.\<close>

definition by_text :: "('r \<Rightarrow> string) \<Rightarrow> 'r list \<Rightarrow> 'r list" where
  "by_text f rows = map snd (sort_by_key (map (\<lambda>r. (f r, r)) rows))"

definition active_applications :: "db \<Rightarrow> application list" where
  "active_applications s = by_text app_slug (filter (\<lambda>a. app_status a = App_Active) (applications s))"

definition routed_hostnames :: "db \<Rightarrow> application \<Rightarrow> string list" where
  "routed_hostnames s a = map d_hostname (filter (routable s) (by_text d_hostname (filter (\<lambda>d.
     d_application_id d = app_id a \<and> d_deleted_at d = None \<and> d_status d \<in> set ROUTABLE_STATUSES) (domains s))))"

text \<open>One turn of the loop over the applications; \<open>None\<close> is \<open>continue\<close>.\<close>

definition route_group_of :: "network \<Rightarrow> bool \<Rightarrow> db \<Rightarrow> application \<Rightarrow> error + route_group option" where
  "route_group_of N allow_private s a = (case serving_origin s (app_id a) of
     None \<Rightarrow> Inr None
   | Some x \<Rightarrow> let hostnames = routed_hostnames s a in
     if hostnames = [] then Inr None
     else (case pinned_dial N (o_host x) (o_port x) allow_private of
         Inl _ \<Rightarrow> Inr None
       | Inr (Inl e) \<Rightarrow> Inl e
       | Inr (Inr (dial, origin_host)) \<Rightarrow> Inr (Some
           \<lparr>rg_application_slug = app_slug a, rg_origin = dial, rg_origin_host = origin_host,
            rg_origin_tls = (o_scheme x = ''https''), rg_hostnames = hostnames,
            rg_per_minute = app_rate_limit_per_minute a, rg_per_second = app_rate_limit_per_second a,
            rg_host_header = host_header_value (o_host_header x), rg_origin_port = o_port x\<rparr>)))"

definition serveable_route_groups :: "network \<Rightarrow> bool \<Rightarrow> db \<Rightarrow> error + route_group list" where
  "serveable_route_groups N allow_private s =
     bind_res (res_map (route_group_of N allow_private s) (active_applications s))
       (\<lambda>groups. Inr (concat (map (\<lambda>g. case g of None \<Rightarrow> [] | Some g \<Rightarrow> [g]) groups)))"

section \<open>Routes\<close>

definition set_request :: "dict \<Rightarrow> string \<times> json" where
  "set_request headers = (''headers'', JObj [(''request'', JObj [(''set'', JObj headers)])])"

definition dial_to :: "string \<Rightarrow> string \<times> json" where
  "dial_to upstream = (''upstreams'', JList [JObj [(''dial'', JStr upstream)]])"

definition assertion_subrequest :: "edge_settings \<Rightarrow> json" where
  "assertion_subrequest es = JObj [
     (''handler'', JStr ''reverse_proxy''),
     dial_to (es_assert_upstream es),
     (''rewrite'', JObj [(''method'', JStr ''GET''), (''uri'', JStr ASSERT_PATH)]),
     set_request ([
       (EDGE_HOST_HEADER, strs [''{http.request.host}'']),
       (EDGE_SNI_HEADER, strs [''{http.request.tls.server_name}'']),
       (EDGE_REQUEST_ID_HEADER, strs [''{http.request.uuid}'']),
       (''X-Forwarded-Method'', strs [''{http.request.method}'']),
       (''X-Forwarded-Uri'', strs [''{http.request.uri}''])]
       @ (case es_edge_token es of None \<Rightarrow> [] | Some t \<Rightarrow> if t = [] then [] else [(EDGE_TOKEN_HEADER, strs [t])])),
     (''handle_response'', JList [JObj [
       (''match'', JObj [(''status_code'', JList [JInt 2])]),
       (''routes'', JList [JObj [(''handle'', JList [JObj [
         (''handler'', JStr ''headers''),
         (''request'', JObj [(''set'', JObj [(ASSERTION_HEADER,
           strs [''{http.reverse_proxy.header.'' @ ASSERTION_HEADER @ ''}''])])])]])]])]])]"

definition origin_host_value :: "string \<Rightarrow> int \<Rightarrow> bool \<Rightarrow> string" where
  "origin_host_value host port tls = (if port = (if tls then 443 else 80) then host
     else host @ '':'' @ str_of_int port)"

definition proxy_headers :: "string \<Rightarrow> string \<times> json" where
  "proxy_headers host = set_request [(''Host'', strs [host]), (''X-Forwarded-Host'', strs [''{http.request.host}'']),
     (''X-Forwarded-Proto'', strs [''{http.request.scheme}''])]"

definition tls_transport :: "string \<Rightarrow> json" where
  "tls_transport host = JObj [(''protocol'', JStr ''http''), (''tls'', JObj [(''server_name'', JStr host)])]"

definition origin_proxy :: "route_group \<Rightarrow> json" where
  "origin_proxy g = (let host = (if rg_host_header g = ''origin''
       then origin_host_value (rg_origin_host g) (rg_origin_port g) (rg_origin_tls g) else ''{http.request.host}'')
   in JObj ([(''handler'', JStr ''reverse_proxy''), dial_to (rg_origin g), proxy_headers host]
     @ (if rg_origin_tls g then [(''transport'', tls_transport (rg_origin_host g))] else [])))"

definition RATE_WINDOWS :: "(string \<times> string) list" where
  "RATE_WINDOWS = [(''minute'', ''1m''), (''second'', ''1s'')]"

definition rate_zone :: "string \<Rightarrow> string \<Rightarrow> int \<Rightarrow> json" where
  "rate_zone route_id window count = JObj [(''key'', JStr route_id), (''window'', JStr window), (''max_events'', JInt count)]"

definition rate_limit_handler :: "string \<Rightarrow> int option \<Rightarrow> int option \<Rightarrow> json option" where
  "rate_limit_handler route_id per_minute per_second = (let
     zone = (\<lambda>name window count. case count of None \<Rightarrow> []
       | Some n \<Rightarrow> if n = 0 then [] else [(route_id @ ''-'' @ name, rate_zone route_id window n)]);
     zones = zone ''minute'' ''1m'' per_minute @ zone ''second'' ''1s'' per_second
   in if zones = [] then None
      else Some (JObj [(''handler'', JStr ''rate_limit''), (''rate_limits'', JObj zones)]))"

definition strip_handler :: json where
  "strip_handler = JObj [(''handler'', JStr ''headers''),
     (''request'', JObj [(''delete'', strs STRIPPED_REQUEST_HEADERS)])]"

definition app_route :: "route_group \<Rightarrow> edge_settings \<Rightarrow> json" where
  "app_route g es = (let route_id = ''app-'' @ rg_application_slug g;
     handle = [strip_handler, assertion_subrequest es, origin_proxy g];
     limited = (case rate_limit_handler route_id (rg_per_minute g) (rg_per_second g) of
       None \<Rightarrow> handle | Some limiter \<Rightarrow> limiter # handle)
   in JObj [(''@id'', JStr route_id), (''match'', JList [JObj [(''host'', strs (rg_hostnames g))]]),
     (''handle'', JList limited), (''terminal'', JBool True)])"

section \<open>The edge's own names\<close>

definition PORTAL_PATHS :: "string list" where "PORTAL_PATHS = [''/portal'', ''/portal/*'']"
definition OPERATOR_PATHS :: "string list" where "OPERATOR_PATHS = [''/operator'', ''/operator/*'']"
definition API_PATHS :: "string list" where "API_PATHS = [''/v1'', ''/v1/*'']"
definition CONNECT_PATHS :: "string list" where "CONNECT_PATHS = [''/connect/*'']"

definition portal_hosts :: "db \<Rightarrow> edge_settings option \<Rightarrow> string list" where
  "portal_hosts s settings = (let
     own = (case settings of None \<Rightarrow> [] | Some es \<Rightarrow>
       (case es_edge_hostname es of None \<Rightarrow> [] | Some h \<Rightarrow> if h = [] then [] else [h]));
     add = (\<lambda>names name. if name \<in> set names then names else names @ [name])
   in sorted_strs (foldl (\<lambda>names a. foldl add names (edge_names s a)) own (active_applications s)))"

definition allowlisted_routes_for :: "string \<Rightarrow> string list \<Rightarrow> string list \<Rightarrow> string list \<Rightarrow> string \<Rightarrow> json list" where
  "allowlisted_routes_for name paths hosts rs upstream = (if rs = [] \<or> hosts = [] then []
     else [JObj [(''@id'', JStr name),
         (''match'', JList [JObj [(''host'', strs hosts), (''path'', strs paths),
           (''remote_ip'', JObj [(''ranges'', strs rs)])]]),
         (''handle'', JList [JObj [(''handler'', JStr ''reverse_proxy''), dial_to upstream,
           set_request [(''Host'', strs [''{http.request.host}''])]]]),
         (''terminal'', JBool True)],
       JObj [(''@id'', JStr (name @ ''-denied'')),
         (''match'', JList [JObj [(''host'', strs hosts), (''path'', strs paths)]]),
         (''handle'', JList [JObj [(''handler'', JStr ''static_response''), (''status_code'', JInt 403)]]),
         (''terminal'', JBool True)]])"

definition portal_routes_for :: "string list \<Rightarrow> string list \<Rightarrow> string \<Rightarrow> json list" where
  "portal_routes_for = allowlisted_routes_for ''portal'' PORTAL_PATHS"

definition portal_routes :: "edge_settings \<Rightarrow> string list \<Rightarrow> error + json list" where
  "portal_routes es hosts = bind_res (portal_ranges es)
     (\<lambda>ranges. Inr (portal_routes_for hosts ranges (es_assert_upstream es)))"

definition operator_routes_for :: "string list \<Rightarrow> string list \<Rightarrow> string \<Rightarrow> json list" where
  "operator_routes_for = allowlisted_routes_for ''operator'' OPERATOR_PATHS"

definition operator_routes :: "edge_settings \<Rightarrow> string list \<Rightarrow> error + json list" where
  "operator_routes es hosts = bind_res (operator_ranges es)
     (\<lambda>ranges. Inr (operator_routes_for hosts ranges (es_assert_upstream es)))"

definition api_route_for :: "string list \<Rightarrow> string \<Rightarrow> json list" where
  "api_route_for hosts upstream = (if hosts = [] then []
     else [JObj [(''@id'', JStr ''api''),
       (''match'', JList [JObj [(''host'', strs hosts), (''path'', strs (API_PATHS @ CONNECT_PATHS))]]),
       (''handle'', JList [strip_handler, JObj [(''handler'', JStr ''reverse_proxy''), dial_to upstream,
         set_request [(''Host'', strs [''{http.request.host}''])]]]),
       (''terminal'', JBool True)]])"

definition api_route :: "edge_settings \<Rightarrow> string list \<Rightarrow> json list" where
  "api_route es hosts = (if es_public_api es then api_route_for hosts (es_assert_upstream es) else [])"

section \<open>The whole configuration\<close>

definition health_route :: json where
  "health_route = JObj [(''@id'', JStr ''edge-health''), (''match'', JList [JObj [(''path'', strs [HEALTH_PATH])]]),
     (''handle'', JList [JObj [(''handler'', JStr ''static_response''), (''status_code'', JInt 204),
       (''headers'', JObj [(EDGE_HEALTH_HEADER, strs [EDGE_HEALTH_VALUE])])]]),
     (''terminal'', JBool True)]"

definition unmatched_route :: json where
  "unmatched_route = JObj [(''@id'', JStr ''edge-unmatched''),
     (''handle'', JList [JObj [(''handler'', JStr ''static_response''), (''status_code'', JInt 404)]]),
     (''terminal'', JBool True)]"

definition server :: "edge_settings \<Rightarrow> json list \<Rightarrow> dict" where
  "server es routes = [(''listen'', strs ['':'' @ str_of_int (es_https_port es)]),
     (''routes'', JList (health_route # routes @ [unmatched_route]))]
     @ (if es_disable_https es then [(''automatic_https'', JObj [(''disable'', JBool True)])]
        else [(''tls_connection_policies'', JList [JObj []]), (''strict_sni_host'', JBool True)])"

definition http_app :: "edge_settings \<Rightarrow> json list \<Rightarrow> dict" where
  "http_app es routes = [(''servers'', JObj [(SERVER_NAME, JObj (server es routes))]),
     (''metrics'', JObj [(''per_host'', JBool True)])]
     @ (if es_http_port es \<noteq> 80 then [(''http_port'', JInt (es_http_port es))] else [])
     @ (if es_https_port es \<noteq> 443 then [(''https_port'', JInt (es_https_port es))] else [])"

definition tls_issuer_config :: "edge_settings \<Rightarrow> json" where
  "tls_issuer_config es = (if es_tls_issuer es = ''internal'' then JObj [(''module'', JStr ''internal'')]
     else JObj ((''module'', JStr ''acme'') # (case es_acme_email es of None \<Rightarrow> []
       | Some e \<Rightarrow> if e = [] then [] else [(''email'', JStr e)])))"

definition expected_tls :: "edge_settings \<Rightarrow> json" where
  "expected_tls es = JObj [(''automation'', JObj [
     (''on_demand'', JObj [(''permission'', JObj [(''module'', JStr ''http''), (''endpoint'', JStr (es_ask_url es))])]),
     (''policies'', JList [JObj [(''on_demand'', JBool True), (''issuers'', JList [tls_issuer_config es])]])])]"

definition build_apps :: "network \<Rightarrow> bool \<Rightarrow> db \<Rightarrow> edge_settings \<Rightarrow> error + json" where
  "build_apps N allow_private s es =
     bind_res (serveable_route_groups N allow_private s) (\<lambda>groups.
     let hosts = portal_hosts s (Some es) in
     bind_res (if es_portal_allowed_ips es \<noteq> [] then portal_routes es hosts else Inr []) (\<lambda>portal.
     bind_res (operator_routes es hosts) (\<lambda>operator.
     let routes = portal @ operator @ api_route es hosts @ map (\<lambda>g. app_route g es) groups in
     Inr (JObj ((''http'', JObj (http_app es routes))
       # (if es_disable_https es then [] else [(''tls'', expected_tls es)]))))))"

end
