(* ===== verification/Gateway.thy ===== *)
theory Gateway
  imports Edge_Config
begin

text \<open>
  src/app/edge/gateway.py: the validator in front of Caddy's admin API, and the facts it
  validates against, which src/app/v1/internal.py (\<open>edge_origins\<close>) reads from the database.
\<close>

section \<open>Python's view of JSON values\<close>

text \<open>
  \<open>==\<close> on decoded JSON: dictionaries are compared without regard to order, and \<open>True\<close> and
  \<open>1\<close> are equal. Floating point numbers are outside the model.
\<close>

fun as_number :: "json \<Rightarrow> int option" where
  "as_number (JInt i) = Some i"
| "as_number (JBool b) = Some (if b then 1 else 0)"
| "as_number _ = None"

fun json_eq :: "json \<Rightarrow> json \<Rightarrow> bool" and json_eq_list :: "json list \<Rightarrow> json list \<Rightarrow> bool"
  and json_sub :: "dict \<Rightarrow> dict \<Rightarrow> bool" where
  "json_eq JNull y = (y = JNull)"
| "json_eq (JBool b) y = (as_number y = as_number (JBool b))"
| "json_eq (JInt i) y = (as_number y = Some i)"
| "json_eq (JStr t) y = (y = JStr t)"
| "json_eq (JTime t) y = (y = JTime t)"
| "json_eq (JList xs) y = (case y of JList ys \<Rightarrow> json_eq_list xs ys | _ \<Rightarrow> False)"
| "json_eq (JObj a) y = (case y of JObj b \<Rightarrow> set (map fst a) = set (map fst b) \<and> json_sub a b | _ \<Rightarrow> False)"
| "json_eq_list [] ys = (ys = [])"
| "json_eq_list (x # xs) ys = (case ys of [] \<Rightarrow> False | y # ys' \<Rightarrow> json_eq x y \<and> json_eq_list xs ys')"
| "json_sub [] b = True"
| "json_sub ((k, v) # a) b = ((case map_of b k of None \<Rightarrow> False | Some w \<Rightarrow> json_eq v w) \<and> json_sub a b)"

text \<open>\<open>repr\<close> and \<open>str\<close>.\<close>

primrec json_repr :: "json \<Rightarrow> string" where
  "json_repr JNull = ''None''"
| "json_repr (JBool b) = (if b then ''True'' else ''False'')"
| "json_repr (JInt i) = str_of_int i"
| "json_repr (JStr t) = py_repr t"
| "json_repr (JTime t) = ''datetime''"
| "json_repr (JList xs) = ''['' @ join '', '' (map json_repr xs) @ '']''"
| "json_repr (JObj kvs) = ''{'' @ join '', '' (map (\<lambda>(k, v). py_repr k @ '': '' @ v) (map (map_prod id json_repr) kvs)) @ ''}''"

definition json_text :: "json \<Rightarrow> string" where
  "json_text v = (case v of JStr t \<Rightarrow> t | _ \<Rightarrow> json_repr v)"

definition str_list_repr :: "string list \<Rightarrow> string" where
  "str_list_repr xs = json_repr (strs xs)"

definition dict_keys :: "dict \<Rightarrow> string list" where "dict_keys d = map fst d"

definition json_keys :: "json \<Rightarrow> string list" where
  "json_keys v = (case v of JObj d \<Rightarrow> dict_keys d | _ \<Rightarrow> [])"

definition is_dict :: "json \<Rightarrow> bool" where
  "is_dict v = (case v of JObj _ \<Rightarrow> True | _ \<Rightarrow> False)"

section \<open>Verdicts\<close>

text \<open>
  \<open>ConfigRejected(reason)\<close>, or an exception that no handler of the gateway expects (an HTTP 500;
  the configuration is not forwarded either).
\<close>

datatype refusal = ConfigRejected string | GatewayCrash string

record edge_facts =
  ef_upstreams :: "(string \<times> string) list"
  ef_edge_names :: "string list"
  ef_portal_ranges :: "string list"
  ef_public_api :: bool
  ef_operator_ranges :: "string list"

abbreviation reject :: "string \<Rightarrow> refusal + 'a" where "reject why \<equiv> Inl (ConfigRejected why)"

definition need :: "bool \<Rightarrow> string \<Rightarrow> refusal + unit" where
  "need b why = (if b then Inr () else reject why)"

text \<open>The keys a Python \<open>set(v)\<close> has, when \<open>v\<close> can be iterated over hashable items.\<close>

fun hashable :: "json \<Rightarrow> bool" where
  "hashable (JList _) = False"
| "hashable (JObj _) = False"
| "hashable _ = True"

text \<open>\<open>set(v) == {key}\<close>.\<close>

definition set_is :: "json \<Rightarrow> string \<Rightarrow> refusal + bool" where
  "set_is v key = (case v of
     JObj d \<Rightarrow> Inr (set (dict_keys d) = {key})
   | JStr t \<Rightarrow> Inr (set (map (\<lambda>c. [c]) t) = {key})
   | JList xs \<Rightarrow> if list_all hashable xs then Inr (set xs = {JStr key}) else Inl (GatewayCrash ''unhashable type'')
   | _ \<Rightarrow> Inl (GatewayCrash ''object is not iterable''))"

text \<open>\<open>v[key]\<close> on a value whose \<open>set\<close> was just read.\<close>

definition item :: "json \<Rightarrow> string \<Rightarrow> refusal + json" where
  "item v key = (case v of
     JObj d \<Rightarrow> (case dict_get d key of Some w \<Rightarrow> Inr w | None \<Rightarrow> Inl (GatewayCrash ''KeyError''))
   | _ \<Rightarrow> Inl (GatewayCrash ''indices must be integers''))"

text \<open>\<open>v.get(key)\<close> on a value known to be a dictionary.\<close>

definition get_key :: "json \<Rightarrow> string \<Rightarrow> json" where
  "get_key v key = (case v of JObj d \<Rightarrow> (case dict_get d key of Some w \<Rightarrow> w | None \<Rightarrow> JNull) | _ \<Rightarrow> JNull)"

text \<open>\<open>str(v)\<close> starts with a prefix that begins with a letter of a slug: only a string can.\<close>

definition text_starts :: "string \<Rightarrow> json \<Rightarrow> bool" where
  "text_starts p v = starts_with p (json_text v)"

section \<open>The rate limit\<close>

definition validate_zone :: "json \<Rightarrow> string \<Rightarrow> json \<Rightarrow> refusal + unit" where
  "validate_zone route_id name zone = (let
     pre = json_text route_id @ ''-'';
     window = map_of RATE_WINDOWS (remove_prefix pre name)
   in if \<not> starts_with pre name \<or> window = None
      then reject (''rate limit zone '' @ py_repr name @ '' must be '' @ json_text route_id @ ''-minute or -second'')
      else let count = get_key zone ''max_events'' in
        need (json_eq zone (JObj [(''key'', route_id), (''window'', JStr (the window)), (''max_events'', count)])
            \<and> (case count of JInt n \<Rightarrow> 1 \<le> n \<and> n \<le> MAX_RATE | _ \<Rightarrow> False))
          (''rate limit zone '' @ py_repr name @ '' must count per application ('' @ json_text route_id
            @ '') in a '' @ the window @ '' window, 1 to '' @ str_of_int MAX_RATE @ '' requests''))"

definition validate_rate_limit :: "json \<Rightarrow> json \<Rightarrow> refusal + unit" where
  "validate_rate_limit route_id handler = (case handler of
     JObj h \<Rightarrow>
       if set (dict_keys h) \<noteq> {''handler'', ''rate_limits''}
       then reject ''a rate limit must have handler and rate_limits only''
       else (case get_key handler ''rate_limits'' of
           JObj zs \<Rightarrow>
             if \<not> json_eq (get_key handler ''handler'') (JStr ''rate_limit'') \<or> zs = []
             then reject ''the first of four handlers must be a rate limit''
             else fold_res (\<lambda>(name, zone) _. validate_zone route_id name zone) zs ()
         | _ \<Rightarrow> reject ''the first of four handlers must be a rate limit'')
   | _ \<Rightarrow> reject ''a rate limit must have handler and rate_limits only'')"

section \<open>Application routes\<close>

text \<open>The loop over the hosts of a route; the state is \<open>seen_hosts\<close>.\<close>

definition validate_host :: "libs \<Rightarrow> json \<Rightarrow> string list \<Rightarrow> refusal + string list" where
  "validate_host L host seen = (case canonicalize L False (Some (json_text host)) of
     Inl (InvalidHostname code _) \<Rightarrow>
       reject (''host '' @ json_repr host @ '' is not a valid customer hostname: '' @ code)
   | Inl _ \<Rightarrow> Inl (GatewayCrash [])
   | Inr canonical \<Rightarrow>
       if \<not> json_eq host (JStr canonical) \<or> canonical \<in> set seen
       then reject (''host '' @ json_repr host @ '' is not canonical or is duplicated'')
       else Inr (seen @ [canonical]))"

definition expected_headers :: "string \<Rightarrow> json" where
  "expected_headers host = snd (proxy_headers host)"

text \<open>\<open>int(dial.rsplit(":", 1)[1])\<close>.\<close>

definition dial_port :: "string \<Rightarrow> refusal + int" where
  "dial_port dial = (case str_rpartition (CHR '':'') dial of
     None \<Rightarrow> Inl (GatewayCrash ''IndexError'')
   | Some (_, p) \<Rightarrow> (case py_int p of None \<Rightarrow> Inl (GatewayCrash ''ValueError'') | Some n \<Rightarrow> Inr n))"

text \<open>The one upstream of the proxy and the name of the origin behind it.\<close>

definition proxy_upstream :: "edge_facts \<Rightarrow> json \<Rightarrow> refusal + string \<times> string" where
  "proxy_upstream facts proxy = (let shape = ''reverse_proxy must have exactly one upstream with dial only'' in
     case get_key proxy ''upstreams'' of
       JList [u] \<Rightarrow> bind_res (set_is u ''dial'') (\<lambda>ok.
         if \<not> ok then reject shape
         else bind_res (item u ''dial'') (\<lambda>dial.
           if \<not> hashable dial then Inl (GatewayCrash ''unhashable type'')
           else (case (case dial of JStr d \<Rightarrow> map_option (Pair d) (map_of (ef_upstreams facts) d) | _ \<Rightarrow> None) of
               None \<Rightarrow> reject (''upstream '' @ json_repr dial @ '' is not a verified active origin'')
             | Some found \<Rightarrow> Inr found)))
     | _ \<Rightarrow> reject shape)"

definition validate_proxy :: "edge_facts \<Rightarrow> json \<Rightarrow> refusal + unit" where
  "validate_proxy facts proxy =
     (if \<not> is_dict proxy \<or> get_key proxy ''handler'' \<noteq> JStr ''reverse_proxy''
      then reject ''third handler must be reverse_proxy''
      else if \<not> set (json_keys proxy) \<subseteq> {''handler'', ''upstreams'', ''headers'', ''transport''}
      then reject (''reverse_proxy keys must be a subset of '' @ str_list_repr [''handler'', ''headers'', ''transport'', ''upstreams''])
      else bind_res (proxy_upstream facts proxy) (\<lambda>(dial, origin_host).
        bind_res (dial_port dial) (\<lambda>port.
        let transport = get_key proxy ''transport'';
            own_name = origin_host_value origin_host port (transport \<noteq> JNull);
            headers = get_key proxy ''headers'' in
        if \<not> (json_eq headers (expected_headers ''{http.request.host}'') \<or> json_eq headers (expected_headers own_name))
        then reject ''reverse_proxy headers must set Host (the customer's hostname or the origin's own name) and X-Forwarded-* only''
        else need (transport = JNull \<or> json_eq transport (tls_transport origin_host))
          ''reverse_proxy transport may only enable verified TLS to the origin's own name'')))"

definition validate_handlers :: "edge_settings \<Rightarrow> edge_facts \<Rightarrow> json \<Rightarrow> json list \<Rightarrow> refusal + unit" where
  "validate_handlers es facts route_id handle =
     bind_res (if length handle = 4 then bind_res (validate_rate_limit route_id (hd handle)) (\<lambda>_. Inr (tl handle)) else Inr handle)
       (\<lambda>handle. case handle of
          [strip_step, assert_step, proxy] \<Rightarrow>
            if \<not> json_eq strip_step strip_handler then reject ''first handler must strip the reserved request headers''
            else if \<not> json_eq assert_step (assertion_subrequest es)
            then reject ''second handler must be the assert subrequest to the configured upstream''
            else validate_proxy facts proxy
        | _ \<Rightarrow> reject ''application routes must have the three standard handlers, optionally after a rate limit'')"

text \<open>The hosts a route matches on.\<close>

definition app_route_hosts :: "json \<Rightarrow> refusal + json list" where
  "app_route_hosts route = (let only_host = ''application routes must match on host only'' in
     case get_key route ''match'' of
       JList [m] \<Rightarrow> bind_res (set_is m ''host'') (\<lambda>ok.
         if \<not> ok then reject only_host
         else bind_res (item m ''host'') (\<lambda>hosts. case hosts of
             JList (h # hs) \<Rightarrow> Inr (h # hs)
           | _ \<Rightarrow> reject ''host matcher must be a non-empty list''))
     | _ \<Rightarrow> reject only_host)"

definition validate_app_route :: "libs \<Rightarrow> edge_settings \<Rightarrow> edge_facts \<Rightarrow> json \<Rightarrow> string list \<Rightarrow> refusal + string list" where
  "validate_app_route L es facts route seen =
     (if \<not> is_dict route \<or> set (json_keys route) \<noteq> {''@id'', ''match'', ''handle'', ''terminal''}
      then reject ''application routes must have @id, match, handle and terminal only''
      else if \<not> text_starts ''app-'' (get_key route ''@id'') \<or> get_key route ''terminal'' \<noteq> JBool True
      then reject ''application routes must be terminal and named app-<slug>''
      else bind_res (app_route_hosts route) (\<lambda>hosts.
        bind_res (fold_res (validate_host L) hosts seen) (\<lambda>seen'.
        bind_res (case get_key route ''handle'' of
            JList handle \<Rightarrow> validate_handlers es facts (get_key route ''@id'') handle
          | _ \<Rightarrow> reject ''application routes must have the three standard handlers, optionally after a rate limit'')
          (\<lambda>_. Inr seen'))))"

section \<open>The edge's own routes\<close>

definition route_hosts :: "json \<Rightarrow> json list option" where
  "route_hosts route = (case get_key route ''match'' of
     JList (m # _) \<Rightarrow> if is_dict m then (case get_key m ''host'' of JList hosts \<Rightarrow> Some hosts | _ \<Rightarrow> None) else None
   | _ \<Rightarrow> None)"

text \<open>
  \<open>not hosts or set(hosts) - set(facts.edge_names)\<close>, then the comparison of the leading routes
  with what the reconciler emits for these hosts in sorted order; yields the routes left.
\<close>

definition own_routes :: "edge_facts \<Rightarrow> json list \<Rightarrow> string \<Rightarrow> (string list \<Rightarrow> json list) \<Rightarrow> string \<Rightarrow> nat \<Rightarrow> refusal + json list" where
  "own_routes facts middle bad_hosts expected unexpected n = (case route_hosts (hd middle) of
     None \<Rightarrow> reject bad_hosts
   | Some hosts \<Rightarrow>
     if hosts = [] then reject bad_hosts
     else if \<not> list_all hashable hosts then Inl (GatewayCrash ''unhashable type'')
     else if \<not> set hosts \<subseteq> JStr ` set (ef_edge_names facts) then reject bad_hosts
     else if \<not> json_eq_list (take n middle) (expected (sorted_strs (map json_text hosts))) then reject unexpected
     else Inr (drop n middle))"

definition validate_portal :: "edge_settings \<Rightarrow> edge_facts \<Rightarrow> json list \<Rightarrow> refusal + json list" where
  "validate_portal es facts middle =
     (if middle \<noteq> [] \<and> is_dict (hd middle) \<and> text_starts ''portal'' (get_key (hd middle) ''@id'')
      then if ef_portal_ranges facts = [] then reject ''portal routes are not allowed: the API exposes no portal''
        else own_routes facts middle ''portal routes may only be served on the applications' edge names''
          (\<lambda>hosts. portal_routes_for hosts (ef_portal_ranges facts) (es_assert_upstream es))
          ''portal routes must be exactly the reconciler's portal routes'' 2
      else Inr middle)"

definition validate_operator :: "edge_settings \<Rightarrow> edge_facts \<Rightarrow> json list \<Rightarrow> refusal + json list" where
  "validate_operator es facts middle =
     (if middle \<noteq> [] \<and> is_dict (hd middle)
        \<and> get_key (hd middle) ''@id'' \<in> {JStr ''operator'', JStr ''operator-denied''}
      then if ef_operator_ranges facts = [] then reject ''operator routes are not allowed: the API exposes no operator API''
        else own_routes facts middle ''operator routes may only be served on the edge's own names''
          (\<lambda>hosts. operator_routes_for hosts (ef_operator_ranges facts) (es_assert_upstream es))
          ''operator routes must be exactly the reconciler's operator routes'' 2
      else Inr middle)"

definition validate_api :: "edge_settings \<Rightarrow> edge_facts \<Rightarrow> json list \<Rightarrow> refusal + json list" where
  "validate_api es facts middle =
     (if middle \<noteq> [] \<and> is_dict (hd middle) \<and> get_key (hd middle) ''@id'' = JStr ''api''
      then if \<not> ef_public_api facts then reject ''the api route is not allowed: the API is not public''
        else own_routes facts middle ''the api route may only be served on the edge's own names''
          (\<lambda>hosts. api_route_for hosts (es_assert_upstream es))
          ''the api route must be exactly the reconciler's api route'' 1
      else Inr middle)"

section \<open>The whole payload\<close>

text \<open>\<open>for key, value in expected.items(): if key != except and given.get(key) != value: raise\<close>.\<close>

definition same_values :: "string \<Rightarrow> string \<Rightarrow> dict \<Rightarrow> json \<Rightarrow> refusal + unit" where
  "same_values label except expected given = fold_res (\<lambda>(key, v) _.
     need (key = except \<or> json_eq (get_key given key) v) (label @ ''.'' @ key @ '' must be '' @ json_repr v)) expected ()"

definition validate_routes :: "libs \<Rightarrow> edge_settings \<Rightarrow> edge_facts \<Rightarrow> json \<Rightarrow> refusal + string list" where
  "validate_routes L es facts routes = (case routes of
     JList rs \<Rightarrow>
       if length rs < 2 then reject ''routes must be a list starting with the health route''
       else if \<not> json_eq (hd rs) health_route then reject ''first route must be the health route''
       else if \<not> json_eq (last rs) unmatched_route then reject ''last route must be the unmatched route''
       else bind_res (validate_portal es facts (butlast (tl rs))) (\<lambda>middle.
         bind_res (validate_operator es facts middle) (\<lambda>middle.
         bind_res (validate_api es facts middle) (\<lambda>middle.
         fold_res (validate_app_route L es facts) middle [])))
   | _ \<Rightarrow> reject ''routes must be a list starting with the health route'')"

definition validate_http :: "libs \<Rightarrow> edge_settings \<Rightarrow> edge_facts \<Rightarrow> json \<Rightarrow> refusal + string list" where
  "validate_http L es facts http = (let expected_http = http_app es [];
       expected_server = server es []; allowed_keys = dict_keys expected_server in
     case http of
       JObj h \<Rightarrow>
         if set (dict_keys h) \<noteq> set (dict_keys expected_http)
         then reject (''http keys must be exactly '' @ str_list_repr (sorted_strs (dict_keys expected_http)))
         else bind_res (same_values ''http'' ''servers'' expected_http http) (\<lambda>_.
           case get_key http ''servers'' of
             JObj servers \<Rightarrow>
               if set (dict_keys servers) \<noteq> {SERVER_NAME}
               then reject (''exactly one server named '' @ py_repr SERVER_NAME @ '' is allowed'')
               else (case get_key (JObj servers) SERVER_NAME of
                   JObj srv \<Rightarrow>
                     if \<not> set (dict_keys srv) \<subseteq> set allowed_keys
                     then reject (''server keys must be a subset of '' @ str_list_repr (sorted_strs allowed_keys))
                     else bind_res (same_values ''server'' ''routes'' expected_server (JObj srv)) (\<lambda>_.
                       validate_routes L es facts (get_key (JObj srv) ''routes''))
                 | _ \<Rightarrow> reject (''server keys must be a subset of '' @ str_list_repr (sorted_strs allowed_keys)))
           | _ \<Rightarrow> reject (''exactly one server named '' @ py_repr SERVER_NAME @ '' is allowed''))
     | _ \<Rightarrow> reject (''http keys must be exactly '' @ str_list_repr (sorted_strs (dict_keys expected_http))))"

definition validate_apps :: "libs \<Rightarrow> json \<Rightarrow> edge_settings \<Rightarrow> edge_facts \<Rightarrow> refusal + unit" where
  "validate_apps L apps es facts = (case apps of
     JObj a \<Rightarrow>
       let unexpected = filter (\<lambda>k. k \<notin> {''http'', ''tls''}) (dict_keys a) in
       if unexpected \<noteq> [] then reject (''unexpected apps: '' @ str_list_repr (sorted_strs unexpected))
       else bind_res (validate_http L es facts (get_key apps ''http'')) (\<lambda>_.
         let tls = get_key apps ''tls'' in
         if es_disable_https es then need (tls = JNull) ''tls is not allowed while HTTPS is disabled''
         else need (json_eq tls (expected_tls es)) ''tls automation must be exactly the on-demand policy'')
   | _ \<Rightarrow> reject ''apps must be an object'')"

section \<open>What the management API states\<close>

text \<open>
  The answer of \<open>GET /internal/edge/origins\<close> as \<open>api_origins_provider\<close> reads it: the dialable
  addresses of every verified active origin of an active application, sorted by name and
  address; of two names with one address the later one is kept, as in a dictionary.
\<close>

definition offered_origins :: "db \<Rightarrow> verified_origin list" where
  "offered_origins s = filter (\<lambda>x. o_is_active x \<and> o_status x = Origin_Verified
     \<and> list_ex (\<lambda>a. app_id a = o_application_id x \<and> app_status a = App_Active) (applications s)) (origins s)"

definition offered_upstreams :: "network \<Rightarrow> bool \<Rightarrow> db \<Rightarrow> (string \<times> string) list" where
  "offered_upstreams N allow_private s = by_text snd (by_text fst (concat (map (\<lambda>x.
     case resolve_dials N (o_host x) (o_port x) allow_private of
       Inl _ \<Rightarrow> [] | Inr dials \<Rightarrow> map (\<lambda>d. (d, o_host x)) dials) (offered_origins s))))"

definition edge_origins :: "network \<Rightarrow> bool \<Rightarrow> db \<Rightarrow> edge_settings \<Rightarrow> error + edge_facts" where
  "edge_origins N allow_private s es =
     bind_res (portal_ranges es) (\<lambda>portal. bind_res (operator_ranges es) (\<lambda>operator.
       Inr \<lparr>ef_upstreams = rev (offered_upstreams N allow_private s), ef_edge_names = portal_hosts s (Some es),
         ef_portal_ranges = portal, ef_public_api = es_public_api es, ef_operator_ranges = operator\<rparr>))"

text \<open>The handler of \<open>POST /config/apps\<close>: what Caddy is sent, if anything, or the status of the refusal.\<close>

definition set_apps :: "libs \<Rightarrow> edge_settings \<Rightarrow> error + edge_facts \<Rightarrow> json \<Rightarrow> int + json" where
  "set_apps L es provided payload = (case provided of
     Inl _ \<Rightarrow> Inl 503
   | Inr facts \<Rightarrow> (case validate_apps L payload es facts of
       Inl (ConfigRejected _) \<Rightarrow> Inl 400
     | Inl (GatewayCrash _) \<Rightarrow> Inl 500
     | Inr _ \<Rightarrow> Inr payload))"

end
