(* ===== verification/Json_Text.thy ===== *)
theory Json_Text
  imports Gateway
begin

text \<open>
  Reading what \<open>Encoding\<close> writes: \<open>base64.urlsafe_b64encode\<close> and \<open>urlsafe_b64decode\<close> without
  padding, and \<open>json.loads\<close>. Decoding a value the encoder wrote gives it back.
\<close>

section \<open>Base64\<close>

definition b64_alphabet :: string where
  "b64_alphabet = ''ABCDEFGHIJKLMNOPQRSTUVWXYZabcdefghijklmnopqrstuvwxyz0123456789-_''"

definition b64_char :: "int \<Rightarrow> char" where "b64_char n = b64_alphabet ! nat n"

text \<open>\<open>base64.urlsafe_b64encode(data).rstrip(b"=")\<close>.\<close>

fun b64 :: "string \<Rightarrow> string" where
  "b64 [] = []"
| "b64 [a] = (let x = of_char a in [b64_char (x div 4), b64_char (x mod 4 * 16)])"
| "b64 [a, b] = (let x = of_char a; y = of_char b in
     [b64_char (x div 4), b64_char (x mod 4 * 16 + y div 16), b64_char (y mod 16 * 4)])"
| "b64 (a # b # c # rest) = (let x = of_char a; y = of_char b; z = of_char c in
     [b64_char (x div 4), b64_char (x mod 4 * 16 + y div 16), b64_char (y mod 16 * 4 + z div 64), b64_char (z mod 64)]
     @ b64 rest)"

text \<open>The decoding table after \<open>-_\<close> were translated to \<open>+/\<close>: both spellings are read.\<close>

definition b64_val :: "char \<Rightarrow> int option" where
  "b64_val c = (let n = of_char c :: int in
     if 65 \<le> n \<and> n \<le> 90 then Some (n - 65)
     else if 97 \<le> n \<and> n \<le> 122 then Some (n - 71)
     else if 48 \<le> n \<and> n \<le> 57 then Some (n + 4)
     else if c = CHR ''-'' \<or> c = CHR ''+'' then Some 62
     else if c = CHR ''_'' \<or> c = CHR 0x2F then Some 63 else None)"

text \<open>
  \<open>binascii.a2b_base64\<close>, not strict: characters outside the alphabet are skipped; the state is
  the position in the group of four, the bits left over, and the padding seen.
\<close>

fun a2b :: "int \<Rightarrow> int \<Rightarrow> int \<Rightarrow> string \<Rightarrow> string option" where
  "a2b quad left pads [] = (if quad = 0 then Some [] else None)"
| "a2b quad left pads (c # cs) =
     (if c = CHR ''='' then
        (if 2 \<le> quad then (if 4 \<le> quad + pads + 1 then Some [] else a2b quad left (pads + 1) cs)
         else a2b quad left pads cs)
      else case b64_val c of
        None \<Rightarrow> a2b quad left pads cs
      | Some v \<Rightarrow>
        if quad = 0 then a2b 1 v 0 cs
        else if quad = 1 then map_option ((#) (char_of (left * 4 + v div 16))) (a2b 2 (v mod 16) 0 cs)
        else if quad = 2 then map_option ((#) (char_of (left * 16 + v div 4))) (a2b 3 (v mod 4) 0 cs)
        else map_option ((#) (char_of (left * 64 + v))) (a2b 0 0 0 cs))"

text \<open>\<open>_unb64\<close>; \<open>None\<close> is a \<open>ValueError\<close>.\<close>

definition unb64 :: "string \<Rightarrow> string option" where
  "unb64 t = (if ascii t then a2b 0 0 0 (t @ replicate ((4 - length t mod 4) mod 4) (CHR ''='')) else None)"

lemma of_char_bounds: "0 \<le> (of_char c :: int)" "(of_char c :: int) < 256"
  by (cases c; simp add: of_char_def horner_sum_simps)+

lemma b64_val_char:
  assumes "0 \<le> n" and "n < 64"
  shows "b64_val (b64_char n) = Some n \<and> b64_char n \<noteq> CHR ''='' \<and> b64_char n \<noteq> CHR ''.'' \<and> (of_char (b64_char n) :: int) < 128"
proof -
  have "list_all (\<lambda>n. b64_val (b64_char n) = Some n \<and> b64_char n \<noteq> CHR ''='' \<and> b64_char n \<noteq> CHR ''.''
      \<and> (of_char (b64_char n) :: int) < 128) [0..63]" by code_simp
  then show ?thesis using assms by (simp add: list_all_iff)
qed

lemma a2b_step:
  assumes "0 \<le> n" and "n < 64"
  shows "a2b 0 l p (b64_char n # cs) = a2b 1 n 0 cs"
    and "a2b 1 l p (b64_char n # cs) = map_option ((#) (char_of (l * 4 + n div 16))) (a2b 2 (n mod 16) 0 cs)"
    and "a2b 2 l p (b64_char n # cs) = map_option ((#) (char_of (l * 16 + n div 4))) (a2b 3 (n mod 4) 0 cs)"
    and "a2b 3 l p (b64_char n # cs) = map_option ((#) (char_of (l * 64 + n))) (a2b 0 0 0 cs)"
  using b64_val_char [OF assms] by simp_all

lemma char_of_of_char_int [simp]: "char_of (of_char c :: int) = c"
  by (rule char_of_char)

text \<open>The sextets of one, two and three bytes, and the bytes they hold.\<close>

lemma byte_split:
  fixes x y :: int
  assumes "0 \<le> x" "x < 256" "0 \<le> y" "y < 256"
  shows "0 \<le> x div 4" "x div 4 < 64" "0 \<le> x mod 4 * 16 + y div 16" "x mod 4 * 16 + y div 16 < 64"
    "0 \<le> x mod 16 * 4 + y div 64" "x mod 16 * 4 + y div 64 < 64" "0 \<le> x mod 64" "x mod 64 < 64"
proof -
  have "x mod 4 \<le> 3" "0 \<le> x mod 4" "y div 16 \<le> 15" "0 \<le> y div 16" "x mod 16 \<le> 15" "0 \<le> x mod 16" "y div 64 \<le> 3" "0 \<le> y div 64"
    "0 \<le> x div 4" "x div 4 \<le> 63" using assms by simp_all
  then show "0 \<le> x div 4" "x div 4 < 64" "0 \<le> x mod 4 * 16 + y div 16" "x mod 4 * 16 + y div 16 < 64"
    "0 \<le> x mod 16 * 4 + y div 64" "x mod 16 * 4 + y div 64 < 64" by linarith+
qed simp_all

lemma byte_tail: "0 \<le> x mod 4 * (16 :: int)" "x mod 4 * (16 :: int) < 64" "0 \<le> x mod 16 * (4 :: int)" "x mod 16 * (4 :: int) < 64"
  by simp_all

lemma byte_join:
  fixes x y z :: int
  assumes "0 \<le> y" "y < 256" "0 \<le> z" "z < 256"
  shows "x div 4 * 4 + x mod 4 * 16 div 16 = x"
    and "x div 4 * 4 + (x mod 4 * 16 + y div 16) div 16 = x"
    and "(x mod 4 * 16 + y div 16) mod 16 * 16 + y mod 16 * 4 div 4 = y"
    and "(x mod 4 * 16 + y div 16) mod 16 * 16 + (y mod 16 * 4 + z div 64) div 4 = y"
    and "(y mod 16 * 4 + z div 64) mod 4 * 64 + z mod 64 = z"
proof -
  have b: "0 \<le> y div 16" "y div 16 < 16" "0 \<le> z div 64" "z div 64 < 4" using assms by simp_all
  have d: "(u * k + v) div k = u" "(u * k + v) mod k = v" if "0 \<le> v" "v < k" for u v k :: int
    using that by (simp_all only: mult.commute [of u k]) (simp_all add: mod_pos_pos_trivial div_pos_pos_trivial)
  have m: "u * 16 div 16 = u" "u * 4 div 4 = u" for u :: int by (rule nonzero_mult_div_cancel_right, simp)+
  show "x div 4 * 4 + x mod 4 * 16 div 16 = x" unfolding m by (rule div_mult_mod_eq)
  show "x div 4 * 4 + (x mod 4 * 16 + y div 16) div 16 = x" unfolding d [OF b(1,2)] by (rule div_mult_mod_eq)
  show "(x mod 4 * 16 + y div 16) mod 16 * 16 + y mod 16 * 4 div 4 = y" unfolding d [OF b(1,2)] m by (rule div_mult_mod_eq)
  show "(x mod 4 * 16 + y div 16) mod 16 * 16 + (y mod 16 * 4 + z div 64) div 4 = y"
    unfolding d [OF b(1,2)] d [OF b(3,4)] by (rule div_mult_mod_eq)
  show "(y mod 16 * 4 + z div 64) mod 4 * 64 + z mod 64 = z" unfolding d [OF b(3,4)] by (rule div_mult_mod_eq)
qed

lemma a2b_quantum:
  assumes "0 \<le> p" "p < 64" "0 \<le> q" "q < 64"
  shows "a2b 0 0 0 (b64_char p # b64_char q # ''=='') = Some [char_of (p * 4 + q div 16)]"
    and "0 \<le> r \<Longrightarrow> r < 64 \<Longrightarrow> a2b 0 0 0 (b64_char p # b64_char q # b64_char r # ''='')
      = Some [char_of (p * 4 + q div 16), char_of (q mod 16 * 16 + r div 4)]"
    and "0 \<le> r \<Longrightarrow> r < 64 \<Longrightarrow> 0 \<le> s \<Longrightarrow> s < 64 \<Longrightarrow> a2b 0 0 0 (b64_char p # b64_char q # b64_char r # b64_char s # cs)
      = map_option (\<lambda>bs. char_of (p * 4 + q div 16) # char_of (q mod 16 * 16 + r div 4) # char_of (r mod 4 * 64 + s) # bs) (a2b 0 0 0 cs)"
proof -
  note ab = a2b_step(1) [OF assms(1,2)] a2b_step(2) [OF assms(3,4)]
  show "a2b 0 0 0 (b64_char p # b64_char q # ''=='') = Some [char_of (p * 4 + q div 16)]"
    unfolding ab by simp
  assume r: "0 \<le> r" "r < 64"
  show "a2b 0 0 0 (b64_char p # b64_char q # b64_char r # ''='')
      = Some [char_of (p * 4 + q div 16), char_of (q mod 16 * 16 + r div 4)]"
    unfolding ab a2b_step(3) [OF r] by simp
  assume s: "0 \<le> s" "s < 64"
  show "a2b 0 0 0 (b64_char p # b64_char q # b64_char r # b64_char s # cs)
      = map_option (\<lambda>bs. char_of (p * 4 + q div 16) # char_of (q mod 16 * 16 + r div 4) # char_of (r mod 4 * 64 + s) # bs) (a2b 0 0 0 cs)"
    unfolding ab a2b_step(3) [OF r] a2b_step(4) [OF s] by (simp add: option.map_comp comp_def)
qed

lemma a2b_b64: "a2b 0 0 0 (b64 bs @ replicate ((4 - length (b64 bs) mod 4) mod 4) (CHR ''='')) = Some bs"
proof (induction bs rule: b64.induct)
  case (2 a)
  have pad: "b64 [a] @ replicate ((4 - length (b64 [a]) mod 4) mod 4) (CHR ''='')
      = [b64_char (of_char a div 4), b64_char (of_char a mod 4 * 16)] @ ''==''" by (simp add: Let_def numeral_2_eq_2)
  show ?case
    unfolding pad append.simps a2b_quantum(1) [OF byte_split(1,2) [OF of_char_bounds of_char_bounds, of a] byte_tail(1,2)]
      byte_join(1) [OF of_char_bounds of_char_bounds] char_of_of_char_int by (rule refl)
next
  case (3 a b)
  have pad: "b64 [a, b] @ replicate ((4 - length (b64 [a, b]) mod 4) mod 4) (CHR ''='')
      = [b64_char (of_char a div 4), b64_char (of_char a mod 4 * 16 + of_char b div 16), b64_char (of_char b mod 16 * 4)] @ ''=''"
    by (simp add: Let_def)
  show ?case
    unfolding pad append.simps a2b_quantum(2) [OF byte_split(1,2) [OF of_char_bounds of_char_bounds, of a]
        byte_split(3,4) [OF of_char_bounds of_char_bounds, of a b] byte_tail(3,4)]
      byte_join(2,3) [OF of_char_bounds of_char_bounds] char_of_of_char_int by (rule refl)
next
  case (4 a b c rest)
  have pad: "b64 (a # b # c # rest) @ replicate ((4 - length (b64 (a # b # c # rest)) mod 4) mod 4) (CHR ''='')
      = [b64_char (of_char a div 4), b64_char (of_char a mod 4 * 16 + of_char b div 16),
         b64_char (of_char b mod 16 * 4 + of_char c div 64), b64_char (of_char c mod 64)]
        @ b64 rest @ replicate ((4 - length (b64 rest) mod 4) mod 4) (CHR ''='')"
    by (simp add: Let_def)
  show ?case
    unfolding pad append.simps a2b_quantum(3) [OF byte_split(1,2) [OF of_char_bounds of_char_bounds, of a]
        byte_split(3,4) [OF of_char_bounds of_char_bounds, of a b] byte_split(5,6) [OF of_char_bounds of_char_bounds, of b c]
        byte_split(7,8) [OF of_char_bounds of_char_bounds, of c]]
      byte_join(2,4,5) [OF of_char_bounds of_char_bounds] char_of_of_char_int
    using 4 by simp
qed simp

lemma b64_charI: "0 \<le> n \<Longrightarrow> n < 64 \<Longrightarrow> \<exists>m. 0 \<le> m \<and> m < 64 \<and> b64_char n = b64_char m"
  by blast

lemmas b64_charIs = b64_charI [OF byte_split(1,2) [OF of_char_bounds of_char_bounds]] b64_charI [OF byte_split(3,4) [OF of_char_bounds of_char_bounds]] b64_charI [OF byte_split(5,6) [OF of_char_bounds of_char_bounds]]
  b64_charI [OF byte_split(7,8) [OF of_char_bounds of_char_bounds]] b64_charI [OF byte_tail(1,2)] b64_charI [OF byte_tail(3,4)]

lemma b64_chars: "c \<in> set (b64 bs) \<Longrightarrow> \<exists>n. 0 \<le> n \<and> n < 64 \<and> c = b64_char n"
proof (induction bs rule: b64.induct)
  case (4 a b d rest)
  then have "c \<in> set (b64 rest) \<or> c = b64_char (of_char a div 4) \<or> c = b64_char (of_char a mod 4 * 16 + of_char b div 16)
      \<or> c = b64_char (of_char b mod 16 * 4 + of_char d div 64) \<or> c = b64_char (of_char d mod 64)"
    unfolding b64.simps Let_def by auto
  then show ?case
    by (elim disjE) (erule 4(1) [OF refl refl refl], (simp only:, rule b64_charIs(1-4))+)
next
  case (2 a)
  then have "c = b64_char (of_char a div 4) \<or> c = b64_char (of_char a mod 4 * 16)" unfolding b64.simps Let_def by auto
  then show ?case by (elim disjE) (simp only:, rule b64_charIs(1), simp only:, rule b64_charIs(5))
next
  case (3 a b)
  then have "c = b64_char (of_char a div 4) \<or> c = b64_char (of_char a mod 4 * 16 + of_char b div 16) \<or> c = b64_char (of_char b mod 16 * 4)"
    unfolding b64.simps Let_def by auto
  then show ?case
    by (elim disjE) (simp only:, rule b64_charIs(1),
      simp only:, rule b64_charIs(2), simp only:, rule b64_charIs(6))
qed simp

lemma b64_free: "CHR ''.'' \<notin> set (b64 bs)"
proof
  assume "CHR ''.'' \<in> set (b64 bs)"
  from b64_chars [OF this] obtain n where n: "0 \<le> n" "n < 64" "CHR ''.'' = b64_char n" by (elim exE conjE)
  from b64_val_char [OF n(1,2)] have "b64_char n \<noteq> CHR ''.''" by (elim conjE)
  with n(3) show False by simp
qed

lemma ascii_b64 [simp]: "ascii (b64 bs)"
  unfolding ascii_def list_all_iff
proof
  fix c assume "c \<in> set (b64 bs)"
  from b64_chars [OF this] obtain n where n: "0 \<le> n" "n < 64" "c = b64_char n" by (elim exE conjE)
  from b64_val_char [OF n(1,2)] have "(of_char c :: int) < 128" unfolding n(3) by (elim conjE)
  moreover have "int (of_char c) = of_char c" by (rule of_nat_of_char)
  ultimately show "(of_char c :: nat) < 128" by linarith
qed

text \<open>A writer and the reader that undoes it.\<close>

locale codec =
  fixes encode :: "'a \<Rightarrow> string" and decode :: "string \<Rightarrow> 'a option"
  assumes decode_encode: "decode (encode x) = Some x"
begin

lemma encode_inject: "encode x = encode y \<longleftrightarrow> x = y"
  by (metis decode_encode option.inject)

lemma read_exactly: "t = encode y \<Longrightarrow> decode t = Some x \<longleftrightarrow> x = y"
  by (auto simp: decode_encode)

end

interpretation base64: codec b64 unb64
  by unfold_locales (simp add: unb64_def a2b_b64)

declare base64.decode_encode [simp]

section \<open>Reading JSON\<close>

text \<open>
  \<open>json.loads\<close> on bytes. A text with a number that is not an integer, with a character above
  U+00FF, with a byte outside ASCII or with a NUL byte is outside the model and is answered by
  \<open>Json_Unmodelled\<close>; \<open>Json_Fuel\<close> is never answered (\<open>json_loads_fuel\<close>).
\<close>

datatype json_error = JSONDecodeError | Json_Unmodelled | Json_Fuel

definition json_ws :: "string \<Rightarrow> string" where
  "json_ws = dropWhile (\<lambda>c. c \<in> {CHR 0x20, CHR 0x09, CHR 0x0A, CHR 0x0D})"

definition json_hex :: "char \<Rightarrow> int option" where
  "json_hex c = (let n = of_char c :: int in
     if 48 \<le> n \<and> n \<le> 57 then Some (n - 48)
     else if 97 \<le> n \<and> n \<le> 102 then Some (n - 87)
     else if 65 \<le> n \<and> n \<le> 70 then Some (n - 55) else None)"

definition simple_escape :: "char \<Rightarrow> char option" where
  "simple_escape c = map_of [(CHR 0x22, CHR 0x22), (CHR 0x5C, CHR 0x5C), (CHR 0x2F, CHR 0x2F), (CHR ''b'', CHR 0x08),
     (CHR ''f'', CHR 0x0C), (CHR ''n'', CHR 0x0A), (CHR ''r'', CHR 0x0D), (CHR ''t'', CHR 0x09)] c"

definition push :: "char \<Rightarrow> json_error + string \<times> string \<Rightarrow> json_error + string \<times> string" where
  "push c r = bind_res r (\<lambda>(s, rest). Inr (c # s, rest))"

text \<open>A string after its opening quote, with the text after its closing quote.\<close>

fun parse_string :: "string \<Rightarrow> json_error + string \<times> string" where
  "parse_string [] = Inl JSONDecodeError"
| "parse_string (c # cs) =
     (if c = CHR 0x22 then Inr ([], cs)
      else if c = CHR 0x5C then (case cs of
          [] \<Rightarrow> Inl JSONDecodeError
        | e # es \<Rightarrow>
          if e = CHR ''u'' then (case es of
              h1 # h2 # h3 # h4 # rest \<Rightarrow> (case (json_hex h1, json_hex h2, json_hex h3, json_hex h4) of
                  (Some a, Some b, Some x, Some y) \<Rightarrow>
                    if a = 0 \<and> b = 0 then push (char_of (x * 16 + y)) (parse_string rest) else Inl Json_Unmodelled
                | _ \<Rightarrow> Inl JSONDecodeError)
            | _ \<Rightarrow> Inl JSONDecodeError)
          else (case simple_escape e of None \<Rightarrow> Inl JSONDecodeError | Some x \<Rightarrow> push x (parse_string es)))
      else if (of_char c :: int) < 32 then Inl JSONDecodeError
      else push c (parse_string cs))"

definition parse_number :: "string \<Rightarrow> json_error + json \<times> string" where
  "parse_number s = (let
     (sign, t) = (if s \<noteq> [] \<and> hd s = CHR ''-'' then (''-'', tl s) else ([], s));
     digits = (if t \<noteq> [] \<and> hd t = CHR ''0'' then ''0'' else takeWhile is_digit t);
     rest = drop (length digits) t
   in if digits = [] then (if sign \<noteq> [] \<and> starts_with ''Infinity'' t then Inl Json_Unmodelled else Inl JSONDecodeError)
      else if rest \<noteq> [] \<and> hd rest \<in> {CHR ''.'', CHR ''e'', CHR ''E''} then Inl Json_Unmodelled
      else (case py_int (sign @ digits) of None \<Rightarrow> Inl JSONDecodeError | Some i \<Rightarrow> Inr (JInt i, rest)))"

fun parse_value :: "nat \<Rightarrow> string \<Rightarrow> json_error + json \<times> string"
  and parse_items :: "nat \<Rightarrow> string \<Rightarrow> json_error + json list \<times> string"
  and parse_members :: "nat \<Rightarrow> string \<Rightarrow> json_error + dict \<times> string" where
  "parse_value 0 s = Inl Json_Fuel"
| "parse_value (Suc n) s =
     (if s = [] then Inl JSONDecodeError
      else if hd s = CHR 0x22 then bind_res (parse_string (tl s)) (\<lambda>(t, rest). Inr (JStr t, rest))
      else if hd s = CHR 0x7B then (let t = json_ws (tl s) in
        if t \<noteq> [] \<and> hd t = CHR 0x7D then Inr (JObj [], tl t)
        else bind_res (parse_members n t) (\<lambda>(d, rest). Inr (JObj (foldl (\<lambda>d (k, v). dict_set d k v) [] d), rest)))
      else if hd s = CHR ''['' then (let t = json_ws (tl s) in
        if t \<noteq> [] \<and> hd t = CHR '']'' then Inr (JList [], tl t)
        else bind_res (parse_items n t) (\<lambda>(xs, rest). Inr (JList xs, rest)))
      else if starts_with ''null'' s then Inr (JNull, drop 4 s)
      else if starts_with ''true'' s then Inr (JBool True, drop 4 s)
      else if starts_with ''false'' s then Inr (JBool False, drop 5 s)
      else if starts_with ''NaN'' s \<or> starts_with ''Infinity'' s then Inl Json_Unmodelled
      else parse_number s)"
| "parse_items 0 s = Inl Json_Fuel"
| "parse_items (Suc n) s = bind_res (parse_value n s) (\<lambda>(v, rest). let t = json_ws rest in
     if t = [] then Inl JSONDecodeError
     else if hd t = CHR '']'' then Inr ([v], tl t)
     else if hd t = CHR '','' then bind_res (parse_items n (json_ws (tl t))) (\<lambda>(vs, rest). Inr (v # vs, rest))
     else Inl JSONDecodeError)"
| "parse_members 0 s = Inl Json_Fuel"
| "parse_members (Suc n) s =
     (if s = [] \<or> hd s \<noteq> CHR 0x22 then Inl JSONDecodeError
      else bind_res (parse_string (tl s)) (\<lambda>(k, rest). let t = json_ws rest in
        if t = [] \<or> hd t \<noteq> CHR '':'' then Inl JSONDecodeError
        else bind_res (parse_value n (json_ws (tl t))) (\<lambda>(v, rest). let t = json_ws rest in
          if t = [] then Inl JSONDecodeError
          else if hd t = CHR 0x7D then Inr ([(k, v)], tl t)
          else if hd t = CHR '','' then bind_res (parse_members n (json_ws (tl t))) (\<lambda>(d, rest). Inr ((k, v) # d, rest))
          else Inl JSONDecodeError)))"

definition json_loads :: "string \<Rightarrow> json_error + json" where
  "json_loads bytes =
     (if \<not> ascii bytes \<or> CHR 0x00 \<in> set bytes then Inl Json_Unmodelled
      else bind_res (parse_value (Suc (2 * length bytes)) (json_ws bytes)) (\<lambda>(v, rest).
        if json_ws rest = [] then Inr v else Inl JSONDecodeError))"

lemma every_char:
  assumes "list_all P (map char_of [0..255 :: int])"
  shows "P c"
proof -
  have "(of_char c :: int) \<in> set [0..255]" using of_char_bounds [of c] by simp
  then have "char_of (of_char c :: int) \<in> set (map char_of [0..255 :: int])" by (simp only: set_map) (rule imageI)
  with assms show ?thesis by (auto simp: list_all_iff)
qed

text \<open>How each character is written, and that it is read back.\<close>

definition escape_ok :: "char \<Rightarrow> bool" where
  "escape_ok c = (case json_escape c of
     [x] \<Rightarrow> x = c \<and> x \<noteq> CHR 0x22 \<and> x \<noteq> CHR 0x5C \<and> \<not> (of_char x :: int) < 32
   | [b, e] \<Rightarrow> b = CHR 0x5C \<and> e \<noteq> CHR ''u'' \<and> simple_escape e = Some c
   | [b, e, h1, h2, h3, h4] \<Rightarrow> b = CHR 0x5C \<and> e = CHR ''u'' \<and> json_hex h1 = Some 0 \<and> json_hex h2 = Some 0
       \<and> (case (json_hex h3, json_hex h4) of (Some x, Some y) \<Rightarrow> char_of (x * 16 + y) = c | _ \<Rightarrow> False)
   | _ \<Rightarrow> False)"

lemma escape_ok: "escape_ok c"
  by (rule every_char [of escape_ok]) code_simp

lemma escape_plain: "\<forall>x\<in>set (json_escape c). (of_char x :: nat) < 128 \<and> x \<noteq> CHR 0x00"
proof -
  have "list_all (\<lambda>x. (of_char x :: nat) < 128 \<and> x \<noteq> CHR 0x00) (json_escape c)"
    by (rule every_char [of "\<lambda>c. list_all (\<lambda>x. (of_char x :: nat) < 128 \<and> x \<noteq> CHR 0x00) (json_escape c)"]) code_simp
  then show ?thesis by (simp add: list_all_iff)
qed

lemma parse_escape: "parse_string (json_escape c @ xs) = push c (parse_string xs)"
proof -
  from escape_ok [of c] consider x where "json_escape c = [x]" "x = c" "x \<noteq> CHR 0x22" "x \<noteq> CHR 0x5C" "\<not> (of_char x :: int) < 32"
    | e where "json_escape c = [CHR 0x5C, e]" "e \<noteq> CHR ''u''" "simple_escape e = Some c"
    | h1 h2 h3 h4 x y where "json_escape c = [CHR 0x5C, CHR ''u'', h1, h2, h3, h4]" "json_hex h1 = Some 0" "json_hex h2 = Some 0"
      "json_hex h3 = Some x" "json_hex h4 = Some y" "char_of (x * 16 + y) = c"
    unfolding escape_ok_def by (auto split: list.splits option.splits)
  then show ?thesis by cases simp_all
qed

lemma parse_string_json_str: "parse_string (concat (map json_escape t) @ CHR 0x22 # rest) = Inr (t, rest)"
  by (induction t) (simp_all add: parse_escape push_def)

lemma json_str_parts: "json_str t \<noteq> []" "hd (json_str t) = CHR 0x22" "tl (json_str t) = concat (map json_escape t) @ [CHR 0x22]"
  by (simp_all add: json_str_def)

lemma parse_value_str: "parse_value (Suc n) (json_str t @ rest) = Inr (JStr t, rest)"
  using parse_string_json_str [of t rest] by (simp add: json_str_def)

lemma str_of_nat_first: "n \<noteq> 0 \<Longrightarrow> hd (str_of_nat n) \<noteq> CHR ''0''"
proof (induction n rule: str_of_nat.induct)
  case (1 n)
  show ?case
  proof (cases "n < 10")
    case True
    have "list_all (\<lambda>n. digit_char n \<noteq> CHR ''0'') [1..<10]" by code_simp
    with 1 True have "digit_char n \<noteq> CHR ''0''" by (simp add: list_all_iff)
    then show ?thesis by (subst str_of_nat.simps) (simp add: True)
  next
    case False
    with 1 show ?thesis by (subst str_of_nat.simps) simp
  qed
qed

definition ends_number :: "string \<Rightarrow> bool" where
  "ends_number rest = (rest = [] \<or> \<not> is_digit (hd rest) \<and> hd rest \<notin> {CHR ''.'', CHR ''e'', CHR ''E''})"

lemma parse_number_int:
  assumes "\<bar>i\<bar> < 10 ^ Suc k" and "Suc k \<le> 4300" and "ends_number rest"
  shows "parse_number (str_of_int i @ rest) = Inr (JInt i, rest)"
proof -
  define ds where "ds = str_of_nat (nat \<bar>i\<bar>)"
  have ds: "ds \<noteq> []" "\<forall>c\<in>set ds. is_digit c" by (auto simp: ds_def str_of_nat_digits)
  have minus: "\<not> is_digit (CHR ''-'')" by code_simp
  have take: "takeWhile is_digit (ds @ rest) = ds"
    using ds(2) assms(3) by (cases rest) (auto simp: takeWhile_append2 ends_number_def)
  have digits: "(if ds @ rest \<noteq> [] \<and> hd (ds @ rest) = CHR ''0'' then ''0'' else takeWhile is_digit (ds @ rest)) = ds"
  proof (cases "nat \<bar>i\<bar> = 0")
    case True
    then have "ds = ''0''" unfolding ds_def True by code_simp
    then show ?thesis by simp
  next
    case False
    with str_of_nat_first ds(1) take show ?thesis by (auto simp: ds_def)
  qed
  have sign: "(if str_of_int i @ rest \<noteq> [] \<and> hd (str_of_int i @ rest) = CHR ''-'' then (''-'', tl (str_of_int i @ rest))
      else ([], str_of_int i @ rest)) = (if i < 0 then ''-'' else [], ds @ rest)"
  proof (cases "i < 0")
    case True
    then show ?thesis by (simp add: str_of_int_def ds_def)
  next
    case False
    then have "str_of_int i = ds" by (simp add: str_of_int_def ds_def)
    moreover have "hd ds \<noteq> CHR ''-''" using ds minus by (metis list.set_sel(1))
    ultimately show ?thesis using ds(1) False by simp
  qed
  have "(if i < 0 then ''-'' else []) @ ds = str_of_int i" by (simp add: str_of_int_def ds_def)
  then have "py_int ((if i < 0 then ''-'' else []) @ ds) = Some i" using py_int_str_of_int [OF assms(1,2)] by simp
  then show ?thesis
    unfolding parse_number_def Let_def sign using ds(1) assms(3) by (simp only: digits prod.case) (auto simp: ends_number_def)
qed

lemma parse_value_int:
  assumes "\<bar>i\<bar> < 10 ^ Suc k" and "Suc k \<le> 4300" and "ends_number rest"
  shows "parse_value (Suc n) (str_of_int i @ rest) = Inr (JInt i, rest)"
proof -
  obtain c cs where c: "str_of_int i = c # cs" using str_of_nat_nonempty by (cases "str_of_int i") (auto simp: str_of_int_def split: if_splits)
  then have "is_digit c \<or> c = CHR ''-''" using str_of_int_chars [of c i] by simp
  then have "c \<notin> set [CHR 0x22, CHR 0x7B, CHR ''['', CHR ''n'', CHR ''t'', CHR ''f'', CHR ''N'', CHR ''I'']"
    by (auto simp: is_digit_def)
  with parse_number_int [OF assms] show ?thesis by (simp add: c starts_with_def)
qed

section \<open>Flat objects\<close>

text \<open>Strings, integers that \<open>int()\<close> reads, and null.\<close>

fun flat_value :: "json \<Rightarrow> bool" where
  "flat_value (JStr t) = True"
| "flat_value (JInt i) = (\<bar>i\<bar> < 10 ^ 40)"
| "flat_value JNull = True"
| "flat_value _ = False"

lemma parse_value_flat:
  assumes "flat_value v" and "ends_number rest"
  shows "parse_value (Suc n) (json_dumps fmt v @ rest) = Inr (v, rest)"
  using assms parse_value_str parse_value_int [of _ 39] by (cases v) (simp_all add: starts_with_def)

lemma json_ws_id: "s \<noteq> [] \<Longrightarrow> hd s \<notin> {CHR 0x20, CHR 0x09, CHR 0x0A, CHR 0x0D} \<Longrightarrow> json_ws s = s"
  by (cases s) (simp_all add: json_ws_def)

lemma json_ws_flat:
  assumes "flat_value v"
  shows "json_ws (json_dumps fmt v @ rest) = json_dumps fmt v @ rest"
proof (cases v)
  case (JInt i)
  obtain c cs where c: "str_of_int i = c # cs" using str_of_nat_nonempty by (cases "str_of_int i") (auto simp: str_of_int_def split: if_splits)
  then have "is_digit c \<or> c = CHR ''-''" using str_of_int_chars [of c i] by simp
  then have "c \<notin> {CHR 0x20, CHR 0x09, CHR 0x0A, CHR 0x0D}" by (auto simp: is_digit_def)
  with JInt c show ?thesis by (simp add: json_ws_id)
qed (use assms in \<open>simp_all add: json_ws_id json_str_parts\<close>)

definition members_text :: "(instant \<Rightarrow> string) \<Rightarrow> dict \<Rightarrow> string" where
  "members_text fmt d = join '','' (map (\<lambda>(k, v). json_str k @ '':'' @ json_dumps fmt v) d)"

lemma members_text_Cons:
  "members_text fmt ((k, v) # d) = json_str k @ '':'' @ json_dumps fmt v @ (if d = [] then [] else '','' @ members_text fmt d)"
  by (cases d) (simp_all add: members_text_def)

lemma members_text_first: "d \<noteq> [] \<Longrightarrow> \<exists>t. members_text fmt d = CHR 0x22 # t"
  by (cases d) (auto simp: members_text_Cons json_str_def)

lemma parse_members_flat:
  assumes "d \<noteq> []" and "\<forall>(k, v)\<in>set d. flat_value v" and "length d < n"
  shows "parse_members n (members_text fmt d @ CHR 0x7D # rest) = Inr (d, rest)"
  using assms
proof (induction d arbitrary: n)
  case (Cons p d)
  obtain k v where p: "p = (k, v)" by fastforce
  from Cons.prems(3) obtain q m where n: "n = Suc q" and q: "q = Suc m" by (cases n; cases "n - 1") auto
  define after where "after = (if d = [] then [] else '','' @ members_text fmt d) @ CHR 0x7D # rest"
  have v: "flat_value v" using Cons.prems(2) p by simp
  have comma: "\<not> is_digit (CHR '','')" "\<not> is_digit (CHR 0x7D)" by code_simp+
  then have ends: "ends_number after" by (auto simp: after_def ends_number_def)
  have ws: "json_ws after = after" "after \<noteq> []" by (auto simp: after_def json_ws_id)
  have colon: "json_ws (CHR '':'' # t) = CHR '':'' # t" for t by (simp add: json_ws_id)
  have written: "members_text fmt (p # d) @ CHR 0x7D # rest
      = CHR 0x22 # concat (map json_escape k) @ CHR 0x22 # CHR '':'' # json_dumps fmt v @ after"
    by (simp add: p members_text_Cons json_str_def after_def)
  have key: "parse_string (concat (map json_escape k) @ CHR 0x22 # CHR '':'' # json_dumps fmt v @ after)
      = Inr (k, CHR '':'' # json_dumps fmt v @ after)" by (rule parse_string_json_str)
  have val: "parse_value q (json_dumps fmt v @ after) = Inr (v, after)" unfolding q by (rule parse_value_flat [OF v ends])
  have "parse_members n (members_text fmt (p # d) @ CHR 0x7D # rest)
      = (if hd after = CHR 0x7D then Inr ([(k, v)], tl after)
         else if hd after = CHR '','' then bind_res (parse_members q (json_ws (tl after))) (\<lambda>(d, rest). Inr ((k, v) # d, rest))
         else Inl JSONDecodeError)"
    unfolding written n by (simp add: key colon json_ws_flat [OF v] val ws)
  also have "\<dots> = Inr (p # d, rest)"
  proof (cases "d = []")
    case False
    then obtain t where t: "members_text fmt d = CHR 0x22 # t" using members_text_first by blast
    have "parse_members q (members_text fmt d @ CHR 0x7D # rest) = Inr (d, rest)"
      by (rule Cons.IH [OF False]) (use Cons.prems n in simp_all)
    with False t show ?thesis by (simp add: after_def p json_ws_id)
  qed (simp add: after_def p)
  finally show ?case .
qed simp

lemma dict_set_new: "k \<notin> fst ` set d \<Longrightarrow> dict_set d k v = d @ [(k, v)]"
  by (induction d k v rule: dict_set.induct) auto

lemma foldl_dict_set: "distinct (map fst (e @ d)) \<Longrightarrow> foldl (\<lambda>d (k, v). dict_set d k v) e d = e @ d"
proof (induction d arbitrary: e)
  case (Cons p d)
  obtain k v where p: "p = (k, v)" by fastforce
  with Cons.prems have "k \<notin> fst ` set e" by auto
  then show ?case using Cons.IH [of "e @ [(k, v)]"] Cons.prems p by (simp add: dict_set_new)
qed simp

lemma ascii_json_str: "\<forall>c\<in>set (json_str t). (of_char c :: nat) < 128 \<and> c \<noteq> CHR 0x00"
  using escape_plain by (auto simp: json_str_def)

lemma ascii_flat:
  assumes "flat_value v"
  shows "\<forall>c\<in>set (json_dumps fmt v). (of_char c :: nat) < 128 \<and> c \<noteq> CHR 0x00"
proof (cases v)
  case (JInt i)
  have "(of_char c :: nat) < 128 \<and> c \<noteq> CHR 0x00" if "is_digit c \<or> c = CHR ''-''" for c
    using that by (auto simp: is_digit_def Let_def)
  with JInt str_of_int_chars [of _ i] show ?thesis by auto
qed (use assms ascii_json_str in simp_all)

lemma ascii_members:
  assumes "\<forall>(k, v)\<in>set d. flat_value v"
  shows "\<forall>c\<in>set (members_text fmt d). (of_char c :: nat) < 128 \<and> c \<noteq> CHR 0x00"
  using assms
proof (induction d)
  case (Cons p d)
  obtain k v where "p = (k, v)" by fastforce
  with Cons ascii_json_str [of k] ascii_flat [of v fmt] show ?case by (auto simp: members_text_Cons)
qed (simp add: members_text_def)

lemma json_loads_flat:
  assumes "d \<noteq> []" and "\<forall>(k, v)\<in>set d. flat_value v" and "distinct (map fst d)"
  shows "json_loads (CHR 0x7B # members_text fmt d @ [CHR 0x7D]) = Inr (JObj d)"
proof -
  let ?t = "CHR 0x7B # members_text fmt d @ [CHR 0x7D]"
  have ok: "ascii ?t" "CHR 0x00 \<notin> set ?t" using ascii_members [OF assms(2), of fmt] by (auto simp: ascii_def list_all_iff)
  obtain t where t: "members_text fmt d = CHR 0x22 # t" using members_text_first [OF assms(1)] by blast
  have "length d \<le> length (members_text fmt d)"
    by (induction d) (auto simp: members_text_Cons)
  then have len: "length d < length ?t" by simp
  have ws: "json_ws ?t = ?t" "json_ws (tl ?t) = tl ?t" by (simp_all add: json_ws_id t)
  have "parse_members (2 * length ?t) (tl ?t) = Inr (d, [])"
    using parse_members_flat [OF assms(1,2), of "2 * length ?t" fmt "[]"] len by simp
  then have "parse_value (Suc (2 * length ?t)) ?t = Inr (JObj d, [])"
    using ws(2) foldl_dict_set [of "[]" d] assms(3) by (simp add: t)
  then show ?thesis unfolding json_loads_def using ok ws(1) by (simp add: json_ws_def)
qed

section \<open>The fuel is enough\<close>

lemma length_json_ws: "length (json_ws s) \<le> length s"
  by (simp add: json_ws_def length_dropWhile_le)

text \<open>A reader that does not run out of fuel and consumes something when it succeeds.\<close>

definition advances :: "nat \<Rightarrow> json_error + 'a \<times> string \<Rightarrow> bool" where
  "advances n r = (case r of Inl e \<Rightarrow> e \<noteq> Json_Fuel | Inr (_, rest) \<Rightarrow> length rest < n)"

lemma advances_simps [simp]:
  "advances n (Inl e) \<longleftrightarrow> e \<noteq> Json_Fuel" "advances n (Inr (v, rest)) \<longleftrightarrow> length rest < n"
  by (simp_all add: advances_def)

lemma advances_mono: "advances m r \<Longrightarrow> m \<le> n \<Longrightarrow> advances n r"
  by (cases r) (auto simp: advances_def)

lemma advances_bind:
  assumes "advances m r" and "\<And>v rest. length rest < m \<Longrightarrow> advances n (f (v, rest))"
  shows "advances n (bind_res r f)"
  using assms by (cases r) (auto simp: advances_def)

lemma advances_if: "(b \<Longrightarrow> advances n x) \<Longrightarrow> (\<not> b \<Longrightarrow> advances n y) \<Longrightarrow> advances n (if b then x else y)"
  by simp

lemma advances_push: "advances m r \<Longrightarrow> m \<le> n \<Longrightarrow> advances n (push c r)"
  unfolding push_def by (erule advances_bind) simp

lemma parse_string_advances: "advances (length s) (parse_string s)"
proof (induction "length s" arbitrary: s rule: less_induct)
  case less
  have sub: "advances (length s) (push x (parse_string cs))" if "length cs < length s" for x cs
    by (rule advances_push [OF less [OF that]]) (use that in simp)
  show ?case
  proof (cases s)
    case (Cons c cs)
    show ?thesis
    proof (cases "c = CHR 0x5C")
      case True
      show ?thesis
      proof (cases cs)
        case (Cons e es)
        have "advances (length s) (case es of h1 # h2 # h3 # h4 # rest \<Rightarrow>
            (case (json_hex h1, json_hex h2, json_hex h3, json_hex h4) of
               (Some a, Some b, Some x, Some y) \<Rightarrow>
                 if a = 0 \<and> b = 0 then push (char_of (x * 16 + y)) (parse_string rest) else Inl Json_Unmodelled
             | _ \<Rightarrow> Inl JSONDecodeError) | _ \<Rightarrow> Inl JSONDecodeError)"
          by (auto intro!: sub split: list.split option.split) (simp_all add: \<open>s = c # cs\<close> Cons)
        moreover have "advances (length s) (case simple_escape e of None \<Rightarrow> Inl JSONDecodeError | Some x \<Rightarrow> push x (parse_string es))"
          using sub by (simp add: \<open>s = c # cs\<close> Cons split: option.split)
        ultimately show ?thesis unfolding \<open>s = c # cs\<close> True Cons by simp
      qed (simp add: \<open>s = c # cs\<close> True)
    next
      case False
      then show ?thesis using sub [of cs c] by (simp add: Cons)
    qed
  qed simp
qed

lemma parse_number_advances: "advances (length s) (parse_number s)"
proof -
  obtain sign t where st: "(if s \<noteq> [] \<and> hd s = CHR ''-'' then (''-'', tl s) else ([], s)) = (sign, t)" by fastforce
  then have t: "length t \<le> length s" by (auto split: if_splits)
  define ds where "ds = (if t \<noteq> [] \<and> hd t = CHR ''0'' then ''0'' else takeWhile is_digit t)"
  have rest: "length (drop (length ds) t) < length s" if "ds \<noteq> []"
    using that t by (cases t) (auto simp: ds_def)
  show ?thesis
    unfolding parse_number_def st Let_def prod.case ds_def [symmetric]
    by (intro advances_if) (use rest in \<open>auto split: option.split\<close>)
qed

lemma starts_with_length: "starts_with p s \<Longrightarrow> length p \<le> length s"
  by (metis append_take_drop_id le_add1 length_append starts_with_def)

lemma parse_advances:
  "2 * length s < n \<Longrightarrow> advances (length s) (parse_value n s)"
  "2 * length s + 1 < n \<Longrightarrow> advances (length s) (parse_items n s)"
  "2 * length s + 1 < n \<Longrightarrow> advances (length s) (parse_members n s)"
proof (induction n arbitrary: s)
  case (Suc n)
  have ws: "length (json_ws t) \<le> length t" for t by (rule length_json_ws)
  {
    case 1
    show ?case
    proof (cases s)
      case (Cons c cs)
      have deep: "2 * length (json_ws cs) + 1 < n" using 1 ws [of cs] by (simp add: Cons)
      have up: "advances (length s) (bind_res r (\<lambda>(v, rest). Inr (f v, rest)))" if "advances (length (json_ws cs)) r" for r and f :: "'x \<Rightarrow> json"
        by (rule advances_bind [OF that]) (use ws [of cs] in \<open>simp add: Cons\<close>)
      have str: "advances (length s) (bind_res (parse_string cs) (\<lambda>(t, rest). Inr (JStr t, rest)))"
        by (rule advances_bind [OF parse_string_advances]) (simp add: Cons)
      have tls: "length (tl (json_ws cs)) < length s" using ws [of cs] by (simp add: Cons)
      have words: "length (drop (Suc k) s) < length s" for k by (simp add: Cons)
      show ?thesis
        unfolding parse_value.simps Let_def Cons list.sel
        unfolding Cons [symmetric]
        by (intro advances_if up [OF Suc.IH(2) [OF deep]] up [OF Suc.IH(3) [OF deep]] str parse_number_advances)
          (use tls words [of 3] words [of 4] in simp_all)
    qed simp
  next
    case 2
    then have v: "advances (length s) (parse_value n s)" by (intro Suc.IH(1)) simp
    show ?case
      unfolding parse_items.simps
    proof (rule advances_bind [OF v])
      fix v :: json and rest :: string assume r: "length rest < length s"
      let ?t = "json_ws rest"
      have t: "length ?t < length s" using r ws [of rest] by simp
      have more: "advances (length s) (bind_res (parse_items n (json_ws (tl ?t))) (\<lambda>(vs, rest). Inr (v # vs, rest)))" if "?t \<noteq> []"
      proof (rule advances_bind)
        have "length (json_ws (tl ?t)) < length s - 1" using t that ws [of "tl ?t"] by (cases ?t) simp_all
        then show "advances (length (json_ws (tl ?t))) (parse_items n (json_ws (tl ?t)))" using 2 by (intro Suc.IH(2)) simp
      qed (use t ws [of "tl ?t"] in simp)
      show "advances (length s) (case (v, rest) of (v, rest) \<Rightarrow> let t = json_ws rest in
          if t = [] then Inl JSONDecodeError
          else if hd t = CHR '']'' then Inr ([v], tl t)
          else if hd t = CHR '','' then bind_res (parse_items n (json_ws (tl t))) (\<lambda>(vs, rest). Inr (v # vs, rest))
          else Inl JSONDecodeError)"
        unfolding prod.case Let_def by (intro advances_if more) (use t in simp_all)
    qed
  next
    case 3
    show ?case
      unfolding parse_members.simps
    proof (rule advances_if, simp, rule advances_bind [OF parse_string_advances])
      fix k rest :: string assume s: "\<not> (s = [] \<or> hd s \<noteq> CHR 0x22)" and "length rest < length (tl s)"
      let ?t = "json_ws rest"
      have t: "length ?t < length s - 1" using \<open>length rest < length (tl s)\<close> ws [of rest] by simp
      let ?u = "json_ws (tl ?t)"
      have u: "length ?u < length s - 1" using t ws [of "tl ?t"] by simp
      have val: "advances (length ?u) (parse_value n ?u)" using 3 u by (intro Suc.IH(1)) simp
      have inner: "advances (length s) (case (v, rest) of (v, rest) \<Rightarrow> let t = json_ws rest in
          if t = [] then Inl JSONDecodeError
          else if hd t = CHR 0x7D then Inr ([(k, v)], tl t)
          else if hd t = CHR '','' then bind_res (parse_members n (json_ws (tl t))) (\<lambda>(d, rest). Inr ((k, v) # d, rest))
          else Inl JSONDecodeError)" if "length rest < length ?u" for v :: json and rest
      proof -
        let ?w = "json_ws rest"
        have w: "length ?w < length s - 1" using that u ws [of rest] by simp
        have more: "advances (length s) (bind_res (parse_members n (json_ws (tl ?w))) (\<lambda>(d, rest). Inr ((k, v) # d, rest)))"
        proof (rule advances_bind)
          have "length (json_ws (tl ?w)) < length s - 1" using w ws [of "tl ?w"] by simp
          then show "advances (length (json_ws (tl ?w))) (parse_members n (json_ws (tl ?w)))" using 3 by (intro Suc.IH(3)) simp
        qed (use w ws [of "tl ?w"] in simp)
        show ?thesis unfolding prod.case Let_def by (intro advances_if more) (use w in simp_all)
      qed
      show "advances (length s) (case (k, rest) of (k, rest) \<Rightarrow> let t = json_ws rest in
          if t = [] \<or> hd t \<noteq> CHR '':'' then Inl JSONDecodeError
          else bind_res (parse_value n (json_ws (tl t))) (\<lambda>(v, rest). let t = json_ws rest in
            if t = [] then Inl JSONDecodeError
            else if hd t = CHR 0x7D then Inr ([(k, v)], tl t)
            else if hd t = CHR '','' then bind_res (parse_members n (json_ws (tl t))) (\<lambda>(d, rest). Inr ((k, v) # d, rest))
            else Inl JSONDecodeError))"
        unfolding prod.case by (subst Let_def) (intro advances_if advances_bind [OF val] inner, simp_all)
    qed
  }
qed simp_all

lemma json_loads_fuel: "json_loads bytes \<noteq> Inl Json_Fuel"
proof -
  have "advances (length (json_ws bytes)) (parse_value (Suc (2 * length bytes)) (json_ws bytes))"
    using length_json_ws [of bytes] by (intro parse_advances(1)) simp
  then show ?thesis
    by (cases "parse_value (Suc (2 * length bytes)) (json_ws bytes)") (auto simp: json_loads_def simp del: parse_value.simps split: if_splits)
qed

end
