(* ===== verification/Assertion.thy ===== *)
theory Assertion
  imports Json_Text
begin

text \<open>
  The workspace assertion the edge adds to every proxied request: src/app/edge/assertion.py
  (\<open>sign\<close>, \<open>verify\<close>) and the standalone copy origins run,
  src/sdk/custom_domain/assertion.py (\<open>verify_assertion\<close>).
\<close>

definition VERSION :: string where "VERSION = ''v1''"
definition DEFAULT_TTL :: int where "DEFAULT_TTL = 60"
definition DEFAULT_SKEW :: int where "DEFAULT_SKEW = 30"

record assertion =
  as_application_id :: string
  as_domain_id :: string
  as_reference :: string
  as_hostname :: string
  as_issued_at :: int
  as_expires_at :: int
  as_request_id :: string
  as_key_id :: string

definition to_payload :: "assertion \<Rightarrow> json" where
  "to_payload a = JObj [(''app'', JStr (as_application_id a)), (''dom'', JStr (as_domain_id a)), (''ref'', JStr (as_reference a)),
     (''host'', JStr (as_hostname a)), (''iat'', JInt (as_issued_at a)), (''exp'', JInt (as_expires_at a)), (''rid'', JStr (as_request_id a))]"

definition assertion_mac :: "string \<Rightarrow> string \<Rightarrow> string" where
  "assertion_mac key signing_input = hmac_sha256 key (utf8_encode signing_input)"

definition parse_keys :: "string \<Rightarrow> error + (string \<times> string) list" where
  "parse_keys spec = fold_res (\<lambda>raw keys. let item = strip raw in
     if item = [] then Inr keys
     else let bad = Inl (ValueError ''EDGE_ASSERTION_KEYS entries must be <key id>:<secret of at least 32 characters>'') in
       case str_partition (CHR '':'') item of
         None \<Rightarrow> bad
       | Some (key_id, secret) \<Rightarrow>
         if strip key_id = [] \<or> length secret < 32 then bad
         else Inr (key_set keys (strip key_id) (utf8_encode secret))) (split_on (CHR '','') spec) []"

definition signing_input :: "string \<Rightarrow> string \<Rightarrow> string" where
  "signing_input key_id payload = VERSION @ ''.'' @ key_id @ ''.'' @ payload"

definition sign_assertion :: "string \<Rightarrow> string \<Rightarrow> string \<Rightarrow> string \<Rightarrow> string \<Rightarrow> string \<Rightarrow> string \<Rightarrow> int \<Rightarrow> int \<Rightarrow> string" where
  "sign_assertion key_id key application_id domain_id reference hostname request_id issued ttl = (let
     a = \<lparr>as_application_id = application_id, as_domain_id = domain_id, as_reference = reference, as_hostname = hostname,
       as_issued_at = issued, as_expires_at = issued + ttl, as_request_id = request_id, as_key_id = key_id\<rparr>;
     payload = b64 (utf8_encode (json_dumps (\<lambda>_. []) (to_payload a)));
     input = signing_input key_id payload
   in input @ ''.'' @ b64 (assertion_mac key input))"

text \<open>
  \<open>AssertionInvalid(code, message)\<close>; \<open>Assertion_Unmodelled\<close> when the signed payload holds JSON
  outside the model of \<open>json.loads\<close>.
\<close>

datatype assertion_error = AssertionInvalid string string | Assertion_Unmodelled

text \<open>\<open>int(v)\<close> of a decoded value.\<close>

fun json_int :: "json \<Rightarrow> int option" where
  "json_int (JInt i) = Some i"
| "json_int (JBool b) = Some (if b then 1 else 0)"
| "json_int (JStr t) = py_int t"
| "json_int _ = None"

text \<open>The \<open>try\<close> around decoding the payload: every exception there is "malformed".\<close>

definition read_payload :: "string \<Rightarrow> string \<Rightarrow> assertion_error + assertion" where
  "read_payload key_id payload = (let bad = Inl (AssertionInvalid ''malformed'' ''Assertion payload is not valid'') in
     case unb64 payload of
       None \<Rightarrow> bad
     | Some bytes \<Rightarrow> (case json_loads bytes of
         Inl Json_Unmodelled \<Rightarrow> Inl Assertion_Unmodelled
       | Inl _ \<Rightarrow> bad
       | Inr (JObj d) \<Rightarrow>
           (case (dict_get d ''app'', dict_get d ''dom'', dict_get d ''ref'', dict_get d ''host'',
                map_option json_int (dict_get d ''iat''), map_option json_int (dict_get d ''exp''), dict_get d ''rid'') of
             (Some app, Some did, Some r, Some host, Some (Some iat), Some (Some expires), Some rid) \<Rightarrow>
               Inr \<lparr>as_application_id = json_text app, as_domain_id = json_text did, as_reference = json_text r,
                 as_hostname = json_text host, as_issued_at = iat, as_expires_at = expires, as_request_id = json_text rid,
                 as_key_id = key_id\<rparr>
           | _ \<Rightarrow> bad)
       | Inr _ \<Rightarrow> bad))"

definition verify_token ::
    "string option \<Rightarrow> (string \<times> string) list \<Rightarrow> string option \<Rightarrow> string option \<Rightarrow> int \<Rightarrow> int \<Rightarrow> assertion_error + assertion" where
  "verify_token token keys expected_application_id expected_hostname current skew = (case token of
     None \<Rightarrow> Inl (AssertionInvalid ''missing'' ''No assertion header'')
   | Some t \<Rightarrow>
     if t = [] then Inl (AssertionInvalid ''missing'' ''No assertion header'')
     else (case split_on (CHR ''.'') t of
         [version, key_id, payload, signature] \<Rightarrow>
           if version \<noteq> VERSION then Inl (AssertionInvalid ''malformed'' ''Assertion is not a v1 token'')
           else (case map_of keys key_id of
               None \<Rightarrow> Inl (AssertionInvalid ''unknown_key'' (''Assertion signed with unknown key id '' @ py_repr key_id))
             | Some key \<Rightarrow>
               (case unb64 signature of
                  None \<Rightarrow> Inl (AssertionInvalid ''malformed'' ''Assertion signature is not base64url'')
                | Some given \<Rightarrow>
                  if assertion_mac key (signing_input key_id payload) \<noteq> given
                  then Inl (AssertionInvalid ''bad_signature'' ''Assertion signature does not verify'')
                  else bind_res (read_payload key_id payload) (\<lambda>a.
                    if as_issued_at a > current + skew
                    then Inl (AssertionInvalid ''not_yet_valid'' ''Assertion issued in the future'')
                    else if as_expires_at a + skew < current
                    then Inl (AssertionInvalid ''expired'' ''Assertion has expired'')
                    else if expected_application_id \<noteq> None \<and> expected_application_id \<noteq> Some (as_application_id a)
                    then Inl (AssertionInvalid ''wrong_application'' ''Assertion is for another application'')
                    else if expected_hostname \<noteq> None \<and> expected_hostname \<noteq> Some (as_hostname a)
                    then Inl (AssertionInvalid ''wrong_hostname'' ''Assertion is for another hostname'')
                    else Inr a)))
       | _ \<Rightarrow> Inl (AssertionInvalid ''malformed'' ''Assertion is not a v1 token'')))"

text \<open>The copy of the SDK: the keys are texts, the application is always checked, the hostname is normalised.\<close>

definition verify_assertion ::
    "string option \<Rightarrow> (string \<times> string) list \<Rightarrow> string \<Rightarrow> string option \<Rightarrow> int \<Rightarrow> int \<Rightarrow> assertion_error + assertion" where
  "verify_assertion token keys expected_application_id expected_hostname current skew = (case token of
     None \<Rightarrow> Inl (AssertionInvalid ''missing'' ''No assertion header'')
   | Some t \<Rightarrow>
     if t = [] then Inl (AssertionInvalid ''missing'' ''No assertion header'')
     else (case split_on (CHR ''.'') t of
         [version, key_id, payload, signature] \<Rightarrow>
           if version \<noteq> VERSION then Inl (AssertionInvalid ''malformed'' ''Assertion is not a v1 token'')
           else (case map_of keys key_id of
               None \<Rightarrow> Inl (AssertionInvalid ''unknown_key'' (''Assertion signed with unknown key id '' @ py_repr key_id))
             | Some secret \<Rightarrow>
               let expected = hmac_sha256 (utf8_encode secret) (utf8_encode (VERSION @ ''.'' @ key_id @ ''.'' @ payload)) in
               (case unb64 signature of
                  None \<Rightarrow> Inl (AssertionInvalid ''malformed'' ''Assertion signature is not base64url'')
                | Some given \<Rightarrow>
                  if expected \<noteq> given
                  then Inl (AssertionInvalid ''bad_signature'' ''Assertion signature does not verify'')
                  else bind_res (read_payload key_id payload) (\<lambda>a.
                    if as_issued_at a > current + skew
                    then Inl (AssertionInvalid ''not_yet_valid'' ''Assertion issued in the future'')
                    else if as_expires_at a + skew < current
                    then Inl (AssertionInvalid ''expired'' ''Assertion has expired'')
                    else if as_application_id a \<noteq> expected_application_id
                    then Inl (AssertionInvalid ''wrong_application'' ''Assertion is for another application'')
                    else if (case expected_hostname of None \<Rightarrow> False
                        | Some h \<Rightarrow> as_hostname a \<noteq> rstrip (\<lambda>c. c = CHR ''.'') (lower h))
                    then Inl (AssertionInvalid ''wrong_hostname'' ''Assertion is for another hostname'')
                    else Inr a)))
       | _ \<Rightarrow> Inl (AssertionInvalid ''malformed'' ''Assertion is not a v1 token'')))"

section \<open>What is signed is read back\<close>

lemma utf8_ascii: "\<forall>c\<in>set t. (of_char c :: nat) < 128 \<Longrightarrow> utf8_encode t = t"
  by (induction t) (simp_all add: utf8_encode_def utf8_char_def)

lemma payload_text:
  "json_dumps fmt (to_payload a) = CHR 0x7B # members_text fmt [(''app'', JStr (as_application_id a)), (''dom'', JStr (as_domain_id a)),
     (''exp'', JInt (as_expires_at a)), (''host'', JStr (as_hostname a)), (''iat'', JInt (as_issued_at a)),
     (''ref'', JStr (as_reference a)), (''rid'', JStr (as_request_id a))] @ [CHR 0x7D]"
proof -
  have "sort_by_key [(''app'', a1), (''dom'', a2), (''ref'', a3), (''host'', a4), (''iat'', a5), (''exp'', a6), (''rid'', a7)]
      = [(''app'', a1), (''dom'', a2), (''exp'', a6), (''host'', a4), (''iat'', a5), (''ref'', a3), (''rid'', a7)]"
    for a1 a2 a3 a4 a5 a6 a7 :: string by (simp add: sort_by_key_def)
  then show ?thesis by (simp add: to_payload_def members_text_def)
qed

definition in_range :: "assertion \<Rightarrow> bool" where
  "in_range a = (\<bar>as_issued_at a\<bar> < 10 ^ 40 \<and> \<bar>as_expires_at a\<bar> < 10 ^ 40)"

lemma read_payload_written:
  assumes "in_range a"
  shows "read_payload (as_key_id a) (b64 (utf8_encode (json_dumps fmt (to_payload a)))) = Inr a"
proof -
  let ?d = "[(''app'', JStr (as_application_id a)), (''dom'', JStr (as_domain_id a)),
     (''exp'', JInt (as_expires_at a)), (''host'', JStr (as_hostname a)), (''iat'', JInt (as_issued_at a)),
     (''ref'', JStr (as_reference a)), (''rid'', JStr (as_request_id a))]"
  have flat: "\<forall>(k, v)\<in>set ?d. flat_value v" using assms by (simp add: in_range_def)
  have "\<forall>c\<in>set (json_dumps fmt (to_payload a)). (of_char c :: nat) < 128"
    unfolding payload_text using ascii_members [OF flat, of fmt] by auto
  then have "utf8_encode (json_dumps fmt (to_payload a)) = json_dumps fmt (to_payload a)" by (rule utf8_ascii)
  moreover have "json_loads (json_dumps fmt (to_payload a)) = Inr (JObj ?d)"
    unfolding payload_text by (rule json_loads_flat [OF _ flat]) simp_all
  ultimately show ?thesis
    by (simp add: read_payload_def dict_get_def json_text_def)
qed

lemma signed_parts:
  assumes "CHR ''.'' \<notin> set key_id"
  shows "split_on (CHR ''.'') (signing_input key_id (b64 p) @ ''.'' @ b64 m) = [VERSION, key_id, b64 p, b64 m]"
proof -
  have "signing_input key_id (b64 p) @ ''.'' @ b64 m = join ''.'' [VERSION, key_id, b64 p, b64 m]"
    by (simp add: signing_input_def)
  moreover have "\<forall>w\<in>set [VERSION, key_id, b64 p, b64 m]. CHR ''.'' \<notin> set w"
    using assms b64_free by (simp add: VERSION_def)
  ultimately show ?thesis using split_on_join [of "[VERSION, key_id, b64 p, b64 m]" "CHR ''.''"] by simp
qed

definition issued_assertion :: "string \<Rightarrow> string \<Rightarrow> string \<Rightarrow> string \<Rightarrow> string \<Rightarrow> string \<Rightarrow> int \<Rightarrow> int \<Rightarrow> assertion" where
  "issued_assertion key_id application_id domain_id reference hostname request_id issued ttl =
     \<lparr>as_application_id = application_id, as_domain_id = domain_id, as_reference = reference, as_hostname = hostname,
       as_issued_at = issued, as_expires_at = issued + ttl, as_request_id = request_id, as_key_id = key_id\<rparr>"

lemma sign_assertion_eq:
  "sign_assertion key_id key app did r host rid issued ttl = (let a = issued_assertion key_id app did r host rid issued ttl;
     input = signing_input key_id (b64 (utf8_encode (json_dumps (\<lambda>_. []) (to_payload a))))
   in input @ ''.'' @ b64 (assertion_mac key input))"
  by (simp add: sign_assertion_def issued_assertion_def Let_def)

lemma verify_signed:
  assumes "CHR ''.'' \<notin> set key_id" and "map_of keys key_id = Some key" and "\<bar>issued\<bar> < 10 ^ 40" and "\<bar>issued + ttl\<bar> < 10 ^ 40"
    and "issued \<le> current + skew" and "current \<le> issued + ttl + skew"
    and "expected_app \<in> {None, Some app}" and "expected_host \<in> {None, Some host}"
  shows "verify_token (Some (sign_assertion key_id key app did r host rid issued ttl)) keys expected_app expected_host current skew
    = Inr (issued_assertion key_id app did r host rid issued ttl)"
proof -
  let ?a = "issued_assertion key_id app did r host rid issued ttl"
  let ?p = "b64 (utf8_encode (json_dumps (\<lambda>_. []) (to_payload ?a)))"
  let ?t = "signing_input key_id ?p @ ''.'' @ b64 (assertion_mac key (signing_input key_id ?p))"
  have token: "sign_assertion key_id key app did r host rid issued ttl = ?t" by (simp only: sign_assertion_eq Let_def)
  have ne: "?t \<noteq> []" by simp
  have read: "read_payload key_id ?p = Inr ?a"
    using read_payload_written [of ?a "\<lambda>_. []"] assms(3,4) by (simp add: in_range_def issued_assertion_def)
  have fields: "as_issued_at ?a = issued" "as_expires_at ?a = issued + ttl" "as_application_id ?a = app" "as_hostname ?a = host"
    by (simp_all add: issued_assertion_def)
  show ?thesis
    unfolding verify_token_def token option.case if_not_P [OF ne] signed_parts [OF assms(1)] list.case
    using assms(2,5-8) by (auto simp: read fields)
qed

text \<open>
  A key id with a dot, which \<open>parse_keys\<close> accepts, makes a token of more than four parts: no origin
  accepts anything signed with it.
\<close>

lemma length_split_on: "length (split_on c s) = Suc (length (filter (\<lambda>x. x = c) s))"
  by (induction s) (auto split: list.splits)

lemma dotted_key_id_never_verifies:
  assumes "CHR ''.'' \<in> set key_id"
  shows "verify_token (Some (sign_assertion key_id key app did r host rid issued ttl)) keys expected_app expected_host current skew
    = Inl (AssertionInvalid ''malformed'' ''Assertion is not a v1 token'')"
proof -
  define t where "t = sign_assertion key_id key app did r host rid issued ttl"
  obtain p m where t: "t = VERSION @ ''.'' @ key_id @ ''.'' @ p @ ''.'' @ m"
    by (simp add: t_def sign_assertion_def Let_def signing_input_def)
  have "filter (\<lambda>x. x = CHR ''.'') key_id \<noteq> []" using assms by (auto simp: filter_empty_conv)
  then have "4 < length (split_on (CHR ''.'') t)" by (simp add: length_split_on t Suc_lessI)
  then show ?thesis unfolding verify_token_def t_def [symmetric] by (auto simp: t split: list.splits)
qed

lemma dotted_key_id_parsed:
  "parse_keys ''2026.1:0123456789abcdef0123456789abcdef'' = Inr [(''2026.1'', ''0123456789abcdef0123456789abcdef'')]"
  by code_simp

text \<open>The SDK's copy is the service's \<open>verify\<close> on the encoded keys and the normalised hostname.\<close>

lemma sdk_agrees:
  "verify_assertion token keys app host current skew
     = verify_token token (map (map_prod id utf8_encode) keys) (Some app) (map_option (\<lambda>h. rstrip (\<lambda>c. c = CHR ''.'') (lower h)) host) current skew"
proof -
  have keys: "map_of (map (map_prod id utf8_encode) keys) k = map_option utf8_encode (map_of keys k)" for k
    by (induction keys) auto
  show ?thesis
    unfolding verify_assertion_def verify_token_def keys
    by (auto simp: assertion_mac_def signing_input_def Let_def split: option.splits list.splits intro!: arg_cong [where f = "bind_res _"])
qed

lemma verify_token_sound:
  assumes "verify_token token keys expected_app expected_host current skew = Inr a"
  shows "\<exists>key_id payload signature key. token = Some (signing_input key_id payload @ ''.'' @ signature)
    \<and> map_of keys key_id = Some key \<and> unb64 signature = Some (assertion_mac key (signing_input key_id payload))
    \<and> read_payload key_id payload = Inr a
    \<and> as_issued_at a \<le> current + skew \<and> current \<le> as_expires_at a + skew
    \<and> expected_app \<in> {None, Some (as_application_id a)} \<and> expected_host \<in> {None, Some (as_hostname a)}"
proof -
  from assms obtain t where t: "token = Some t" by (cases token) (simp_all add: verify_token_def)
  with assms obtain key_id payload signature where parts: "split_on (CHR ''.'') t = [VERSION, key_id, payload, signature]"
    by (auto simp: verify_token_def split: if_splits list.splits)
  have "t = join ''.'' [VERSION, key_id, payload, signature]" using join_split_on [of "CHR ''.''" t] parts by simp
  then have "t = signing_input key_id payload @ ''.'' @ signature" by (simp add: signing_input_def)
  moreover from assms t parts obtain key where key: "map_of keys key_id = Some key"
    by (auto simp: verify_token_def split: if_splits option.splits)
  moreover from assms t parts key have "unb64 signature = Some (assertion_mac key (signing_input key_id payload))"
    by (auto simp: verify_token_def split: if_splits option.splits)
  moreover from assms t parts key have "read_payload key_id payload = Inr a
      \<and> as_issued_at a \<le> current + skew \<and> current \<le> as_expires_at a + skew
      \<and> expected_app \<in> {None, Some (as_application_id a)} \<and> expected_host \<in> {None, Some (as_hostname a)}"
    by (auto simp: verify_token_def bind_res_eq_Inr split: if_splits option.splits)
  ultimately show ?thesis using t by blast
qed



end
