(* ===== verification/Assertion_Keys.thy ===== *)
theory Assertion_Keys
  imports Assertion
begin

text \<open>
  The keys an application's requests are signed with: src/app/services/assertion_keys.py.
\<close>

section \<open>Operations\<close>

definition KEY_ID_PREFIX :: string where "KEY_ID_PREFIX = ''app_''"
definition DEFAULT_ACTIVATION :: duration where "DEFAULT_ACTIVATION = hours 24"
definition MAX_ACTIVATION :: duration where "MAX_ACTIVATION = days 30"

text \<open>\<open>.order_by(AssertionKey.active_from.desc(), AssertionKey.created_at.desc())\<close>.\<close>

definition newest_first :: "assertion_key list \<Rightarrow> assertion_key list" where
  "newest_first ks = sort_key (\<lambda>k. - k_active_from k) (sort_key (\<lambda>k. - k_created_at k) ks)"

definition key_live :: "uuid \<Rightarrow> assertion_key \<Rightarrow> bool" where
  "key_live i k = (k_application_id k = i \<and> k_revoked_at k = None)"

definition live_keys :: "db \<Rightarrow> uuid \<Rightarrow> assertion_key list" where
  "live_keys s i = newest_first (filter (key_live i) (assertion_keys s))"

definition signing_key :: "db \<Rightarrow> uuid \<Rightarrow> instant \<Rightarrow> assertion_key option" where
  "signing_key s i now = (case newest_first (filter (\<lambda>k. key_live i k \<and> k_active_from k \<le> now) (assertion_keys s)) of
     [] \<Rightarrow> None | k # _ \<Rightarrow> Some k)"

definition list_keys :: "db \<Rightarrow> application \<Rightarrow> assertion_key list" where
  "list_keys s a = sort_key (\<lambda>k. - k_created_at k) (filter (\<lambda>k. k_application_id k = app_id a) (assertion_keys s))"

text \<open>The loop over the live keys: all but the current signer are revoked.\<close>

definition superseded :: "assertion_key option \<Rightarrow> uuid \<Rightarrow> instant \<Rightarrow> assertion_key \<Rightarrow> assertion_key" where
  "superseded current i now k = (if key_live i k \<and> (case current of None \<Rightarrow> True | Some c \<Rightarrow> k_id k \<noteq> k_id c)
     then k\<lparr>k_revoked_at := Some now\<rparr> else k)"

definition issue_key :: "application \<Rightarrow> duration \<Rightarrow> instant \<Rightarrow> db \<Rightarrow> error + (assertion_key \<times> string) \<times> db" where
  "issue_key a activate_in now s =
     (if \<not> (0 \<le> activate_in \<and> activate_in \<le> MAX_ACTIVATION)
      then Inl (InvalidAssertionKey ''Activation must be between now and 30 days from now'')
      else let current = signing_key s (app_id a) now;
        s1 = s\<lparr>assertion_keys := map (superseded current (app_id a) now) (assertion_keys s)\<rparr>;
        (token, s2) = token_urlsafe s1; (secret, s3) = token_urlsafe s2; (i, s4) = uuid4 s3;
        key = \<lparr>k_id = i, k_application_id = app_id a, k_key_id = KEY_ID_PREFIX @ token, k_secret = secret,
          k_active_from = now + activate_in, k_revoked_at = None, k_created_at = now\<rparr>
      in if list_ex (\<lambda>k. k_key_id k = k_key_id key) (assertion_keys s) then Inl (IntegrityError ''assertion_keys.key_id'')
         else Inr ((key, secret), s4\<lparr>assertion_keys := assertion_keys s4 @ [key]\<rparr>))"

definition revoke_key :: "application \<Rightarrow> string \<Rightarrow> instant \<Rightarrow> db \<Rightarrow> error + db" where
  "revoke_key a key_id now s = (case find (\<lambda>k. k_application_id k = app_id a \<and> k_key_id k = key_id) (assertion_keys s) of
     None \<Rightarrow> Inl (AssertionKeyNotFound (''No assertion key '' @ py_repr key_id))
   | Some key \<Rightarrow> Inr (if k_revoked_at key = None
       then s\<lparr>assertion_keys := map (\<lambda>k. if k_id k = k_id key then k\<lparr>k_revoked_at := Some now\<rparr> else k) (assertion_keys s)\<rparr>
       else s))"

definition key_state :: "assertion_key \<Rightarrow> assertion_key option \<Rightarrow> instant \<Rightarrow> string" where
  "key_state key signing now =
     (if k_revoked_at key \<noteq> None then ''revoked''
      else if (case signing of None \<Rightarrow> False | Some c \<Rightarrow> k_id key = k_id c) then ''signing''
      else if k_active_from key > now then ''next'' else ''previous'')"

section \<open>At most two live keys, and a signer that changes on schedule\<close>

definition asserts_ok :: "db \<Rightarrow> bool" where
  "asserts_ok s = (distinct (map k_id (assertion_keys s)) \<and> (\<forall>k\<in>set (assertion_keys s). k_id k < draws s)
     \<and> (\<forall>i. length (filter (key_live i) (assertion_keys s)) \<le> 2))"

lemma set_newest_first [simp]: "set (newest_first ks) = set ks"
  by (simp add: newest_first_def)

lemma newest_first_Nil [simp]: "newest_first ks = [] \<longleftrightarrow> ks = []"
  by (metis set_empty set_newest_first)

definition newest :: "assertion_key list \<Rightarrow> assertion_key option" where
  "newest ks = (case newest_first ks of [] \<Rightarrow> None | k # _ \<Rightarrow> Some k)"

lemma newest_in: "newest ks = Some k \<Longrightarrow> k \<in> set ks"
proof -
  assume "newest ks = Some k"
  then have "k \<in> set (newest_first ks)" unfolding newest_def by (cases "newest_first ks") simp_all
  then show ?thesis by simp
qed

lemma signing_key_newest:
  "signing_key s i now = newest (filter (\<lambda>k. k_active_from k \<le> now) (filter (key_live i) (assertion_keys s)))"
  by (simp add: signing_key_def newest_def)

lemma signing_key_Some:
  "signing_key s i now = Some k \<Longrightarrow> k \<in> set (assertion_keys s) \<and> key_live i k \<and> k_active_from k \<le> now"
  using newest_in by (fastforce simp: signing_key_newest)

lemma newest_first_pair:
  "newest_first [a] = [a]"
  "k_active_from a < k_active_from b \<or> k_active_from a = k_active_from b \<and> k_created_at a < k_created_at b \<Longrightarrow> newest_first [a, b] = [b, a]"
  by (auto simp: newest_first_def)

lemma filter_one: "x \<in> set xs \<Longrightarrow> distinct xs \<Longrightarrow> filter ((=) x) xs = [x]"
  by (induction xs) (auto simp: filter_empty_conv)

lemma issue_keyD:
  assumes "issue_key a d now s = Inr ((key, secret), t)"
  shows "assertion_keys t = map (superseded (signing_key s (app_id a) now) (app_id a) now) (assertion_keys s) @ [key]"
    and "draws t = Suc (Suc (Suc (draws s)))" and "k_id key = Suc (Suc (draws s))"
    and "\<forall>k\<in>set (assertion_keys s). k_key_id k \<noteq> k_key_id key"
    and "k_application_id key = app_id a" "k_active_from key = now + d" "k_created_at key = now" "k_secret key = secret"
      "k_revoked_at key = None" "0 \<le> d"
  using assms unfolding issue_key_def token_urlsafe_def uuid4_def Let_def
  by (auto simp: list_ex_iff split: if_splits)

lemma superseded_simps [simp]: "k_id (superseded c i now k) = k_id k" "k_key_id (superseded c i now k) = k_key_id k"
  by (simp_all add: superseded_def)

text \<open>What an issue leaves live: the key that was signing, then the new one.\<close>

lemma issue_key_live:
  assumes "issue_key a d now s = Inr ((key, secret), t)" and "distinct (map k_id (assertion_keys s))"
  shows "filter (key_live (app_id a)) (assertion_keys t)
      = (case signing_key s (app_id a) now of None \<Rightarrow> [] | Some c \<Rightarrow> [c]) @ [key]
    \<and> (\<forall>i. i \<noteq> app_id a \<longrightarrow> filter (key_live i) (assertion_keys t) = filter (key_live i) (assertion_keys s))
    \<and> k_application_id key = app_id a \<and> k_active_from key = now + d \<and> k_created_at key = now \<and> k_secret key = secret
    \<and> k_revoked_at key = None \<and> 0 \<le> d"
proof -
  let ?f = "superseded (signing_key s (app_id a) now) (app_id a) now"
  note D = issue_keyD [OF assms(1)]
  have mine: "filter (key_live (app_id a)) (map ?f (assertion_keys s))
      = (case signing_key s (app_id a) now of None \<Rightarrow> [] | Some c \<Rightarrow> [c])"
  proof (cases "signing_key s (app_id a) now")
    case None
    then have "\<not> key_live (app_id a) (?f k)" for k by (simp add: superseded_def key_live_def)
    with None show ?thesis by (simp add: filter_map filter_empty_conv comp_def)
  next
    case (Some c)
    have c: "c \<in> set (assertion_keys s)" "key_live (app_id a) c" using signing_key_Some [OF Some] by simp_all
    have inj: "inj_on k_id (set (assertion_keys s))" "distinct (assertion_keys s)" using assms(2) by (simp_all add: distinct_map)
    have live: "key_live (app_id a) (?f k) \<longleftrightarrow> k = c" if "k \<in> set (assertion_keys s)" for k
      using inj_onD [OF inj(1) _ that c(1)] c(2) Some by (auto simp: superseded_def key_live_def)
    have "?f c = c" using Some by (simp add: superseded_def)
    then have "filter (key_live (app_id a)) (map ?f ks) = filter ((=) c) ks" if "set ks \<subseteq> set (assertion_keys s)" for ks
      using that live by (induction ks) auto
    moreover have "filter ((=) c) (assertion_keys s) = [c]"
      using filter_one [OF c(1) inj(2)] .
    ultimately show ?thesis using Some by simp
  qed
  have other: "filter (key_live i) (map ?f ks) = filter (key_live i) ks" if "i \<noteq> app_id a" for i ks
    using that by (induction ks) (auto simp: superseded_def key_live_def)
  show ?thesis using mine other D(5-) by (auto simp: D(1) key_live_def)
qed

lemma newest_simps:
  "newest [] = None" "newest [a] = Some a"
  "k_active_from a < k_active_from b \<or> k_active_from a = k_active_from b \<and> k_created_at a < k_created_at b \<Longrightarrow> newest [a, b] = Some b"
  using newest_first_pair(2) [of a b] by (auto simp: newest_def newest_first_pair(1)) (simp_all add: newest_first_def)

text \<open>The signer among the live keys an issue leaves.\<close>

lemma issued_signer:
  assumes "filter (key_live i) (assertion_keys t) = (case c of None \<Rightarrow> [] | Some c \<Rightarrow> [c]) @ [key]"
    and "\<And>k. c = Some k \<Longrightarrow> k_active_from k \<le> now \<and> k_created_at k < k_created_at key"
    and "now \<le> k_active_from key" and "now \<le> u"
  shows "signing_key t i u = (if u < k_active_from key then c else Some key)"
proof (cases c)
  case (Some k)
  from assms(2) [OF Some] assms(3) have "newest [k, key] = Some key" by (intro newest_simps(3)) linarith
  with assms(2) [OF Some] assms Some show ?thesis by (auto simp: signing_key_newest newest_simps)
qed (use assms in \<open>auto simp: signing_key_newest newest_simps\<close>)

lemma issue_key_ok:
  assumes "issue_key a d now s = Inr ((key, secret), t)" and "asserts_ok s"
  shows "asserts_ok t"
proof -
  have dist: "distinct (map k_id (assertion_keys s))" using assms(2) by (simp add: asserts_ok_def)
  have "length (filter (key_live i) (assertion_keys t)) \<le> 2" for i
    using issue_key_live [OF assms(1) dist] assms(2)
    by (cases "i = app_id a") (auto simp: asserts_ok_def split: option.splits)
  moreover note D = issue_keyD(1-3) [OF assms(1)]
  ultimately show ?thesis using assms(2) by (force simp: asserts_ok_def comp_def)
qed

lemma revoke_key_live:
  assumes "revoke_key a key_id now t = Inr t'" and "distinct (map k_id (assertion_keys t))"
    and "key \<in> set (assertion_keys t)" and "k_application_id key = app_id a" and "k_key_id key = key_id"
    and "\<forall>k\<in>set (assertion_keys t). k_key_id k = key_id \<longrightarrow> k = key" and "k_revoked_at key = None"
  shows "filter (key_live i) (assertion_keys t') = filter (\<lambda>k. key_live i k \<and> k \<noteq> key) (assertion_keys t)"
proof -
  have "find (\<lambda>k. k_application_id k = app_id a \<and> k_key_id k = key_id) (assertion_keys t) = Some key"
  proof (cases "find (\<lambda>k. k_application_id k = app_id a \<and> k_key_id k = key_id) (assertion_keys t)")
    case None
    with assms(3-5) show ?thesis by (auto simp: find_None_iff)
  next
    case (Some k)
    then have "k \<in> set (assertion_keys t)" "k_key_id k = key_id" by (auto simp: find_Some_iff)
    with assms(6) Some show ?thesis by simp
  qed
  with assms(1,7) have t': "assertion_keys t' = map (\<lambda>k. if k_id k = k_id key then k\<lparr>k_revoked_at := Some now\<rparr> else k) (assertion_keys t)"
    by (auto simp: revoke_key_def)
  have inj: "inj_on k_id (set (assertion_keys t))" using assms(2) by (simp add: distinct_map)
  have "filter (key_live i) (map (\<lambda>k. if k_id k = k_id key then k\<lparr>k_revoked_at := Some now\<rparr> else k) ks)
      = filter (\<lambda>k. key_live i k \<and> k \<noteq> key) ks" if "set ks \<subseteq> set (assertion_keys t)" for ks
    using that inj_onD [OF inj _ _ assms(3)] by (induction ks) (auto simp: key_live_def)
  then show ?thesis by (simp add: t')
qed

text \<open>
  C40: issuing an assertion key never breaks a working origin. Until the new key's activation the
  signer stays what it was (the previous key, or the deployment's), from then on it is the new key,
  and when the new key is revoked the previous signer is back; an application holds at most two live
  keys, and no other application's signer changes.
\<close>

theorem issuing_keeps_the_signer:
  assumes "issue_key a d now s = Inr ((key, secret), t)" and "asserts_ok s"
    and "\<forall>k\<in>set (assertion_keys s). k_created_at k < now"
  shows "(\<forall>u. now \<le> u \<longrightarrow> signing_key t (app_id a) u = (if u < now + d then signing_key s (app_id a) now else Some key))
    \<and> (\<forall>i u. i \<noteq> app_id a \<longrightarrow> signing_key t i u = signing_key s i u)
    \<and> (\<forall>t' u at. revoke_key a (k_key_id key) at t = Inr t' \<longrightarrow> now \<le> u \<longrightarrow> signing_key t' (app_id a) u = signing_key s (app_id a) now)
    \<and> length (live_keys t (app_id a)) \<le> 2 \<and> asserts_ok t"
proof -
  let ?c = "signing_key s (app_id a) now"
  have dist: "distinct (map k_id (assertion_keys s))" using assms(2) by (simp add: asserts_ok_def)
  note live = issue_key_live [OF assms(1) dist]
  have ok: "asserts_ok t" by (rule issue_key_ok [OF assms(1,2)])
  have c: "k_active_from k \<le> now \<and> k_created_at k < k_created_at key" if "?c = Some k" for k
    using signing_key_Some [OF that] assms(3) live by auto
  have signer: "signing_key t (app_id a) u = (if u < now + d then ?c else Some key)" if "now \<le> u" for u
    using issued_signer [of "app_id a" t ?c key now u, OF conjunct1 [OF live] c] live that by simp
  have fallback: "signing_key t' (app_id a) u = ?c" if "revoke_key a (k_key_id key) at t = Inr t'" "now \<le> u" for t' u at
  proof -
    have key: "key \<in> set (assertion_keys t)" using arg_cong [OF conjunct1 [OF live], of set] by auto
    have uniq: "\<forall>k\<in>set (assertion_keys t). k_key_id k = k_key_id key \<longrightarrow> k = key"
      using issue_keyD(1,4) [OF assms(1)] by auto
    have "filter (key_live (app_id a)) (assertion_keys t') = filter (\<lambda>k. k \<noteq> key) (filter (key_live (app_id a)) (assertion_keys t))"
      unfolding filter_filter
      by (rule revoke_key_live [OF that(1) _ key _ refl uniq]) (use ok live in \<open>simp_all add: asserts_ok_def\<close>)
    also have "\<dots> = (case ?c of None \<Rightarrow> [] | Some c \<Rightarrow> [c])"
      unfolding conjunct1 [OF live] using c by (auto split: option.splits)
    finally show ?thesis using c that(2) by (fastforce simp: signing_key_newest [of t'] newest_simps split: option.splits)
  qed
  have "length (live_keys t (app_id a)) \<le> 2" using ok by (simp add: live_keys_def newest_first_def asserts_ok_def)
  moreover have "signing_key t i u = signing_key s i u" if "i \<noteq> app_id a" for i u
    using live that by (simp add: signing_key_newest)
  ultimately show ?thesis using signer fallback ok by blast
qed

definition first_key :: assertion_key where
  "first_key = \<lparr>k_id = 4, k_application_id = 1, k_key_id = ''app_a1'', k_secret = ''first'', k_active_from = 100,
     k_revoked_at = None, k_created_at = 100\<rparr>"

definition keyed_db :: db where "keyed_db = demo_db\<lparr>assertion_keys := [first_key]\<rparr>"

theorem issuing_keeps_the_signer_witness:
  "\<exists>key secret t. issue_key demo_app (hours 24) 1000 keyed_db = Inr ((key, secret), t)
    \<and> signing_key t 1 2000 = Some first_key \<and> signing_key t 1 (1000 + hours 24) = Some key
    \<and> length (live_keys t 1) \<le> 2"
proof -
  let ?r = "issue_key demo_app (hours 24) 1000 keyed_db"
  have "isl ?r = False" by code_simp
  then obtain key secret t where r: "?r = Inr ((key, secret), t)" by (cases ?r) auto
  have ok: "asserts_ok keyed_db" by (simp add: asserts_ok_def keyed_db_def demo_db_def first_key_def)
  have old: "\<forall>k\<in>set (assertion_keys keyed_db). k_created_at k < 1000" by (simp add: keyed_db_def first_key_def)
  have now: "signing_key keyed_db 1 1000 = Some first_key" "app_id demo_app = 1" "hours 24 = 86400000000" by code_simp+
  from issuing_keeps_the_signer [OF r ok old] have s: "\<forall>u. 1000 \<le> u \<longrightarrow> signing_key t 1 u
      = (if u < 1000 + hours 24 then Some first_key else Some key)" and l: "length (live_keys t 1) \<le> 2"
    unfolding now(1,2) by - (elim conjE, assumption)+
  from s have "signing_key t 1 2000 = Some first_key" "signing_key t 1 (1000 + hours 24) = Some key" by (simp_all add: now(3))
  with r l show ?thesis by (intro exI conjI)
qed

end
