(* ===== verification/Gateway_Sound.thy ===== *)
theory Gateway_Sound
  imports Gateway
begin

text \<open>
  What the validator of src/app/edge/gateway.py lets through: whatever the payload, an accepted
  configuration dials nothing but verified origins and the management API, and its application
  routes strip, assert and proxy in that order.
\<close>

section \<open>Every value of a payload\<close>

text \<open>A decoded JSON value: the keys of every object are distinct.\<close>

fun json_wf :: "json \<Rightarrow> bool" and json_wf_list :: "json list \<Rightarrow> bool" and json_wf_dict :: "dict \<Rightarrow> bool" where
  "json_wf (JList xs) = json_wf_list xs"
| "json_wf (JObj d) = (distinct (map fst d) \<and> json_wf_dict d)"
| "json_wf _ = True"
| "json_wf_list [] = True"
| "json_wf_list (x # xs) = (json_wf x \<and> json_wf_list xs)"
| "json_wf_dict [] = True"
| "json_wf_dict ((k, v) # d) = (json_wf v \<and> json_wf_dict d)"

text \<open>The values anywhere in a JSON value that are stored under a key.\<close>

fun values_at :: "string \<Rightarrow> json \<Rightarrow> json list" and values_in_list :: "string \<Rightarrow> json list \<Rightarrow> json list"
  and values_in_dict :: "string \<Rightarrow> dict \<Rightarrow> json list" where
  "values_at k (JList xs) = values_in_list k xs"
| "values_at k (JObj d) = values_in_dict k d"
| "values_at k _ = []"
| "values_in_list k [] = []"
| "values_in_list k (x # xs) = values_at k x @ values_in_list k xs"
| "values_in_dict k [] = []"
| "values_in_dict k ((k', v) # d) = (if k' = k then [v] else []) @ values_at k v @ values_in_dict k d"

lemma values_in_list_set: "set (values_in_list k xs) = (\<Union>x\<in>set xs. set (values_at k x))"
  by (induction xs) auto

lemma values_in_dict_set:
  "set (values_in_dict k d) = (\<Union>(k', v)\<in>set d. (if k' = k then {v} else {}) \<union> set (values_at k v))"
  by (induction d) (auto split: if_splits)

lemma json_wf_list_iff: "json_wf_list xs \<longleftrightarrow> (\<forall>x\<in>set xs. json_wf x)"
  by (induction xs) auto

lemma json_wf_dict_iff: "json_wf_dict d \<longleftrightarrow> (\<forall>(k, v)\<in>set d. json_wf v)"
  by (induction d) auto

lemma get_key_of:
  assumes "json_wf (JObj d)" and "(k, v) \<in> set d"
  shows "get_key (JObj d) k = v"
  using assms by (simp add: get_key_def dict_get_def)

lemma get_key_wf: "json_wf v \<Longrightarrow> json_wf (get_key v k)"
  by (cases v) (auto simp: get_key_def dict_get_def json_wf_dict_iff split: option.splits dest: map_of_SomeD)

lemma values_at_obj:
  assumes "json_wf (JObj d)" and "x \<in> set (values_at k (JObj d))"
  shows "(k \<in> set (dict_keys d) \<and> x = get_key (JObj d) k)
    \<or> (\<exists>k'\<in>set (dict_keys d). x \<in> set (values_at k (get_key (JObj d) k')))"
proof -
  from assms(2) obtain k' v where kv: "(k', v) \<in> set d" "k' = k \<and> x = v \<or> x \<in> set (values_at k v)"
    by (auto simp: values_in_dict_set split: if_splits)
  then have "k' \<in> set (dict_keys d)" by (force simp: dict_keys_def)
  with kv(2) get_key_of [OF assms(1) kv(1)] show ?thesis by blast
qed

lemma json_eq_values:
  "json_eq a b \<Longrightarrow> x \<in> set (values_at k a) \<Longrightarrow> \<exists>y\<in>set (values_at k b). json_eq x y"
  "json_eq_list xs ys \<Longrightarrow> x \<in> set (values_in_list k xs) \<Longrightarrow> \<exists>y\<in>set (values_in_list k ys). json_eq x y"
  "json_sub d e \<Longrightarrow> x \<in> set (values_in_dict k d) \<Longrightarrow> \<exists>y\<in>set (values_in_dict k e). json_eq x y"
proof (induction a b and xs ys and d e arbitrary: x and x and x rule: json_eq_json_eq_list_json_sub.induct)
  case (9 x' xs ys)
  then obtain y ys' where y: "ys = y # ys'" "json_eq x' y" "json_eq_list xs ys'" by (auto split: list.splits)
  with 9(3-) 9(1) [OF y(1,2)] 9(2) [OF y(1) y(3)] show ?case by (auto; blast)
next
  case (11 k' v a b)
  then obtain w where w: "map_of b k' = Some w" "json_eq v w" "json_sub a b" by (auto split: option.splits)
  then have in_b: "(k', w) \<in> set b" by (simp add: map_of_SomeD)
  from 11(4) consider "k' = k" "x = v" | "x \<in> set (values_at k v)" | "x \<in> set (values_in_dict k a)"
    by (auto split: if_splits)
  then show ?case
  proof cases
    case 1
    with in_b w(2) show ?thesis by (force simp: values_in_dict_set)
  next
    case 2
    from 11(1) [OF w(1,2) this] in_b show ?thesis by (force simp: values_in_dict_set)
  next
    case 3
    from 11(2) [OF w(3) this] show ?thesis .
  qed
qed (auto split: json.splits list.splits)

lemma json_eq_JStr [simp]: "json_eq v (JStr t) \<longleftrightarrow> v = JStr t"
  by (cases v) (auto split: json.splits)

text \<open>A value equal to one whose values under \<open>k\<close> are the strings of \<open>T\<close> has only those.\<close>

lemma json_eq_strings:
  assumes "json_eq a b" and "set (values_at k b) \<subseteq> JStr ` T"
  shows "set (values_at k a) \<subseteq> JStr ` T"
  using json_eq_values(1) [OF assms(1), of _ k] assms(2) by fastforce

section \<open>Confinement\<close>

definition HANDLERS :: "string set" where
  "HANDLERS = {''headers'', ''reverse_proxy'', ''static_response'', ''rate_limit''}"

text \<open>Only these handlers anywhere in the value, and only these addresses dialled.\<close>

definition confined :: "string set \<Rightarrow> json \<Rightarrow> bool" where
  "confined D v = (set (values_at ''dial'' v) \<subseteq> JStr ` D \<and> set (values_at ''handler'' v) \<subseteq> JStr ` HANDLERS)"

lemma confined_eq: "json_eq a b \<Longrightarrow> confined D b \<Longrightarrow> confined D a"
  by (simp add: confined_def json_eq_strings)

lemma confined_mono: "confined D v \<Longrightarrow> D \<subseteq> E \<Longrightarrow> confined E v"
  unfolding confined_def by (meson image_mono subset_trans)

lemma confined_list [simp]: "confined D (JList xs) \<longleftrightarrow> (\<forall>x\<in>set xs. confined D x)"
  by (auto simp: confined_def values_in_list_set)

lemma confined_leaf [simp]: "confined D JNull" "confined D (JBool b)" "confined D (JInt i)" "confined D (JStr t)" "confined D (JTime m)"
  by (simp_all add: confined_def)

lemma confined_dict:
  "confined D (JObj d) \<longleftrightarrow> (\<forall>(k, v)\<in>set d. confined D v \<and> (k = ''dial'' \<longrightarrow> v \<in> JStr ` D) \<and> (k = ''handler'' \<longrightarrow> v \<in> JStr ` HANDLERS))"
  by (fastforce simp: confined_def values_in_dict_set split: if_splits)

lemma confined_obj:
  assumes "json_wf (JObj d)" and "set (dict_keys d) \<subseteq> K" and "\<forall>k\<in>K. confined D (get_key (JObj d) k)
      \<and> (k = ''dial'' \<longrightarrow> get_key (JObj d) k \<in> JStr ` D) \<and> (k = ''handler'' \<longrightarrow> get_key (JObj d) k \<in> JStr ` HANDLERS)"
  shows "confined D (JObj d)"
  unfolding confined_dict
proof clarify
  fix k v assume kv: "(k, v) \<in> set d"
  have "k \<in> K" using kv assms(2) by (force simp: dict_keys_def)
  with assms(3) get_key_of [OF assms(1) kv]
  show "confined D v \<and> (k = ''dial'' \<longrightarrow> v \<in> JStr ` D) \<and> (k = ''handler'' \<longrightarrow> v \<in> JStr ` HANDLERS)" by auto
qed

lemmas confined_parts = confined_dict strs_def dial_to_def set_request_def proxy_headers_def HANDLERS_def

lemma confined_fixed [simp]:
  "confined D health_route" "confined D unmatched_route" "confined D strip_handler"
  "confined D (expected_headers h)" "confined D (tls_transport h)"
  by (simp_all add: confined_parts health_route_def unmatched_route_def strip_handler_def expected_headers_def
      tls_transport_def EDGE_HEALTH_HEADER_def)

lemma confined_assert [simp]: "es_assert_upstream es \<in> D \<Longrightarrow> confined D (assertion_subrequest es)"
  by (auto simp: confined_parts assertion_subrequest_def EDGE_HOST_HEADER_def EDGE_SNI_HEADER_def
      EDGE_REQUEST_ID_HEADER_def EDGE_TOKEN_HEADER_def ASSERTION_HEADER_def split: option.splits)

lemma confined_own:
  assumes "up \<in> D"
  shows "\<forall>r\<in>set (allowlisted_routes_for name paths hosts rs up). confined D r"
    and "\<forall>r\<in>set (api_route_for hosts up). confined D r"
  using assms by (simp_all add: confined_parts allowlisted_routes_for_def api_route_for_def API_PATHS_def CONNECT_PATHS_def)

lemma starts_withE:
  assumes "starts_with p s"
  obtains r where "s = p @ r"
  using assms append_take_drop_id [of "length p" s] unfolding starts_with_def by metis

lemma confined_zone:
  assumes "validate_zone rid name zone = Inr ()" and "text_starts ''app-'' rid"
  shows "confined D zone" "name \<noteq> ''dial''" "name \<noteq> ''handler''"
proof -
  from assms(1) obtain w count where z: "json_eq zone (JObj [(''key'', rid), (''window'', JStr w), (''max_events'', JInt count)])"
    and n: "starts_with (json_text rid @ ''-'') name"
    by (auto simp: validate_zone_def Let_def need_def split: if_splits json.splits)
  from assms(2) obtain rest where rid: "json_text rid = ''app-'' @ rest" by (auto simp: text_starts_def elim: starts_withE)
  have "\<exists>t. rid = JStr t"
  proof (cases rid)
    case (JInt i)
    with rid have "CHR ''a'' \<in> set (str_of_int i)" by (simp add: json_text_def)
    then show ?thesis using str_of_int_chars by (fastforce simp: is_digit_def)
  qed (use rid in \<open>auto simp: json_text_def split: if_splits\<close>)
  then have "confined D (JObj [(''key'', rid), (''window'', JStr w), (''max_events'', JInt count)])"
    by (auto simp: confined_dict)
  with z show "confined D zone" by (rule confined_eq)
  from n rid have "hd name = CHR ''a''" by (auto elim: starts_withE)
  then show "name \<noteq> ''dial''" "name \<noteq> ''handler''" by auto
qed

lemma text_starts_app:
  assumes "text_starts ''app-'' v"
  shows "\<exists>t. v = JStr (''app-'' @ t)"
proof -
  from assms obtain rest where rid: "json_text v = ''app-'' @ rest" by (auto simp: text_starts_def elim: starts_withE)
  show ?thesis
  proof (cases v)
    case (JInt i)
    with rid have "CHR ''a'' \<in> set (str_of_int i)" by (simp add: json_text_def)
    then show ?thesis using str_of_int_chars by (fastforce simp: is_digit_def)
  qed (use rid in \<open>auto simp: json_text_def split: if_splits\<close>)
qed

lemma confined_rate_limit:
  assumes "validate_rate_limit rid h = Inr ()" and "text_starts ''app-'' rid" and "json_wf h"
  shows "confined D h"
proof -
  from assms(1) obtain d where h: "h = JObj d" by (cases h) (simp_all add: validate_rate_limit_def)
  with assms(1) have keys: "set (dict_keys d) = {''handler'', ''rate_limits''}"
    by (simp add: validate_rate_limit_def split: if_splits)
  with assms(1) h obtain zs where lim: "get_key h ''rate_limits'' = JObj zs"
    by (cases "get_key h ''rate_limits''") (simp_all add: validate_rate_limit_def)
  with assms(1) h keys have name: "get_key h ''handler'' = JStr ''rate_limit''"
    and zs: "fold_res (\<lambda>(name, zone) _. validate_zone rid name zone) zs () = Inr ()"
    by (simp_all add: validate_rate_limit_def split: if_splits)
  have "validate_zone rid name zone = Inr ()" if "(name, zone) \<in> set zs" for name zone
    using zs that by (induction zs) (auto elim!: bind_res_InrE)
  then have "confined D (JObj zs)"
    using confined_zone [OF _ assms(2)] by (fastforce simp: confined_dict)
  then have parts: "\<forall>k\<in>{''handler'', ''rate_limits''}. confined D (get_key h k)
      \<and> (k = ''dial'' \<longrightarrow> get_key h k \<in> JStr ` D) \<and> (k = ''handler'' \<longrightarrow> get_key h k \<in> JStr ` HANDLERS)"
    by (simp add: lim name HANDLERS_def)
  show ?thesis unfolding h by (rule confined_obj [OF assms(3) [unfolded h] equalityD1 [OF keys] parts [unfolded h]])
qed

lemma proxy_upstream_sound:
  assumes "proxy_upstream facts p = Inr (d, host)" and "json_wf p"
  shows "map_of (ef_upstreams facts) d = Some host \<and> confined {d} (get_key p ''upstreams'')"
proof -
  from assms(1) obtain u where us: "get_key p ''upstreams'' = JList [u]"
    by (auto simp: proxy_upstream_def Let_def split: json.splits list.splits)
  with assms(1) obtain dial where u: "set_is u ''dial'' = Inr True" "item u ''dial'' = Inr dial"
    and dial: "(case dial of JStr d \<Rightarrow> map_option (Pair d) (map_of (ef_upstreams facts) d) | _ \<Rightarrow> None) = Some (d, host)"
    by (auto simp: proxy_upstream_def bind_res_eq_Inr split: if_splits option.splits)
  from dial have d: "dial = JStr d" "map_of (ef_upstreams facts) d = Some host" by (auto split: json.splits)
  from u d(1) obtain ud where ud: "u = JObj ud" "set (dict_keys ud) = {''dial''}" "get_key u ''dial'' = JStr d"
    by (auto simp: set_is_def item_def get_key_def split: json.splits option.splits if_splits)
  have "json_wf u" using get_key_wf [OF assms(2), of "''upstreams''"] us by simp
  moreover have "\<forall>k\<in>{''dial''}. confined {d} (get_key u k)
      \<and> (k = ''dial'' \<longrightarrow> get_key u k \<in> JStr ` {d}) \<and> (k = ''handler'' \<longrightarrow> get_key u k \<in> JStr ` HANDLERS)"
    by (simp add: ud(3))
  ultimately have "confined {d} u" using confined_obj [OF _ equalityD1 [OF ud(2)]] unfolding ud(1) by blast
  with d(2) us show ?thesis by simp
qed

lemma confined_proxy:
  assumes "validate_proxy facts p = Inr ()" and "json_wf p"
  shows "\<exists>d host. map_of (ef_upstreams facts) d = Some host \<and> confined {d} p"
proof -
  from assms(1) obtain d host port where p: "is_dict p" "get_key p ''handler'' = JStr ''reverse_proxy''"
      "set (json_keys p) \<subseteq> {''handler'', ''upstreams'', ''headers'', ''transport''}"
    and up: "proxy_upstream facts p = Inr (d, host)"
    and headers: "json_eq (get_key p ''headers'') (expected_headers ''{http.request.host}'')
      \<or> json_eq (get_key p ''headers'') (expected_headers (origin_host_value host port (get_key p ''transport'' \<noteq> JNull)))"
    and tls: "get_key p ''transport'' = JNull \<or> json_eq (get_key p ''transport'') (tls_transport host)"
    by (auto simp: validate_proxy_def Let_def need_def bind_res_eq_Inr split: if_splits)
  from p(1) obtain pd where pd: "p = JObj pd" by (auto simp: is_dict_def split: json.splits)
  have "confined {d} (get_key p ''headers'')" using headers confined_eq confined_fixed(4) by blast
  moreover have "confined {d} (get_key p ''transport'')" using tls confined_eq confined_fixed(5) by auto
  moreover note proxy_upstream_sound [OF up assms(2)]
  ultimately have parts: "\<forall>k\<in>{''handler'', ''upstreams'', ''headers'', ''transport''}. confined {d} (get_key p k)
      \<and> (k = ''dial'' \<longrightarrow> get_key p k \<in> JStr ` {d}) \<and> (k = ''handler'' \<longrightarrow> get_key p k \<in> JStr ` HANDLERS)"
    by (simp add: p(2) HANDLERS_def)
  have keys: "set (dict_keys pd) \<subseteq> {''handler'', ''upstreams'', ''headers'', ''transport''}"
    using p(3) by (simp add: pd json_keys_def)
  have "confined {d} p" unfolding pd by (rule confined_obj [OF assms(2) [unfolded pd] keys parts [unfolded pd]])
  with proxy_upstream_sound [OF up assms(2)] show ?thesis by blast
qed

text \<open>
  What an application route must be: the reserved headers are stripped and the API asked for the
  assertion before the request goes to a verified active origin; a rate limit may come first.
\<close>

definition guarded_route :: "edge_settings \<Rightarrow> edge_facts \<Rightarrow> json \<Rightarrow> bool" where
  "guarded_route es facts r = (\<exists>limit a b p d host. get_key r ''handle'' = JList (limit @ [a, b, p]) \<and> length limit \<le> 1
     \<and> list_all (confined {}) limit \<and> json_eq a strip_handler \<and> json_eq b (assertion_subrequest es)
     \<and> map_of (ef_upstreams facts) d = Some host \<and> confined {d} p)"

lemma length4: "length xs = 4 \<longleftrightarrow> (\<exists>a b c d. xs = [a, b, c, d])"
  by (auto simp: length_Suc_conv numeral_eq_Suc)

lemma validate_handlers_guarded:
  assumes "validate_handlers es facts rid hs = Inr ()" and "text_starts ''app-'' rid" and "json_wf_list hs"
  shows "\<exists>limit a b p d host. hs = limit @ [a, b, p] \<and> length limit \<le> 1 \<and> list_all (confined {}) limit
    \<and> json_eq a strip_handler \<and> json_eq b (assertion_subrequest es)
    \<and> map_of (ef_upstreams facts) d = Some host \<and> confined {d} p"
proof -
  have "\<exists>limit a b p. hs = limit @ [a, b, p] \<and> length limit \<le> 1 \<and> list_all (confined {}) limit
    \<and> json_eq a strip_handler \<and> json_eq b (assertion_subrequest es) \<and> validate_proxy facts p = Inr ()"
  proof (cases "length hs = 4")
    case True
    then obtain l a b p where hs: "hs = [l, a, b, p]" by (auto simp: length4)
    with assms(1) have "validate_rate_limit rid l = Inr ()" "json_eq a strip_handler" "json_eq b (assertion_subrequest es)"
      "validate_proxy facts p = Inr ()" by (auto simp: validate_handlers_def bind_res_eq_Inr split: if_splits)
    moreover from this(1) have "confined {} l" by (rule confined_rate_limit) (use assms hs in auto)
    ultimately show ?thesis using hs by (intro exI [of _ "[l]"]) auto
  next
    case False
    with assms(1) show ?thesis
      by (intro exI [of _ "[]"]) (auto simp: validate_handlers_def split: list.splits if_splits)
  qed
  then obtain limit a b p where hs: "hs = limit @ [a, b, p]" "length limit \<le> 1" "list_all (confined {}) limit"
    "json_eq a strip_handler" "json_eq b (assertion_subrequest es)" "validate_proxy facts p = Inr ()" by blast
  from assms(3) hs(1) have "json_wf p" by (simp add: json_wf_list_iff)
  from confined_proxy [OF hs(6) this] hs(1-5) show ?thesis by blast
qed

lemma guarded_confined:
  assumes "hs = limit @ [a, b, p]" and "list_all (confined {}) limit" and "json_eq a strip_handler"
    and "json_eq b (assertion_subrequest es)" and "map_of (ef_upstreams facts) d = Some host" and "confined {d} p"
  shows "\<forall>x\<in>set hs. confined (insert (es_assert_upstream es) (fst ` set (ef_upstreams facts))) x"
proof -
  let ?D = "insert (es_assert_upstream es) (fst ` set (ef_upstreams facts))"
  have "{d} \<subseteq> ?D" using map_of_SomeD [OF assms(5)] by force
  then have "confined ?D p" by (rule confined_mono [OF assms(6)])
  moreover have "confined ?D a" by (rule confined_eq [OF assms(3)]) simp
  moreover have "confined ?D b" by (rule confined_eq [OF assms(4)]) simp
  moreover have "\<forall>x\<in>set limit. confined ?D x"
    using assms(2) confined_mono [of "{}" _ ?D] by (auto simp: list_all_iff)
  ultimately show ?thesis by (simp add: assms(1) ball_Un)
qed

section \<open>The hosts of application routes\<close>

definition route_names :: "json \<Rightarrow> string list" where
  "route_names r = (case route_hosts r of None \<Rightarrow> [] | Some hosts \<Rightarrow> map json_text hosts)"

lemma validate_hosts:
  assumes "fold_res (validate_host L) hosts seen = Inr seen'"
  shows "seen' = seen @ map json_text hosts \<and> (distinct seen \<longrightarrow> distinct seen')
    \<and> (\<forall>h\<in>set hosts. canonicalize L False (Some (json_text h)) = Inr (json_text h) \<and> h = JStr (json_text h))"
  using assms
proof (induction hosts arbitrary: seen)
  case (Cons h hosts)
  from Cons.prems obtain mid where mid: "validate_host L h seen = Inr mid" "fold_res (validate_host L) hosts mid = Inr seen'"
    by (auto elim: bind_res_InrE)
  from mid(1) obtain c where c: "canonicalize L False (Some (json_text h)) = Inr c" "h = JStr c" "c \<notin> set seen" "mid = seen @ [c]"
    by (auto simp: validate_host_def split: sum.splits error.splits if_splits)
  from c(2) have "json_text h = c" by (simp add: json_text_def)
  with Cons.IH [OF mid(2)] c show ?case by (auto; blast)
qed simp

lemma confined_zone_id: "text_starts ''app-'' v \<Longrightarrow> confined D v"
  using text_starts_app [of v] by auto

lemma app_route_hosts_sound:
  assumes "app_route_hosts r = Inr hosts" and "json_wf r"
  shows "route_hosts r = Some hosts \<and> hosts \<noteq> [] \<and> (confined D (JList hosts) \<longrightarrow> confined D (get_key r ''match''))"
proof -
  from assms(1) obtain m where m: "get_key r ''match'' = JList [m]"
    by (auto simp: app_route_hosts_def Let_def split: json.splits list.splits)
  with assms(1) obtain v where v: "set_is m ''host'' = Inr True" "item m ''host'' = Inr v"
    "(case v of JList (h # hs) \<Rightarrow> Inr (h # hs) | _ \<Rightarrow> reject ''host matcher must be a non-empty list'') = Inr hosts"
    by (auto simp: app_route_hosts_def bind_res_eq_Inr split: if_splits)
  from v(3) have hosts: "v = JList hosts" "hosts \<noteq> []" by (auto split: json.splits list.splits)
  from v(1,2) hosts(1) obtain md where md: "m = JObj md" "set (dict_keys md) = {''host''}" "get_key m ''host'' = JList hosts"
    by (auto simp: set_is_def item_def get_key_def split: json.splits option.splits if_splits)
  have wf: "json_wf m" using get_key_wf [OF assms(2), of "''match''"] m by simp
  have "confined D m" if "confined D (JList hosts)"
  proof -
    from that have "\<forall>k\<in>{''host''}. confined D (get_key m k)
        \<and> (k = ''dial'' \<longrightarrow> get_key m k \<in> JStr ` D) \<and> (k = ''handler'' \<longrightarrow> get_key m k \<in> JStr ` HANDLERS)"
      by (simp add: md(3))
    then show ?thesis using confined_obj [OF _ equalityD1 [OF md(2)]] wf unfolding md(1) by blast
  qed
  then show ?thesis using m md hosts by (simp add: route_hosts_def is_dict_def)
qed

lemma validate_app_route_sound:
  assumes "validate_app_route L es facts r seen = Inr seen'" and "json_wf r"
  shows "guarded_route es facts r \<and> seen' = seen @ route_names r \<and> (distinct seen \<longrightarrow> distinct seen')
    \<and> (\<forall>h\<in>set (route_names r). canonicalize L False (Some h) = Inr h) \<and> route_names r \<noteq> []
    \<and> confined (insert (es_assert_upstream es) (fst ` set (ef_upstreams facts))) r"
proof -
  from assms(1) obtain hosts handle where r: "is_dict r" "set (json_keys r) = {''@id'', ''match'', ''handle'', ''terminal''}"
    and rid: "text_starts ''app-'' (get_key r ''@id'')" and terminal: "get_key r ''terminal'' = JBool True"
    and hosts: "app_route_hosts r = Inr hosts" and seen: "fold_res (validate_host L) hosts seen = Inr seen'"
    and handle: "get_key r ''handle'' = JList handle" "validate_handlers es facts (get_key r ''@id'') handle = Inr ()"
    by (auto simp: validate_app_route_def bind_res_eq_Inr split: json.splits if_splits)
  let ?D = "insert (es_assert_upstream es) (fst ` set (ef_upstreams facts))"
  from get_key_wf [OF assms(2), of "''handle''"] handle(1) have wf: "json_wf_list handle" by simp
  from validate_handlers_guarded [OF handle(2) rid wf] obtain limit a b p d host where
    g: "handle = limit @ [a, b, p]" "length limit \<le> 1" "list_all (confined {}) limit" "json_eq a strip_handler"
      "json_eq b (assertion_subrequest es)" "map_of (ef_upstreams facts) d = Some host" "confined {d} p" by blast
  have guarded: "guarded_route es facts r"
    unfolding guarded_route_def by (intro exI conjI) (use handle(1) g in \<open>simp_all\<close>)
  have "\<forall>x\<in>set handle. confined ?D x" by (rule guarded_confined [OF g(1,3-7)])
  then have h: "confined ?D (get_key r ''handle'')" by (simp add: handle(1))
  note hs = app_route_hosts_sound [OF hosts assms(2), of ?D] validate_hosts [OF seen]
  have "confined ?D x" if "x \<in> set hosts" for x
  proof -
    from that hs have "x = JStr (json_text x)" by blast
    then show ?thesis using confined_leaf(4) by metis
  qed
  then have m: "confined ?D (get_key r ''match'')" using hs(1) by simp
  from rid have "confined ?D (get_key r ''@id'')"
    by (rule confined_zone_id)
  with h m terminal have parts: "\<forall>k\<in>{''@id'', ''match'', ''handle'', ''terminal''}. confined ?D (get_key r k)
      \<and> (k = ''dial'' \<longrightarrow> get_key r k \<in> JStr ` ?D) \<and> (k = ''handler'' \<longrightarrow> get_key r k \<in> JStr ` HANDLERS)"
    by simp
  from r(1) obtain rd where rd: "r = JObj rd" by (auto simp: is_dict_def split: json.splits)
  have keys: "set (dict_keys rd) \<subseteq> {''@id'', ''match'', ''handle'', ''terminal''}" using r(2) by (simp add: rd json_keys_def)
  have "confined ?D r" unfolding rd by (rule confined_obj [OF assms(2) [unfolded rd] keys parts [unfolded rd]])
  moreover have "route_names r = map json_text hosts" using hs(1) by (simp add: route_names_def)
  moreover have "distinct seen \<longrightarrow> distinct seen'" using hs(2) by blast
  ultimately show ?thesis using guarded hs by auto
qed


section \<open>Accepted payloads\<close>

lemma json_eq_list_ball: "json_eq_list xs ys \<Longrightarrow> x \<in> set xs \<Longrightarrow> \<exists>y\<in>set ys. json_eq x y"
  by (induction xs arbitrary: ys) (auto split: list.splits)

lemma own_routes_confined:
  assumes "own_routes facts middle bad expected unexpected n = Inr rest"
    and "\<And>hosts. \<forall>r\<in>set (expected hosts). confined D r"
  shows "\<exists>own. middle = own @ rest \<and> (\<forall>r\<in>set own. confined D r)"
proof -
  from assms(1) obtain hosts where rest: "rest = drop n middle" and eq: "json_eq_list (take n middle) (expected hosts)"
    by (auto simp: own_routes_def split: option.splits if_splits)
  have "confined D r" if "r \<in> set (take n middle)" for r
    using json_eq_list_ball [OF eq that] assms(2) confined_eq by blast
  with rest show ?thesis by (intro exI [of _ "take n middle"]) simp
qed

lemma validate_own_routes:
  assumes "validate_portal es facts rs = Inr rs1" and "validate_operator es facts rs1 = Inr rs2"
    and "validate_api es facts rs2 = Inr rs3"
  shows "\<exists>own. rs = own @ rs3 \<and> (\<forall>r\<in>set own. confined {es_assert_upstream es} r)"
proof -
  let ?D = "{es_assert_upstream es}"
  have "\<exists>own. rs = own @ rs1 \<and> (\<forall>r\<in>set own. confined ?D r)"
    using assms(1) unfolding validate_portal_def
    by (fastforce split: if_splits dest!: own_routes_confined [where D = ?D] simp: portal_routes_for_def confined_own)
  moreover have "\<exists>own. rs1 = own @ rs2 \<and> (\<forall>r\<in>set own. confined ?D r)"
    using assms(2) unfolding validate_operator_def
    by (fastforce split: if_splits dest!: own_routes_confined [where D = ?D] simp: operator_routes_for_def confined_own)
  moreover have "\<exists>own. rs2 = own @ rs3 \<and> (\<forall>r\<in>set own. confined ?D r)"
    using assms(3) unfolding validate_api_def
    by (fastforce split: if_splits dest!: own_routes_confined [where D = ?D] simp: confined_own)
  ultimately obtain a b c where "rs = a @ b @ c @ rs3" "\<forall>r\<in>set a. confined ?D r" "\<forall>r\<in>set b. confined ?D r"
    "\<forall>r\<in>set c. confined ?D r" by auto
  then show ?thesis by (intro exI [of _ "a @ b @ c"]) auto
qed

lemma validate_app_routes_sound:
  assumes "fold_res (validate_app_route L es facts) rs seen = Inr seen'" and "json_wf_list rs" and "distinct seen"
  shows "(\<forall>r\<in>set rs. guarded_route es facts r
        \<and> confined (insert (es_assert_upstream es) (fst ` set (ef_upstreams facts))) r)
    \<and> distinct (seen @ concat (map route_names rs))
    \<and> (\<forall>h\<in>set (concat (map route_names rs)). canonicalize L False (Some h) = Inr h)"
  using assms
proof (induction rs arbitrary: seen)
  case (Cons r rs)
  from Cons.prems obtain mid where mid: "validate_app_route L es facts r seen = Inr mid"
    "fold_res (validate_app_route L es facts) rs mid = Inr seen'" by (auto elim: bind_res_InrE)
  note r = validate_app_route_sound [OF mid(1)]
  have wf: "json_wf r" "json_wf_list rs" using Cons.prems(2) by simp_all
  with r Cons.prems(3) have mid': "mid = seen @ route_names r" "distinct mid" by blast+
  from Cons.IH [OF mid(2) wf(2) mid'(2)] r [OF wf(1)] show ?case
    unfolding mid'(1) by (simp add: ball_Un)
qed simp

definition routes_of :: "json \<Rightarrow> json" where
  "routes_of apps = get_key (get_key (get_key (get_key apps ''http'') ''servers'') SERVER_NAME) ''routes''"

lemma same_values_eq:
  assumes "same_values label except expected given = Inr ()" and "(k, v) \<in> set expected" and "k \<noteq> except"
  shows "json_eq (get_key given k) v"
  using assms unfolding same_values_def
  by (induction expected) (auto simp: need_def split: if_splits elim!: bind_res_InrE)


lemma validate_routes_sound:
  assumes "validate_routes L es facts v = Inr seen" and "json_wf v"
  shows "\<exists>health own routes unmatched. v = JList (health # own @ routes @ [unmatched])
    \<and> json_eq health health_route \<and> json_eq unmatched unmatched_route
    \<and> (\<forall>r\<in>set own. confined {es_assert_upstream es} r)
    \<and> (\<forall>r\<in>set routes. guarded_route es facts r
        \<and> confined (insert (es_assert_upstream es) (fst ` set (ef_upstreams facts))) r)
    \<and> distinct (concat (map route_names routes))
    \<and> (\<forall>h\<in>set (concat (map route_names routes)). canonicalize L False (Some h) = Inr h)"
proof -
  from assms(1) obtain rs where v: "v = JList rs" by (cases v) (simp_all add: validate_routes_def)
  with assms(1) obtain rs1 rs2 rs3 where ends: "\<not> length rs < 2" "json_eq (hd rs) health_route" "json_eq (last rs) unmatched_route"
    and own: "validate_portal es facts (butlast (tl rs)) = Inr rs1" "validate_operator es facts rs1 = Inr rs2"
      "validate_api es facts rs2 = Inr rs3" and routes: "fold_res (validate_app_route L es facts) rs3 [] = Inr seen"
    by (auto simp: validate_routes_def bind_res_eq_Inr split: if_splits)
  from ends(1) have rs: "rs = hd rs # butlast (tl rs) @ [last rs]"
    by (cases rs; cases "tl rs") (auto simp: numeral_2_eq_2)
  from validate_own_routes [OF own] obtain pre where pre: "butlast (tl rs) = pre @ rs3"
    "\<forall>r\<in>set pre. confined {es_assert_upstream es} r" by blast
  with rs have rs': "rs = hd rs # pre @ rs3 @ [last rs]" by simp
  have "\<forall>x\<in>set rs3. json_wf x" using assms(2) v arg_cong [OF rs', of set] by (auto simp: json_wf_list_iff)
  then have "json_wf_list rs3" by (simp add: json_wf_list_iff)
  from validate_app_routes_sound [OF routes this] v rs' pre(2) ends(2,3) show ?thesis
    by (intro exI [of _ "hd rs"] exI [of _ pre] exI [of _ rs3] exI [of _ "last rs"]) simp
qed

lemma confined_same:
  assumes "same_values label except expected (JObj d) = Inr ()" and "json_wf (JObj d)"
    and "set (dict_keys d) \<subseteq> set (dict_keys expected)" and "confined D (get_key (JObj d) except)"
    and "except \<notin> {''dial'', ''handler''}"
    and "\<forall>(k, v)\<in>set expected. k \<noteq> except \<longrightarrow> confined D v \<and> k \<notin> {''dial'', ''handler''}"
  shows "confined D (JObj d)"
proof (rule confined_obj [OF assms(2,3)], intro ballI)
  fix k assume k: "k \<in> set (dict_keys expected)"
  show "confined D (get_key (JObj d) k) \<and> (k = ''dial'' \<longrightarrow> get_key (JObj d) k \<in> JStr ` D)
      \<and> (k = ''handler'' \<longrightarrow> get_key (JObj d) k \<in> JStr ` HANDLERS)"
  proof (cases "k = except")
    case True
    with assms(4,5) show ?thesis by simp
  next
    case False
    from k obtain v where v: "(k, v) \<in> set expected" by (auto simp: dict_keys_def)
    with False assms(6) have "confined D v" "k \<notin> {''dial'', ''handler''}" by blast+
    with confined_eq [OF same_values_eq [OF assms(1) v False]] show ?thesis by simp
  qed
qed

lemma confined_expected:
  "\<forall>(k, v)\<in>set (server es []). k \<noteq> ''routes'' \<longrightarrow> confined D v \<and> k \<notin> {''dial'', ''handler''}"
  "\<forall>(k, v)\<in>set (http_app es []). k \<noteq> ''servers'' \<longrightarrow> confined D v \<and> k \<notin> {''dial'', ''handler''}"
  "confined D (expected_tls es)"
  by (auto simp: server_def http_app_def expected_tls_def tls_issuer_config_def strs_def confined_dict split: option.splits)

lemma validate_http_sound:
  assumes "validate_http L es facts http = Inr seen" and "json_wf http"
  shows "\<exists>seen. validate_routes L es facts (get_key (get_key (get_key http ''servers'') SERVER_NAME) ''routes'') = Inr seen
    \<and> (confined D (get_key (get_key (get_key http ''servers'') SERVER_NAME) ''routes'') \<longrightarrow> confined D http)"
proof -
  from assms(1) obtain h where h: "http = JObj h" by (cases http) (simp_all add: validate_http_def Let_def)
  with assms(1) have keys: "set (dict_keys h) = set (dict_keys (http_app es []))"
    and same: "same_values ''http'' ''servers'' (http_app es []) http = Inr ()"
    by (auto simp: validate_http_def Let_def bind_res_eq_Inr split: if_splits)
  from assms(1) h keys same obtain ss where ss: "get_key http ''servers'' = JObj ss"
    by (cases "get_key http ''servers''") (simp_all add: validate_http_def Let_def)
  with assms(1) h keys same have skeys: "set (dict_keys ss) = {SERVER_NAME}"
    by (simp add: validate_http_def Let_def split: if_splits)
  with assms(1) h keys same ss obtain srv where srv: "get_key (JObj ss) SERVER_NAME = JObj srv"
    by (cases "get_key (JObj ss) SERVER_NAME") (simp_all add: validate_http_def Let_def)
  with assms(1) h keys same ss skeys have srv': "set (dict_keys srv) \<subseteq> set (dict_keys (server es []))"
    "same_values ''server'' ''routes'' (server es []) (JObj srv) = Inr ()"
    "validate_routes L es facts (get_key (JObj srv) ''routes'') = Inr seen"
    by (auto simp: validate_http_def Let_def bind_res_eq_Inr split: if_splits)
  have wf: "json_wf (JObj ss)" "json_wf (JObj srv)"
    using get_key_wf [OF assms(2), of "''servers''"] get_key_wf [of "JObj ss" SERVER_NAME] ss srv by simp_all
  have "confined D http" if r: "confined D (get_key (JObj srv) ''routes'')"
  proof -
    have "confined D (JObj srv)"
      by (rule confined_same [OF srv'(2) wf(2) srv'(1) r _ confined_expected(1)]) simp
    then have "confined D (JObj ss)"
      by (intro confined_obj [OF wf(1) equalityD1 [OF skeys]]) (simp add: srv [unfolded SERVER_NAME_def] SERVER_NAME_def)
    then show ?thesis
      using confined_same [OF same [unfolded h] assms(2) [unfolded h] equalityD1 [OF keys] _ _ confined_expected(2)]
      unfolding h ss [unfolded h] by simp
  qed
  then show ?thesis using srv'(3) ss srv by auto
qed


end
