(* ===== verification/Edge_Accepts.thy ===== *)
theory Edge_Accepts
  imports Gateway_Sound
begin

text \<open>
  The reconciler and the gateway agree: what src/app/edge/config.py builds from a consistent
  database passes the validator of src/app/edge/gateway.py.
\<close>

section \<open>Stored hostnames are canonical\<close>

definition hostnames :: "db \<Rightarrow> string set" where
  "hostnames s = set (map d_hostname (domains s))"

lemma hostnames_cong: "domains t = domains s \<Longrightarrow> hostnames t = hostnames s"
  by (simp add: hostnames_def)

lemma hostnames_put_domain:
  "(\<And>d. d_hostname (f d) = d_hostname d) \<Longrightarrow> hostnames (put_domain i f s) = hostnames s"
  unfolding hostnames_def put_domain_def by (simp add: map_update_row del: set_map)

lemma hostnames_put [simp]: "hostnames (put_claim i f s) = hostnames s" "hostnames (upsert_check i ty g s) = hostnames s"
  by (simp_all add: hostnames_def put_claim_def upsert_check_def put_check_def split: option.splits)

lemma record_event_hostnames: "record_event C i et payload now s = Inr t \<Longrightarrow> hostnames t = hostnames s"
  by (rule hostnames_cong) (rule record_event_frame(1))

lemma transition_status_hostnames:
  assumes "transition_status C i st why now s = Inr t"
  shows "hostnames t = hostnames s"
  using assms
proof (cases rule: transition_statusE)
  case (moved d)
  from record_event_hostnames [OF moved(5)] show ?thesis by (simp add: hostnames_put_domain)
qed simp

lemma record_check_hostnames:
  assumes "record_check C i ty st code m details at nxt s = Inr t"
  shows "hostnames t = hostnames s"
  using assms
proof (cases rule: record_checkE)
  case (1 d f u)
  have "hostnames t = hostnames u" using 1(5) transition_status_hostnames by blast
  with record_event_hostnames [OF 1(4)] show ?thesis by simp
qed

lemma revoke_live_claim_hostnames:
  assumes "revoke_live_claim C i reason now s = Inr t"
  shows "hostnames t = hostnames s"
proof (cases "active_claim s i")
  case (Some c)
  with assms record_event_hostnames show ?thesis by (fastforce simp: revoke_live_claim_def)
qed (use assms in \<open>simp add: revoke_live_claim_def\<close>)

lemma issue_claim_hostnames: "issue_claim C i target now s = Inr t \<Longrightarrow> hostnames t = hostnames s"
  by (erule issue_claimE) (auto dest!: record_event_hostnames simp: hostnames_def)

lemma mark_claim_verified_hostnames: "mark_claim_verified C i meth now s = Inr t \<Longrightarrow> hostnames t = hostnames s"
  by (erule mark_claim_verifiedE) (use record_event_hostnames in fastforce)

lemma reset_checks_hostnames: "fold_res (reset_check C i now) ts s = Inr t \<Longrightarrow> hostnames t = hostnames s"
proof (induction ts arbitrary: s)
  case (Cons ty ts)
  then obtain u where u: "reset_check C i now ty s = Inr u" "fold_res (reset_check C i now) ts u = Inr t"
    by (auto elim: bind_res_InrE)
  have "hostnames u = hostnames s"
    using u(1) by (auto simp: reset_check_def dest!: record_check_hostnames split: option.splits if_splits)
  with Cons.IH [OF u(2)] show ?case by simp
qed simp

lemma reissue_claim_hostnames:
  assumes "reissue_claim C a i now s = Inr t"
  shows "hostnames t = hostnames s"
  using assms
proof (cases rule: reissue_claimE)
  case (1 d s1 s2 s3 d2)
  have "hostnames s3 = hostnames s2" using 1(5) transition_status_hostnames by blast
  with revoke_live_claim_hostnames [OF 1(2)] reset_checks_hostnames [OF 1(3)] show ?thesis
    using issue_claim_hostnames 1 by metis
qed

lemma delete_domain_hostnames:
  assumes "delete_domain C a i now s = Inr t"
  shows "hostnames t = hostnames s"
  using assms
proof (cases rule: delete_domainE)
  case (gone d s2)
  from revoke_live_claim_hostnames [OF gone(3)] record_event_hostnames [OF gone(4)] show ?thesis
    by (simp add: hostnames_put_domain)
qed simp

lemma request_recheck_hostnames:
  assumes "request_recheck C a i who now s = Inr t"
  shows "hostnames t = hostnames s"
  using assms
proof (cases rule: request_recheckE)
  case (1 d)
  from record_event_hostnames [OF 1(5)] show ?thesis by (simp add: hostnames_def)
qed

lemma claim_domain_hostnames:
  assumes "claim_domain C a hostname reference metadata now s = Inr (i, t)"
  shows "\<exists>c. canonicalize (cfg_libs C) False (Some hostname) = Inr c \<and> hostnames t = insert c (hostnames s)"
  using assms
proof (cases rule: claim_domainE)
  case (1 canonical d u)
  have "hostnames (with_domain d s) = insert (d_hostname d) (hostnames s)" by (simp add: hostnames_def with_domain_def)
  moreover have "d_hostname d = canonical" using 1(8) by (simp add: new_domain_def)
  ultimately show ?thesis using 1(3) record_event_hostnames [OF 1(9)] issue_claim_hostnames [OF 1(10)] by simp
qed

lemma purge_hostnames: "purge_tombstones now s = (n, t) \<Longrightarrow> tables_ok s \<Longrightarrow> hostnames t \<subseteq> hostnames s"
  using purge_core(1) [of now s n t] by (auto simp: hostnames_def drop_domains_def)

lemma step_hostnames:
  assumes "lifecycle_step C s t" and "tables_ok s"
  shows "hostnames t \<subseteq> hostnames s \<union> {c. \<exists>h. canonicalize (cfg_libs C) False (Some h) = Inr c}"
proof -
  have keep: ?thesis if "hostnames t = hostnames s" using that by blast
  show ?thesis using assms(1)
  proof cases
    case (claim a hostname reference metadata now i)
    from claim_domain_hostnames [OF this] obtain c where
      c: "canonicalize (cfg_libs C) False (Some hostname) = Inr c" "hostnames t = insert c (hostnames s)" by (elim exE conjE)
    from c(1) have "c \<in> {c. \<exists>h. canonicalize (cfg_libs C) False (Some h) = Inr c}" by (intro CollectI exI)
    then show ?thesis unfolding c(2) by blast
  next
    case (purge now n)
    from purge_hostnames [OF this assms(2)] show ?thesis by blast
  next
    case (reissue a i now)
    show ?thesis by (rule keep [OF reissue_claim_hostnames [OF reissue]])
  next
    case (verify i meth now)
    show ?thesis by (rule keep [OF mark_claim_verified_hostnames [OF verify]])
  next
    case (revoke i d reason now)
    show ?thesis by (rule keep [OF revoke_live_claim_hostnames [OF revoke(2)]])
  next
    case (check i ty st code message details at nxt)
    show ?thesis by (rule keep [OF record_check_hostnames [OF check]])
  next
    case (status i st' why now)
    show ?thesis by (rule keep [OF transition_status_hostnames [OF status]])
  next
    case (delete a i now)
    show ?thesis by (rule keep [OF delete_domain_hostnames [OF delete]])
  next
    case (recheck a i who now)
    show ?thesis by (rule keep [OF request_recheck_hostnames [OF recheck]])
  next
    case (note_event et i payload now)
    show ?thesis by (rule keep [OF record_event_hostnames [OF note_event(2)]])
  next
    case other
    show ?thesis by (rule keep [OF hostnames_cong [OF other(1)]])
  next
    case (schedule sched)
    show ?thesis by (rule keep) (simp add: schedule hostnames_def)
  qed (rule keep, simp add: hostnames_put_domain)+
qed

definition hostnames_ok :: "libs \<Rightarrow> db \<Rightarrow> bool" where
  "hostnames_ok L s = (\<forall>h\<in>hostnames s. canonicalize L False (Some h) = Inr h)"

lemma step_hostnames_ok:
  assumes "idna_printable (cfg_libs C)" and "idna_stable (cfg_libs C)"
    and "lifecycle_step C s t" and "tables_ok s" and "hostnames_ok (cfg_libs C) s"
  shows "hostnames_ok (cfg_libs C) t"
  unfolding hostnames_ok_def
proof
  fix h assume "h \<in> hostnames t"
  from subsetD [OF step_hostnames [OF assms(3,4)] this]
  have "h \<in> hostnames s \<or> (\<exists>raw. canonicalize (cfg_libs C) False (Some raw) = Inr h)" by simp
  then show "canonicalize (cfg_libs C) False (Some h) = Inr h"
  proof (elim disjE exE)
    assume "h \<in> hostnames s"
    then show ?thesis using bspec [OF assms(5) [unfolded hostnames_ok_def]] by blast
  next
    fix raw assume "canonicalize (cfg_libs C) False (Some raw) = Inr h"
    then show ?thesis by (rule canonicalize_fixed [OF _ assms(1,2)])
  qed
qed

section \<open>Sorting\<close>

lemma set_insert_by_key [simp]: "set (insert_by_key p qs) = insert p (set qs)"
  by (induction qs) auto

lemma set_by_text [simp]: "set (by_text f xs) = set xs"
proof -
  have "set (sort_by_key ps) = set ps" for ps :: "(string \<times> 'a) list" by (induction ps) (auto simp: sort_by_key_def)
  then show ?thesis by (force simp: by_text_def)
qed

lemma distinct_sort_by_key: "distinct (map h (sort_by_key ps)) = distinct (map h ps)"
proof -
  have ins: "distinct (map h (insert_by_key p qs)) = (h p \<notin> h ` set qs \<and> distinct (map h qs))" for p qs
    by (induction qs) auto
  have "set (sort_by_key ps) = set ps \<and> distinct (map h (sort_by_key ps)) = distinct (map h ps)"
    by (induction ps) (auto simp: sort_by_key_def ins)
  then show ?thesis ..
qed

lemma distinct_by_text: "distinct (map g (by_text f xs)) = distinct (map g xs)"
  using distinct_sort_by_key [of "\<lambda>p. g (snd p)" "map (\<lambda>r. (f r, r)) xs"] by (simp add: by_text_def comp_def)

lemma str_less_eq_total: "str_less_eq x y \<or> str_less_eq y x"
  by (induction x y rule: str_less_eq.induct) (auto simp: neq_iff)

fun ascending :: "string list \<Rightarrow> bool" where
  "ascending (x # y # ys) = (str_less_eq x y \<and> ascending (y # ys))"
| "ascending _ = True"

lemma ascending_insert: "ascending ys \<Longrightarrow> ascending (insert_str x ys)"
proof (induction ys rule: ascending.induct)
  case (1 a b ys)
  then show ?case using str_less_eq_total [of x a] by (auto split: if_splits)
qed (use str_less_eq_total in auto)

lemma sorted_strs_ascending: "ascending (sorted_strs xs)"
  by (induction xs) (simp_all add: sorted_strs_def ascending_insert)

lemma sorted_strs_id: "ascending xs \<Longrightarrow> sorted_strs xs = xs"
  by (induction xs rule: ascending.induct) (auto simp: sorted_strs_def)

lemma sorted_strs_idem [simp]: "sorted_strs (sorted_strs xs) = sorted_strs xs"
  by (rule sorted_strs_id [OF sorted_strs_ascending])

section \<open>Equality of configurations\<close>

lemma json_eq_refl:
  "json_wf v \<Longrightarrow> json_eq v v"
  "json_wf_list xs \<Longrightarrow> json_eq_list xs xs"
  "json_wf_dict d \<Longrightarrow> \<forall>(k, w)\<in>set d. map_of e k = Some w \<Longrightarrow> json_sub d e"
  by (induction v and xs and d arbitrary: and and e rule: json_wf_json_wf_list_json_wf_dict.induct) auto

lemma json_wf_strs [simp]: "json_wf (strs xs)"
  by (induction xs) (auto simp: strs_def json_wf_list_iff)

lemmas wf_parts = dial_to_def set_request_def proxy_headers_def

lemma json_wf_fixed [simp]:
  "json_wf health_route" "json_wf unmatched_route" "json_wf strip_handler" "json_wf (expected_headers h)"
  "json_wf (tls_transport h)"
  by (simp_all add: health_route_def unmatched_route_def strip_handler_def expected_headers_def tls_transport_def wf_parts)

lemma json_wf_tls [simp]: "json_wf (expected_tls es)"
  by (cases "es_acme_email es") (simp_all add: expected_tls_def tls_issuer_config_def)

lemma json_wf_assert [simp]: "json_wf (assertion_subrequest es)"
  by (cases "es_edge_token es") (simp_all add: assertion_subrequest_def wf_parts EDGE_HOST_HEADER_def EDGE_SNI_HEADER_def
      EDGE_REQUEST_ID_HEADER_def EDGE_TOKEN_HEADER_def)

lemma json_wf_own [simp]:
  "json_wf_list (allowlisted_routes_for name paths hosts rs up)" "json_wf_list (api_route_for hosts up)"
  by (simp_all add: allowlisted_routes_for_def api_route_for_def wf_parts)

section \<open>The reconciler's routes are accepted\<close>

lemma get_key_simps [simp]:
  "get_key (JObj []) k = JNull"
  "get_key (JObj ((k', v) # d)) k = (if k' = k then v else get_key (JObj d) k)"
  by (simp_all add: get_key_def dict_get_def)

lemma need_True [simp]: "need True why = Inr ()"
  by (simp add: need_def)

lemma dial_port_text:
  assumes "0 < port" and "port < 65536"
  shows "dial_port (dial_text address port) = Inr port"
proof -
  have free: "CHR '':'' \<notin> set (str_of_int port)" using str_of_int_chars [of "CHR '':''" port] by (auto simp: is_digit_def)
  have "\<exists>pre. dial_text address port = pre @ '':'' @ str_of_int port"
    by (simp add: dial_text_def)
  then obtain pre where "dial_text address port = pre @ CHR '':'' # str_of_int port" by auto
  moreover have "str_partition (CHR '':'') (rev (str_of_int port) @ CHR '':'' # rev pre) = Some (rev (str_of_int port), rev pre)"
    by (rule str_partition_append) (use free in simp)
  moreover have "py_int (str_of_int port) = Some port" using assms by (intro py_int_str_of_int [of _ 4]) simp_all
  ultimately show ?thesis by (simp add: dial_port_def str_rpartition_def)
qed

lemma validate_rate_limit_ok:
  assumes "rate_limit_handler rid m p = Some h" and "rate_ok m" and "rate_ok p"
  shows "validate_rate_limit (JStr rid) h = Inr ()"
proof -
  have zone: "validate_zone (JStr rid) (rid @ ''-'' @ name) (rate_zone rid window n) = Inr ()"
    if "map_of RATE_WINDOWS name = Some window" "rate_ok (Some n)" for name window n
    using that by (simp add: validate_zone_def rate_zone_def json_text_def remove_prefix_def starts_with_def rate_ok_def Let_def)
  have w: "map_of RATE_WINDOWS ''minute'' = Some ''1m''" "map_of RATE_WINDOWS ''second'' = Some ''1s''"
    by (simp_all add: RATE_WINDOWS_def)
  show ?thesis
    using assms zone [OF w(1)] zone [OF w(2)]
    by (auto simp: rate_limit_handler_def validate_rate_limit_def dict_keys_def Let_def split: option.splits if_splits)
qed

lemma origin_proxy_ok:
  assumes "map_of (ef_upstreams facts) (rg_origin g) = Some (rg_origin_host g)"
    and "rg_origin g = dial_text address (rg_origin_port g)" and "0 < rg_origin_port g" and "rg_origin_port g < 65536"
  shows "validate_proxy facts (origin_proxy g) = Inr ()"
proof -
  have up: "proxy_upstream facts (origin_proxy g) = Inr (rg_origin g, rg_origin_host g)"
    using assms(1) by (simp add: proxy_upstream_def origin_proxy_def Let_def dial_to_def set_is_def item_def dict_keys_def
        dict_get_def)
  have h: "get_key (origin_proxy g) ''headers'' = expected_headers (if rg_host_header g = ''origin''
      then origin_host_value (rg_origin_host g) (rg_origin_port g) (rg_origin_tls g) else ''{http.request.host}'')"
    by (simp add: origin_proxy_def Let_def dial_to_def proxy_headers_def set_request_def expected_headers_def)
  have t: "get_key (origin_proxy g) ''transport'' = (if rg_origin_tls g then tls_transport (rg_origin_host g) else JNull)"
    by (simp add: origin_proxy_def Let_def dial_to_def proxy_headers_def set_request_def)
  have tls: "tls_transport host \<noteq> JNull" for host by (simp add: tls_transport_def)
  have k: "is_dict (origin_proxy g)" "get_key (origin_proxy g) ''handler'' = JStr ''reverse_proxy''"
    "set (json_keys (origin_proxy g)) \<subseteq> {''handler'', ''upstreams'', ''headers'', ''transport''}"
    by (auto simp: origin_proxy_def Let_def is_dict_def json_keys_def dict_keys_def dial_to_def proxy_headers_def set_request_def)
  show ?thesis
    using k up dial_port_text [OF assms(3,4), of address]
    by (simp add: validate_proxy_def assms(2) h t tls json_eq_refl)
qed


lemma fold_hosts_ok:
  assumes "\<forall>h\<in>set hosts. canonicalize L False (Some h) = Inr h" and "distinct hosts" and "set hosts \<inter> set seen = {}"
  shows "fold_res (validate_host L) (map JStr hosts) seen = Inr (seen @ hosts)"
  using assms by (induction hosts arbitrary: seen) (auto simp: validate_host_def json_text_def)

definition group_ok :: "libs \<Rightarrow> edge_facts \<Rightarrow> route_group \<Rightarrow> bool" where
  "group_ok L facts g = (map_of (ef_upstreams facts) (rg_origin g) = Some (rg_origin_host g)
     \<and> (\<exists>address. rg_origin g = dial_text address (rg_origin_port g)) \<and> 0 < rg_origin_port g \<and> rg_origin_port g < 65536
     \<and> rate_ok (rg_per_minute g) \<and> rate_ok (rg_per_second g)
     \<and> rg_hostnames g \<noteq> [] \<and> (\<forall>h\<in>set (rg_hostnames g). canonicalize L False (Some h) = Inr h))"

lemma app_route_ok:
  assumes "group_ok L facts g" and "distinct (seen @ rg_hostnames g)"
  shows "validate_app_route L es facts (app_route g es) seen = Inr (seen @ rg_hostnames g)"
proof -
  let ?r = "app_route g es" and ?id = "''app-'' @ rg_application_slug g"
  from assms(1) obtain address where ok: "map_of (ef_upstreams facts) (rg_origin g) = Some (rg_origin_host g)"
    "rg_origin g = dial_text address (rg_origin_port g)" "0 < rg_origin_port g" "rg_origin_port g < 65536"
    "rate_ok (rg_per_minute g)" "rate_ok (rg_per_second g)" "rg_hostnames g \<noteq> []"
    "\<forall>h\<in>set (rg_hostnames g). canonicalize L False (Some h) = Inr h"
    unfolding group_ok_def by blast
  have id: "get_key ?r ''@id'' = JStr ?id" "text_starts ''app-'' (JStr ?id)"
    by (simp_all add: app_route_def Let_def text_starts_def json_text_def starts_with_def)
  have m: "app_route_hosts ?r = Inr (map JStr (rg_hostnames g))"
    using ok(7) by (cases "rg_hostnames g") (simp_all add: app_route_hosts_def app_route_def Let_def set_is_def item_def dict_keys_def
        dict_get_def strs_def)
  have eqs: "json_eq strip_handler strip_handler" "json_eq (assertion_subrequest es) (assertion_subrequest es)"
    by (simp_all add: json_eq_refl)
  have h: "case get_key ?r ''handle'' of JList handle \<Rightarrow> validate_handlers es facts (JStr ?id) handle = Inr () | _ \<Rightarrow> False"
    using origin_proxy_ok [OF ok(1-4)] validate_rate_limit_ok [OF _ ok(5,6), of ?id]
    by (cases "rate_limit_handler ?id (rg_per_minute g) (rg_per_second g)")
      (simp_all add: app_route_def Let_def validate_handlers_def eqs)
  have k: "is_dict ?r" "set (json_keys ?r) = {''@id'', ''match'', ''handle'', ''terminal''}" "get_key ?r ''terminal'' = JBool True"
    by (auto simp: app_route_def Let_def is_dict_def json_keys_def dict_keys_def)
  have "fold_res (validate_host L) (map JStr (rg_hostnames g)) seen = Inr (seen @ rg_hostnames g)"
    by (rule fold_hosts_ok [OF ok(8)]) (use assms(2) in auto)
  with k id h show ?thesis
    by (simp add: validate_app_route_def m split: json.splits)
qed

lemma app_routes_ok:
  assumes "\<forall>g\<in>set gs. group_ok L facts g" and "distinct (seen @ concat (map rg_hostnames gs))"
  shows "fold_res (validate_app_route L es facts) (map (\<lambda>g. app_route g es) gs) seen
    = Inr (seen @ concat (map rg_hostnames gs))"
  using assms
proof (induction gs arbitrary: seen)
  case (Cons g gs)
  have "distinct (seen @ rg_hostnames g)" using Cons.prems(2) by auto
  then have "validate_app_route L es facts (app_route g es) seen = Inr (seen @ rg_hostnames g)"
    using Cons.prems(1) by (intro app_route_ok) simp_all
  with Cons.IH [of "seen @ rg_hostnames g"] Cons.prems show ?case by simp
qed simp

section \<open>The edge's own routes are accepted\<close>

lemma map_json_text [simp]: "map json_text (map JStr xs) = xs"
  by (induction xs) (simp_all add: json_text_def)

lemma own_routes_ok:
  assumes "own = expected hosts" and "length own = n" and "json_wf_list own"
    and "route_hosts (hd (own @ rest)) = Some (map JStr hosts)"
    and "hosts \<noteq> []" and "ascending hosts" and "set hosts \<subseteq> set (ef_edge_names facts)"
  shows "own_routes facts (own @ rest) bad expected unexpected n = Inr rest"
proof -
  have "list_all hashable (map JStr hosts)" by (simp add: list_all_iff)
  moreover have "json_eq_list own own" by (rule json_eq_refl(2) [OF assms(3)])
  moreover have "sorted_strs (map json_text (map JStr hosts)) = hosts"
    by (simp only: map_json_text sorted_strs_id [OF assms(6)])
  ultimately show ?thesis
    using assms(1,2,5,7) unfolding own_routes_def assms(4) by (auto simp: image_subset_iff)
qed

lemma route_hosts_first:
  "get_key r ''match'' = JList (JObj ((''host'', strs hosts) # rest) # ms) \<Longrightarrow> route_hosts r = Some (map JStr hosts)"
  by (simp add: route_hosts_def is_dict_def strs_def)

definition named_other :: "(string \<Rightarrow> bool) \<Rightarrow> json list \<Rightarrow> bool" where
  "named_other P rs = (\<forall>r\<in>set rs. \<exists>t. get_key r ''@id'' = JStr t \<and> \<not> P t)"

lemma named_other_simps [simp]:
  "named_other P []" "named_other P (r # rs) \<longleftrightarrow> (\<exists>t. get_key r ''@id'' = JStr t \<and> \<not> P t) \<and> named_other P rs"
  "named_other P (xs @ ys) \<longleftrightarrow> named_other P xs \<and> named_other P ys"
  by (auto simp: named_other_def)

lemma allowlisted_ok:
  assumes "name_paths = allowlisted_routes_for name paths" and "hosts \<noteq> []" and "rs \<noteq> []"
  shows "length (name_paths hosts rs up) = 2" "json_wf_list (name_paths hosts rs up)"
    "route_hosts (hd (name_paths hosts rs up @ rest)) = Some (map JStr hosts)" "is_dict (hd (name_paths hosts rs up @ rest))"
    "get_key (hd (name_paths hosts rs up @ rest)) ''@id'' = JStr name" "name_paths hosts rs up \<noteq> []"
  using assms(2,3) unfolding assms(1)
  by (simp add: allowlisted_routes_for_def, simp, simp_all add: allowlisted_routes_for_def route_hosts_def is_dict_def strs_def)

lemma portal_ok:
  assumes "ascending hosts" and "set hosts \<subseteq> set (ef_edge_names facts)"
    and "named_other (starts_with ''portal'') rest"
  shows "validate_portal es facts (portal_routes_for hosts (ef_portal_ranges facts) (es_assert_upstream es) @ rest) = Inr rest"
proof (cases "hosts = [] \<or> ef_portal_ranges facts = []")
  case True
  then have "portal_routes_for hosts (ef_portal_ranges facts) (es_assert_upstream es) = []"
    by (auto simp: portal_routes_for_def allowlisted_routes_for_def)
  then show ?thesis using assms(3)
    by (cases rest) (auto simp: validate_portal_def text_starts_def json_text_def)
next
  case False
  then have ne: "hosts \<noteq> []" "ef_portal_ranges facts \<noteq> []" by simp_all
  note r = allowlisted_ok(1,2,6) [OF portal_routes_for_def this, where up = "es_assert_upstream es"]
    allowlisted_ok(3-5) [OF portal_routes_for_def this, where up = "es_assert_upstream es" and rest = rest]
  note ok = own_routes_ok [where expected = "\<lambda>hosts. portal_routes_for hosts (ef_portal_ranges facts) (es_assert_upstream es)",
      OF refl r(1,2,4) ne(1) assms(1,2)]
  show ?thesis
    by (simp add: validate_portal_def ok r(5,6) ne) (use r(3) in \<open>simp add: text_starts_def json_text_def starts_with_def\<close>)
qed

lemma operator_ok:
  assumes "ascending hosts" and "set hosts \<subseteq> set (ef_edge_names facts)"
    and "named_other (\<lambda>t. t \<in> {''operator'', ''operator-denied''}) rest"
  shows "validate_operator es facts (operator_routes_for hosts (ef_operator_ranges facts) (es_assert_upstream es) @ rest) = Inr rest"
proof (cases "hosts = [] \<or> ef_operator_ranges facts = []")
  case True
  then have "operator_routes_for hosts (ef_operator_ranges facts) (es_assert_upstream es) = []"
    by (auto simp: operator_routes_for_def allowlisted_routes_for_def)
  then show ?thesis using assms(3)
    by (cases rest) (auto simp: validate_operator_def)
next
  case False
  then have ne: "hosts \<noteq> []" "ef_operator_ranges facts \<noteq> []" by simp_all
  note r = allowlisted_ok(1,2,6) [OF operator_routes_for_def this, where up = "es_assert_upstream es"]
    allowlisted_ok(3-5) [OF operator_routes_for_def this, where up = "es_assert_upstream es" and rest = rest]
  note ok = own_routes_ok [where expected = "\<lambda>hosts. operator_routes_for hosts (ef_operator_ranges facts) (es_assert_upstream es)",
      OF refl r(1,2,4) ne(1) assms(1,2)]
  show ?thesis
    by (simp add: validate_operator_def ok r(5,6) ne)
qed

lemma api_ok:
  assumes "ascending hosts" and "set hosts \<subseteq> set (ef_edge_names facts)" and "ef_public_api facts = es_public_api es"
    and "named_other (\<lambda>t. t = ''api'') rest"
  shows "validate_api es facts (api_route es hosts @ rest) = Inr rest"
proof (cases "hosts = [] \<or> \<not> es_public_api es")
  case True
  then have "api_route es hosts = []" by (auto simp: api_route_def api_route_for_def)
  then show ?thesis using assms(4) by (cases rest) (auto simp: validate_api_def)
next
  case False
  let ?own = "api_route_for hosts (es_assert_upstream es)"
  have r: "length ?own = 1" "json_wf_list ?own" "route_hosts (hd (?own @ rest)) = Some (map JStr hosts)"
    "is_dict (hd (?own @ rest))" "get_key (hd (?own @ rest)) ''@id'' = JStr ''api''" "?own \<noteq> []"
    using False by (simp add: api_route_for_def, simp, simp_all add: api_route_for_def route_hosts_def is_dict_def strs_def)
  have ok: "own_routes facts (?own @ rest) bad (\<lambda>hosts. api_route_for hosts (es_assert_upstream es)) unexpected 1 = Inr rest" for bad unexpected
    by (rule own_routes_ok [where hosts = hosts, OF _ r(1,2,3) _ assms(1,2)]) (use False in simp_all)
  show ?thesis
    using False by (simp add: validate_api_def api_route_def ok r(4,5) assms(3) del: One_nat_def)
qed

section \<open>The whole payload is accepted\<close>

lemma same_values_ok:
  assumes "\<forall>(k, v)\<in>set expected. k = except \<or> json_wf v \<and> get_key given k = v"
  shows "same_values label except expected given = Inr ()"
  using assms unfolding same_values_def
  by (induction expected) (auto simp: need_def json_eq_refl)

lemma http_ok:
  assumes "validate_routes L es facts (JList (health_route # routes @ [unmatched_route])) = Inr seen"
  shows "validate_http L es facts (JObj (http_app es routes)) = Inr seen"
proof -
  have k: "dict_keys (http_app es routes) = dict_keys (http_app es [])" "dict_keys (server es routes) = dict_keys (server es [])"
    by (simp_all add: http_app_def server_def dict_keys_def)
  have s: "get_key (JObj (http_app es routes)) ''servers'' = JObj [(SERVER_NAME, JObj (server es routes))]"
    "get_key (JObj (server es routes)) ''routes'' = JList (health_route # routes @ [unmatched_route])"
    by (simp_all add: http_app_def server_def)
  have "same_values ''http'' ''servers'' (http_app es []) (JObj (http_app es routes)) = Inr ()"
    by (rule same_values_ok) (simp add: http_app_def)
  moreover have "same_values ''server'' ''routes'' (server es []) (JObj (server es routes)) = Inr ()"
    by (rule same_values_ok) (simp add: server_def)
  moreover have "dict_keys [(SERVER_NAME, v)] = [SERVER_NAME]" for v by (simp add: dict_keys_def)
  ultimately show ?thesis
    using assms by (simp add: validate_http_def k s Let_def)
qed

lemma payload_ok:
  assumes "validate_routes L es facts (JList (health_route # routes @ [unmatched_route])) = Inr seen"
  shows "validate_apps L (JObj ((''http'', JObj (http_app es routes))
    # (if es_disable_https es then [] else [(''tls'', expected_tls es)]))) es facts = Inr ()"
  using http_ok [OF assms] by (simp add: validate_apps_def dict_keys_def need_def json_eq_refl)

lemma own_names:
  "named_other (starts_with ''portal'') (operator_routes_for hosts rs up)"
  "named_other (starts_with ''portal'') (api_route es hosts)"
  "named_other (starts_with ''portal'') (map (\<lambda>g. app_route g es) gs)"
  "named_other (\<lambda>t. t = ''operator'' \<or> t = ''operator-denied'') (api_route es hosts)"
  "named_other (\<lambda>t. t = ''operator'' \<or> t = ''operator-denied'') (map (\<lambda>g. app_route g es) gs)"
  "named_other (\<lambda>t. t = ''api'') (map (\<lambda>g. app_route g es) gs)"
  by (auto simp: operator_routes_for_def allowlisted_routes_for_def api_route_def api_route_for_def starts_with_def
      named_other_def app_route_def Let_def)

lemma routes_ok:
  assumes "ascending hosts" and "set hosts \<subseteq> set (ef_edge_names facts)" and "ef_public_api facts = es_public_api es"
    and "\<forall>g\<in>set gs. group_ok L facts g" and "distinct (concat (map rg_hostnames gs))"
  shows "validate_routes L es facts (JList (health_route
      # (portal_routes_for hosts (ef_portal_ranges facts) (es_assert_upstream es)
        @ operator_routes_for hosts (ef_operator_ranges facts) (es_assert_upstream es)
        @ api_route es hosts @ map (\<lambda>g. app_route g es) gs) @ [unmatched_route]))
    = Inr (concat (map rg_hostnames gs))"
proof -
  let ?api = "api_route es hosts @ map (\<lambda>g. app_route g es) gs"
  let ?op = "operator_routes_for hosts (ef_operator_ranges facts) (es_assert_upstream es) @ ?api"
  let ?all = "portal_routes_for hosts (ef_portal_ranges facts) (es_assert_upstream es) @ ?op"
  have "validate_portal es facts ?all = Inr ?op"
    by (rule portal_ok [OF assms(1,2)]) (simp add: own_names)
  moreover have "validate_operator es facts ?op = Inr ?api"
    by (rule operator_ok [OF assms(1,2)]) (simp add: own_names)
  moreover have "validate_api es facts ?api = Inr (map (\<lambda>g. app_route g es) gs)"
    by (rule api_ok [OF assms(1,2,3)]) (simp add: own_names)
  moreover have "fold_res (validate_app_route L es facts) (map (\<lambda>g. app_route g es) gs) [] = Inr (concat (map rg_hostnames gs))"
    using app_routes_ok [OF assms(4), of "[]"] assms(5) by simp
  moreover have "butlast (tl (health_route # ?all @ [unmatched_route])) = ?all"
    by (simp only: list.sel butlast_snoc)
  moreover have "last (health_route # ?all @ [unmatched_route]) = unmatched_route"
    by (metis append_Cons last_snoc)
  moreover have "\<not> length (health_route # ?all @ [unmatched_route]) < 2" by simp
  ultimately show ?thesis
    unfolding validate_routes_def by (simp add: json_eq_refl del: butlast.simps last.simps append_assoc)
qed

section \<open>Route groups of a consistent database\<close>

lemma res_map_Inr: "res_map f xs = Inr ys \<longleftrightarrow> list_all2 (\<lambda>x y. f x = Inr y) xs ys"
  by (induction xs arbitrary: ys) (auto simp: bind_res_eq_Inr list_all2_Cons1)

lemma min_dial_in: "min_dial best k ds = Some d \<Longrightarrow> d \<in> insert best (set ds)"
  by (induction best k ds rule: min_dial.induct) (auto split: option.splits if_splits)

lemma pinned_dial_in:
  assumes "pinned_dial N host port ap = Inr (Inr (d, h))"
  shows "h = host \<and> (\<exists>dials address. resolve_dials N host port ap = Inr dials \<and> d \<in> set dials \<and> d = dial_text address port)"
proof -
  from assms obtain dials where r: "resolve_dials N host port ap = Inr dials" and "h = host" and "d \<in> set dials"
    unfolding pinned_dial_def by (auto split: sum.splits list.splits option.splits dest: min_dial_in)
  moreover have "\<forall>d\<in>set dials. \<exists>address. d = dial_text address port"
    using r by (auto simp: resolve_dials_def bind_res_eq_Inr)
  ultimately show ?thesis by blast
qed

text \<open>No address and port is offered under two names.\<close>

definition one_name_per_dial :: "network \<Rightarrow> bool \<Rightarrow> db \<Rightarrow> bool" where
  "one_name_per_dial N allow_private s = list_all (\<lambda>(d, h). list_all (\<lambda>(d', h'). d = d' \<longrightarrow> h = h')
     (offered_upstreams N allow_private s)) (offered_upstreams N allow_private s)"

lemma offered_lookup:
  assumes "one_name_per_dial N ap s" and "(d, h) \<in> set (offered_upstreams N ap s)"
  shows "map_of (rev (offered_upstreams N ap s)) d = Some h"
proof -
  from assms(2) have "(d, h) \<in> set (rev (offered_upstreams N ap s))" by simp
  then obtain h' where h': "map_of (rev (offered_upstreams N ap s)) d = Some h'" by (metis weak_map_of_SomeI)
  then have "(d, h') \<in> set (offered_upstreams N ap s)" using map_of_SomeD by fastforce
  with assms have "h' = h" by (auto simp: one_name_per_dial_def list_all_iff)
  with h' show ?thesis by simp
qed

lemma active_applications_set [simp]: "set (active_applications s) = {a \<in> set (applications s). app_status a = App_Active}"
  by (auto simp: active_applications_def)

lemma serving_originD:
  assumes "serving_origin s i = Some x"
  shows "x \<in> set (origins s) \<and> o_is_active x \<and> o_status x = Origin_Verified \<and> o_application_id x = i"
  using assms by (auto simp: serving_origin_def active_origin_def application_origins_def find_Some_iff
      split: option.splits if_splits dest!: nth_mem)

lemma offered_dial:
  assumes "a \<in> set (active_applications s)" and "serving_origin s (app_id a) = Some x"
    and "resolve_dials N (o_host x) (o_port x) ap = Inr dials" and "d \<in> set dials"
  shows "(d, o_host x) \<in> set (offered_upstreams N ap s)"
proof -
  have "x \<in> set (offered_origins s)"
    using serving_originD [OF assms(2)] assms(1) by (auto simp: offered_origins_def list_ex_iff)
  with assms(3,4) show ?thesis by (force simp: offered_upstreams_def)
qed

lemma route_group_ok:
  assumes g: "route_group_of N ap s a = Inr (Some g)" and a: "a \<in> set (active_applications s)"
    and ok: "tenants_ok s" "hostnames_ok L s" and one: "one_name_per_dial N ap s"
    and up: "ef_upstreams facts = rev (offered_upstreams N ap s)"
  shows "group_ok L facts g \<and> rg_hostnames g = routed_hostnames s a"
proof -
  from g obtain x d where x: "serving_origin s (app_id a) = Some x" and ne: "routed_hostnames s a \<noteq> []"
    and d: "pinned_dial N (o_host x) (o_port x) ap = Inr (Inr (d, rg_origin_host g))" "rg_origin g = d"
    and fields: "rg_hostnames g = routed_hostnames s a" "rg_per_minute g = app_rate_limit_per_minute a"
      "rg_per_second g = app_rate_limit_per_second a" "rg_origin_port g = o_port x"
    unfolding route_group_of_def by (auto simp: Let_def split: option.splits if_splits sum.splits)
  from pinned_dial_in [OF d(1)] obtain dials address where
    p: "rg_origin_host g = o_host x" "resolve_dials N (o_host x) (o_port x) ap = Inr dials" "d \<in> set dials" "d = dial_text address (o_port x)"
    by blast
  have "map_of (ef_upstreams facts) d = Some (o_host x)"
    unfolding up by (rule offered_lookup [OF one offered_dial [OF a x p(2,3)]])
  moreover have "0 < o_port x" "o_port x < 65536"
    using ok(1) serving_originD [OF x] by (auto simp: tenants_ok_def origins_ok_def)
  moreover have "rate_ok (app_rate_limit_per_minute a)" "rate_ok (app_rate_limit_per_second a)"
    using ok(1) a by (auto simp: tenants_ok_def apps_ok_def rates_ok_def)
  moreover have "\<forall>h\<in>set (routed_hostnames s a). canonicalize L False (Some h) = Inr h"
    using ok(2) by (auto simp: routed_hostnames_def hostnames_ok_def hostnames_def)
  ultimately show ?thesis using ne p by (auto simp: group_ok_def fields d(2))
qed

lemma routed_hostnamesD:
  assumes "h \<in> set (routed_hostnames s a)"
  shows "\<exists>d\<in>set (filter live (domains s)). d_hostname d = h \<and> d_application_id d = app_id a"
  using assms by (auto simp: routed_hostnames_def live_def)

lemma routed_hostnames_distinct:
  assumes "tables_ok s"
  shows "distinct (routed_hostnames s a)"
proof -
  let ?Q = "\<lambda>d. d_application_id d = app_id a \<and> d_deleted_at d = None \<and> d_status d \<in> set ROUTABLE_STATUSES"
  have "filter ?Q (domains s) = filter ?Q (filter live (domains s))" by (auto simp: live_def intro: filter_cong)
  moreover have "distinct (map d_hostname (filter live (domains s)))" using assms by (simp add: tables_ok_def keys_ok_def)
  ultimately have "distinct (map d_hostname (by_text d_hostname (filter ?Q (domains s))))"
    by (simp only: distinct_by_text distinct_map_filter)
  then show ?thesis unfolding routed_hostnames_def by (rule distinct_map_filter)
qed

lemma routed_hostnames_disjoint:
  assumes "tables_ok s" and "h \<in> set (routed_hostnames s a)" and "h \<in> set (routed_hostnames s b)"
  shows "app_id a = app_id b"
proof -
  have "inj_on d_hostname (set (filter live (domains s)))"
    using assms(1) by (simp add: tables_ok_def keys_ok_def distinct_map)
  with routed_hostnamesD [OF assms(2)] routed_hostnamesD [OF assms(3)] show ?thesis
    by (metis inj_onD)
qed

lemma active_applications_distinct: "tenants_ok s \<Longrightarrow> distinct (map app_id (active_applications s))"
  by (simp add: active_applications_def distinct_by_text tenants_ok_def apps_ok_def distinct_map_filter)

definition some_groups :: "route_group option list \<Rightarrow> route_group list" where
  "some_groups gs = concat (map (\<lambda>g. case g of None \<Rightarrow> [] | Some g \<Rightarrow> [g]) gs)"

lemma some_groups_simps [simp]:
  "some_groups [] = []" "some_groups (None # gs) = some_groups gs" "some_groups (Some g # gs) = g # some_groups gs"
  by (simp_all add: some_groups_def)

lemma route_groups_ok:
  assumes "list_all2 (\<lambda>a y. route_group_of N ap s a = Inr y) apps ys"
    and "set apps \<subseteq> set (active_applications s)" and "distinct (map app_id apps)" and "tables_ok s"
    and "tenants_ok s" "hostnames_ok L s" "one_name_per_dial N ap s" "ef_upstreams facts = rev (offered_upstreams N ap s)"
  shows "(\<forall>g\<in>set (some_groups ys). group_ok L facts g) \<and> distinct (concat (map rg_hostnames (some_groups ys)))
    \<and> set (concat (map rg_hostnames (some_groups ys))) \<subseteq> (\<Union>a\<in>set apps. set (routed_hostnames s a))"
  using assms(1-3)
proof (induction rule: list_all2_induct)
  case (Cons a as y ys)
  then have IH: "\<forall>g\<in>set (some_groups ys). group_ok L facts g" "distinct (concat (map rg_hostnames (some_groups ys)))"
    "set (concat (map rg_hostnames (some_groups ys))) \<subseteq> (\<Union>a\<in>set as. set (routed_hostnames s a))" by simp_all
  show ?case
  proof (cases y)
    case None
    with IH show ?thesis by auto
  next
    case (Some g)
    with Cons have g: "group_ok L facts g" "rg_hostnames g = routed_hostnames s a"
      using route_group_ok [OF _ _ assms(5-8), of a g] by simp_all
    have "set (routed_hostnames s a) \<inter> set (routed_hostnames s b) = {}" if "b \<in> set as" for b
      using routed_hostnames_disjoint [OF assms(4), of _ a b] Cons.prems(2) that by auto
    then have "set (routed_hostnames s a) \<inter> set (concat (map rg_hostnames (some_groups ys))) = {}"
      using IH(3) by blast
    with IH g Some routed_hostnames_distinct [OF assms(4), of a] show ?thesis by auto
  qed
qed simp

lemma reachable_hostnames_ok:
  assumes "reachable C s" and "idna_printable (cfg_libs C)" and "idna_stable (cfg_libs C)"
  shows "hostnames_ok (cfg_libs C) s"
proof -
  from assms(1) obtain s0 where s0: "fresh_db s0" and run: "(lifecycle_step C)\<^sup>*\<^sup>* s0 s" unfolding reachable_def by blast
  from run have "reachable C s \<and> hostnames_ok (cfg_libs C) s"
  proof induction
    case base
    show ?case using s0 by (auto simp: reachable_def hostnames_ok_def hostnames_def fresh_db_def)
  next
    case (step t u)
    then have "tables_ok t" using reachable_db_inv [of C t] by (simp add: db_inv_def)
    with step step_hostnames_ok [OF assms(2,3) step(2)] show ?case by (blast intro: reachable_step)
  qed
  then show ?thesis ..
qed

lemma ascending_portal_hosts: "ascending (portal_hosts s st)"
  by (simp add: portal_hosts_def Let_def sorted_strs_ascending)

lemma build_apps_ranges:
  assumes "build_apps N ap s es = Inr apps"
  shows "\<exists>facts. edge_origins N ap s es = Inr facts"
  using assms unfolding build_apps_def portal_routes_def operator_routes_def edge_origins_def
  by (cases "es_portal_allowed_ips es = []") (auto simp: bind_res_eq_Inr Let_def portal_ranges_def ranges_def)

lemma reconciled_accepted:
  assumes "reachable C s" and "tenants_ok s" and "idna_printable (cfg_libs C)" and "idna_stable (cfg_libs C)"
    and "one_name_per_dial N ap s" and "build_apps N ap s es = Inr apps" and f: "edge_origins N ap s es = Inr facts"
  shows "validate_apps (cfg_libs C) apps es facts = Inr ()"
proof -
  let ?hosts = "portal_hosts s (Some es)"
  from assms(6) obtain ys pr opr where ys: "res_map (route_group_of N ap s) (active_applications s) = Inr ys"
    and r: "portal_ranges es = Inr pr" "operator_ranges es = Inr opr"
    and apps: "apps = JObj ((''http'', JObj (http_app es (portal_routes_for ?hosts pr (es_assert_upstream es)
      @ operator_routes_for ?hosts opr (es_assert_upstream es) @ api_route es ?hosts
      @ map (\<lambda>g. app_route g es) (some_groups ys)))) # (if es_disable_https es then [] else [(''tls'', expected_tls es)]))"
    unfolding build_apps_def serveable_route_groups_def portal_routes_def operator_routes_def some_groups_def
    by (cases "es_portal_allowed_ips es = []")
      (auto simp: bind_res_eq_Inr Let_def portal_ranges_def ranges_def portal_routes_for_def allowlisted_routes_for_def)
  have facts_def: "facts = \<lparr>ef_upstreams = rev (offered_upstreams N ap s), ef_edge_names = ?hosts,
    ef_portal_ranges = pr, ef_public_api = es_public_api es, ef_operator_ranges = opr\<rparr>"
    using f by (simp add: edge_origins_def r)
  have tables: "tables_ok s" using reachable_db_inv [OF assms(1)] by (simp add: db_inv_def)
  have gs: "(\<forall>g\<in>set (some_groups ys). group_ok (cfg_libs C) facts g) \<and> distinct (concat (map rg_hostnames (some_groups ys)))"
    using route_groups_ok [OF ys [unfolded res_map_Inr] subset_refl active_applications_distinct [OF assms(2)] tables assms(2)
        reachable_hostnames_ok [OF assms(1,3,4)] assms(5), of facts] by (simp add: facts_def)
  show ?thesis
    unfolding apps by (rule payload_ok)
      (use routes_ok [of ?hosts facts es "some_groups ys" "cfg_libs C"] ascending_portal_hosts gs in \<open>simp add: facts_def\<close>)
qed

text \<open>
  C7: in every reachable state, the configuration the reconciler builds is accepted by the gateway
  and forwarded to Caddy unchanged, provided that no address and port is offered under two origin
  names and that names resolve alike for both.
\<close>

theorem reconciled_config_is_accepted:
  assumes "reachable C s" and "tenants_ok s" and "idna_printable (cfg_libs C)" and "idna_stable (cfg_libs C)"
    and "one_name_per_dial N ap s" and "build_apps N ap s es = Inr apps"
  shows "set_apps (cfg_libs C) es (edge_origins N ap s es) apps = Inr apps"
proof -
  from build_apps_ranges [OF assms(6)] obtain facts where "edge_origins N ap s es = Inr facts" ..
  with reconciled_accepted [OF assms] show ?thesis by (simp add: set_apps_def)
qed

definition edge_network :: network where
  "edge_network = \<lparr>getaddrinfo = (\<lambda>host port. if host = ''app.example.com'' then Inr [''203.0.113.10'', ''203.0.113.9'']
       else if host = ''shop.example.com'' then Inr [''203.0.113.9''] else Inl ''unknown host''),
     is_global = (\<lambda>a. \<not> starts_with ''10.'' a)\<rparr>"

definition edge_db :: db where
  "edge_db = demo_ready\<lparr>origins := [demo_origin],
     applications := [demo_app\<lparr>app_rate_limit_per_minute := Some 600\<rparr>]\<rparr>"

definition edge_es :: edge_settings where
  "edge_es = demo_settings\<lparr>es_portal_allowed_ips := [''198.51.100.0/24''], es_operator_allowed_ips := [''2001:db8::/32''],
     es_operator_api_enabled := True\<rparr>"

definition edge_facts_of :: "db \<Rightarrow> bool" where
  "edge_facts_of s = (tenants_ok s \<and> one_name_per_dial edge_network False s
     \<and> (case build_apps edge_network False s edge_es of Inl _ \<Rightarrow> False | Inr apps \<Rightarrow> json_wf apps)
     \<and> (case edge_origins edge_network False s edge_es of Inl _ \<Rightarrow> False
       | Inr facts \<Rightarrow> map fst (ef_upstreams facts) = [''203.0.113.9:443'', ''203.0.113.10:443'']))"

lemma edge_db_facts: "edge_facts_of edge_db"
  by code_simp

lemma edge_db_reachable: "reachable demo_cfg edge_db"
  by (rule reachable_step [OF demo_reachable(2)]) (rule lifecycle_step.other, simp_all add: edge_db_def)

lemma edge_db_built:
  "\<exists>apps facts. build_apps edge_network False edge_db edge_es = Inr apps \<and> json_wf apps
    \<and> edge_origins edge_network False edge_db edge_es = Inr facts
    \<and> fst ` set (ef_upstreams facts) = {''203.0.113.9:443'', ''203.0.113.10:443''}"
proof -
  have "case build_apps edge_network False edge_db edge_es of Inl _ \<Rightarrow> False | Inr apps \<Rightarrow> json_wf apps"
    and "case edge_origins edge_network False edge_db edge_es of Inl _ \<Rightarrow> False
       | Inr facts \<Rightarrow> map fst (ef_upstreams facts) = [''203.0.113.9:443'', ''203.0.113.10:443'']"
    using edge_db_facts unfolding edge_facts_of_def by - (elim conjE, assumption)+
  then show ?thesis by (auto split: sum.splits simp flip: set_map)
qed

lemma edge_db_ok: "tenants_ok edge_db" "one_name_per_dial edge_network False edge_db"
  using edge_db_facts unfolding edge_facts_of_def by - (elim conjE, assumption)+

lemma edge_cfg: "idna_printable (cfg_libs demo_cfg)" "idna_stable (cfg_libs demo_cfg)"
  by (simp_all add: demo_cfg_def plain_libs_idna)

theorem reconciled_config_is_accepted_witness:
  "\<exists>apps. build_apps edge_network False edge_db edge_es = Inr apps
    \<and> set_apps (cfg_libs demo_cfg) edge_es (edge_origins edge_network False edge_db edge_es) apps = Inr apps"
proof -
  from edge_db_built obtain apps where r: "build_apps edge_network False edge_db edge_es = Inr apps" by (elim exE conjE)
  from conjI [OF r reconciled_config_is_accepted [OF edge_db_reachable edge_db_ok(1) edge_cfg edge_db_ok(2) r]]
  show ?thesis by (rule exI)
qed


text \<open>
  An address and port offered under two names is looked up under the later one only: the proxy of
  a TLS origin of the other name is refused, and with it the whole configuration.
\<close>

lemma shared_dial_refused:
  assumes "map_of (ef_upstreams facts) (rg_origin g) = Some other" and "other \<noteq> rg_origin_host g" and "rg_origin_tls g"
  shows "isl (validate_proxy facts (origin_proxy g))"
proof -
  have up: "proxy_upstream facts (origin_proxy g) = Inr (rg_origin g, other)"
    using assms(1) by (simp add: proxy_upstream_def origin_proxy_def Let_def dial_to_def set_is_def item_def dict_keys_def
        dict_get_def)
  have t: "get_key (origin_proxy g) ''transport'' = tls_transport (rg_origin_host g)"
    using assms(3) by (simp add: origin_proxy_def Let_def dial_to_def proxy_headers_def set_request_def)
  have "tls_transport host \<noteq> JNull" for host by (simp add: tls_transport_def)
  moreover have "\<not> json_eq (tls_transport (rg_origin_host g)) (tls_transport other)"
    using assms(2) by (simp add: tls_transport_def)
  ultimately show ?thesis
    by (auto simp: validate_proxy_def up t need_def Let_def bind_res_def split: sum.splits)
qed

end
