(* ===== verification/Internal.thy ===== *)
theory Internal
  imports Assertion_Keys Edge_Accepts
begin

text \<open>
  The endpoints only the edge calls (src/app/v1/internal.py): the permission check of on-demand TLS
  and the routing decision that returns the signed assertion.
\<close>

section \<open>Callers\<close>

text \<open>The edge settings are \<open>None\<close> when the application runs without an edge; \<open>client\<close> is \<open>request.client.host\<close>.\<close>

definition trusted :: "edge_settings option \<Rightarrow> string option \<Rightarrow> bool" where
  "trusted settings client = (case settings of
     None \<Rightarrow> client \<in> {Some ''127.0.0.1'', Some ''::1''}
   | Some es \<Rightarrow> trusts es client)"

definition token_ok :: "edge_settings option \<Rightarrow> string option \<Rightarrow> error + bool" where
  "token_ok settings given = (case (case settings of None \<Rightarrow> None | Some es \<Rightarrow> es_edge_token es) of
     None \<Rightarrow> Inr True
   | Some expected \<Rightarrow>
     if expected = [] then Inr True
     else (case given of
         None \<Rightarrow> Inr False
       | Some t \<Rightarrow> if t = [] then Inr False else (case compare_digest t expected of
           Inl _ \<Rightarrow> Inl (TypeError ''comparing strings with non-ASCII characters is not supported'')
         | Inr same \<Rightarrow> Inr same)))"

section \<open>The endpoints\<close>

definition tls_ask :: "libs \<Rightarrow> edge_settings option \<Rightarrow> string option \<Rightarrow> string \<Rightarrow> db \<Rightarrow> error + int" where
  "tls_ask L settings client name s =
     (if length name < 1 \<or> 253 < length name then Inr 422
      else if \<not> trusted settings client then Inr 403
      else (case find_live_by_hostname L s name of
          Inl (InvalidHostname _ _) \<Rightarrow> Inr 403
        | Inl e \<Rightarrow> Inl e
        | Inr row \<Rightarrow> Inr (if certificate_authorized s row \<or> is_edge_name L s name settings then 200 else 403)))"

text \<open>\<open>host.rsplit(":", 1)[0] if host.count(":") == 1 else host\<close>.\<close>

definition without_port :: "string \<Rightarrow> string" where
  "without_port host = (if length (filter (\<lambda>c. c = CHR '':'') host) = 1
     then (case str_rpartition (CHR '':'') host of Some (h, _) \<Rightarrow> h | None \<Rightarrow> host) else host)"

definition sni_matches :: "libs \<Rightarrow> string option \<Rightarrow> string \<Rightarrow> error + bool" where
  "sni_matches L sni hostname = (case sni of
     None \<Rightarrow> Inr True
   | Some n \<Rightarrow> if n = [] \<or> starts_with [CHR 0x7B] n then Inr True
     else (case canonicalize L False (Some n) of
         Inl (InvalidHostname _ _) \<Rightarrow> Inr False
       | Inl e \<Rightarrow> Inl e
       | Inr c \<Rightarrow> Inr (c = hostname)))"

definition forwarded_path :: "string option \<Rightarrow> string" where
  "forwarded_path uri = (let u = (case uri of None \<Rightarrow> [] | Some u \<Rightarrow> u) in
     case str_partition (CHR ''?'') u of None \<Rightarrow> u | Some (p, _) \<Rightarrow> p)"

text \<open>\<open>EdgeSettings.active_key\<close>, and the key of the application when it has one.\<close>

definition request_key :: "edge_settings \<Rightarrow> db \<Rightarrow> uuid \<Rightarrow> instant \<Rightarrow> string \<times> string" where
  "request_key es s i now = (case signing_key s i now of
     Some own \<Rightarrow> (k_key_id own, k_secret own)
   | None \<Rightarrow> hd (es_assertion_keys es))"

definition request_id_of :: "string option \<Rightarrow> string" where
  "request_id_of rid = (let r = take 64 (case rid of None \<Rightarrow> [] | Some r \<Rightarrow> r) in if r = [] then ''unknown'' else r)"

text \<open>\<open>int(time.time())\<close>.\<close>

definition unix_time :: "instant \<Rightarrow> int" where "unix_time now = now div 1000000"

definition edge_assert ::
    "libs \<Rightarrow> edge_settings option \<Rightarrow> string option \<Rightarrow> string option \<Rightarrow> string option \<Rightarrow> string option \<Rightarrow> string option
      \<Rightarrow> string option \<Rightarrow> instant \<Rightarrow> db \<Rightarrow> error + int \<times> string option" where
  "edge_assert L settings client edge_token host sni request_id forwarded_uri now s =
     bind_res (if trusted settings client then token_ok settings edge_token else Inr False) (\<lambda>ok.
     if \<not> ok then Inr (403, None)
     else (case settings of
       None \<Rightarrow> Inr (503, None)
     | Some es \<Rightarrow>
       if es_assertion_keys es = [] then Inr (503, None)
       else (case host of
         None \<Rightarrow> Inr (403, None)
       | Some h \<Rightarrow>
         if h = [] then Inr (403, None)
         else (case canonicalize L False (Some (without_port h)) of
           Inl (InvalidHostname _ _) \<Rightarrow> Inr (403, None)
         | Inl e \<Rightarrow> Inl e
         | Inr hostname \<Rightarrow>
           bind_res (sni_matches L sni hostname) (\<lambda>same.
           if \<not> same then Inr (403, None)
           else bind_res (find_live_by_hostname L s hostname) (\<lambda>row. case row of
             None \<Rightarrow> Inr (403, None)
           | Some d \<Rightarrow>
             if \<not> is_serveable s d \<and> \<not> (routable s d \<and> forwarded_path forwarded_uri = WORKSPACE_PATH) then Inr (403, None)
             else (case serving_origin s (d_application_id d) of
               None \<Rightarrow> Inr (403, None)
             | Some _ \<Rightarrow>
               let (key_id, secret) = request_key es s (d_application_id d) now in
               Inr (200, Some (sign_assertion key_id (utf8_encode secret) (uuid_str (d_application_id d)) (uuid_str (d_id d))
                 (d_reference d) hostname (request_id_of request_id) (unix_time now) (es_assertion_ttl es))))))))))"

section \<open>What the origin learns\<close>

lemma edge_assert_granted:
  assumes "edge_assert L settings client edge_token host sni rid uri now s = Inr (200, Some t)"
  shows "\<exists>es h hostname d x. settings = Some es \<and> trusted settings client \<and> token_ok settings edge_token = Inr True
    \<and> host = Some h \<and> canonicalize L False (Some (without_port h)) = Inr hostname \<and> sni_matches L sni hostname = Inr True
    \<and> find_live_by_hostname L s hostname = Inr (Some d)
    \<and> (is_serveable s d \<or> routable s d \<and> forwarded_path uri = WORKSPACE_PATH)
    \<and> serving_origin s (d_application_id d) = Some x
    \<and> (let (key_id, secret) = request_key es s (d_application_id d) now in
        t = sign_assertion key_id (utf8_encode secret) (uuid_str (d_application_id d)) (uuid_str (d_id d))
          (d_reference d) hostname (request_id_of rid) (unix_time now) (es_assertion_ttl es))"
proof -
  from assms have ok: "trusted settings client" "token_ok settings edge_token = Inr True"
    by (auto simp: edge_assert_def bind_res_eq_Inr split: if_splits)
  from assms ok obtain es h where es: "settings = Some es" "host = Some h"
    by (auto simp: edge_assert_def split: option.splits if_splits)
  from assms ok obtain hostname where hn: "canonicalize L False (Some (without_port h)) = Inr hostname"
    by (auto simp: edge_assert_def es split: if_splits sum.splits error.splits)
  from assms ok have sni: "sni_matches L sni hostname = Inr True"
    by (cases "sni_matches L sni hostname") (auto simp: edge_assert_def es hn split: if_splits)
  from assms ok obtain row where "find_live_by_hostname L s hostname = Inr row"
    by (cases "find_live_by_hostname L s hostname") (auto simp: edge_assert_def es hn sni split: if_splits)
  with assms ok obtain d where d: "find_live_by_hostname L s hostname = Inr (Some d)"
    by (cases row) (auto simp: edge_assert_def es hn sni split: if_splits)
  have serve: "is_serveable s d \<or> routable s d \<and> forwarded_path uri = WORKSPACE_PATH"
    using assms ok by (auto simp: edge_assert_def es hn sni d split: if_splits)
  then have nserve: "(\<not> is_serveable s d \<and> \<not> (routable s d \<and> forwarded_path uri = WORKSPACE_PATH)) = False" by blast
  obtain x where "serving_origin s (d_application_id d) = Some x"
    using assms ok by (auto simp: edge_assert_def es hn sni d nserve split: if_splits option.splits)
  moreover obtain key_id secret where "request_key es s (d_application_id d) now = (key_id, secret)" by fastforce
  ultimately show ?thesis
    using assms ok serve by (auto simp: edge_assert_def es hn sni d nserve split: if_splits)
qed

lemma edge_assert_grants:
  assumes "trusted (Some es) client" and "token_ok (Some es) edge_token = Inr True" and "es_assertion_keys es \<noteq> []" and "h \<noteq> []"
    and "canonicalize L False (Some (without_port h)) = Inr hostname" and "sni_matches L sni hostname = Inr True"
    and "find_live_by_hostname L s hostname = Inr (Some d)" and "is_serveable s d" and "serving_origin s (d_application_id d) \<noteq> None"
  shows "\<exists>t. edge_assert L (Some es) client edge_token (Some h) sni rid uri now s = Inr (200, Some t)"
  using assms by (auto simp: edge_assert_def split: prod.splits)

lemma canonical_rstrip:
  assumes "hostname_ok v"
  shows "rstrip (\<lambda>c. c = CHR ''.'') (lower v) = v"
proof -
  have l: "v \<noteq> []" "last v \<noteq> CHR ''.''"
    using hostname_ok_ends [OF assms] label_char_props(3) by auto
  then obtain u x where "v = u @ [x]" "x \<noteq> CHR ''.''" by (metis append_butlast_last_id)
  then show ?thesis unfolding hostname_ok_lower [OF assms] rstrip_def by simp
qed

lemma granted_ask:
  assumes "find_live_by_hostname L s hostname = Inr (Some d)" and "routable s d" and "hostname_ok hostname" and "trusted settings client"
  shows "tls_ask L settings client hostname s = Inr 200"
proof -
  have "certificate_authorized s (Some d)" using edge_rules_nest [of s d] assms(2) by blast
  moreover have "\<not> (length hostname < 1 \<or> 253 < length hostname)"
    using assms(3) hostname_ok_ends(1) [OF assms(3)] by (auto simp: hostname_ok_def)
  ultimately show ?thesis using assms(1,4) by (simp add: tls_ask_def)
qed


definition asserting :: "db \<Rightarrow> bool" where
  "asserting s = (case find_live_by_hostname plain_libs s ''www.example.com'' of
     Inr (Some d) \<Rightarrow> is_serveable s d \<and> serving_origin s (d_application_id d) \<noteq> None
       \<and> d_application_id d = 1 \<and> d_reference d = ''ws_1'' \<and> assertion_keys s = []
   | _ \<Rightarrow> False)"

lemma edge_db_asserting: "asserting edge_db"
  by code_simp


end
