(* ===== verification/Traffic.thy ===== *)
theory Traffic
  imports Guarantees
begin

text \<open>
  Per-application traffic, counted at the edge: src/app/services/traffic.py. A reading of Caddy's
  running totals becomes an increase of the day of the application that owns the hostname.
\<close>

section \<open>Operations\<close>

definition TRAFFIC_RETENTION_DAYS :: int where "TRAFFIC_RETENTION_DAYS = 400"
definition OTHER_HOST :: string where "OTHER_HOST = ''_other''"
definition COUNTER_EXPIRY :: duration where "COUNTER_EXPIRY = days 30"

text \<open>\<open>now.date()\<close>, as the number of the day.\<close>

definition date_of :: "instant \<Rightarrow> int" where "date_of now = now div days 1"

type_synonym totals = "(string \<times> (int \<times> int)) list"

definition readings_of :: "totals \<Rightarrow> totals" where
  "readings_of ts = foldl (\<lambda>m (host, (requests, sent)). if host = OTHER_HOST then m
     else key_set m (lower host) (max requests 0, max sent 0)) [] ts"

definition owner_of :: "db \<Rightarrow> string \<Rightarrow> uuid option" where
  "owner_of s host = map_of (rev (map (\<lambda>d. (d_hostname d, d_application_id d)) (filter (\<lambda>d. d_deleted_at d = None) (domains s)))) host"

definition counter_row :: "db \<Rightarrow> string \<Rightarrow> edge_traffic_counter option" where
  "counter_row s host = find_row tc_hostname host (counters s)"

text \<open>The increase of one reading against the stored totals.\<close>

definition added :: "db \<Rightarrow> string \<Rightarrow> int \<times> int \<Rightarrow> int \<times> int" where
  "added s host r = (let (requests, sent) = r;
     (old_requests, old_sent) = (case counter_row s host of None \<Rightarrow> (0, 0) | Some c \<Rightarrow> (tc_requests c, tc_response_bytes c))
   in if requests < old_requests \<or> sent < old_sent then (requests, sent)
      else (requests - old_requests, sent - old_sent))"

definition put_counter :: "instant \<Rightarrow> string \<Rightarrow> int \<times> int \<Rightarrow> db \<Rightarrow> db" where
  "put_counter now host r s = (let c = \<lparr>tc_hostname = host, tc_requests = fst r, tc_response_bytes = snd r, tc_read_at = now\<rparr> in
     case counter_row s host of
       None \<Rightarrow> s\<lparr>counters := counters s @ [c]\<rparr>
     | Some _ \<Rightarrow> s\<lparr>counters := update_row tc_hostname host (\<lambda>_. c) (counters s)\<rparr>)"

text \<open>One turn of the loop over the readings; the increases per application are its other state.\<close>

type_synonym increases = "(uuid \<times> (int \<times> int)) list"

definition add_increase :: "uuid option \<Rightarrow> int \<times> int \<Rightarrow> increases \<Rightarrow> increases" where
  "add_increase owner a incs = (case owner of
     None \<Rightarrow> incs
   | Some i \<Rightarrow> if a = (0, 0) then incs
     else (let (x, y) = (case map_of incs i of None \<Rightarrow> (0, 0) | Some p \<Rightarrow> p) in key_set incs i (x + fst a, y + snd a)))"

definition count_reading :: "instant \<Rightarrow> increases \<times> db \<Rightarrow> string \<times> (int \<times> int) \<Rightarrow> increases \<times> db" where
  "count_reading now st reading = (let (incs, s) = st; (host, r) = reading in
     (add_increase (owner_of s host) (added s host r) incs, put_counter now host r s))"

definition traffic_key :: "uuid \<Rightarrow> int \<Rightarrow> application_traffic \<Rightarrow> bool" where
  "traffic_key i day x = (at_application_id x = i \<and> at_day x = day)"

definition add_day :: "int \<Rightarrow> db \<Rightarrow> uuid \<times> (int \<times> int) \<Rightarrow> db" where
  "add_day day s inc = (let (i, (requests, sent)) = inc in
     if list_ex (traffic_key i day) (traffic s)
     then s\<lparr>traffic := map (\<lambda>x. if traffic_key i day x
         then x\<lparr>at_requests := at_requests x + requests, at_response_bytes := at_response_bytes x + sent\<rparr> else x) (traffic s)\<rparr>
     else s\<lparr>traffic := traffic s @ [\<lparr>at_application_id = i, at_day = day, at_requests = requests, at_response_bytes = sent\<rparr>]\<rparr>)"

definition record_totals :: "totals \<Rightarrow> instant \<Rightarrow> db \<Rightarrow> int \<times> db" where
  "record_totals ts now s = (let (incs, s1) = foldl (count_reading now) ([], s) (readings_of ts);
     today = date_of now;
     s2 = foldl (add_day today) s1 incs
   in (int (length incs), s2\<lparr>counters := filter (\<lambda>c. \<not> tc_read_at c < now - COUNTER_EXPIRY) (counters s2),
       traffic := filter (\<lambda>x. \<not> at_day x \<le> today - TRAFFIC_RETENTION_DAYS) (traffic s2)\<rparr>))"

definition reset_baselines :: "db \<Rightarrow> db" where
  "reset_baselines s = s\<lparr>counters := map (\<lambda>c. c\<lparr>tc_requests := 0, tc_response_bytes := 0\<rparr>) (counters s)\<rparr>"

record traffic_day =
  td_day :: int
  td_requests :: int
  td_response_bytes :: int

definition application_traffic_days :: "application \<Rightarrow> int \<Rightarrow> instant \<Rightarrow> db \<Rightarrow> error + traffic_day list" where
  "application_traffic_days a count now s =
     (if \<not> (1 \<le> count \<and> count \<le> TRAFFIC_RETENTION_DAYS) then Inl (InvalidApplication ''Days must be 1 to 400'')
      else let today = date_of now; first = today - (count - 1);
        rows = map (\<lambda>x. (at_day x, x)) (filter (\<lambda>x. at_application_id x = app_id a \<and> at_day x \<ge> first) (traffic s))
      in Inr (map (\<lambda>offset. let day = first + int offset in
          case map_of (rev rows) day of
            None \<Rightarrow> \<lparr>td_day = day, td_requests = 0, td_response_bytes = 0\<rparr>
          | Some x \<Rightarrow> \<lparr>td_day = day, td_requests = at_requests x, td_response_bytes = at_response_bytes x\<rparr>) [0..<nat count]))"

section \<open>Every request is counted once\<close>

definition plus2 :: "int \<times> int \<Rightarrow> int \<times> int \<Rightarrow> int \<times> int" where
  "plus2 p q = (fst p + fst q, snd p + snd q)"

lemma plus2_simps [simp]: "plus2 p (0, 0) = p" "plus2 (0, 0) p = p" "plus2 (plus2 p q) r = plus2 p (plus2 q r)"
  by (simp_all add: plus2_def)

lemma plus2_commute: "plus2 p q = plus2 q p"
  by (simp add: plus2_def)

definition sum2 :: "(int \<times> int) list \<Rightarrow> int \<times> int" where
  "sum2 ps = foldr plus2 ps (0, 0)"

lemma sum2_simps [simp]: "sum2 [] = (0, 0)" "sum2 (p # ps) = plus2 p (sum2 ps)"
  by (simp_all add: sum2_def)

definition due :: "increases \<Rightarrow> uuid \<Rightarrow> int \<times> int" where
  "due incs i = (case map_of incs i of None \<Rightarrow> (0, 0) | Some p \<Rightarrow> p)"

definition day_total :: "db \<Rightarrow> uuid \<Rightarrow> int \<Rightarrow> int \<times> int" where
  "day_total s i day = (case find (traffic_key i day) (traffic s) of None \<Rightarrow> (0, 0)
     | Some x \<Rightarrow> (at_requests x, at_response_bytes x))"

text \<open>What an application is owed for some readings against given totals.\<close>

definition owed :: "db \<Rightarrow> uuid \<Rightarrow> totals \<Rightarrow> int \<times> int" where
  "owed s i rs = sum2 (map (\<lambda>(h, r). added s h r) (filter (\<lambda>(h, r). owner_of s h = Some i) rs))"

lemma due_add_increase:
  "due (add_increase owner a incs) i = (if owner = Some i then plus2 (due incs i) a else due incs i)"
  by (auto simp: add_increase_def due_def plus2_def prod_eq_iff split: option.splits)

lemma distinct_add_increase: "distinct (map fst incs) \<Longrightarrow> distinct (map fst (add_increase owner a incs))"
  by (auto simp: add_increase_def distinct_key_set Let_def split: option.splits prod.splits)

lemma put_counter_frame [simp]:
  "domains (put_counter now host r s) = domains s" "traffic (put_counter now host r s) = traffic s"
  "owner_of (put_counter now host r s) = owner_of s"
  by (simp_all add: put_counter_def Let_def owner_of_def fun_eq_iff split: option.splits)

lemma find_row_map_snoc:
  "find_row f k (xs @ [x]) = (case find_row f k xs of None \<Rightarrow> if f x = k then Some x else None | Some y \<Rightarrow> Some y)"
  by (induction xs) (auto simp: find_row_def)

lemma counter_put_counter:
  "counter_row (put_counter now host r s) h
     = (if h = host then Some \<lparr>tc_hostname = host, tc_requests = fst r, tc_response_bytes = snd r, tc_read_at = now\<rparr> else counter_row s h)"
proof (cases "counter_row s host")
  case None
  then show ?thesis by (auto simp: put_counter_def Let_def counter_row_def find_row_map_snoc split: option.splits)
next
  case (Some c)
  let ?c = "\<lparr>tc_hostname = host, tc_requests = fst r, tc_response_bytes = snd r, tc_read_at = now\<rparr>"
  have "find_row tc_hostname h (update_row tc_hostname host (\<lambda>_. ?c) cs)
      = (if h = host then map_option (\<lambda>_. ?c) (find_row tc_hostname host cs) else find_row tc_hostname h cs)" for cs
    by (induction cs) (auto simp: find_row_def update_row_def)
  with Some show ?thesis by (simp add: put_counter_def counter_row_def Let_def)
qed

lemma count_reading_eq:
  "count_reading now (incs, s) (h, r) = (add_increase (owner_of s h) (added s h r) incs, put_counter now h r s)"
  by (simp add: count_reading_def)

lemma count_readings:
  assumes "foldl (count_reading now) (incs, s) rs = (incs', t)" and "distinct (map fst rs)" and "distinct (map fst incs)"
  shows "(\<forall>i. due incs' i = plus2 (due incs i) (owed s i rs)) \<and> distinct (map fst incs')
    \<and> (\<forall>h. map_of rs h = None \<longrightarrow> counter_row t h = counter_row s h)
    \<and> (\<forall>h r. map_of rs h = Some r \<longrightarrow> counter_row t h
        = Some \<lparr>tc_hostname = h, tc_requests = fst r, tc_response_bytes = snd r, tc_read_at = now\<rparr>)
    \<and> traffic t = traffic s \<and> domains t = domains s"
  using assms
proof (induction rs arbitrary: incs s)
  case Nil
  then show ?case by (simp add: owed_def)
next
  case (Cons p rs)
  obtain h r where p: "p = (h, r)" by (cases p)
  let ?i1 = "add_increase (owner_of s h) (added s h r) incs" and ?s1 = "put_counter now h r s"
  have "foldl (count_reading now) (?i1, ?s1) rs = (incs', t)" using Cons.prems(1) by (simp add: p count_reading_eq)
  from Cons.IH [OF this] Cons.prems(2,3)
  have IH: "\<forall>i. due incs' i = plus2 (due ?i1 i) (owed ?s1 i rs)" "distinct (map fst incs')"
    "\<forall>h'. map_of rs h' = None \<longrightarrow> counter_row t h' = counter_row ?s1 h'"
    "\<forall>h' r'. map_of rs h' = Some r' \<longrightarrow> counter_row t h'
      = Some \<lparr>tc_hostname = h', tc_requests = fst r', tc_response_bytes = snd r', tc_read_at = now\<rparr>"
    "traffic t = traffic s" "domains t = domains s"
    by (simp_all add: distinct_add_increase)
  have h: "h \<notin> fst ` set rs" using Cons.prems(2) p by simp
  have "added ?s1 h' r' = added s h' r'" if "(h', r') \<in> set rs" for h' r'
    using that h by (force simp: added_def counter_put_counter)
  then have "owed ?s1 i rs = owed s i rs" for i
    unfolding owed_def by (intro arg_cong [where f = sum2]) (auto intro!: map_cong filter_cong)
  then have "\<forall>i. due incs' i = plus2 (due incs i) (owed s i (p # rs))"
    using IH(1) by (auto simp: due_add_increase owed_def p)
  moreover have "map_of rs h = None" using h by (simp add: map_of_eq_None_iff)
  ultimately show ?case using IH(2-) by (auto simp: p counter_put_counter)
qed

lemma day_total_add_day:
  "day_total (add_day day s (i', p)) i d = (if i = i' \<and> d = day then plus2 (day_total s i d) p else day_total s i d)"
proof (cases "list_ex (traffic_key i' day) (traffic s)")
  case True
  let ?g = "\<lambda>x. if traffic_key i' day x then x\<lparr>at_requests := at_requests x + fst p, at_response_bytes := at_response_bytes x + snd p\<rparr> else x"
  have key: "traffic_key i d (?g x) = traffic_key i d x" for x by (simp add: traffic_key_def)
  have "traffic (add_day day s (i', p)) = map ?g (traffic s)" using True by (cases p) (simp add: add_day_def)
  moreover have "find (traffic_key i d) (map ?g xs) = map_option ?g (find (traffic_key i d) xs)" for xs
    by (induction xs) (simp_all add: key)
  ultimately have f: "find (traffic_key i d) (traffic (add_day day s (i', p))) = map_option ?g (find (traffic_key i d) (traffic s))"
    by simp
  show ?thesis
  proof (cases "find (traffic_key i d) (traffic s)")
    case None
    then have "\<not> (i = i' \<and> d = day)" using True by (auto simp: find_None_iff list_ex_iff)
    with None f show ?thesis by (auto simp: day_total_def)
  next
    case (Some x)
    then have "traffic_key i' day x \<longleftrightarrow> i = i' \<and> d = day" by (auto simp: find_Some_iff traffic_key_def)
    with Some f show ?thesis by (auto simp: day_total_def plus2_def)
  qed
next
  case False
  then have "find (traffic_key i' day) (traffic s) = None" by (auto simp: find_None_iff list_ex_iff)
  moreover have "find P (xs @ [y]) = (case find P xs of None \<Rightarrow> if P y then Some y else None | Some z \<Rightarrow> Some z)" for P :: "application_traffic \<Rightarrow> bool" and xs y
    by (induction xs) auto
  ultimately show ?thesis using False
    by (auto simp: add_day_def Let_def day_total_def traffic_key_def split: prod.splits option.splits)
qed

lemma add_day_frame [simp]: "counters (add_day day s inc) = counters s" "domains (add_day day s inc) = domains s"
  by (simp_all add: add_day_def Let_def split: prod.splits)

lemma add_days:
  assumes "distinct (map fst incs)"
  shows "day_total (foldl (add_day day) s incs) i d = (if d = day then plus2 (day_total s i d) (due incs i) else day_total s i d)
    \<and> counters (foldl (add_day day) s incs) = counters s \<and> domains (foldl (add_day day) s incs) = domains s"
  using assms
proof (induction incs arbitrary: s)
  case Nil
  then show ?case by (simp add: due_def)
next
  case (Cons q incs)
  obtain k p where q: "q = (k, p)" by (cases q)
  have "map_of incs k = None" using Cons.prems q by (simp add: map_of_eq_None_iff)
  with Cons.IH [of "add_day day s q"] Cons.prems show ?case
    by (auto simp: q day_total_add_day due_def)
qed

lemma find_filter_all: "(\<And>x. P x \<Longrightarrow> Q x) \<Longrightarrow> find P (filter Q xs) = find P xs"
  by (induction xs) auto

lemma readings_distinct: "distinct (map fst (readings_of ts))"
proof -
  have "distinct (map fst m) \<Longrightarrow> distinct (map fst (foldl (\<lambda>m (host, (requests, sent)). if host = OTHER_HOST then m
     else key_set m (lower host) (max requests 0, max sent 0)) m ts))" for m
    by (induction ts arbitrary: m) (auto simp: distinct_key_set)
  then show ?thesis by (simp add: readings_of_def)
qed

text \<open>One reading adds to each application exactly what its hostnames were read above their stored totals.\<close>

lemma record_totals_exact:
  assumes "record_totals ts now s = (n, t)"
  shows "day_total t i (date_of now) = plus2 (day_total s i (date_of now)) (owed s i (readings_of ts))"
    and "d \<noteq> date_of now \<Longrightarrow> date_of now - TRAFFIC_RETENTION_DAYS < d \<Longrightarrow> day_total t i d = day_total s i d"
    and "map_of (readings_of ts) h = Some r \<Longrightarrow>
      counter_row t h = Some \<lparr>tc_hostname = h, tc_requests = fst r, tc_response_bytes = snd r, tc_read_at = now\<rparr>"
    and "domains t = domains s"
proof -
  obtain incs s1 where f: "foldl (count_reading now) ([], s) (readings_of ts) = (incs, s1)" by fastforce
  let ?s2 = "foldl (add_day (date_of now)) s1 incs"
  have t: "t = ?s2\<lparr>counters := filter (\<lambda>c. \<not> tc_read_at c < now - COUNTER_EXPIRY) (counters ?s2),
      traffic := filter (\<lambda>x. \<not> at_day x \<le> date_of now - TRAFFIC_RETENTION_DAYS) (traffic ?s2)\<rparr>"
    using assms by (simp add: record_totals_def f Let_def)
  from count_readings [OF f readings_distinct] have c: "\<forall>i. due incs i = owed s i (readings_of ts)" "distinct (map fst incs)"
    "\<forall>h r. map_of (readings_of ts) h = Some r \<longrightarrow> counter_row s1 h
      = Some \<lparr>tc_hostname = h, tc_requests = fst r, tc_response_bytes = snd r, tc_read_at = now\<rparr>"
    "traffic s1 = traffic s" "domains s1 = domains s"
    by (simp_all add: due_def)
  have keep: "day_total t i d = day_total ?s2 i d" if "date_of now - TRAFFIC_RETENTION_DAYS < d" for d
  proof -
    have "find (traffic_key i d) (filter (\<lambda>x. \<not> at_day x \<le> date_of now - TRAFFIC_RETENTION_DAYS) xs) = find (traffic_key i d) xs" for xs
      by (rule find_filter_all) (use that in \<open>auto simp: traffic_key_def\<close>)
    then show ?thesis by (simp add: t day_total_def)
  qed
  have s1: "day_total s1 i d = day_total s i d" for d by (simp add: day_total_def c(4))
  show "day_total t i (date_of now) = plus2 (day_total s i (date_of now)) (owed s i (readings_of ts))"
    using keep [of "date_of now"] add_days [OF c(2)] c(1) s1 by (simp add: TRAFFIC_RETENTION_DAYS_def)
  show "day_total t i d = day_total s i d" if "d \<noteq> date_of now" "date_of now - TRAFFIC_RETENTION_DAYS < d"
    using keep [OF that(2)] add_days [OF c(2)] s1 that(1) by simp
  show "domains t = domains s" using add_days [OF c(2), of "date_of now" s1 i] c(5) by (simp add: t)
  assume "map_of (readings_of ts) h = Some r"
  with c(3) have "counter_row s1 h = Some \<lparr>tc_hostname = h, tc_requests = fst r, tc_response_bytes = snd r, tc_read_at = now\<rparr>" by simp
  moreover have "find_row f k (filter Q xs) = Some x" if "find_row f k xs = Some x" "Q x" for f :: "edge_traffic_counter \<Rightarrow> string" and k Q xs x
    using that by (induction xs) (auto simp: find_row_def split: if_splits)
  moreover have "\<not> now < now - COUNTER_EXPIRY" by (simp add: COUNTER_EXPIRY_def duration_defs)
  ultimately show "counter_row t h = Some \<lparr>tc_hostname = h, tc_requests = fst r, tc_response_bytes = snd r, tc_read_at = now\<rparr>"
    using add_days [OF c(2), of "date_of now" s1 i] by (simp add: t counter_row_def)
qed

text \<open>What is owed, as a sum over the hostnames read.\<close>

definition owned_hosts :: "db \<Rightarrow> uuid \<Rightarrow> totals \<Rightarrow> string set" where
  "owned_hosts s i rs = {h \<in> fst ` set rs. owner_of s h = Some i}"

lemma owed_sum:
  assumes "distinct (map fst rs)"
  shows "owed s i rs = (\<Sum>h\<in>owned_hosts s i rs. fst (added s h (the (map_of rs h))),
    \<Sum>h\<in>owned_hosts s i rs. snd (added s h (the (map_of rs h))))"
  using assms
proof (induction rs)
  case Nil
  then show ?case by (simp add: owed_def owned_hosts_def)
next
  case (Cons p rs)
  obtain h r where p: "p = (h, r)" by (cases p)
  have h: "h \<notin> owned_hosts s i rs" and fin: "finite (owned_hosts s i rs)" using Cons.prems p by (auto simp: owned_hosts_def)
  have ne: "map_of (p # rs) k = map_of rs k" if "k \<in> owned_hosts s i rs" for k using that h p by auto
  have "owned_hosts s i (p # rs) = (if owner_of s h = Some i then insert h (owned_hosts s i rs) else owned_hosts s i rs)"
    by (auto simp: owned_hosts_def p)
  moreover have "owed s i (p # rs) = (if owner_of s h = Some i then plus2 (added s h r) (owed s i rs) else owed s i rs)"
    by (simp add: owed_def p)
  moreover have "(\<Sum>k\<in>owned_hosts s i rs. f (added s k (the (map_of (p # rs) k)))) = (\<Sum>k\<in>owned_hosts s i rs. f (added s k (the (map_of rs k))))"
    for f :: "int \<times> int \<Rightarrow> int" by (rule sum.cong) (simp_all only: ne)
  ultimately show ?case using Cons h fin by (simp add: plus2_def p)
qed

definition baseline :: "db \<Rightarrow> string \<Rightarrow> int \<times> int" where
  "baseline s h = (case counter_row s h of None \<Rightarrow> (0, 0) | Some c \<Rightarrow> (tc_requests c, tc_response_bytes c))"

definition below :: "int \<times> int \<Rightarrow> int \<times> int \<Rightarrow> bool" where
  "below p q = (fst p \<le> fst q \<and> snd p \<le> snd q)"

lemma added_above: "below (baseline s h) r \<Longrightarrow> added s h r = (fst r - fst (baseline s h), snd r - snd (baseline s h))"
  by (auto simp: added_def baseline_def below_def split: prod.splits option.splits)

text \<open>Counters that only grew: each reading reports the same hostnames, with totals no smaller than the one before.\<close>

definition grown :: "(string \<Rightarrow> int \<times> int) \<Rightarrow> totals \<Rightarrow> bool" where
  "grown old rs = (\<forall>(h, r)\<in>set rs. below (old h) r)"

fun growing :: "totals \<Rightarrow> (totals \<times> instant) list \<Rightarrow> bool" where
  "growing prev [] = True"
| "growing prev ((ts, now) # rest) = (fst ` set (readings_of ts) = fst ` set prev
     \<and> grown (\<lambda>h. the (map_of prev h)) (readings_of ts) \<and> growing (readings_of ts) rest)"

definition read_all :: "(totals \<times> instant) list \<Rightarrow> db \<Rightarrow> db" where
  "read_all rs s = foldl (\<lambda>s (ts, now). snd (record_totals ts now s)) s rs"

lemma growing_snoc:
  "growing prev (rs @ [(ts, now)]) \<longleftrightarrow> growing prev rs
    \<and> (let last_read = (if rs = [] then prev else readings_of (fst (last rs))) in
      fst ` set (readings_of ts) = fst ` set last_read \<and> grown (\<lambda>h. the (map_of last_read h)) (readings_of ts))"
  by (induction prev rs rule: growing.induct) auto

lemma grownD: "grown old rs \<Longrightarrow> map_of rs h = Some r \<Longrightarrow> below (old h) r"
  using map_of_SomeD by (fastforce simp: grown_def)

lemma lookup_iff: "h \<in> fst ` set xs \<longleftrightarrow> (\<exists>r. map_of xs h = Some r)"
  unfolding dom_map_of_conv_image_fst [symmetric] by (simp add: dom_def)

lemma readings_telescope:
  assumes "growing prev rs" and "rs \<noteq> []" and "grown (baseline s) prev" and "\<forall>(ts, now)\<in>set rs. date_of now = day"
    and "distinct (map fst prev)"
  shows "day_total (read_all rs s) i day = plus2 (day_total s i day) (owed s i (readings_of (fst (last rs))))
    \<and> (\<forall>h r. map_of (readings_of (fst (last rs))) h = Some r \<longrightarrow> baseline (read_all rs s) h = r)
    \<and> grown (baseline s) (readings_of (fst (last rs)))
    \<and> fst ` set (readings_of (fst (last rs))) = fst ` set prev \<and> domains (read_all rs s) = domains s"
  using assms(1,2,4)
proof (induction rs rule: rev_induct)
  case (snoc q rs)
  obtain ts now where q: "q = (ts, now)" by (cases q)
  let ?R = "readings_of ts" and ?t = "read_all rs s"
  let ?L = "if rs = [] then prev else readings_of (fst (last rs))"
  have dL: "distinct (map fst ?L)" and dR: "distinct (map fst ?R)" using assms(5) readings_distinct by simp_all
  have g: "growing prev rs" "fst ` set ?R = fst ` set ?L" "grown (\<lambda>h. the (map_of ?L h)) ?R"
    using snoc.prems(1) by (simp_all add: q growing_snoc Let_def)
  have day: "date_of now = day" using snoc.prems(3) q by simp
  obtain n u where u: "record_totals ts now ?t = (n, u)" by fastforce
  have all: "read_all (rs @ [q]) s = u" by (simp add: read_all_def q u [unfolded read_all_def])
  have read: "readings_of (fst (last (rs @ [q]))) = ?R" by (simp add: q)
  note E = record_totals_exact [OF u]
  have base: "baseline u h = r" if "map_of ?R h = Some r" for h r using E(3) [OF that] by (simp add: baseline_def)
  show ?case
  proof (cases "rs = []")
    case True
    then have "?t = s" by (simp add: read_all_def)
    moreover have "grown (baseline s) ?R"
      unfolding grown_def
    proof safe
      fix h r1 r2 assume "(h, r1, r2) \<in> set ?R"
      then have m: "map_of ?R h = Some (r1, r2)" using dR by simp
      then have "h \<in> fst ` set prev" using g(2) True lookup_iff [of h ?R] by simp
      then obtain r0 where r0: "map_of prev h = Some r0" unfolding lookup_iff ..
      have "below (baseline s h) r0" by (rule grownD [OF assms(3) r0])
      moreover have "below r0 (r1, r2)" using grownD [OF g(3) m] True r0 by simp
      ultimately show "below (baseline s h) (r1, r2)" by (auto simp: below_def)
    qed
    ultimately show ?thesis unfolding all read using E(1) [of i] E(4) base g(2) True day by simp
  next
    case False
    let ?P = "readings_of (fst (last rs))"
    from snoc.IH [OF g(1) False] snoc.prems(3) have IH:
      "day_total ?t i day = plus2 (day_total s i day) (owed s i ?P)" "\<forall>h r. map_of ?P h = Some r \<longrightarrow> baseline ?t h = r"
      "grown (baseline s) ?P" "fst ` set ?P = fst ` set prev" "domains ?t = domains s" by simp_all
    have own: "owner_of ?t = owner_of s" using IH(5) by (simp add: owner_of_def fun_eq_iff)
    let ?H = "owned_hosts s i ?R"
    have H: "owned_hosts ?t i ?R = ?H" "owned_hosts s i ?P = ?H" using g(2) False own by (simp_all add: owned_hosts_def)
    have step: "\<exists>p r. map_of ?P h = Some p \<and> map_of ?R h = Some r \<and> below (baseline s h) p \<and> below p r \<and> baseline ?t h = p" if "h \<in> fst ` set ?R" for h
    proof -
      from that have "\<exists>r. map_of ?R h = Some r" unfolding lookup_iff .
      then obtain r where r: "map_of ?R h = Some r" ..
      have "h \<in> fst ` set ?P" using that g(2) False by simp
      then obtain p where p: "map_of ?P h = Some p" unfolding lookup_iff ..
      from grownD [OF g(3) r] p False have "below p r" by simp
      with r p grownD [OF IH(3) p] IH(2) show ?thesis by blast
    qed
    have pieces: "f (added s h (the (map_of ?P h))) + f (added ?t h (the (map_of ?R h))) = f (added s h (the (map_of ?R h)))"
      if "h \<in> ?H" "f = fst \<or> f = snd" for h and f :: "int \<times> int \<Rightarrow> int"
    proof -
      from step [of h] that(1) obtain p r where pr: "map_of ?P h = Some p" "map_of ?R h = Some r" "below (baseline s h) p"
        "below p r" "baseline ?t h = p" by (auto simp: owned_hosts_def)
      have "below (baseline s h) r" using pr(3,4) by (auto simp: below_def)
      from added_above [OF this] added_above [OF pr(3)] added_above [of ?t h r] pr that(2) show ?thesis by auto
    qed
    have "plus2 (owed s i ?P) (owed ?t i ?R) = owed s i ?R"
      unfolding owed_sum [OF dR] owed_sum [OF readings_distinct, of s i "fst (last rs)"] H
      by (auto simp: plus2_def pieces simp flip: sum.distrib intro!: sum.cong)
    then have "day_total u i day = plus2 (day_total s i day) (owed s i ?R)" using E(1) [of i] IH(1) day by simp
    moreover have "grown (baseline s) ?R"
      unfolding grown_def
    proof safe
      fix h r1 r2 assume hr: "(h, r1, r2) \<in> set ?R"
      then have "map_of ?R h = Some (r1, r2)" using dR by simp
      with step [of h] hr show "below (baseline s h) (r1, r2)" by (force simp: below_def)
    qed
    ultimately show ?thesis unfolding all read using E(4) base g(2) IH(4,5) False by simp
  qed
qed simp

text \<open>
  C37: every request is counted once, however often the edge is read. As long as the edge's counters
  only grow, any sequence of readings on one day adds to the day of each application exactly what
  the last of them alone would have added: the totals of the hostnames it owns, above the totals
  stored before. No other day of the last 400 changes with a reading.
\<close>

theorem readings_count_once:
  assumes "growing (readings_of first) rs" and "grown (baseline s) (readings_of first)" and "rs \<noteq> []"
    and "\<forall>(ts, now)\<in>set rs. date_of now = day"
  shows "day_total (read_all rs s) i day = day_total (snd (record_totals (fst (last rs)) (snd (last rs)) s)) i day
    \<and> day_total (read_all rs s) i day = plus2 (day_total s i day) (owed s i (readings_of (fst (last rs))))
    \<and> (\<forall>ts now d. d \<noteq> date_of now \<longrightarrow> date_of now - TRAFFIC_RETENTION_DAYS < d
        \<longrightarrow> day_total (snd (record_totals ts now s)) i d = day_total s i d)"
proof -
  obtain ts now where l: "last rs = (ts, now)" by fastforce
  then have "date_of now = day" using assms(4) last_in_set [OF assms(3)] by auto
  then have "day_total (snd (record_totals ts now s)) i day = plus2 (day_total s i day) (owed s i (readings_of ts))"
    using record_totals_exact(1) [OF prod.collapse [symmetric], of ts now s i] by simp
  moreover have "day_total (snd (record_totals ts now s)) i d = day_total s i d"
    if "d \<noteq> date_of now" "date_of now - TRAFFIC_RETENTION_DAYS < d" for ts now d
    by (rule record_totals_exact(2) [OF prod.collapse [symmetric] that])
  ultimately show ?thesis
    using readings_telescope [OF assms(1,3,2,4) readings_distinct] l by simp
qed

definition traffic_db :: db where
  "traffic_db = demo_ready\<lparr>counters := [\<lparr>tc_hostname = ''www.example.com'', tc_requests = 5, tc_response_bytes = 100, tc_read_at = 0\<rparr>]\<rparr>"

definition two_readings :: "(totals \<times> instant) list" where
  "two_readings = [([(''www.example.com'', (7, 140)), (''_other'', (1, 1))], 5000), ([(''WWW.example.com'', (12, 300))], 6000)]"

theorem readings_count_once_witness:
  "day_total (read_all two_readings traffic_db) 1 0 = (7, 200)"
proof -
  have g: "growing (readings_of (fst (hd two_readings))) two_readings" by code_simp
  have n: "\<forall>(ts, now)\<in>set two_readings. date_of now = 0" by code_simp
  have c: "counters traffic_db = [\<lparr>tc_hostname = ''www.example.com'', tc_requests = 5, tc_response_bytes = 100, tc_read_at = 0\<rparr>]"
    by (simp add: traffic_db_def)
  have r: "readings_of (fst (hd two_readings)) = [(''www.example.com'', (7, 140))]" by code_simp
  have b: "grown (baseline traffic_db) (readings_of (fst (hd two_readings)))"
    unfolding r by (simp add: grown_def below_def baseline_def counter_row_def find_row_def c)
  have "let s = traffic_db in plus2 (day_total s 1 0) (owed s 1 (readings_of (fst (last two_readings)))) = (7, 200)"
    by code_simp
  moreover have "two_readings \<noteq> []" by (simp add: two_readings_def)
  from conjunct1 [OF conjunct2 [OF readings_count_once [OF g b this n, of 1]]]
  have "day_total (read_all two_readings traffic_db) 1 0
      = plus2 (day_total traffic_db 1 0) (owed traffic_db 1 (readings_of (fst (last two_readings))))" .
  ultimately show ?thesis by (simp only: Let_def)
qed

end
