(* ===== verification/Metrics.thy ===== *)
theory Metrics
  imports Edge_Accepts Traffic
begin

text \<open>
  src/app/edge/traffic.py: the totals per hostname in Caddy's metrics page, and the page the gateway passes on.
  The parser of the exposition format (package \<open>prometheus_client\<close>) is an argument.
\<close>

section \<open>Reading and writing totals\<close>

text \<open>A sample; its value is what \<open>int\<close> makes of it, \<open>None\<close> where that raises (infinities and NaN).\<close>

record sample =
  sm_name :: string
  sm_labels :: "(string \<times> string) list"
  sm_value :: "int option"

text \<open>The samples of all families of a page in their order, \<open>None\<close> where the parser raises.\<close>

type_synonym metrics_parser = "string \<Rightarrow> sample list option"

definition REQUESTS :: string where "REQUESTS = ''caddy_http_requests_total''"
definition RESPONSE_BYTES :: string where "RESPONSE_BYTES = ''caddy_http_response_size_bytes_sum''"

definition lower_alnum :: "char \<Rightarrow> bool" where
  "lower_alnum c = (let n = of_char c :: nat in 97 \<le> n \<and> n \<le> 122 \<or> 48 \<le> n \<and> n \<le> 57)"

definition metric_host :: "string \<Rightarrow> bool" where
  "metric_host h = (h \<noteq> [] \<and> lower_alnum (hd h) \<and> (length h = 1 \<or> length h \<le> 253 \<and> lower_alnum (last h)
     \<and> list_all (\<lambda>c. lower_alnum c \<or> c = CHR ''.'' \<or> c = CHR ''-'') (butlast (tl h))))"

definition count_sample :: "sample \<Rightarrow> totals \<Rightarrow> totals option" where
  "count_sample x ts =
     (if sm_name x \<noteq> REQUESTS \<and> sm_name x \<noteq> RESPONSE_BYTES then Some ts
      else if map_of (sm_labels x) ''server'' \<noteq> Some SERVER_NAME then Some ts
      else let host = lower (case map_of (sm_labels x) ''host'' of None \<Rightarrow> [] | Some h \<Rightarrow> h) in
        if \<not> re_dollar metric_host host then Some ts
        else let (requests, sent) = (case map_of ts host of None \<Rightarrow> (0, 0) | Some p \<Rightarrow> p) in
          map_option (\<lambda>n. key_set ts host (if sm_name x = REQUESTS then (requests + n, sent) else (requests, sent + n))) (sm_value x))"

definition parse_totals :: "metrics_parser \<Rightarrow> string \<Rightarrow> totals option" where
  "parse_totals F page = Option.bind (F page)
     (\<lambda>xs. foldl (\<lambda>acc x. Option.bind acc (count_sample x)) (Some []) xs)"

definition metric_line :: "string \<times> string \<times> int \<Rightarrow> string" where
  "metric_line l = (let (name, host, n) = l in name @ [CHR 0x7B] @ ''host='' @ [CHR 0x22] @ host @ [CHR 0x22] @ '',server='' @ [CHR 0x22]
     @ SERVER_NAME @ [CHR 0x22] @ [CHR 0x7D] @ '' '' @ str_of_int n)"

definition total_lines :: "totals \<Rightarrow> (string \<times> string \<times> int) list" where
  "total_lines ts = concat (map (\<lambda>(host, (requests, sent)). [(REQUESTS, host, requests), (RESPONSE_BYTES, host, sent)]) (sort_by_key ts))"

definition page_of :: "(string \<times> string \<times> int) list \<Rightarrow> string" where
  "page_of ls = join [CHR 0x0A] (map metric_line ls) @ [CHR 0x0A]"

definition render_totals :: "totals \<Rightarrow> string" where
  "render_totals ts = page_of (total_lines ts)"

section \<open>What is written reads back\<close>

text \<open>
  What the format documents of the parser: a page of lines \<open>name{label="value",...} number\<close> is read as one sample a line.
  Values are double precision floats, so a count up to \<open>2 ^ 53\<close> is read exactly.
\<close>

definition reads_exposition :: "metrics_parser \<Rightarrow> bool" where
  "reads_exposition F = (\<forall>ls. (\<forall>(name, host, n) \<in> set ls. name \<in> {REQUESTS, RESPONSE_BYTES} \<and> metric_host host \<and> 0 \<le> n \<and> n \<le> 2 ^ 53)
     \<longrightarrow> F (page_of ls) = Some (map (\<lambda>(name, host, n).
       \<lparr>sm_name = name, sm_labels = [(''host'', host), (''server'', SERVER_NAME)], sm_value = Some n\<rparr>) ls))"

lemma lower_alnum_lower: "lower_alnum c \<Longrightarrow> lower_char c = c"
  by (auto simp: lower_alnum_def lower_char_def Let_def)

lemma metric_host_lower:
  assumes "metric_host h"
  shows "lower h = h"
proof -
  have "lower_char c = c" if "c \<in> set h" for c
  proof -
    from assms that have "lower_alnum c \<or> c = CHR ''.'' \<or> c = CHR ''-''"
      unfolding metric_host_def list_all_iff by (cases h rule: rev_cases; cases "butlast h") (auto simp: neq_Nil_conv)
    then show ?thesis by (auto simp: lower_alnum_lower) (simp_all add: lower_char_def)
  qed
  then show ?thesis by (simp add: lower_def map_idI)
qed

lemma key_set_new: "k \<notin> fst ` set m \<Longrightarrow> key_set m k v = m @ [(k, v)]"
  by (induction m) auto

lemma key_set_last: "k \<notin> fst ` set m \<Longrightarrow> key_set (m @ [(k, u)]) k v = m @ [(k, v)]"
  by (induction m) auto

lemma count_lines:
  assumes "distinct (map fst ts)" and "\<forall>(h, r) \<in> set ts. metric_host h" and "fst ` set acc \<inter> fst ` set ts = {}"
  shows "foldl (\<lambda>a x. Option.bind a (count_sample x)) (Some acc) (map (\<lambda>(name, host, n).
      \<lparr>sm_name = name, sm_labels = [(''host'', host), (''server'', SERVER_NAME)], sm_value = Some n\<rparr>)
      (concat (map (\<lambda>(host, (requests, sent)). [(REQUESTS, host, requests), (RESPONSE_BYTES, host, sent)]) ts)))
    = Some (acc @ ts)"
  using assms
proof (induction ts arbitrary: acc)
  case (Cons t ts)
  obtain h r b where t: "t = (h, r, b)" by (cases t) auto
  from Cons.prems t have h: "metric_host h" "h \<notin> fst ` set acc" by auto
  then have m: "map_of acc h = None" by (simp add: map_of_eq_None_iff)
  from h(1) have ok: "lower h = h" "re_dollar metric_host h" by (simp_all add: metric_host_lower re_dollar_def)
  have "REQUESTS \<noteq> RESPONSE_BYTES" by (simp add: REQUESTS_def RESPONSE_BYTES_def)
  with m ok h(2) have "count_sample \<lparr>sm_name = REQUESTS, sm_labels = [(''host'', h), (''server'', SERVER_NAME)], sm_value = Some r\<rparr> acc
      = Some (acc @ [(h, (r, 0))])"
    and "count_sample \<lparr>sm_name = RESPONSE_BYTES, sm_labels = [(''host'', h), (''server'', SERVER_NAME)], sm_value = Some b\<rparr> (acc @ [(h, (r, 0))])
      = Some (acc @ [(h, (r, b))])"
    by (simp_all add: count_sample_def key_set_new key_set_last map_add_def)
  moreover from Cons.prems t have "fst ` set (acc @ [(h, (r, b))]) \<inter> fst ` set ts = {}" by auto
  ultimately show ?case using Cons.IH [of "acc @ [(h, (r, b))]"] Cons.prems t by simp
qed simp

lemma totals_read_back:
  assumes "reads_exposition F" and "distinct (map fst ts)"
    and "\<forall>(h, (r, b)) \<in> set ts. metric_host h \<and> 0 \<le> r \<and> r \<le> 2 ^ 53 \<and> 0 \<le> b \<and> b \<le> 2 ^ 53"
  shows "parse_totals F (render_totals ts) = Some (sort_by_key ts)"
proof -
  have ss: "set (sort_by_key ts) = set ts" for ts :: totals by (induction ts) (auto simp: sort_by_key_def)
  have "\<forall>(name, host, n) \<in> set (total_lines ts). name \<in> {REQUESTS, RESPONSE_BYTES} \<and> metric_host host \<and> 0 \<le> n \<and> n \<le> 2 ^ 53"
    using assms(3) unfolding total_lines_def by (fastforce simp: ss)
  with assms(1) have "F (render_totals ts) = Some (map (\<lambda>(name, host, n).
       \<lparr>sm_name = name, sm_labels = [(''host'', host), (''server'', SERVER_NAME)], sm_value = Some n\<rparr>) (total_lines ts))"
    unfolding reads_exposition_def render_totals_def by blast
  moreover have "\<forall>(h, r) \<in> set (sort_by_key ts). metric_host h" "distinct (map fst (sort_by_key ts))"
    using assms(2,3) by (auto simp: ss distinct_sort_by_key)
  ultimately show ?thesis
    using count_lines [of "sort_by_key ts" "[]"] by (simp add: parse_totals_def total_lines_def)
qed

text \<open>Every hostname that is counted is lower case and has a valid shape, but for a final newline.\<close>

lemma parse_totals_keys:
  assumes "parse_totals F page = Some ts"
  shows "distinct (map fst ts) \<and> (\<forall>(h, r) \<in> set ts. re_dollar metric_host h)"
proof -
  let ?I = "\<lambda>ts :: totals. distinct (map fst ts) \<and> (\<forall>h \<in> fst ` set ts. re_dollar metric_host h)"
  have step: "?I t" if "count_sample x u = Some t" "?I u" for x u t
  proof -
    from that(1) consider "t = u" | k v where "re_dollar metric_host k" "t = key_set u k v"
      unfolding count_sample_def Let_def case_prod_unfold by (auto split: if_splits)
    then show ?thesis using that(2) by cases (simp_all only: distinct_key_set keys_key_set, blast+)
  qed
  have "?I t" if "foldl (\<lambda>acc x. Option.bind acc (count_sample x)) (Some u) xs = Some t" "?I u" for xs u t
    using that
  proof (induction xs arbitrary: u)
    case (Cons x xs)
    have "foldl (\<lambda>acc x. Option.bind acc (count_sample x)) None xs = None" by (induction xs) auto
    with Cons.prems(1) obtain v where v: "count_sample x u = Some v" by (cases "count_sample x u") auto
    with Cons.prems(1) have "foldl (\<lambda>acc x. Option.bind acc (count_sample x)) (Some v) xs = Some t" by simp
    then show ?case by (rule Cons.IH) (rule step [OF v Cons.prems(2)])
  qed simp
  moreover from assms obtain xs where "foldl (\<lambda>acc x. Option.bind acc (count_sample x)) (Some []) xs = Some ts"
    by (auto simp: parse_totals_def bind_eq_Some_conv)
  ultimately have "?I ts" by (metis (no_types, lifting) distinct.simps(1) empty_iff image_empty list.map(1) list.set(1))
  then show ?thesis by auto
qed

end
