(* ===== verification/Reconciler.thy ===== *)
theory Reconciler
  imports Metrics
begin

text \<open>
  src/app/edge/reconcile.py and the client of Caddy's admin endpoint it uses, src/app/edge/caddy_client.py: one step
  that converges the running edge configuration on the database. The admin endpoint is an argument (record
  \<open>admin\<close>); the last part of the definitions is the endpoint of a deployment, the gateway
  (src/app/edge/gateway.py) in front of Caddy. The lock that serializes runs (src/app/edge/lock.py) makes a run
  one transaction.
\<close>

section \<open>The admin endpoint\<close>

text \<open>
  An answer: its status, its JSON (\<open>None\<close> for an empty body or \<open>null\<close>) and its text; or the text of an
  \<open>httpx.HTTPError\<close>.
\<close>

datatype reply = Reply int "json option" string | Unreachable string

datatype caddy_error = CaddyUnavailable | CaddyRejectedConfig int

record 'e admin =
  ad_get :: "'e \<Rightarrow> reply"
  ad_load :: "json \<Rightarrow> 'e \<Rightarrow> reply \<times> 'e"
  ad_set :: "json \<Rightarrow> 'e \<Rightarrow> reply \<times> 'e"
  ad_metrics :: "'e \<Rightarrow> reply"

fun get_config :: "reply \<Rightarrow> caddy_error + json option" where
  "get_config (Unreachable _) = Inl CaddyUnavailable"
| "get_config (Reply status body _) = (if status \<noteq> 200 then Inl CaddyUnavailable else Inr body)"

text \<open>\<open>load_config\<close> and \<open>set_apps\<close>.\<close>

fun put_config :: "reply \<Rightarrow> caddy_error + unit" where
  "put_config (Unreachable _) = Inl CaddyUnavailable"
| "put_config (Reply status _ _) = (if status \<ge> 400 then Inl (CaddyRejectedConfig status) else Inr ())"

text \<open>\<open>None\<close> where it returns or raises nothing to count: the one caller treats them alike.\<close>

fun client_traffic :: "metrics_parser \<Rightarrow> reply \<Rightarrow> totals option" where
  "client_traffic F (Unreachable _) = None"
| "client_traffic F (Reply status _ content) = (if status \<noteq> 200 then None else parse_totals F content)"

section \<open>One step\<close>

record reconcile_result =
  rr_at :: instant
  rr_changed :: bool
  rr_digest :: string
  rr_hostnames :: nat
  rr_routes :: nat
  rr_error :: "string option"

definition config_digest :: "(instant \<Rightarrow> string) \<Rightarrow> json \<Rightarrow> string" where
  "config_digest fmt config = take 16 (hexdigest (sha256 (utf8_encode (json_dumps fmt config))))"

definition items_of :: "json \<Rightarrow> json list" where
  "items_of v = (case v of JList xs \<Rightarrow> xs | _ \<Rightarrow> [])"

definition members_of :: "json \<Rightarrow> json list" where
  "members_of v = (case v of JObj d \<Rightarrow> map snd d | _ \<Rightarrow> [])"

definition servers_in :: "json \<Rightarrow> json" where
  "servers_in apps = get_key (get_key apps ''http'') ''servers''"

definition app_route_count :: "json \<Rightarrow> nat" where
  "app_route_count apps = length (filter (\<lambda>route. text_starts ''app-'' (get_key route ''@id''))
     (items_of (get_key (get_key (servers_in apps) SERVER_NAME) ''routes'')))"

definition hostnames_in :: "json \<Rightarrow> json list" where
  "hostnames_in apps = remdups (concat (map (\<lambda>server. concat (map (\<lambda>route. concat (map (\<lambda>m. items_of (get_key m ''host''))
     (items_of (get_key route ''match'')))) (items_of (get_key server ''routes'')))) (members_of (servers_in apps))))"

text \<open>A failure to read the traffic, whatever it is, loses only these counts.\<close>

definition read_traffic :: "metrics_parser \<Rightarrow> reply \<Rightarrow> instant \<Rightarrow> db \<Rightarrow> db" where
  "read_traffic F r now s = (case client_traffic F r of None \<Rightarrow> s | Some ts \<Rightarrow> snd (record_totals ts now s))"

text \<open>
  \<open>_apply\<close>. A running configuration that is not an object, which no admin endpoint answers, raises
  \<open>AttributeError\<close>: \<open>None\<close>. The text of the failure, which is only logged, is left out.
\<close>

definition apply_config :: "(instant \<Rightarrow> string) \<Rightarrow> 'e admin \<Rightarrow> json \<Rightarrow> instant \<Rightarrow> 'e \<Rightarrow> reconcile_result option \<times> 'e" where
  "apply_config fmt A desired now e = (let
     result = (\<lambda>changed err. \<lparr>rr_at = now, rr_changed = changed, rr_digest = config_digest fmt desired,
       rr_hostnames = length (hostnames_in desired), rr_routes = app_route_count desired, rr_error = err\<rparr>);
     put = (\<lambda>(r, e1). (case put_config r of
         Inl (CaddyRejectedConfig _) \<Rightarrow> (Some (result False (Some ''config_rejected'')), e1)
       | Inl CaddyUnavailable \<Rightarrow> (Some (result False (Some ''caddy_unavailable'')), e1)
       | Inr _ \<Rightarrow> (Some (result True None), e1)))
   in case get_config (ad_get A e) of
        Inl _ \<Rightarrow> (Some (result False (Some ''caddy_unavailable'')), e)
      | Inr None \<Rightarrow> put (ad_load A (JObj [(''apps'', desired)]) e)
      | Inr (Some (JObj d)) \<Rightarrow>
          (case dict_get d ''apps'' of
             Some running \<Rightarrow> if json_eq running desired then (Some (result False None), e) else put (ad_set A desired e)
           | None \<Rightarrow> put (ad_set A desired e))
      | Inr (Some _) \<Rightarrow> (None, e))"

definition run_reconciler ::
    "(instant \<Rightarrow> string) \<Rightarrow> metrics_parser \<Rightarrow> 'e admin \<Rightarrow> network \<Rightarrow> bool \<Rightarrow> edge_settings \<Rightarrow> instant \<Rightarrow> db \<Rightarrow> 'e
      \<Rightarrow> reconcile_result option \<times> db \<times> 'e" where
  "run_reconciler fmt F A N allow_private es now s e = (case build_apps N allow_private s es of
     Inl _ \<Rightarrow> (Some \<lparr>rr_at = now, rr_changed = False, rr_digest = ''none'', rr_hostnames = 0, rr_routes = 0,
       rr_error = Some ''database_unavailable''\<rparr>, s, e)
   | Inr desired \<Rightarrow> (let
       s1 = read_traffic F (ad_metrics A e) now s;
       (r, e1) = apply_config fmt A desired now e
     in (r, (case r of Some x \<Rightarrow> if rr_changed x then reset_baselines s1 else s1 | None \<Rightarrow> s1), e1)))"

section \<open>The gateway and Caddy\<close>

text \<open>
  Caddy as the gateway sees it: whether it answers, its running applications, which configurations its own
  validation accepts, and its metrics page. No applications are \<open>None\<close> or, as JSON, \<open>null\<close>.
\<close>

record caddy =
  cy_up :: bool
  cy_apps :: "json option"
  cy_accepts :: "json \<Rightarrow> bool"
  cy_metrics :: string

definition running_apps :: "caddy \<Rightarrow> json option" where
  "running_apps e = (if cy_apps e = Some JNull then None else cy_apps e)"

text \<open>The gateway offers no \<open>/load\<close>; an exchange with Caddy that fails is answered by 500.\<close>

definition gateway_admin :: "metrics_parser \<Rightarrow> libs \<Rightarrow> edge_settings \<Rightarrow> error + edge_facts \<Rightarrow> caddy admin" where
  "gateway_admin F L es provided = \<lparr>
     ad_get = (\<lambda>e. if cy_up e then Reply 200 (map_option (\<lambda>a. JObj [(''apps'', a)]) (running_apps e)) [] else Reply 500 None []),
     ad_load = (\<lambda>_ e. (Reply 404 None [], e)),
     ad_set = (\<lambda>payload e. case set_apps L es provided payload of
         Inl status \<Rightarrow> (Reply status None [], e)
       | Inr p \<Rightarrow> if \<not> cy_up e then (Reply 500 None [], e)
         else if cy_accepts e p then (Reply 200 None [], e\<lparr>cy_apps := Some p\<rparr>) else (Reply 400 None [], e)),
     ad_metrics = (\<lambda>e. if \<not> cy_up e then Reply 502 None []
       else case parse_totals F (cy_metrics e) of None \<Rightarrow> Reply 500 None [] | Some ts \<Rightarrow> Reply 200 None (render_totals ts))\<rparr>"

section \<open>Only counts are written\<close>

definition same_but_counts :: "db \<Rightarrow> db \<Rightarrow> bool" where
  "same_but_counts s t \<longleftrightarrow> (\<exists>c x. t = s\<lparr>counters := c, traffic := x\<rparr>)"

lemma same_but_counts_refl [simp]: "same_but_counts s s"
  unfolding same_but_counts_def by (intro exI [of _ "counters s"] exI [of _ "traffic s"]) simp

lemma same_but_counts_trans: "same_but_counts s t \<Longrightarrow> same_but_counts t u \<Longrightarrow> same_but_counts s u"
  unfolding same_but_counts_def by (elim exE) (simp, intro exI, rule refl)

lemma foldl_kept: "(\<And>s x. same_but_counts s (g s x)) \<Longrightarrow> same_but_counts s (foldl g s xs)"
  by (induction xs arbitrary: s) (auto intro: same_but_counts_trans)

lemma counts_kept: "same_but_counts s (s\<lparr>counters := c\<rparr>)" "same_but_counts s (s\<lparr>traffic := x\<rparr>)" "same_but_counts s (s\<lparr>counters := c, traffic := x\<rparr>)"
  unfolding same_but_counts_def by (rule exI [of _ c], rule exI [of _ "traffic s"], simp)
    (rule exI [of _ "counters s"], rule exI [of _ x], simp, blast)

lemma record_totals_kept: "same_but_counts s (snd (record_totals ts now s))"
proof -
  have 1: "same_but_counts (snd st) (snd (foldl (count_reading now) st rs))" for st rs
  proof (induction rs arbitrary: st)
    case (Cons r rs)
    have "same_but_counts (snd st) (snd (count_reading now st r))"
      by (auto simp: count_reading_def put_counter_def Let_def counts_kept split: prod.splits option.splits)
    with Cons [of "count_reading now st r"] show ?case by (simp add: same_but_counts_trans)
  qed simp
  have 2: "same_but_counts s (foldl (add_day d) s xs)" for d s xs
    by (rule foldl_kept) (auto simp: add_day_def Let_def counts_kept split: prod.splits)
  obtain incs u where u: "foldl (count_reading now) ([], s) (readings_of ts) = (incs, u)" by fastforce
  with 1 [of "([], s)" "readings_of ts"] have "same_but_counts s u" by simp
  then have "same_but_counts s (foldl (add_day (date_of now)) u incs)" by (rule same_but_counts_trans) (rule 2)
  then show ?thesis
    unfolding record_totals_def by (simp add: Let_def u) (erule same_but_counts_trans, rule counts_kept(3))
qed

lemma read_traffic_kept: "same_but_counts s (read_traffic F r now s)"
  by (simp add: read_traffic_def record_totals_kept split: option.splits)

lemma reset_baselines_kept: "same_but_counts s (reset_baselines s)"
  by (simp add: reset_baselines_def counts_kept)

lemma run_reconciler_kept:
  assumes "run_reconciler fmt F A N ap es now s e = (r, t, e1)"
  shows "same_but_counts s t"
  using assms read_traffic_kept [of s F "ad_metrics A e" now]
  by (auto simp: run_reconciler_def Let_def split: sum.splits prod.splits option.splits if_splits
      intro: same_but_counts_trans [OF _ reset_baselines_kept])

text \<open>The configuration does not depend on the counts.\<close>

lemma build_apps_kept:
  assumes "same_but_counts s t"
  shows "build_apps N ap t es = build_apps N ap s es"
proof -
  from assms obtain c x where t: "t = s\<lparr>counters := c, traffic := x\<rparr>" by (auto simp: same_but_counts_def)
  have rows: "application_row t = application_row s" "domain_claims t = domain_claims s" "active_applications t = active_applications s"
    "active_origin t = active_origin s" "claimed_targets t = claimed_targets s"
    by (simp_all add: t application_row_def domain_claims_def active_applications_def active_origin_def application_origins_def claimed_targets_def fun_eq_iff)
  then have claim: "active_claim t = active_claim s" "serving_origin t = serving_origin s" "edge_names t = edge_names s"
    by (simp_all add: active_claim_def serving_origin_def edge_names_def fun_eq_iff)
  have serve: "routed_hostnames t = routed_hostnames s"
    by (simp add: routed_hostnames_def routable_def [abs_def] owner_active_def rows claim fun_eq_iff) (simp add: t)
  have "route_group_of N ap t = route_group_of N ap s"
    by (rule ext) (simp add: route_group_of_def claim serve cong: option.case_cong)
  then show ?thesis
    by (simp add: build_apps_def serveable_route_groups_def portal_hosts_def rows claim)
qed

section \<open>What is built is well formed\<close>

lemma json_wf_route: "json_wf (app_route g es)"
proof -
  have "json_wf (origin_proxy g)" by (simp add: origin_proxy_def Let_def wf_parts)
  moreover have "json_wf l" if "rate_limit_handler i m n = Some l" for i m n l
    using that by (auto simp: rate_limit_handler_def Let_def rate_zone_def split: option.splits if_splits)
  ultimately show ?thesis by (auto simp: app_route_def Let_def split: option.splits)
qed

lemma json_wf_build:
  assumes "build_apps N ap s es = Inr apps"
  shows "json_wf apps"
proof -
  define hosts where "hosts = portal_hosts s (Some es)"
  from assms obtain portal operator groups where
    p: "(if es_portal_allowed_ips es \<noteq> [] then portal_routes es hosts else Inr []) = Inr portal" and
    o: "operator_routes es hosts = Inr operator" and
    apps: "apps = JObj ((''http'', JObj (http_app es (portal @ operator @ api_route es hosts @ map (\<lambda>g. app_route g es) groups)))
      # (if es_disable_https es then [] else [(''tls'', expected_tls es)]))"
    unfolding build_apps_def hosts_def Let_def by (elim bind_res_InrE) auto
  from p o have r: "json_wf_list portal" "json_wf_list operator"
    by (auto simp: portal_routes_def operator_routes_def portal_routes_for_def operator_routes_for_def bind_res_eq_Inr split: if_splits)
  have "json_wf_list (api_route es hosts)" by (simp add: api_route_def)
  then have "json_wf_list (portal @ operator @ api_route es hosts @ map (\<lambda>g. app_route g es) groups)"
    using r by (auto simp: json_wf_list_iff json_wf_route)
  then have "json_wf (JObj (http_app es (portal @ operator @ api_route es hosts @ map (\<lambda>g. app_route g es) groups)))"
    by (simp add: http_app_def server_def json_wf_list_iff)
  then show ?thesis by (simp add: apps)
qed

section \<open>Convergence\<close>

text \<open>One application of a configuration through the gateway.\<close>

lemma gateway_apply:
  fixes fmt F L es provided desired now e
  defines "A \<equiv> gateway_admin F L es provided"
  shows "apply_config fmt A desired now e = (Some r, e1) \<Longrightarrow> is_set (rr_error r) \<Longrightarrow> e1 = e \<and> \<not> rr_changed r"
    and "apply_config fmt A desired now e \<noteq> (None, e1)"
    and "cy_up e \<Longrightarrow> running_apps e = Some old \<Longrightarrow> set_apps L es provided desired = Inr desired \<Longrightarrow> cy_accepts e desired
      \<Longrightarrow> \<exists>r. apply_config fmt A desired now e = (Some r, if json_eq old desired then e else e\<lparr>cy_apps := Some desired\<rparr>)
        \<and> rr_error r = None \<and> rr_changed r = (\<not> json_eq old desired)"
  unfolding A_def gateway_admin_def
  by (auto simp: apply_config_def Let_def dict_get_def split: sum.splits option.splits if_splits caddy_error.splits)


text \<open>The gateway passes on the totals that Caddy's own page holds.\<close>

lemma gateway_relays_totals:
  assumes "reads_exposition F" and "cy_up e" and "parse_totals F (cy_metrics e) = Some ts"
    and "\<forall>(h, (r, b)) \<in> set ts. CHR 0x0A \<notin> set h \<and> 0 \<le> r \<and> r \<le> 2 ^ 53 \<and> 0 \<le> b \<and> b \<le> 2 ^ 53"
  shows "client_traffic F (ad_metrics (gateway_admin F L es provided) e) = Some (sort_by_key ts)"
proof -
  have "\<forall>(h, (r, b)) \<in> set ts. metric_host h \<and> 0 \<le> r \<and> r \<le> 2 ^ 53 \<and> 0 \<le> b \<and> b \<le> 2 ^ 53"
  proof (intro ballI, clarify)
    fix h r b assume h: "(h, r, b) \<in> set ts"
    with assms(4) have b: "CHR 0x0A \<notin> set h" "0 \<le> r" "r \<le> 2 ^ 53" "0 \<le> b" "b \<le> 2 ^ 53" by blast+
    from h parse_totals_keys [OF assms(3)] have "re_dollar metric_host h" by blast
    with b(1) have "metric_host h" unfolding re_dollar_def by (metis last_in_set)
    with b show "metric_host h \<and> 0 \<le> r \<and> r \<le> 2 ^ 53 \<and> 0 \<le> b \<and> b \<le> 2 ^ 53" by simp
  qed
  with totals_read_back [OF assms(1)] parse_totals_keys [OF assms(3)] assms(2,3) show ?thesis
    by (simp add: gateway_admin_def)
qed

text \<open>An edge that runs no applications at all cannot be filled through the gateway, which serves no \<open>/load\<close>.\<close>

lemma empty_edge_never_filled:
  assumes "cy_up e" and "running_apps e = None" and "build_apps N ap s es = Inr apps"
  shows "\<exists>y t. run_reconciler fmt F (gateway_admin F L es provided) N ap es now s e = (Some y, t, e) \<and> rr_error y = Some ''config_rejected''"
  using assms by (simp add: run_reconciler_def apply_config_def gateway_admin_def Let_def)

definition demo_caddy :: caddy where
  "demo_caddy = \<lparr>cy_up = True, cy_apps = Some (JObj []), cy_accepts = (\<lambda>_. True), cy_metrics = []\<rparr>"


end
