(* ===== verification/Connect_Sessions.thy ===== *)
theory Connect_Sessions
  imports Api
begin

text \<open>
  Links to the setup page of a domain: src/app/services/connect_sessions.py with the endpoints of
  src/app/v1/router.py that create and revoke them, and the URL rules it takes from
  src/app/dns/signing.py and src/app/services/domain_connect.py.
\<close>

section \<open>URLs given by applications\<close>

text \<open>
  \<open>parts.username is not None or parts.password is not None\<close> holds just when the network location has
  an \<open>@\<close>, and a fragment needs a \<open>#\<close>, so the conditions below have one disjunct each.
\<close>

definition https_url_problem :: "string \<Rightarrow> string option" where
  "https_url_problem v =
     (if list_ex (\<lambda>c. (of_char c :: nat) < 33 \<or> (of_char c :: nat) = 127) v
      then Some ''must not contain spaces or control characters''
      else case url_split v of
        Inl _ \<Rightarrow> Some ''is not a valid URL''
      | Inr parts \<Rightarrow> (case url_port (u_netloc parts) of
          Inl _ \<Rightarrow> Some ''is not a valid URL''
        | Inr _ \<Rightarrow>
          if u_scheme parts \<noteq> ''https'' then Some ''must be an https URL''
          else if url_hostname (u_netloc parts) = None then Some ''must have a host''
          else if CHR ''@'' \<in> set (u_netloc parts) then Some ''must not contain a user name or password''
          else if CHR ''#'' \<in> set v then Some ''must not contain a fragment''
          else None))"

definition MAX_REDIRECT_URI :: nat where "MAX_REDIRECT_URI = 512"

definition redirect_uri_problem :: "string \<Rightarrow> string option" where
  "redirect_uri_problem v = (if length (utf8_encode v) > MAX_REDIRECT_URI then Some ''must be at most 512 bytes''
     else https_url_problem v)"

section \<open>Sessions\<close>

definition PAGE_PATH :: string where "PAGE_PATH = ''/connect''"
definition SESSION_TTL :: duration where "SESSION_TTL = hours 24"
definition MIN_TTL :: duration where "MIN_TTL = minutes 5"
definition MAX_TTL :: duration where "MAX_TTL = hours 24"
definition SESSION_WINDOW :: duration where "SESSION_WINDOW = hours 1"
definition SESSION_DOMAIN_MAX :: nat where "SESSION_DOMAIN_MAX = 20"
definition SESSION_APPLICATION_MAX :: nat where "SESSION_APPLICATION_MAX = 600"
definition MAX_APP_NAME :: nat where "MAX_APP_NAME = 64"

definition token_char :: "char \<Rightarrow> bool" where
  "token_char c = (is_alpha c \<or> is_digit c \<or> c = CHR ''_'' \<or> c = CHR ''-'')"

text \<open>\<open>TOKEN.match\<close>; the \<open>$\<close> of the pattern also matches before a final newline.\<close>

definition token_matches :: "string \<Rightarrow> bool" where
  "token_matches t = (list_all token_char (take 43 t) \<and> (length t = 43 \<or> length t = 44 \<and> t ! 43 = CHR 0x0A))"

definition hash_token :: "string \<Rightarrow> string" where
  "hash_token t = hexdigest (sha256 t)"

definition page_base_url :: "edge_settings option \<Rightarrow> string option" where
  "page_base_url es = (case es of None \<Rightarrow> None | Some e \<Rightarrow>
     if es_public_api e then (case es_edge_hostname e of None \<Rightarrow> None
       | Some h \<Rightarrow> if h = [] then None else Some (''https://'' @ h)) else None)"

definition page_url :: "string \<Rightarrow> string \<Rightarrow> string" where
  "page_url base token = base @ PAGE_PATH @ ''/'' @ token"

definition app_name_problem :: "string \<Rightarrow> string option" where
  "app_name_problem v =
     (if strip v = [] then Some ''must not be blank''
      else if length v > MAX_APP_NAME then Some ''must be at most 64 characters''
      else if list_ex (\<lambda>c. let n = of_char c :: nat in n < 32 \<or> 127 \<le> n \<and> n < 160) v
      then Some ''must not contain control characters''
      else None)"

definition recent_sessions :: "(connect_session \<Rightarrow> bool) \<Rightarrow> instant \<Rightarrow> db \<Rightarrow> connect_session list" where
  "recent_sessions cond now s = filter (\<lambda>r. cond r \<and> cs_created_at r > now - SESSION_WINDOW) (connect_sessions s)"

text \<open>One turn of the loop of \<open>_enforce_limits\<close>.\<close>

definition session_limit :: "string \<Rightarrow> (connect_session \<Rightarrow> bool) \<Rightarrow> nat \<Rightarrow> instant \<Rightarrow> db \<Rightarrow> error + unit" where
  "session_limit scope cond limit now s = (let rows = recent_sessions cond now s in
     if length rows \<ge> limit
     then Inl (rate_limited (''At most '' @ str_of_int (int limit) @ '' connect sessions per '' @ scope @ '' per hour'')
       (case min_of (map cs_created_at rows) of Some oldest \<Rightarrow> ceil_seconds (oldest + SESSION_WINDOW - now) | None \<Rightarrow> 60))
     else Inr ())"

definition enforce_session_limits :: "db \<Rightarrow> domain \<Rightarrow> instant \<Rightarrow> error + unit" where
  "enforce_session_limits s d now = bind_res
     (session_limit ''domain'' (\<lambda>r. cs_domain_id r = d_id d) SESSION_DOMAIN_MAX now s)
     (\<lambda>_. session_limit ''application'' (\<lambda>r. cs_application_id r = d_application_id d) SESSION_APPLICATION_MAX now s)"

definition connect_problem :: "string \<Rightarrow> string option \<Rightarrow> error + unit" where
  "connect_problem field problem = (case problem of None \<Rightarrow> Inr ()
     | Some why \<Rightarrow> Inl (InvalidConnectRequest (field @ '' '' @ why) [(''field'', JStr field)]))"

definition session_ttl :: "int option \<Rightarrow> error + duration" where
  "session_ttl ttl_seconds = (let ttl = (case ttl_seconds of None \<Rightarrow> SESSION_TTL | Some n \<Rightarrow> seconds n) in
     if MIN_TTL \<le> ttl \<and> ttl \<le> MAX_TTL then Inr ttl
     else Inl (InvalidConnectRequest ''ttl_seconds must be between 300 and 86400'' [(''field'', JStr ''ttl_seconds'')]))"

definition create_session ::
    "application \<Rightarrow> uuid \<Rightarrow> string option \<Rightarrow> int option \<Rightarrow> string option \<Rightarrow> string option \<Rightarrow> instant \<Rightarrow> db
      \<Rightarrow> error + (connect_session \<times> string) \<times> db" where
  "create_session a i base_url ttl_seconds name return_url now s =
     bind_res (session_ttl ttl_seconds) (\<lambda>ttl.
     bind_res (connect_problem ''app_name'' (case name of None \<Rightarrow> None | Some v \<Rightarrow> app_name_problem v)) (\<lambda>_.
     bind_res (connect_problem ''return_url'' (case return_url of None \<Rightarrow> None | Some v \<Rightarrow> redirect_uri_problem v)) (\<lambda>_.
     bind_res (get_domain s a i False) (\<lambda>d.
     case base_url of
       None \<Rightarrow> Inl (ConnectPageUnavailable ''This deployment serves no setup page: it needs PUBLIC_API=true and EDGE_HOSTNAME'')
     | Some base \<Rightarrow> bind_res (enforce_session_limits s d now) (\<lambda>_.
       let (token, s1) = token_urlsafe s; (j, s2) = uuid4 s1;
         row = \<lparr>cs_id = j, cs_application_id = app_id a, cs_domain_id = d_id d, cs_token_hash = hash_token token,
           cs_expires_at = now + ttl, cs_revoked_at = None, cs_app_name = map_option strip name,
           cs_return_url = return_url, cs_created_at = now\<rparr>
       in if list_ex (\<lambda>r. cs_token_hash r = hash_token token) (connect_sessions s)
          then Inl (IntegrityError ''connect_sessions.token_hash'')
          else Inr ((row, page_url base token), s2\<lparr>connect_sessions := connect_sessions s2 @ [row]\<rparr>))))))"

definition revoke_session :: "application \<Rightarrow> uuid \<Rightarrow> uuid \<Rightarrow> instant \<Rightarrow> db \<Rightarrow> error + connect_session \<times> db" where
  "revoke_session a i session_id now s = bind_res (get_domain s a i True) (\<lambda>d.
     case find (\<lambda>r. cs_id r = session_id \<and> cs_domain_id r = d_id d \<and> cs_application_id r = app_id a) (connect_sessions s) of
       None \<Rightarrow> Inl (ConnectSessionNotFound ''No such connect session for this domain'')
     | Some row \<Rightarrow> if cs_revoked_at row = None
       then (let row1 = row\<lparr>cs_revoked_at := Some now\<rparr> in
         Inr (row1, s\<lparr>connect_sessions := update_row cs_id session_id (\<lambda>_. row1) (connect_sessions s)\<rparr>))
       else Inr (row, s))"

record opened =
  op_session_id :: uuid
  op_application_id :: uuid
  op_domain_id :: uuid
  op_expires_at :: instant
  op_app_name :: "string option"
  op_return_url :: "string option"

definition session_live :: "db \<Rightarrow> connect_session \<Rightarrow> bool" where
  "session_live s row = list_ex (\<lambda>d. d_id d = cs_domain_id row \<and> d_application_id d = cs_application_id row
     \<and> d_deleted_at d = None \<and> list_ex (\<lambda>a. app_id a = d_application_id d \<and> app_status a = App_Active
       \<and> app_deleted_at a = None) (applications s)) (domains s)"

definition open_session :: "string \<Rightarrow> instant \<Rightarrow> db \<Rightarrow> opened option" where
  "open_session token now s =
     (if \<not> token_matches token then None
      else let digest = hash_token token in
        case find (\<lambda>r. cs_token_hash r = digest) (connect_sessions s) of
          None \<Rightarrow> None
        | Some row \<Rightarrow>
          if cs_token_hash row \<noteq> digest then None
          else if is_set (cs_revoked_at row) \<or> cs_expires_at row \<le> now then None
          else if \<not> session_live s row then None
          else Some \<lparr>op_session_id = cs_id row, op_application_id = cs_application_id row, op_domain_id = cs_domain_id row,
            op_expires_at = cs_expires_at row, op_app_name = cs_app_name row, op_return_url = cs_return_url row\<rparr>)"

section \<open>The endpoints\<close>

record connect_session_request =
  cq_ttl_seconds :: "int option"
  cq_app_name :: "string option"
  cq_return_url :: "string option"

definition create_connect_session ::
    "application \<Rightarrow> uuid \<Rightarrow> edge_settings option \<Rightarrow> connect_session_request \<Rightarrow> instant \<Rightarrow> db
      \<Rightarrow> db \<times> (error + int \<times> connect_session \<times> string)" where
  "create_connect_session a i es q now s =
     (case create_session a i (page_base_url es) (cq_ttl_seconds q) (cq_app_name q) (cq_return_url q) now s of
        Inl e \<Rightarrow> (s, Inl e) | Inr ((row, url), s1) \<Rightarrow> (s1, Inr (201, row, url)))"

definition revoke_connect_session :: "application \<Rightarrow> uuid \<Rightarrow> uuid \<Rightarrow> instant \<Rightarrow> db \<Rightarrow> db \<times> (error + int)" where
  "revoke_connect_session a i session_id now s = (case revoke_session a i session_id now s of
     Inl e \<Rightarrow> (s, Inl e) | Inr (_, s1) \<Rightarrow> (s1, Inr 204))"

section \<open>Runs\<close>

text \<open>
  What happens to the table of sessions: the two operations above, and everything else, which may
  change any other table and drop sessions with their domain or application, but neither adds
  nor alters one.
\<close>

inductive session_step :: "db \<Rightarrow> db \<Rightarrow> bool" where
  create: "create_session a i base ttl name return_url now s = Inr (r, t) \<Longrightarrow> session_step s t"
| revoke: "revoke_session a i j now s = Inr (r, t) \<Longrightarrow> session_step s t"
| elsewhere: "connect_sessions t = filter keep (connect_sessions s) \<Longrightarrow> draws s \<le> draws t \<Longrightarrow> session_step s t"

text \<open>Sessions of one owner created in the hour up to \<open>x\<close>.\<close>

definition created_within :: "(connect_session \<Rightarrow> bool) \<Rightarrow> instant \<Rightarrow> db \<Rightarrow> connect_session list" where
  "created_within cond x s = filter (\<lambda>r. cond r \<and> x - SESSION_WINDOW < cs_created_at r \<and> cs_created_at r \<le> x) (connect_sessions s)"

definition sessions_ok :: "db \<Rightarrow> bool" where
  "sessions_ok s = (distinct (map cs_id (connect_sessions s)) \<and> distinct (map cs_token_hash (connect_sessions s))
     \<and> (\<forall>r\<in>set (connect_sessions s). cs_id r < draws s)
     \<and> (\<forall>x i. length (created_within (\<lambda>r. cs_domain_id r = i) x s) \<le> SESSION_DOMAIN_MAX)
     \<and> (\<forall>x i. length (created_within (\<lambda>r. cs_application_id r = i) x s) \<le> SESSION_APPLICATION_MAX))"

lemma connect_problem_simp [simp]: "connect_problem field None = Inr ()"
  by (simp add: connect_problem_def)

lemma connect_problem_None: "connect_problem field p = Inr () \<Longrightarrow> p = None"
  by (simp add: connect_problem_def split: option.splits)

lemma create_sessionE:
  assumes "create_session a i base ttl name return_url now s = Inr ((row, url), t)"
  obtains d b token lifetime where "get_domain s a i False = Inr d" and "base = Some b" and "token = rng s (draws s)"
    and "session_ttl ttl = Inr lifetime" and "enforce_session_limits s d now = Inr ()"
    and "row = \<lparr>cs_id = Suc (draws s), cs_application_id = app_id a, cs_domain_id = d_id d, cs_token_hash = hash_token token,
      cs_expires_at = now + lifetime, cs_revoked_at = None, cs_app_name = map_option strip name,
      cs_return_url = return_url, cs_created_at = now\<rparr>"
    and "url = page_url b token" and "\<forall>r\<in>set (connect_sessions s). cs_token_hash r \<noteq> hash_token token"
    and "t = s\<lparr>draws := Suc (Suc (draws s)), connect_sessions := connect_sessions s @ [row]\<rparr>"
    and "(case return_url of None \<Rightarrow> None | Some v \<Rightarrow> redirect_uri_problem v) = None"
    and "(case name of None \<Rightarrow> None | Some v \<Rightarrow> app_name_problem v) = None"
proof -
  from assms obtain lifetime d where E: "session_ttl ttl = Inr lifetime" "get_domain s a i False = Inr d"
      "connect_problem ''app_name'' (case name of None \<Rightarrow> None | Some v \<Rightarrow> app_name_problem v) = Inr ()"
      "connect_problem ''return_url'' (case return_url of None \<Rightarrow> None | Some v \<Rightarrow> redirect_uri_problem v) = Inr ()"
    unfolding create_session_def by (elim bind_res_InrE) simp
  from assms E obtain b where b: "base = Some b" by (cases base) (simp_all add: create_session_def)
  from assms E b have l: "enforce_session_limits s d now = Inr ()"
    by (cases "enforce_session_limits s d now") (simp_all add: create_session_def)
  from assms show thesis
    by (intro that [OF E(2) b refl E(1) l])
      (simp_all add: create_session_def E b l token_urlsafe_def uuid4_def Let_def list_ex_iff
        connect_problem_None [OF E(3)] connect_problem_None [OF E(4)] split: if_splits, blast?)
qed

lemma revoke_sessionE:
  assumes "revoke_session a i j now s = Inr (row, t)"
  obtains d r where "get_domain s a i True = Inr d" and "r \<in> set (connect_sessions s)" and "cs_id r = j"
    and "cs_domain_id r = d_id d" and "cs_application_id r = app_id a"
    and "row = (if cs_revoked_at r = None then r\<lparr>cs_revoked_at := Some now\<rparr> else r)"
    and "t = (if cs_revoked_at r = None
      then s\<lparr>connect_sessions := update_row cs_id j (\<lambda>_. row) (connect_sessions s)\<rparr> else s)"
proof -
  from assms obtain d where d: "get_domain s a i True = Inr d" unfolding revoke_session_def by (elim bind_res_InrE)
  let ?f = "find (\<lambda>r. cs_id r = j \<and> cs_domain_id r = d_id d \<and> cs_application_id r = app_id a) (connect_sessions s)"
  from assms d obtain r where f: "?f = Some r" by (cases ?f) (simp_all add: revoke_session_def)
  then have r: "r \<in> set (connect_sessions s) \<and> cs_id r = j \<and> cs_domain_id r = d_id d \<and> cs_application_id r = app_id a"
    by (auto simp: find_Some_iff)
  from assms d f r show thesis by (intro that [of d r]) (auto simp: revoke_session_def Let_def split: if_splits)
qed

lemma enforced:
  assumes "enforce_session_limits s d now = Inr ()"
  shows "length (recent_sessions (\<lambda>r. cs_domain_id r = d_id d) now s) < SESSION_DOMAIN_MAX"
    and "length (recent_sessions (\<lambda>r. cs_application_id r = d_application_id d) now s) < SESSION_APPLICATION_MAX"
  using assms by (auto simp: enforce_session_limits_def session_limit_def Let_def bind_res_def split: if_splits)

text \<open>One more session keeps the bound over every window when the last hour had room for it.\<close>

lemma created_within_snoc:
  assumes "length (created_within cond x s) \<le> n" and "cond row \<longrightarrow> length (recent_sessions cond (cs_created_at row) s) < n"
    and "connect_sessions t = connect_sessions s @ [row]"
  shows "length (created_within cond x t) \<le> n"
proof (cases "cond row \<and> x - SESSION_WINDOW < cs_created_at row \<and> cs_created_at row \<le> x")
  case True
  then have "length (created_within cond x s) \<le> length (recent_sessions cond (cs_created_at row) s)"
    unfolding created_within_def recent_sessions_def by (intro length_filter_mono) auto
  with assms True show ?thesis by (simp add: created_within_def)
next
  case False
  with assms show ?thesis by (auto simp: created_within_def)
qed

lemma update_session:
  assumes "distinct (map cs_id rs)" and "r \<in> set rs"
  shows "update_row cs_id (cs_id r) (\<lambda>_. r\<lparr>cs_revoked_at := Some now\<rparr>) rs
    = map (\<lambda>x. if cs_id x = cs_id r then x\<lparr>cs_revoked_at := Some now\<rparr> else x) rs"
  using assms by (auto simp: update_row_def distinct_map inj_on_def)

lemma created_within_revoked:
  assumes "\<And>r x. cond (r\<lparr>cs_revoked_at := x\<rparr>) = cond r"
    and "connect_sessions t = map (\<lambda>x. if cs_id x = j then x\<lparr>cs_revoked_at := Some now\<rparr> else x) (connect_sessions s)"
  shows "length (created_within cond x t) = length (created_within cond x s)"
  unfolding created_within_def assms(2) filter_map length_map by (intro arg_cong [where f = length] filter_cong) (auto simp: assms(1))

lemma created_within_filter:
  assumes "connect_sessions t = filter keep (connect_sessions s)"
  shows "length (created_within cond x t) \<le> length (created_within cond x s)"
  unfolding created_within_def assms filter_filter by (rule length_filter_mono) simp

lemma get_domain_fields: "get_domain s a i inc = Inr d \<Longrightarrow> d_id d = i \<and> d_application_id d = app_id a"
  by (auto simp: get_domain_def find_Some_iff split: option.splits)

lemma session_step_ok:
  assumes "sessions_ok s" and "session_step s t"
  shows "sessions_ok t"
  using assms(2)
proof cases
  case (create a i base ttl name return_url now r)
  obtain row url where r: "r = (row, url)" by (cases r)
  from create [unfolded r] show ?thesis
  proof (rule create_sessionE)
    fix d b token lifetime
    assume E: "get_domain s a i False = Inr d" "enforce_session_limits s d now = Inr ()"
      and row: "row = \<lparr>cs_id = Suc (draws s), cs_application_id = app_id a, cs_domain_id = d_id d, cs_token_hash = hash_token token,
        cs_expires_at = now + lifetime, cs_revoked_at = None, cs_app_name = map_option strip name,
        cs_return_url = return_url, cs_created_at = now\<rparr>"
      and fresh: "\<forall>r\<in>set (connect_sessions s). cs_token_hash r \<noteq> hash_token token"
      and t: "t = s\<lparr>draws := Suc (Suc (draws s)), connect_sessions := connect_sessions s @ [row]\<rparr>"
    have snoc: "connect_sessions t = connect_sessions s @ [row]" by (simp add: t)
    have "length (created_within (\<lambda>r. cs_domain_id r = k) x t) \<le> SESSION_DOMAIN_MAX" for k x
      by (rule created_within_snoc [OF _ _ snoc]) (use assms(1) enforced(1) [OF E(2)] in \<open>auto simp: sessions_ok_def row\<close>)
    moreover have "length (created_within (\<lambda>r. cs_application_id r = k) x t) \<le> SESSION_APPLICATION_MAX" for k x
      by (rule created_within_snoc [OF _ _ snoc])
        (use assms(1) enforced(2) [OF E(2)] get_domain_fields [OF E(1)] in \<open>auto simp: sessions_ok_def row\<close>)
    moreover have "\<forall>r\<in>set (connect_sessions s). cs_id r \<noteq> Suc (draws s) \<and> cs_id r < Suc (Suc (draws s))"
      using assms(1) by (force simp: sessions_ok_def)
    ultimately show ?thesis using assms(1) fresh by (auto simp: sessions_ok_def t row)
  qed
next
  case (revoke a i j now r)
  then show ?thesis
  proof (rule revoke_sessionE)
    fix d x assume x: "x \<in> set (connect_sessions s)" "cs_id x = j"
      and row: "r = (if cs_revoked_at x = None then x\<lparr>cs_revoked_at := Some now\<rparr> else x)"
      and t: "t = (if cs_revoked_at x = None
        then s\<lparr>connect_sessions := update_row cs_id j (\<lambda>_. r) (connect_sessions s)\<rparr> else s)"
    show ?thesis
    proof (cases "cs_revoked_at x = None")
      case True
      have m: "connect_sessions t = map (\<lambda>y. if cs_id y = j then y\<lparr>cs_revoked_at := Some now\<rparr> else y) (connect_sessions s)"
        using update_session [of "connect_sessions s" x now] assms(1) x True by (simp add: t row sessions_ok_def)
      have k: "map cs_id (connect_sessions t) = map cs_id (connect_sessions s)"
        "map cs_token_hash (connect_sessions t) = map cs_token_hash (connect_sessions s)" by (simp_all add: m)
      have "draws t = draws s" by (simp add: t)
      moreover have "\<forall>y\<in>set (connect_sessions t). cs_id y < draws s" using assms(1) by (auto simp: m sessions_ok_def)
      ultimately show ?thesis using assms(1) unfolding sessions_ok_def k
        by (auto simp: created_within_revoked [OF _ m])
    next
      case False
      with assms(1) t show ?thesis by simp
    qed
  qed
next
  case (elsewhere keep)
  from assms(1) elsewhere show ?thesis
    by (auto simp: sessions_ok_def distinct_map_filter intro: order_trans [OF created_within_filter] order.strict_trans2)
qed

lemma no_sessions_ok: "connect_sessions s = [] \<Longrightarrow> sessions_ok s"
  by (simp add: sessions_ok_def created_within_def)

interpretation sessions: invariant_system session_step sessions_ok "\<lambda>s. connect_sessions s = []"
  by unfold_locales (blast intro: session_step_ok, rule no_sessions_ok)

text \<open>A session keeps everything but the time of its revocation, which is set once.\<close>

definition same_session :: "connect_session \<Rightarrow> connect_session \<Rightarrow> bool" where
  "same_session r r' = (\<exists>x. r' = r\<lparr>cs_revoked_at := x\<rparr> \<and> (is_set (cs_revoked_at r) \<longrightarrow> x = cs_revoked_at r))"

lemma same_session_refl: "same_session r r"
  by (auto simp: same_session_def intro!: exI [of _ "cs_revoked_at r"])

lemma same_session_trans: "same_session r r' \<Longrightarrow> same_session r' r'' \<Longrightarrow> same_session r r''"
  unfolding same_session_def by (elim exE conjE) (rule exI, auto)

lemma same_session_unrevoked: "same_session r r' \<Longrightarrow> cs_revoked_at r' = None \<Longrightarrow> cs_revoked_at r = None"
  by (cases "cs_revoked_at r") (auto simp: same_session_def)

lemma session_step_traced:
  assumes "sessions_ok s" and "session_step s t" and "r' \<in> set (connect_sessions t)" and "cs_id r' < draws s"
  shows "\<exists>r\<in>set (connect_sessions s). same_session r r' \<and> cs_id r = cs_id r'"
  using assms(2)
proof cases
  case (create a i base ttl name return_url now r)
  obtain row url where r: "r = (row, url)" by (cases r)
  from create [unfolded r] show ?thesis
    by (rule create_sessionE) (use assms(3,4) in \<open>auto intro: same_session_refl\<close>)
next
  case (revoke a i j now r)
  then show ?thesis
  proof (rule revoke_sessionE)
    fix d x assume x: "x \<in> set (connect_sessions s)" "cs_id x = j"
      and row: "r = (if cs_revoked_at x = None then x\<lparr>cs_revoked_at := Some now\<rparr> else x)"
      and t: "t = (if cs_revoked_at x = None
        then s\<lparr>connect_sessions := update_row cs_id j (\<lambda>_. r) (connect_sessions s)\<rparr> else s)"
    show ?thesis
    proof (cases "r' \<in> set (connect_sessions s)")
      case True
      then show ?thesis by (auto intro: same_session_refl)
    next
      case False
      then have "r' = x\<lparr>cs_revoked_at := Some now\<rparr>" "cs_revoked_at x = None"
        using assms(3) by (auto simp: t row update_row_def split: if_splits)
      with x show ?thesis by (intro bexI [of _ x]) (auto simp: same_session_def)
    qed
  qed
next
  case (elsewhere keep)
  with assms(3) show ?thesis by (auto intro: same_session_refl)
qed

lemma session_step_draws: "session_step s t \<Longrightarrow> draws s \<le> draws t"
  by (cases rule: session_step.cases) (auto elim!: create_sessionE revoke_sessionE split: if_splits)

lemma sessions_traced:
  assumes "session_step\<^sup>*\<^sup>* s t" and "sessions_ok s" and "r' \<in> set (connect_sessions t)" and "cs_id r' < draws s"
  shows "\<exists>r\<in>set (connect_sessions s). same_session r r' \<and> cs_id r = cs_id r'"
  using assms(1,3,4)
proof (induction arbitrary: r')
  case (step t u)
  have ok: "sessions_ok t" by (rule sessions.steps_inv [OF step.hyps(1) assms(2)])
  have "draws s \<le> draws t" using step.hyps(1) by (induction rule: rtranclp_induct) (auto dest: session_step_draws)
  with session_step_traced [OF ok step.hyps(2) step.prems(1)] step.prems(2)
  obtain r where r: "r \<in> set (connect_sessions t)" "same_session r r'" "cs_id r = cs_id r'" by auto
  with step.IH [of r] step.prems(2) show ?case by (auto intro: same_session_trans)
qed (auto intro: same_session_refl)

section \<open>What a link opens\<close>

definition opened_of :: "connect_session \<Rightarrow> opened" where
  "opened_of r = \<lparr>op_session_id = cs_id r, op_application_id = cs_application_id r, op_domain_id = cs_domain_id r,
     op_expires_at = cs_expires_at r, op_app_name = cs_app_name r, op_return_url = cs_return_url r\<rparr>"

lemma open_session_iff:
  assumes "sessions_ok s"
  shows "open_session token now s = Some o' \<longleftrightarrow> token_matches token \<and> (\<exists>r\<in>set (connect_sessions s).
    cs_token_hash r = hash_token token \<and> cs_revoked_at r = None \<and> now < cs_expires_at r \<and> session_live s r \<and> o' = opened_of r)"
proof -
  have "find (\<lambda>r. cs_token_hash r = h) rs = Some r \<longleftrightarrow> r \<in> set rs \<and> cs_token_hash r = h"
    if "distinct (map cs_token_hash rs)" for h r and rs :: "connect_session list"
    using that by (induction rs) (auto simp: image_iff)
  with assms have f: "find (\<lambda>r. cs_token_hash r = hash_token token) (connect_sessions s) = Some r
      \<longleftrightarrow> r \<in> set (connect_sessions s) \<and> cs_token_hash r = hash_token token" for r
    by (simp add: sessions_ok_def)
  have ex: "(\<exists>r\<in>set (connect_sessions s). cs_token_hash r = hash_token token \<and> Q r)
      \<longleftrightarrow> (\<exists>r. find (\<lambda>r. cs_token_hash r = hash_token token) (connect_sessions s) = Some r \<and> Q r)" for Q
    unfolding f by blast
  show ?thesis unfolding ex
  proof (cases "find (\<lambda>r. cs_token_hash r = hash_token token) (connect_sessions s)")
    case (Some r)
    with f have "cs_token_hash r = hash_token token" by blast
    with Some show "open_session token now s = Some o' \<longleftrightarrow> token_matches token \<and> (\<exists>r.
        find (\<lambda>r. cs_token_hash r = hash_token token) (connect_sessions s) = Some r
        \<and> cs_revoked_at r = None \<and> now < cs_expires_at r \<and> session_live s r \<and> o' = opened_of r)"
      by (auto simp: open_session_def Let_def opened_of_def)
  qed (simp add: open_session_def Let_def)
qed

lemma session_live_revoked [simp]: "session_live s (r\<lparr>cs_revoked_at := x\<rparr>) = session_live s r"
  by (simp add: session_live_def)

lemma opened_of_revoked [simp]: "opened_of (r\<lparr>cs_revoked_at := x\<rparr>) = opened_of r"
  by (simp add: opened_of_def)

lemma revoked_session_closed:
  assumes "sessions_ok u" and "revoke_session a i j at u = Inr (r, v)" and "session_step\<^sup>*\<^sup>* v w"
    and "open_session token later w = Some o'"
  shows "op_session_id o' \<noteq> j"
proof
  assume j: "op_session_id o' = j"
  have v: "sessions_ok v" by (rule session_step_ok [OF assms(1) session_step.revoke [OF assms(2)]])
  from open_session_iff [OF sessions.steps_inv [OF assms(3) v], THEN iffD1, OF assms(4)] j
  obtain x where x: "x \<in> set (connect_sessions w)" "cs_revoked_at x = None" "cs_id x = j" by (auto simp: opened_of_def)
  from assms(2) obtain y where y: "y \<in> set (connect_sessions u)" "cs_id y = j"
    and v': "v = (if cs_revoked_at y = None then u\<lparr>connect_sessions := update_row cs_id j (\<lambda>_. r) (connect_sessions u)\<rparr> else u)"
    and r: "r = (if cs_revoked_at y = None then y\<lparr>cs_revoked_at := Some at\<rparr> else y)"
    by (rule revoke_sessionE)
  have "cs_id x < draws v" using assms(1) y x(3) by (auto simp: v' sessions_ok_def)
  from sessions_traced [OF assms(3) v x(1) this] obtain z where z: "z \<in> set (connect_sessions v)" "same_session z x" "cs_id z = cs_id x" by blast
  have z2: "cs_id z = j" "cs_revoked_at z = None" using z(3) x(3) same_session_unrevoked [OF z(2) x(2)] by simp_all
  have "z = y" if "z \<in> set (connect_sessions u)" using assms(1) y z2(1) that by (auto simp: sessions_ok_def distinct_map inj_on_def)
  with z(1) z2 show False by (auto simp: v' r update_row_def split: if_splits)
qed

text \<open>
  C27: a setup link opens its session exactly while the session lives. After any run of sessions
  created and revoked, with domains and applications changing and disappearing in between, the
  tokens that open the session are those with the hash of the token in the link; they
  open it just until its expiry, which is between five minutes and a day after its creation,
  and only while it is not revoked, its domain is not deleted and its application is active. They give access
  to the one domain it was created for. Once revoked it never opens again.
\<close>

theorem link_opens_exactly_while_live:
  assumes "connect_sessions s0 = []" and "session_step\<^sup>*\<^sup>* s0 s"
    and "create_session a i base ttl name return_url now s = Inr ((row, url), t)" and "session_step\<^sup>*\<^sup>* t u"
  shows "\<exists>b token. base = Some b \<and> url = page_url b token \<and> cs_application_id row = app_id a \<and> cs_domain_id row = i
    \<and> now + minutes 5 \<le> cs_expires_at row \<and> cs_expires_at row \<le> now + hours 24
    \<and> (\<forall>tk at o'. open_session tk at u = Some o' \<and> op_session_id o' = cs_id row \<longleftrightarrow>
        token_matches tk \<and> hash_token tk = hash_token token \<and> at < cs_expires_at row \<and> o' = opened_of row
        \<and> session_live u row \<and> (\<exists>r\<in>set (connect_sessions u). cs_id r = cs_id row \<and> cs_revoked_at r = None))
    \<and> (\<forall>a' i' at r v w tk later o'. revoke_session a' i' (cs_id row) at u = Inr (r, v) \<longrightarrow> session_step\<^sup>*\<^sup>* v w
        \<longrightarrow> open_session tk later w = Some o' \<longrightarrow> op_session_id o' \<noteq> cs_id row)"
proof -
  have s: "sessions_ok s" by (rule sessions.reachable_inv [OF assms(1,2)])
  have t: "sessions_ok t" by (rule session_step_ok [OF s session_step.create [OF assms(3)]])
  have u: "sessions_ok u" by (rule sessions.steps_inv [OF assms(4) t])
  from assms(3) obtain d b token lifetime where E: "get_domain s a i False = Inr d" "base = Some b" "url = page_url b token"
    "session_ttl ttl = Inr lifetime" "t = s\<lparr>draws := Suc (Suc (draws s)), connect_sessions := connect_sessions s @ [row]\<rparr>"
    and row: "row = \<lparr>cs_id = Suc (draws s), cs_application_id = app_id a, cs_domain_id = d_id d, cs_token_hash = hash_token token,
      cs_expires_at = now + lifetime, cs_revoked_at = None, cs_app_name = map_option strip name,
      cs_return_url = return_url, cs_created_at = now\<rparr>"
    by (rule create_sessionE)
  have ttl: "minutes 5 \<le> lifetime" "lifetime \<le> hours 24"
    using E(4) by (auto simp: session_ttl_def Let_def MIN_TTL_def MAX_TTL_def split: if_splits)
  have same: "\<exists>x. r = row\<lparr>cs_revoked_at := x\<rparr>" if "r \<in> set (connect_sessions u)" "cs_id r = cs_id row" for r
  proof -
    have "cs_id r < draws t" using that(2) by (simp add: E(5) row)
    from sessions_traced [OF assms(4) t that(1) this] 
    obtain q where q: "q \<in> set (connect_sessions t)" "same_session q r" "cs_id q = cs_id r" by blast
    have "row \<in> set (connect_sessions t)" by (simp add: E(5))
    moreover have "inj_on cs_id (set (connect_sessions t))" using t by (simp add: sessions_ok_def distinct_map)
    moreover have "cs_id q = cs_id row" using q(3) that(2) by (rule trans)
    ultimately have "q = row" using q(1) by (blast dest: inj_onD)
    with q(2) show ?thesis unfolding same_session_def by (elim exE conjE) (rule exI, simp only:)
  qed
  have hash: "cs_token_hash row = hash_token token" by (simp add: row)
  have iff: "open_session tk at u = Some o' \<and> op_session_id o' = cs_id row \<longleftrightarrow>
      token_matches tk \<and> hash_token tk = hash_token token \<and> at < cs_expires_at row \<and> o' = opened_of row
      \<and> session_live u row \<and> (\<exists>r\<in>set (connect_sessions u). cs_id r = cs_id row \<and> cs_revoked_at r = None)" (is "?l \<longleftrightarrow> ?r") for tk at o'
  proof
    assume ?l
    then obtain r where r: "r \<in> set (connect_sessions u)" "cs_token_hash r = hash_token tk" "cs_revoked_at r = None"
      "at < cs_expires_at r" "session_live u r" "o' = opened_of r" "token_matches tk" "cs_id r = cs_id row"
      unfolding open_session_iff [OF u] by (auto simp: opened_of_def)
    from same [OF r(1,8)] obtain x where "r = row\<lparr>cs_revoked_at := x\<rparr>" ..
    then have "cs_token_hash r = hash_token token" "cs_expires_at r = cs_expires_at row" "session_live u r = session_live u row"
      "opened_of r = opened_of row" by (simp_all add: hash)
    with r show ?r by (intro conjI bexI [of _ r]) simp_all
  next
    assume ?r
    then obtain r where r: "r \<in> set (connect_sessions u)" "cs_id r = cs_id row" "cs_revoked_at r = None" by blast
    from same [OF r(1,2)] obtain x where "r = row\<lparr>cs_revoked_at := x\<rparr>" ..
    with r(3) have "r = row \<or> cs_token_hash r = cs_token_hash row \<and> opened_of r = opened_of row
        \<and> cs_expires_at r = cs_expires_at row \<and> session_live u r = session_live u row" by simp
    with r \<open>?r\<close> show ?l unfolding open_session_iff [OF u]
      by (intro conjI bexI [of _ r]) (auto simp: hash opened_of_def)
  qed
  have "cs_domain_id row = i" "cs_application_id row = app_id a" "cs_expires_at row = now + lifetime"
    using get_domain_fields [OF E(1)] by (simp_all add: row)
  with E(2,3) ttl iff revoked_session_closed [OF u] show ?thesis by (intro exI [of _ b] exI [of _ token]) simp
qed

definition link_db :: db where
  "link_db = demo_ready\<lparr>rng := \<lambda>n. replicate 43 (CHR ''a'')\<rparr>"

definition link_result :: "error + (connect_session \<times> string) \<times> db" where
  "link_result = create_session demo_app 10 (Some ''https://edge.example.net'') (Some 600) (Some '' Acme '') None 5000 link_db"

lemma link_result_facts:
  "connect_sessions link_db = []" "\<exists>row url t. link_result = Inr ((row, url), t)"
proof -
  show "connect_sessions link_db = []" by code_simp
  have "\<exists>d. get_domain link_db demo_app 10 False = Inr d"
    by (rule exI [of _ "projr (get_domain link_db demo_app 10 False)"], rule projr_eq) code_simp
  then obtain d where d: "get_domain link_db demo_app 10 False = Inr d" ..
  have "session_ttl (Some 600) = Inr (seconds 600)" "app_name_problem '' Acme '' = None" by code_simp+
  moreover have "enforce_session_limits link_db d 5000 = Inr ()"
    by (simp add: enforce_session_limits_def session_limit_def recent_sessions_def \<open>connect_sessions link_db = []\<close>
        SESSION_DOMAIN_MAX_def SESSION_APPLICATION_MAX_def)
  ultimately show "\<exists>row url t. link_result = Inr ((row, url), t)"
    by (simp add: link_result_def create_session_def d token_urlsafe_def uuid4_def Let_def \<open>connect_sessions link_db = []\<close>)
qed

theorem link_opens_exactly_while_live_witness:
  "\<exists>row url t token. link_result = Inr ((row, url), t) \<and> url = page_url ''https://edge.example.net'' token
    \<and> cs_domain_id row = 10 \<and> cs_expires_at row \<le> 5000 + hours 24
    \<and> (\<forall>tk at o'. open_session tk at t = Some o' \<and> op_session_id o' = cs_id row \<longrightarrow> at < cs_expires_at row)"
proof -
  from link_result_facts(2) obtain row url t where r: "link_result = Inr ((row, url), t)" by blast
  have "create_session demo_app 10 (Some ''https://edge.example.net'') (Some 600) (Some '' Acme '') None 5000 link_db
      = Inr ((row, url), t)" using r by (simp only: link_result_def)
  from link_opens_exactly_while_live [OF link_result_facts(1) rtranclp.rtrancl_refl this rtranclp.rtrancl_refl]
  show ?thesis using r by (elim exE conjE) (intro exI conjI, assumption+, simp_all)
qed

lemma session_limit_passes:
  assumes "session_limit scope cond n now s = Inl (RateLimited message wait)"
    and "\<forall>r\<in>set (connect_sessions s). cs_created_at r \<le> now" and "length (created_within cond now s) \<le> n" and "0 < n"
  shows "session_limit scope cond n (now + seconds wait) s = Inr ()"
proof -
  let ?rs = "recent_sessions cond now s"
  have same: "?rs = created_within cond now s"
    unfolding recent_sessions_def created_within_def using assms(2) by (intro filter_cong) auto
  from assms(1) have l: "n \<le> length ?rs" by (simp add: session_limit_def Let_def split: if_splits)
  with assms(4) obtain r0 rest where r0: "?rs = r0 # rest" by (cases ?rs) auto
  obtain oldest where o: "min_of (map cs_created_at ?rs) = Some oldest" using r0 by simp
  from assms(1) l o have wait: "wait = max 1 (ceil_seconds (oldest + SESSION_WINDOW - now))"
    by (auto simp: session_limit_def Let_def rate_limited_def)
  then have w: "ceil_seconds (oldest + SESSION_WINDOW - now) \<le> wait" by simp
  obtain r where r: "r \<in> set ?rs" "cs_created_at r = oldest"
    using o by (auto simp: min_of_Some)
  have late: "oldest \<le> now + seconds wait - SESSION_WINDOW"
    using ceil_seconds_bounds(1) [of "oldest + SESSION_WINDOW - now"] w by (simp add: seconds_def)
  have pos: "0 < seconds wait" by (simp add: wait seconds_def)
  have "length (recent_sessions cond (now + seconds wait) s) \<le> length (filter (\<lambda>x. x \<noteq> r) ?rs)"
    unfolding recent_sessions_def filter_filter using late r(2) pos by (intro length_filter_mono) auto
  also have "\<dots> < length ?rs" using r(1) by (rule length_filter_less) simp
  finally have "length (recent_sessions cond (now + seconds wait) s) < n" using assms(3) same by simp
  then show ?thesis by (simp add: session_limit_def)
qed

text \<open>
  C28: setup links are limited over every hour. In every run, any domain gets at most 20 and
  any application at most 600 sessions within any sixty minutes, and a request that is refused for
  one of these limits succeeds in passing it once the announced time has gone by, when no
  other session was created since.
\<close>

theorem session_limits_over_every_hour:
  assumes "connect_sessions s0 = []" and "session_step\<^sup>*\<^sup>* s0 s"
  shows "length (created_within (\<lambda>r. cs_domain_id r = i) x s) \<le> 20
    \<and> length (created_within (\<lambda>r. cs_application_id r = i) x s) \<le> 600
    \<and> ((\<forall>r\<in>set (connect_sessions s). cs_created_at r \<le> now)
        \<longrightarrow> enforce_session_limits s d now = Inl (RateLimited message wait)
        \<longrightarrow> (session_limit ''domain'' (\<lambda>r. cs_domain_id r = d_id d) 20 now s = Inl (RateLimited message wait)
              \<and> session_limit ''domain'' (\<lambda>r. cs_domain_id r = d_id d) 20 (now + seconds wait) s = Inr ())
          \<or> (session_limit ''application'' (\<lambda>r. cs_application_id r = d_application_id d) 600 now s = Inl (RateLimited message wait)
              \<and> session_limit ''application'' (\<lambda>r. cs_application_id r = d_application_id d) 600 (now + seconds wait) s = Inr ()))"
proof -
  have ok: "sessions_ok s" by (rule sessions.reachable_inv [OF assms])
  have n: "SESSION_DOMAIN_MAX = 20" "SESSION_APPLICATION_MAX = 600"
    by (simp_all add: SESSION_DOMAIN_MAX_def SESSION_APPLICATION_MAX_def)
  have within: "length (created_within (\<lambda>r. cs_domain_id r = k) x s) \<le> 20"
    "length (created_within (\<lambda>r. cs_application_id r = k) x s) \<le> 600" for k x
    using ok by (simp_all add: sessions_ok_def n)
  have "(session_limit ''domain'' (\<lambda>r. cs_domain_id r = d_id d) 20 now s = Inl (RateLimited message wait)
          \<and> session_limit ''domain'' (\<lambda>r. cs_domain_id r = d_id d) 20 (now + seconds wait) s = Inr ())
      \<or> (session_limit ''application'' (\<lambda>r. cs_application_id r = d_application_id d) 600 now s = Inl (RateLimited message wait)
          \<and> session_limit ''application'' (\<lambda>r. cs_application_id r = d_application_id d) 600 (now + seconds wait) s = Inr ())"
    if past: "\<forall>r\<in>set (connect_sessions s). cs_created_at r \<le> now"
      and refused: "enforce_session_limits s d now = Inl (RateLimited message wait)"
  proof -
    from refused consider
        "session_limit ''domain'' (\<lambda>r. cs_domain_id r = d_id d) 20 now s = Inl (RateLimited message wait)"
      | "session_limit ''application'' (\<lambda>r. cs_application_id r = d_application_id d) 600 now s = Inl (RateLimited message wait)"
      by (auto simp: enforce_session_limits_def n bind_res_eq_Inl)
    then show ?thesis
      using session_limit_passes [OF _ past within(1)] session_limit_passes [OF _ past within(2)] by cases simp_all
  qed
  with within show ?thesis by simp
qed

theorem session_limits_over_every_hour_witness:
  "length (created_within (\<lambda>r. cs_domain_id r = 10) 5000 (snd (projr link_result))) \<le> 20
    \<and> length (created_within (\<lambda>r. cs_application_id r = 1) 5000 (snd (projr link_result))) \<le> 600"
proof -
  from link_result_facts(2) obtain row url t where r: "link_result = Inr ((row, url), t)" by blast
  then have "session_step\<^sup>*\<^sup>* link_db t"
    unfolding link_result_def by (intro r_into_rtranclp session_step.create)
  note limits = session_limits_over_every_hour [OF link_result_facts(1) this]
  from conjunct1 [OF limits, of 10 5000] conjunct1 [OF conjunct2 [OF limits], of 1 5000]
  show ?thesis unfolding r sum.sel snd_conv by (rule conjI)
qed

end
