(* ===== verification/Dc_Signing.thy ===== *)
theory Dc_Signing
  imports Connect_Sessions Json_Text
begin

text \<open>
  Signing Domain Connect apply URLs: src/app/dns/signing.py. RSA (the \<open>cryptography\<close> package) and
  the HTTP exchange with a remote signer are parameters; the query and the URL, the key list, the
  request sent and the reading of the answer are modelled.
\<close>

section \<open>The query and the URL\<close>

text \<open>\<open>urllib.parse.quote(s, safe='')\<close>.\<close>

definition unreserved :: "char \<Rightarrow> bool" where
  "unreserved c = (is_alpha c \<or> is_digit c \<or> c \<in> {CHR ''-'', CHR ''.'', CHR ''_'', CHR ''~''})"

definition hex_upper :: "int \<Rightarrow> char" where
  "hex_upper n = (if n < 10 then char_of (48 + n) else char_of (55 + n))"

definition quote_byte :: "char \<Rightarrow> string" where
  "quote_byte c = (if unreserved c then [c]
     else let n = of_char c :: int in [CHR ''%'', hex_upper (n div 16), hex_upper (n mod 16)])"

definition quote :: "string \<Rightarrow> string" where
  "quote s = concat (map quote_byte (utf8_encode s))"

text \<open>\<open>urlencode(params, quote_via=quote)\<close>.\<close>

definition canonical_query :: "(string \<times> string) list \<Rightarrow> string" where
  "canonical_query params = join ''&'' (map (\<lambda>(k, v). quote k @ ''='' @ quote v) params)"

record signature =
  sig_key :: string
  sig_sig :: string

definition apply_url :: "string \<Rightarrow> string \<Rightarrow> string \<Rightarrow> string \<Rightarrow> signature \<Rightarrow> string" where
  "apply_url url_sync_ux provider_id service_id query sg =
     rstrip (\<lambda>c. c = CHR 0x2F) url_sync_ux @ ''/v2/domainTemplates/providers/'' @ quote provider_id
     @ ''/services/'' @ quote service_id @ ''/apply?'' @ query
     @ ''&key='' @ quote (sig_key sg) @ ''&sig='' @ quote (sig_sig sg)"

section \<open>Patterns\<close>

text \<open>
  \<open>re.match\<close> of a pattern that ends in \<open>$\<close>: a final newline may follow what \<open>p\<close> accepts.
\<close>

definition dollar :: "(string \<Rightarrow> bool) \<Rightarrow> string \<Rightarrow> bool" where
  "dollar p s = (p s \<or> (s \<noteq> [] \<and> last s = CHR 0x0A \<and> p (butlast s)))"

definition alnum :: "char \<Rightarrow> bool" where "alnum c = (is_alpha c \<or> is_digit c)"

definition IDENTIFIER :: "string \<Rightarrow> bool" where
  "IDENTIFIER = dollar (\<lambda>s. s \<noteq> [] \<and> length s \<le> 64 \<and> alnum (hd s) \<and> alnum (last s)
     \<and> list_all (\<lambda>c. alnum c \<or> c \<in> {CHR ''.'', CHR ''_'', CHR ''-''}) s)"

definition KEY_HOST :: "string \<Rightarrow> bool" where
  "KEY_HOST = dollar (\<lambda>s. s \<noteq> [] \<and> length s \<le> 63 \<and> (alnum (hd s) \<or> hd s = CHR ''_'')
     \<and> list_all (\<lambda>c. alnum c \<or> c \<in> {CHR ''_'', CHR ''.'', CHR ''-''}) s)"

definition CREDENTIAL :: "string \<Rightarrow> bool" where
  "CREDENTIAL = dollar (\<lambda>s. length s = 47 \<and> starts_with ''dcs_'' s \<and> list_all token_char (drop 4 s))"

definition BASE64 :: "string \<Rightarrow> bool" where
  "BASE64 = dollar (\<lambda>s. let body = rstrip (\<lambda>c. c = CHR ''='') s in
     body \<noteq> [] \<and> length s \<le> length body + 2 \<and> list_all (\<lambda>c. alnum c \<or> c = CHR ''+'' \<or> c = CHR 0x2F) body)"

definition CREDENTIAL_PREFIX_LENGTH :: nat where "CREDENTIAL_PREFIX_LENGTH = 12"
definition DEFAULT_KEY_HOST :: string where "DEFAULT_KEY_HOST = ''_dcpubkeyv1''"
definition MIN_KEY_BITS :: int where "MIN_KEY_BITS = 2048"
definition MAX_REMOTE_ANSWER :: nat where "MAX_REMOTE_ANSWER = 16 * 1024"

definition REMOTE_REFUSALS :: "string list" where
  "REMOTE_REFUSALS = [''bad_request'', ''bad_query'', ''unauthorized'', ''foreign_template'', ''redirect_not_https'',
     ''wrong_target'', ''unknown_domain'', ''host_mismatch'', ''domain_not_live'', ''wrong_token'']"

section \<open>Local keys\<close>

text \<open>
  What the \<open>cryptography\<close> package makes of the DER of a key: nothing when it cannot read it, else
  whether it is an RSA key and its size; and the signature of a message, as bytes.
\<close>

record rsa =
  load_der :: "string \<Rightarrow> (bool \<times> int) option"
  rsa_sign :: "string \<Rightarrow> string \<Rightarrow> string"

text \<open>
  \<open>base64.b64encode\<close> and \<open>base64.b64decode(validate=True)\<close>: the standard alphabet, with padding. The
  strict decoder ignores padding after whole groups only, and wants some data before any padding.
\<close>

definition to_std :: "char \<Rightarrow> char" where
  "to_std c = (if c = CHR ''-'' then CHR ''+'' else if c = CHR ''_'' then CHR 0x2F else c)"

definition b64encode :: "string \<Rightarrow> string" where
  "b64encode bs = (let t = b64 bs in map to_std t @ replicate ((4 - length t mod 4) mod 4) (CHR ''=''))"

definition b64decode :: "string \<Rightarrow> string option" where
  "b64decode t = (let body = rstrip (\<lambda>c. c = CHR ''='') t in
     if list_all (\<lambda>c. alnum c \<or> c = CHR ''+'' \<or> c = CHR 0x2F) body \<and> (t = [] \<or> body \<noteq> [])
       \<and> (length body mod 4 = 0 \<or> length body mod 4 + (length t - length body) = 4)
     then a2b 0 0 0 t else None)"

record local_key =
  lk_host :: string
  lk_der :: string

text \<open>\<open>InvalidSigningKey\<close> is a \<open>ValueError\<close>.\<close>

definition load_key :: "rsa \<Rightarrow> string \<Rightarrow> int \<Rightarrow> error + string" where
  "load_key R v position = (let bad = Inl (ValueError (''Domain Connect key '' @ str_of_int position
       @ '' is not the base64 of a PKCS#8 DER private key'')) in
     case b64decode (strip v) of
       None \<Rightarrow> bad
     | Some der \<Rightarrow> (case load_der R der of
         None \<Rightarrow> bad
       | Some (is_rsa, bits) \<Rightarrow>
         if \<not> is_rsa then Inl (ValueError (''Domain Connect key '' @ str_of_int position @ '' is not an RSA key''))
         else if bits < MIN_KEY_BITS then Inl (ValueError (''Domain Connect key '' @ str_of_int position @ '' has ''
           @ str_of_int bits @ '' bits; at least 2048 are required''))
         else Inr der))"

definition key_entry :: "rsa \<Rightarrow> int \<times> string \<Rightarrow> local_key list \<Rightarrow> error + local_key list" where
  "key_entry R pe keys = (let (position, entry) = pe;
     bad = Inl (ValueError (''Domain Connect key '' @ str_of_int position @ '' must be written <key host>:<base64>'')) in
     case str_partition (CHR '':'') entry of
       None \<Rightarrow> bad
     | Some (host, encoded) \<Rightarrow>
       if \<not> KEY_HOST (strip host) then bad
       else bind_res (load_key R encoded position) (\<lambda>der. Inr (keys @ [\<lparr>lk_host = strip host, lk_der = der\<rparr>])))"

definition parse_private_keys :: "rsa \<Rightarrow> string \<Rightarrow> string option \<Rightarrow> error + local_key list" where
  "parse_private_keys R v key_host = (let
     entries = filter (\<lambda>t. t \<noteq> []) (map strip (split_on (CHR '','') v));
     given = (case key_host of None \<Rightarrow> [] | Some h \<Rightarrow> h) in
     if entries = [] then Inl (ValueError ''DOMAIN_CONNECT_PRIVATE_KEY is empty'')
     else if length entries = 1 \<and> CHR '':'' \<notin> set (hd entries) then (let
         host = (if given = [] then DEFAULT_KEY_HOST else given) in
         if \<not> KEY_HOST host then Inl (ValueError ''DOMAIN_CONNECT_KEY_HOST is not a valid TXT host label'')
         else bind_res (load_key R (hd entries) 1) (\<lambda>der. Inr [\<lparr>lk_host = host, lk_der = der\<rparr>]))
     else if given \<noteq> [] then Inl (ValueError ''With several keys (<key host>:<base64>,...), leave DOMAIN_CONNECT_KEY_HOST unset'')
     else bind_res (fold_res (key_entry R) (zip [1..int (length entries)] entries) []) (\<lambda>keys.
       if distinct (map lk_host keys) then Inr keys
       else Inl (ValueError ''Each Domain Connect key needs its own key host'')))"

text \<open>The TXT values that publish the public half, from the DER of its SubjectPublicKeyInfo.\<close>

fun chunks200 :: "nat \<Rightarrow> string \<Rightarrow> string list" where
  "chunks200 0 data = []"
| "chunks200 (Suc n) data = (if data = [] then [] else take 200 data # chunks200 n (drop 200 data))"

definition public_key_records :: "string \<Rightarrow> string list" where
  "public_key_records der = (let data = b64encode der; chunks = chunks200 (length data) data in
     map (\<lambda>(n, chunk). ''p='' @ str_of_int n @ '',a=RS256,d='' @ chunk) (zip [1..int (length chunks)] chunks))"

section \<open>Signers\<close>

text \<open>
  \<open>SigningFailed(kind, code, message, retry_after)\<close>; \<open>Unmodelled_Answer\<close> when the answer holds JSON
  outside the model (fractions, characters outside ASCII).
\<close>

datatype signing_kind = Refused | Rate_Limited | Unavailable | Unmodelled_Answer
datatype signing_failed = SigningFailed signing_kind string string "int option"

definition local_sign :: "rsa \<Rightarrow> local_key list \<Rightarrow> string \<Rightarrow> signing_failed + signature" where
  "local_sign R keys query = Inr \<lparr>sig_key = lk_host (hd keys), sig_sig = b64encode (rsa_sign R (lk_der (hd keys)) (utf8_encode query))\<rparr>"

text \<open>An answer of the signing service; its body as bytes, read as JSON.\<close>

record signer_response =
  sr_status :: int
  sr_content :: string
  sr_retry_after :: "string option"

datatype post_result = Posted signer_response | Timeout | Unreachable

definition json_field :: "json option \<Rightarrow> string \<Rightarrow> json option" where
  "json_field v k = (case v of Some (JObj d) \<Rightarrow> dict_get d k | _ \<Rightarrow> None)"

text \<open>\<open>response.json()\<close>, \<open>None\<close> where it raises \<open>ValueError\<close>.\<close>

definition response_json :: "signer_response \<Rightarrow> json option" where
  "response_json r = (case json_loads (sr_content r) of Inl _ \<Rightarrow> None | Inr v \<Rightarrow> Some v)"

definition error_code :: "signer_response \<Rightarrow> string option" where
  "error_code r = (case json_field (json_field (response_json r) ''error'') ''code'' of
     Some (JStr code) \<Rightarrow> if length code \<le> 64 then Some code else None | _ \<Rightarrow> None)"

text \<open>The header is read for ASCII digits, at most 4300 of them.\<close>

definition signer_retry_after :: "signer_response \<Rightarrow> int" where
  "signer_retry_after r = (let raw = strip (case sr_retry_after r of None \<Rightarrow> [] | Some t \<Rightarrow> t) in
     if raw \<noteq> [] \<and> list_all is_digit raw then max 1 (min (int (nat_of_digits raw)) 3600) else 60)"

definition bad_answer :: "signing_failed + signature" where
  "bad_answer = Inl (SigningFailed Unavailable ''signer_bad_answer'' ''The signing service's answer is not usable'' None)"

definition read_answer :: "signer_response \<Rightarrow> signing_failed + signature" where
  "read_answer r = (let status = sr_status r in
     if length (sr_content r) > MAX_REMOTE_ANSWER
     then Inl (SigningFailed Unavailable ''signer_bad_answer'' ''The signer's answer is too large'' None)
     else if status \<noteq> 429 \<and> json_loads (sr_content r) = Inl Json_Unmodelled
     then Inl (SigningFailed Unmodelled_Answer [] [] None)
     else if status = 200 then
       (case (json_field (response_json r) ''sig'', json_field (response_json r) ''key'') of
          (Some (JStr sg), Some (JStr key)) \<Rightarrow>
            if \<not> BASE64 sg \<or> length sg > 2048 \<or> \<not> KEY_HOST key then bad_answer
            else Inr \<lparr>sig_key = key, sig_sig = sg\<rparr>
        | _ \<Rightarrow> bad_answer)
     else let code = error_code r in
       if status = 429 then Inl (SigningFailed Rate_Limited ''rate_limited''
         ''The signing service is rate limiting this deployment'' (Some (signer_retry_after r)))
       else if status \<in> {400, 401, 403} then
         (case code of
            Some c \<Rightarrow> if c \<in> set REMOTE_REFUSALS
              then Inl (SigningFailed Refused c (''The signing service refused the request ('' @ c @ '')'') None)
              else Inl (SigningFailed Refused ''signer_refused'' ''The signing service refused the request'' None)
          | None \<Rightarrow> Inl (SigningFailed Refused ''signer_refused'' ''The signing service refused the request'' None))
       else if code = Some ''verification_unavailable''
       then Inl (SigningFailed Unavailable ''verification_unavailable''
         ''The signing service could not check the domain; try again shortly'' None)
       else Inl (SigningFailed Unavailable ''signer_error'' (''The signing service answered HTTP '' @ str_of_int status) None))"

text \<open>The request: URL, credential and body; \<open>post\<close> is the HTTP exchange, without redirects.\<close>

type_synonym signer_post = "string \<Rightarrow> string \<Rightarrow> json \<Rightarrow> post_result"

record remote_signer =
  rs_url :: string
  rs_credential :: string
  rs_provider_id :: string
  rs_service_id :: string

definition remote_sign :: "signer_post \<Rightarrow> remote_signer \<Rightarrow> string \<Rightarrow> string \<Rightarrow> string \<Rightarrow> signing_failed + signature" where
  "remote_sign post rs query application domain_id = (let body = JObj [(''provider_id'', JStr (rs_provider_id rs)),
       (''service_id'', JStr (rs_service_id rs)), (''application'', JStr application), (''domain_id'', JStr domain_id),
       (''query'', JStr query)] in
     case post (rs_url rs) (rs_credential rs) body of
       Timeout \<Rightarrow> Inl (SigningFailed Unavailable ''signer_timeout'' ''The signing service did not answer in time'' None)
     | Unreachable \<Rightarrow> Inl (SigningFailed Unavailable ''signer_unreachable'' ''The signing service could not be reached'' None)
     | Posted r \<Rightarrow> read_answer r)"

datatype signer = Local "local_key list" | Remote remote_signer

fun signer_sign :: "rsa \<Rightarrow> signer_post \<Rightarrow> signer \<Rightarrow> string \<Rightarrow> string \<Rightarrow> string \<Rightarrow> signing_failed + signature" where
  "signer_sign R post (Local keys) query application domain_id = local_sign R keys query"
| "signer_sign R post (Remote rs) query application domain_id = remote_sign post rs query application domain_id"

section \<open>Reading a link back\<close>

text \<open>\<open>bytes.decode("utf-8")\<close>; \<open>None\<close> for what is not UTF-8, or holds a character above U+00FF.\<close>

fun utf8_decode :: "string \<Rightarrow> string option" where
  "utf8_decode [] = Some []"
| "utf8_decode (c # cs) = (let n = of_char c :: int in
     if n < 128 then map_option ((#) c) (utf8_decode cs)
     else (case cs of
         [] \<Rightarrow> None
       | d # ds \<Rightarrow> let m = of_char d :: int in
         if 194 \<le> n \<and> n \<le> 195 \<and> 128 \<le> m \<and> m \<le> 191
         then map_option ((#) (char_of ((n - 192) * 64 + (m - 128)))) (utf8_decode ds) else None))"

text \<open>Code equations over integers, which evaluate faster than over natural numbers.\<close>

lemma of_char_both: obtains k where "(of_char c :: int) = int k" and "(of_char c :: nat) = k"
  using of_nat_of_char [of c, where 'a = int] by metis

lemma is_alpha_code [code]:
  "is_alpha c = (let n = of_char c :: int in 65 \<le> n \<and> n \<le> 90 \<or> 97 \<le> n \<and> n \<le> 122)"
  by (rule of_char_both [of c]) (simp only: is_alpha_def Let_def, simp)

lemma is_digit_code [code]: "is_digit c = (let n = of_char c :: int in 48 \<le> n \<and> n \<le> 57)"
  by (rule of_char_both [of c]) (simp only: is_digit_def Let_def, simp)

lemma utf8_char_code [code]:
  "utf8_char c = (let n = of_char c :: int in
     if n < 128 then [c] else [char_of (192 + n div 64), char_of (128 + n mod 64)])"
proof -
  obtain k where k: "(of_char c :: int) = int k" "(of_char c :: nat) = k" by (rule of_char_both)
  have m: "192 + int k div 64 = int (192 + k div 64)" "128 + int k mod 64 = int (128 + k mod 64)"
    by (simp_all add: zdiv_int zmod_int)
  have i: "char_of (int j) = char_of j" for j by (simp add: char_of_def bit_simps)
  show ?thesis unfolding utf8_char_def Let_def k m i by simp
qed

definition utf8_ok :: "char \<Rightarrow> bool" where
  "utf8_ok c = (case utf8_char c of
     [x] \<Rightarrow> x = c \<and> (of_char x :: int) < 128
   | [x, y] \<Rightarrow> (let n = of_char x :: int; m = of_char y :: int in 194 \<le> n \<and> n \<le> 195 \<and> 128 \<le> m \<and> m \<le> 191
       \<and> char_of ((n - 192) * 64 + (m - 128)) = c)
   | _ \<Rightarrow> False)"

lemma utf8_ok: "utf8_ok c"
  by (rule every_char [of utf8_ok]) code_simp

lemma utf8_decode_char: "utf8_decode (utf8_char c @ bs) = map_option ((#) c) (utf8_decode bs)"
proof -
  from utf8_ok [of c] consider "utf8_char c = [c]" "(of_char c :: int) < 128"
    | x y where "utf8_char c = [x, y]" "194 \<le> (of_char x :: int)" "of_char x \<le> (195 :: int)" "128 \<le> (of_char y :: int)"
      "of_char y \<le> (191 :: int)" "char_of ((of_char x - 192) * 64 + (of_char y - 128) :: int) = c"
    unfolding utf8_ok_def Let_def by (auto split: list.splits)
  then show ?thesis by cases simp_all
qed

lemma utf8_decode_encode [simp]: "utf8_decode (utf8_encode s) = Some s"
  by (induction s) (simp_all add: utf8_encode_def utf8_decode_char)

text \<open>How a receiver reads a query (RFC 3986): pairs split at \<open>&\<close> and \<open>=\<close>, then percent-decoded.\<close>

fun unquote_bytes :: "string \<Rightarrow> string" where
  "unquote_bytes [] = []"
| "unquote_bytes (c # cs) = (if c = CHR ''%'' then (case cs of
       h # l # rest \<Rightarrow> (case (json_hex h, json_hex l) of
           (Some x, Some y) \<Rightarrow> char_of (x * 16 + y) # unquote_bytes rest
         | _ \<Rightarrow> c # unquote_bytes cs)
     | _ \<Rightarrow> c # unquote_bytes cs)
   else c # unquote_bytes cs)"

definition unquote :: "string \<Rightarrow> string option" where
  "unquote s = utf8_decode (unquote_bytes s)"

definition read_query :: "string \<Rightarrow> (string option \<times> string option) list" where
  "read_query q = map (\<lambda>p. (unquote (before_sep (CHR ''='') p), unquote (after_sep (CHR ''='') p))) (split_on (CHR ''&'') q)"

definition quote_ok :: "char \<Rightarrow> bool" where
  "quote_ok c = (list_all (\<lambda>x. x = CHR ''%'' \<or> unreserved x) (quote_byte c) \<and> (case quote_byte c of
     [x] \<Rightarrow> x = c \<and> x \<noteq> CHR ''%''
   | [x, h, l] \<Rightarrow> x = CHR ''%'' \<and> (case (json_hex h, json_hex l) of (Some i, Some j) \<Rightarrow> char_of (i * 16 + j) = c | _ \<Rightarrow> False)
   | _ \<Rightarrow> False))"

lemma quote_ok: "quote_ok c"
  by (rule every_char [of quote_ok]) code_simp

lemma unquote_byte: "unquote_bytes (quote_byte c @ s) = c # unquote_bytes s"
proof -
  from quote_ok [of c] consider "quote_byte c = [c]" "c \<noteq> CHR ''%''"
    | h l i j where "quote_byte c = [CHR ''%'', h, l]" "json_hex h = Some i" "json_hex l = Some j" "char_of (i * 16 + j) = c"
    unfolding quote_ok_def by (elim conjE) (auto split: list.splits option.splits)
  then show ?thesis by cases simp_all
qed

lemma unquote_quote [simp]: "unquote (quote s) = Some s"
proof -
  have "unquote_bytes (concat (map quote_byte bs)) = bs" for bs by (induction bs) (simp_all add: unquote_byte)
  then show ?thesis by (simp add: unquote_def quote_def)
qed

lemma quote_chars: "x \<in> set (quote s) \<Longrightarrow> x = CHR ''%'' \<or> unreserved x"
  using quote_ok by (fastforce simp: quote_def quote_ok_def list_all_iff)

lemma quote_free: "x \<in> {CHR ''&'', CHR ''='', CHR ''?'', CHR ''#'', CHR ''/'', CHR 0x20} \<Longrightarrow> x \<notin> set (quote s)"
proof -
  have "list_all (\<lambda>x. \<not> (x = CHR ''%'' \<or> unreserved x)) [CHR ''&'', CHR ''='', CHR ''?'', CHR ''#'', CHR ''/'', CHR 0x20]"
    by code_simp
  then show "x \<in> {CHR ''&'', CHR ''='', CHR ''?'', CHR ''#'', CHR ''/'', CHR 0x20} \<Longrightarrow> x \<notin> set (quote s)"
    by (auto dest: quote_chars)
qed

lemma read_pair: "unquote (before_sep (CHR ''='') (quote k @ ''='' @ quote v)) = Some k"
  "unquote (after_sep (CHR ''='') (quote k @ ''='' @ quote v)) = Some v"
  using str_partition_append [of "CHR ''=''" "quote k" "quote v"] quote_free [of "CHR ''=''" k]
  by (simp_all add: before_sep_def after_sep_def)

lemma read_canonical:
  assumes "params \<noteq> []"
  shows "read_query (canonical_query params) = map (\<lambda>(k, v). (Some k, Some v)) params"
proof -
  let ?ps = "map (\<lambda>(k, v). quote k @ ''='' @ quote v) params"
  have "split_on (CHR ''&'') (canonical_query params) = ?ps"
    unfolding canonical_query_def by (rule split_on_join) (use assms quote_free in auto)
  moreover have "map (\<lambda>p. (unquote (before_sep (CHR ''='') p), unquote (after_sep (CHR ''='') p))) ?ps
      = map (\<lambda>(k, v). (Some k, Some v)) params"
    using read_pair by (simp add: split_beta)
  ultimately show ?thesis by (simp add: read_query_def)
qed

lemma canonical_query_append:
  assumes "ps \<noteq> []" and "qs \<noteq> []"
  shows "canonical_query ps @ ''&'' @ canonical_query qs = canonical_query (ps @ qs)"
proof -
  have "join ''&'' xs @ ''&'' @ join ''&'' ys = join ''&'' (xs @ ys)" if "xs \<noteq> []" "ys \<noteq> []" for xs ys
    using that by (induction "''&''" xs rule: join.induct) (auto simp: neq_Nil_conv)
  from this [of "map (\<lambda>(k, v). quote k @ ''='' @ quote v) ps" "map (\<lambda>(k, v). quote k @ ''='' @ quote v) qs"] assms
  show ?thesis by (simp add: canonical_query_def)
qed

lemma quote_words: "quote ''key'' = ''key''" "quote ''sig'' = ''sig''"
  by code_simp+

lemma after_apply_url:
  assumes "CHR ''?'' \<notin> set url_sync_ux"
  shows "after_sep (CHR ''?'') (apply_url url_sync_ux provider_id service_id query sg)
    = query @ ''&'' @ canonical_query [(''key'', sig_key sg), (''sig'', sig_sig sg)]"
proof -
  let ?pre = "rstrip (\<lambda>c. c = CHR 0x2F) url_sync_ux @ ''/v2/domainTemplates/providers/'' @ quote provider_id
     @ ''/services/'' @ quote service_id @ ''/apply''"
  have "set (rstrip p u) \<subseteq> set u" for p u
    unfolding rstrip_def using set_dropWhileD [of _ p "rev u"] by auto
  then have pre: "CHR ''?'' \<notin> set ?pre" using assms quote_free [of "CHR ''?''"] by auto
  have "apply_url url_sync_ux provider_id service_id query sg
      = ?pre @ CHR ''?'' # query @ ''&'' @ canonical_query [(''key'', sig_key sg), (''sig'', sig_sig sg)]"
    by (simp add: apply_url_def canonical_query_def quote_words)
  then show ?thesis using str_partition_append [OF pre] by (simp add: after_sep_def)
qed

lemma read_apply_url:
  assumes "CHR ''?'' \<notin> set url_sync_ux" and "params \<noteq> []"
  shows "read_query (after_sep (CHR ''?'') (apply_url url_sync_ux provider_id service_id (canonical_query params) sg))
    = map (\<lambda>(k, v). (Some k, Some v)) (params @ [(''key'', sig_key sg), (''sig'', sig_sig sg)])"
  unfolding after_apply_url [OF assms(1)] canonical_query_append [OF assms(2) list.distinct(2)]
  by (rule read_canonical) simp

text \<open>
  C24: an apply URL carries what was signed and nothing else. Between \<open>?\<close> and \<open>&key=\<close> stands exactly
  the query that was signed; a receiver that splits and percent-decodes the URL's query reads
  back every parameter, whatever characters it holds, then the key host and the signature; the query
  has one spelling only, so distinct parameter lists never sign alike; and nothing in a
  parameter can start a fragment or another parameter.
\<close>

theorem apply_url_reads_back:
  assumes "CHR ''?'' \<notin> set url_sync_ux" and "params \<noteq> []"
  shows "after_sep (CHR ''?'') (apply_url url_sync_ux provider_id service_id (canonical_query params) sg)
      = canonical_query params @ ''&key='' @ quote (sig_key sg) @ ''&sig='' @ quote (sig_sig sg)
    \<and> read_query (after_sep (CHR ''?'') (apply_url url_sync_ux provider_id service_id (canonical_query params) sg))
      = map (\<lambda>(k, v). (Some k, Some v)) params @ [(Some ''key'', Some (sig_key sg)), (Some ''sig'', Some (sig_sig sg))]
    \<and> (\<forall>others. others \<noteq> [] \<longrightarrow> canonical_query others = canonical_query params \<longleftrightarrow> others = params)
    \<and> (\<forall>c\<in>set (canonical_query params). c = CHR ''%'' \<or> c = CHR ''='' \<or> c = CHR ''&'' \<or> unreserved c)"
proof (intro conjI)
  let ?q = "canonical_query params"
  show "after_sep (CHR ''?'') (apply_url url_sync_ux provider_id service_id ?q sg)
      = ?q @ ''&key='' @ quote (sig_key sg) @ ''&sig='' @ quote (sig_sig sg)"
    unfolding after_apply_url [OF assms(1)] by (simp add: canonical_query_def quote_words)
  show "read_query (after_sep (CHR ''?'') (apply_url url_sync_ux provider_id service_id ?q sg))
      = map (\<lambda>(k, v). (Some k, Some v)) params @ [(Some ''key'', Some (sig_key sg)), (Some ''sig'', Some (sig_sig sg))]"
    using read_apply_url [OF assms] by simp
  have "others = params" if "others \<noteq> []" "canonical_query others = ?q" for others
  proof -
    have inj: "inj (\<lambda>(k, v). (Some k, Some v))" by (auto simp: inj_def)
    from that(2) have "read_query (canonical_query others) = read_query ?q" by simp
    then show ?thesis unfolding read_canonical [OF that(1)] read_canonical [OF assms(2)] by (simp only: map_injective inj_eq [OF inj_mapI [OF inj]])
  qed
  then show "\<forall>others. others \<noteq> [] \<longrightarrow> canonical_query others = ?q \<longleftrightarrow> others = params" by blast
  have "c \<in> set (join ''&'' ws) \<Longrightarrow> c = CHR ''&'' \<or> (\<exists>w\<in>set ws. c \<in> set w)" for c ws
    by (induction "''&''" ws rule: join.induct) auto
  then show "\<forall>c\<in>set ?q. c = CHR ''%'' \<or> c = CHR ''='' \<or> c = CHR ''&'' \<or> unreserved c"
    unfolding canonical_query_def by (fastforce dest: quote_chars)
qed

theorem apply_url_reads_back_witness:
  "read_query (after_sep (CHR ''?'') (apply_url ''https://dcc.example/manage/'' ''example.net'' ''host&name''
     (canonical_query [(''host'', ''shop''), (''token'', ''a=b&c d'')]) \<lparr>sig_key = ''_dck1'', sig_sig = ''AB+/==''\<rparr>))
   = [(Some ''host'', Some ''shop''), (Some ''token'', Some ''a=b&c d''), (Some ''key'', Some ''_dck1''), (Some ''sig'', Some ''AB+/=='')]"
proof -
  have "CHR ''?'' \<notin> set ''https://dcc.example/manage/''" and "[(''host'', ''shop''), (''token'', ''a=b&c d'')] \<noteq> []" by simp_all
  from conjunct1 [OF conjunct2 [OF apply_url_reads_back [OF this]]]
  show ?thesis by simp
qed

text \<open>A signature the remote signer answers is a short base64 text with a usable key host.\<close>

lemma read_answer_ok:
  assumes "read_answer r = Inr sg"
  shows "sr_status r = 200 \<and> BASE64 (sig_sig sg) \<and> length (sig_sig sg) \<le> 2048 \<and> KEY_HOST (sig_key sg)"
  using assms by (auto simp: read_answer_def bad_answer_def Let_def split: if_splits option.splits json.splits)

lemma b64decode_b64encode [simp]: "b64decode (b64encode bs) = Some bs"
proof -
  let ?t = "b64 bs"
  let ?pad = "replicate ((4 - length ?t mod 4) mod 4) (CHR ''='')"
  have ok: "list_all (\<lambda>n. alnum (to_std (b64_char n)) \<or> to_std (b64_char n) = CHR ''+'' \<or> to_std (b64_char n) = CHR 0x2F) [0..63]"
    by code_simp
  have chars: "alnum (to_std c) \<or> to_std c = CHR ''+'' \<or> to_std c = CHR 0x2F" if "c \<in> set ?t" for c
  proof -
    from b64_chars [OF that] obtain n where "0 \<le> n" "n < 64" "c = b64_char n" by blast
    with ok show ?thesis by (auto simp: list_all_iff)
  qed
  have neq: "to_std c \<noteq> CHR ''=''" if "c \<in> set ?t" for c
    using chars [OF that] by (auto simp: alnum_def is_alpha_def is_digit_def Let_def)
  have body: "rstrip (\<lambda>c. c = CHR ''='') (map to_std ?t @ ?pad) = map to_std ?t"
  proof -
    have "dropWhile (\<lambda>c. c = CHR ''='') (rev (map to_std ?t)) = rev (map to_std ?t)"
      using neq by (intro dropWhile_eq_self_iff [THEN iffD2]) (metis hd_in_set set_rev imageE set_map)
    then show ?thesis by (simp add: rstrip_def rev_map dropWhile_append)
  qed
  have "a2b 0 0 0 (map to_std ?t @ ?pad) = a2b 0 0 0 (?t @ ?pad)"
  proof -
    have val: "b64_val (to_std c) = b64_val c" "to_std c = CHR ''='' \<longleftrightarrow> c = CHR ''=''" for c
      by (auto simp: to_std_def b64_val_def)
    have "a2b q l p (map to_std s @ u) = a2b q l p (s @ u)" for q l p s u
      by (induction s arbitrary: q l p) (auto simp: val split: option.splits)
    then show ?thesis .
  qed
  also have "\<dots> = Some bs" by (rule a2b_b64)
  finally have d: "a2b 0 0 0 (map to_std ?t @ ?pad) = Some bs" .
  show ?thesis
  proof (cases "bs = []")
    case False
    then have "?t \<noteq> []" by (cases bs rule: b64.cases) (auto simp: Let_def)
    moreover have "length ?t mod 4 = 0 \<or> length ?t mod 4 + (4 - length ?t mod 4) mod 4 = 4" by (cases "length ?t mod 4 = 0") simp_all
    ultimately show ?thesis unfolding b64decode_def b64encode_def Let_def body
      using d chars by (auto simp: list_all_iff)
  next
    case True
    show ?thesis unfolding True by code_simp
  qed
qed

end
