(* ===== verification/Secret_Box.thy ===== *)
theory Secret_Box
  imports Dc_Signing Assertion
begin

text \<open>
  Keys derived from the service secret: src/app/services/secret_box.py. HKDF and AES-GCM are the
  \<open>cryptography\<close> package and parameters; sealed values (HMAC over JSON) are modelled to the bytes.
\<close>

section \<open>Operations\<close>

text \<open>
  \<open>SERVICE_SECRET_KEY\<close> as the environment holds it, the key derivation (key material and label),
  and authenticated encryption: key, nonce, text, associated data; opening an altered text fails.
\<close>

record vault =
  v_secret :: string
  hkdf :: "string \<Rightarrow> string \<Rightarrow> string"
  aes_seal :: "string \<Rightarrow> string \<Rightarrow> string \<Rightarrow> string \<Rightarrow> string"
  aes_open :: "string \<Rightarrow> string \<Rightarrow> string \<Rightarrow> string \<Rightarrow> string option"

definition MIN_LENGTH :: nat where "MIN_LENGTH = 32"

definition vault_secret :: "vault \<Rightarrow> error + string" where
  "vault_secret V = (let v = strip (v_secret V) in
     if length v < MIN_LENGTH
     then Inl (SecretKeyMissing ''SERVICE_SECRET_KEY must be set to a random value of at least 32 characters (the installer adds one); it protects secrets stored in the database'')
     else Inr (utf8_encode v))"

definition available :: "vault \<Rightarrow> bool" where
  "available V = (case vault_secret V of Inl _ \<Rightarrow> False | Inr _ \<Rightarrow> True)"

definition derive_key :: "vault \<Rightarrow> string \<Rightarrow> error + string" where
  "derive_key V label = bind_res (vault_secret V) (\<lambda>secret. Inr (hkdf V secret (utf8_encode (''custom-domain/'' @ label))))"

definition encrypt :: "vault \<Rightarrow> string \<Rightarrow> string \<Rightarrow> string \<Rightarrow> error + string" where
  "encrypt V nonce plaintext purpose = bind_res (derive_key V (''encrypt/'' @ purpose)) (\<lambda>key.
     Inr (''v1:'' @ b64encode (nonce @ aes_seal V key nonce (utf8_encode plaintext) (utf8_encode purpose))))"

text \<open>\<open>None\<close> is \<open>Undecryptable\<close>; a text that is not UTF-8 after decryption raises.\<close>

definition decrypt :: "vault \<Rightarrow> string \<Rightarrow> string \<Rightarrow> error + string option" where
  "decrypt V ciphertext purpose =
     (if \<not> starts_with ''v1:'' ciphertext then Inr None
      else case (if ascii ciphertext then b64decode (drop 3 ciphertext) else None) of
        None \<Rightarrow> Inr None
      | Some raw \<Rightarrow> bind_res (derive_key V (''encrypt/'' @ purpose)) (\<lambda>key.
          case aes_open V key (take 12 raw) (drop 12 raw) (utf8_encode purpose) of
            None \<Rightarrow> Inr None
          | Some plain \<Rightarrow> (case utf8_decode plain of
              None \<Rightarrow> Inl (ValueError ''invalid utf-8'') | Some t \<Rightarrow> Inr (Some t))))"

text \<open>\<open>json.dumps(value, separators=(",", ":"), ensure_ascii=False)\<close>: keys in their order.\<close>

definition raw_escape :: "char \<Rightarrow> string" where
  "raw_escape c = (let n = of_char c :: int in
     if c = CHR 0x22 then [CHR 0x5C, CHR 0x22]
     else if c = CHR 0x5C then [CHR 0x5C, CHR 0x5C]
     else if n = 8 then [CHR 0x5C, CHR ''b'']
     else if n = 9 then [CHR 0x5C, CHR ''t'']
     else if n = 10 then [CHR 0x5C, CHR ''n'']
     else if n = 12 then [CHR 0x5C, CHR ''f'']
     else if n = 13 then [CHR 0x5C, CHR ''r'']
     else if n < 32 then [CHR 0x5C, CHR ''u'', CHR ''0'', CHR ''0'', hex_char (n div 16), hex_char (n mod 16)]
     else [c])"

definition raw_str :: "string \<Rightarrow> string" where
  "raw_str s = CHR 0x22 # concat (map raw_escape s) @ [CHR 0x22]"

primrec json_raw :: "(instant \<Rightarrow> string) \<Rightarrow> json \<Rightarrow> string" where
  "json_raw fmt JNull = ''null''"
| "json_raw fmt (JBool b) = (if b then ''true'' else ''false'')"
| "json_raw fmt (JInt i) = str_of_int i"
| "json_raw fmt (JStr s) = raw_str s"
| "json_raw fmt (JTime t) = raw_str (fmt t)"
| "json_raw fmt (JList xs) = ''['' @ join '','' (map (json_raw fmt) xs) @ '']''"
| "json_raw fmt (JObj kvs) = CHR 0x7B # join '',''
     (map (\<lambda>(k, v). raw_str k @ '':'' @ v) (map (map_prod id (json_raw fmt)) kvs)) @ [CHR 0x7D]"

definition seal :: "vault \<Rightarrow> dict \<Rightarrow> string \<Rightarrow> error + string" where
  "seal V payload purpose = (let body = b64 (utf8_encode (json_raw (\<lambda>_. []) (JObj payload))) in
     bind_res (derive_key V (''seal/'' @ purpose)) (\<lambda>key. Inr (body @ ''.'' @ b64 (hmac_sha256 key body))))"

text \<open>What was read, a value that is refused, or one whose signed JSON is outside the model.\<close>

datatype 'a reading = Read 'a | Refuse | Outside

definition unseal :: "vault \<Rightarrow> string \<Rightarrow> string \<Rightarrow> error + dict reading" where
  "unseal V v purpose = (case str_partition (CHR ''.'') v of
     None \<Rightarrow> Inr Refuse
   | Some (body, mac) \<Rightarrow>
     if length v > 4096 then Inr Refuse
     else bind_res (derive_key V (''seal/'' @ purpose)) (\<lambda>key.
       if \<not> ascii body then Inr Refuse
       else case unb64 mac of
         None \<Rightarrow> Inr Refuse
       | Some m \<Rightarrow>
         if m \<noteq> hmac_sha256 key body then Inr Refuse
         else (case unb64 body of
             None \<Rightarrow> Inr Refuse
           | Some bytes \<Rightarrow> (case json_loads bytes of
               Inl Json_Unmodelled \<Rightarrow> Inr Outside
             | Inl _ \<Rightarrow> Inr Refuse
             | Inr (JObj d) \<Rightarrow> Inr (Read d)
             | Inr _ \<Rightarrow> Inr Refuse))))"

section \<open>Round trips\<close>

lemma encryptE:
  assumes "encrypt V nonce plaintext purpose = Inr c"
  obtains key where "derive_key V (''encrypt/'' @ purpose) = Inr key"
    and "c = ''v1:'' @ b64encode (nonce @ aes_seal V key nonce (utf8_encode plaintext) (utf8_encode purpose))"
  using assms by (auto simp: encrypt_def elim: bind_res_InrE)

lemma decrypt_encrypt:
  assumes "encrypt V nonce plaintext purpose = Inr c" and "length nonce = 12"
    and "\<And>key n t a. aes_open V key n (aes_seal V key n t a) a = Some t"
  shows "decrypt V c purpose = Inr (Some plaintext)"
proof -
  from assms(1) obtain key where key: "derive_key V (''encrypt/'' @ purpose) = Inr key"
    and c: "c = ''v1:'' @ b64encode (nonce @ aes_seal V key nonce (utf8_encode plaintext) (utf8_encode purpose))"
    by (rule encryptE)
  have "ascii (b64encode bs)" for bs
  proof -
    have "(of_char (to_std x) :: nat) < 128" if "(of_char x :: nat) < 128" for x using that by (auto simp: to_std_def)
    with ascii_b64 [of bs] show ?thesis by (auto simp: b64encode_def Let_def ascii_def list_all_iff)
  qed
  then have "ascii c" by (auto simp: c ascii_def list_all_iff)
  with key assms(2,3) show ?thesis by (simp add: decrypt_def c starts_with_def)
qed

text \<open>Printable ASCII is written alike with and without \<open>ensure_ascii\<close>.\<close>

definition printable :: "string \<Rightarrow> bool" where
  "printable = list_all (\<lambda>c. 32 \<le> (of_char c :: int) \<and> (of_char c :: int) < 127)"

fun printable_value :: "json \<Rightarrow> bool" where
  "printable_value (JStr t) = printable t"
| "printable_value (JInt i) = (\<bar>i\<bar> < 10 ^ 40)"
| "printable_value JNull = True"
| "printable_value _ = False"

lemma raw_str_printable: "printable t \<Longrightarrow> raw_str t = json_str t"
proof -
  have "raw_escape c = json_escape c" if "32 \<le> (of_char c :: int)" "(of_char c :: int) < 127" for c
    using that unfolding raw_escape_def json_escape_def Let_def by auto
  then show "printable t \<Longrightarrow> raw_str t = json_str t"
    unfolding raw_str_def json_str_def printable_def list_all_iff by (metis (no_types, lifting) map_cong)
qed

lemma json_raw_flat:
  assumes "\<forall>(k, v)\<in>set d. printable k \<and> printable_value v"
  shows "json_raw fmt (JObj d) = CHR 0x7B # members_text fmt d @ [CHR 0x7D]" and "\<forall>(k, v)\<in>set d. flat_value v"
proof -
  have v: "json_raw fmt v = json_dumps fmt v \<and> flat_value v" if "printable_value v" for v
    using that raw_str_printable by (cases v) auto
  have "map (\<lambda>(k, v). raw_str k @ '':'' @ v) (map (map_prod id (json_raw fmt)) d)
      = map (\<lambda>(k, v). json_str k @ '':'' @ json_dumps fmt v) d"
    using assms v raw_str_printable by (auto simp: split_beta)
  then show "json_raw fmt (JObj d) = CHR 0x7B # members_text fmt d @ [CHR 0x7D]"
    unfolding json_raw.simps members_text_def by (simp only:)
  show "\<forall>(k, v)\<in>set d. flat_value v" using assms v by auto
qed

lemma sealE:
  assumes "seal V d purpose = Inr v"
  obtains key body where "derive_key V (''seal/'' @ purpose) = Inr key"
    and "body = b64 (utf8_encode (json_raw (\<lambda>_. []) (JObj d)))" and "v = body @ CHR ''.'' # b64 (hmac_sha256 key body)"
  using assms unfolding seal_def Let_def by (elim bind_res_InrE) (simp del: json_raw.simps)

lemma unseal_seal:
  assumes "seal V d purpose = Inr v" and "\<forall>(k, x)\<in>set d. printable k \<and> printable_value x" and "d \<noteq> []"
    and "distinct (map fst d)" and "length v \<le> 4096"
  shows "unseal V v purpose = Inr (Read d)"
proof -
  let ?text = "CHR 0x7B # members_text (\<lambda>_. []) d @ [CHR 0x7D]"
  note flat = json_raw_flat [OF assms(2)]
  have "\<forall>c\<in>set ?text. (of_char c :: nat) < 128" using ascii_members [OF flat(2), of "\<lambda>_. []"] by simp
  then have utf8: "utf8_encode ?text = ?text" by (rule utf8_ascii)
  from assms(1) obtain key body where key: "derive_key V (''seal/'' @ purpose) = Inr key"
    and body: "body = b64 ?text" and v: "v = body @ CHR ''.'' # b64 (hmac_sha256 key body)"
    by (rule sealE) (simp only: flat(1) utf8)
  have "str_partition (CHR ''.'') v = Some (body, b64 (hmac_sha256 key body))"
    unfolding v body by (rule str_partition_append [OF b64_free])
  with key assms(5) json_loads_flat [OF assms(3) flat(2) assms(4)] show ?thesis
    by (simp add: unseal_def body)
qed

text \<open>Only a value that carries the HMAC of its own body under the derived key is read.\<close>

lemma unseal_genuine:
  assumes "unseal V v purpose = Inr (Read d)"
  shows "\<exists>body mac key. v = body @ ''.'' @ mac \<and> derive_key V (''seal/'' @ purpose) = Inr key
    \<and> unb64 mac = Some (hmac_sha256 key body)"
proof -
  from assms obtain body mac where p: "str_partition (CHR ''.'') v = Some (body, mac)"
    by (cases "str_partition (CHR ''.'') v") (auto simp: unseal_def)
  moreover from assms p obtain key where key: "derive_key V (''seal/'' @ purpose) = Inr key"
    by (auto simp: unseal_def split: if_splits elim: bind_res_InrE)
  moreover from assms p key have "unb64 mac = Some (hmac_sha256 key body)"
    by (auto simp: unseal_def split: if_splits option.splits)
  ultimately show ?thesis by (auto simp: str_partition_eq_Some)
qed

lemma length_b64: "3 * length (b64 bs) \<le> 4 * length bs + 4"
proof (induction bs rule: b64.induct)
  case (4 a b c rest)
  then have "3 * length (b64 rest) \<le> 4 * length rest + 4" by blast
  then show ?case by (simp add: Let_def)
qed (simp_all add: Let_def)

end
