(* ===== verification/Domain_Connect.thy ===== *)
theory Domain_Connect
  imports Secret_Box
begin

text \<open>
  One-step DNS setup: src/app/services/domain_connect.py with the endpoint of src/app/v1/router.py
  that issues apply URLs and src/app/v1/domain_connect_return.py, where providers send the
  customer back. The row the operator stores is a state of its own; everything else is in \<open>db\<close>.
\<close>

section \<open>The signer in effect\<close>

record signer_settings =
  sg_signer :: "string option"
  sg_private_key :: "string option"
  sg_key_host :: "string option"
  sg_url :: "string option"
  sg_credential :: "string option"
  sg_return_url :: "string option"

abbreviation given :: "string option \<Rightarrow> bool" where
  "given v \<equiv> (case v of Some (c # cs) \<Rightarrow> True | _ \<Rightarrow> False)"

abbreviation or_empty :: "string option \<Rightarrow> string" where
  "or_empty v \<equiv> (case v of None \<Rightarrow> [] | Some t \<Rightarrow> t)"

definition settings_enabled :: "signer_settings \<Rightarrow> bool" where
  "settings_enabled st =
     (if sg_signer st = Some ''local'' then given (sg_private_key st)
      else if sg_signer st = Some ''remote'' then given (sg_url st) \<and> given (sg_credential st) else False)"

record domain_connect_signer =
  dcs_signer :: string
  dcs_url :: string
  dcs_ciphertext :: string
  dcs_prefix :: string
  dcs_provider_id :: string
  dcs_service_id :: string
  dcs_updated_at :: instant

record signer_config =
  sc_signer :: "string option"
  sc_source :: string
  sc_provider_id :: string
  sc_service_id :: string
  sc_url :: "string option"
  sc_prefix :: "string option"
  sc_updated_at :: "instant option"
  sc_settings :: signer_settings
  sc_ciphertext :: "string option"

definition config_enabled :: "signer_config \<Rightarrow> bool" where
  "config_enabled c = (if sc_provider_id c = [] then False
     else if sc_source c = ''operator'' then given (sc_ciphertext c)
     else settings_enabled (sc_settings c))"

text \<open>Reads the row afresh; within one session the code keeps what it read first.\<close>

definition signer_config_of :: "setup_settings \<Rightarrow> signer_settings \<Rightarrow> domain_connect_signer option \<Rightarrow> signer_config" where
  "signer_config_of base st row = (case row of
     Some r \<Rightarrow> \<lparr>sc_signer = Some (dcs_signer r), sc_source = ''operator'', sc_provider_id = dcs_provider_id r,
       sc_service_id = dcs_service_id r, sc_url = Some (dcs_url r), sc_prefix = Some (dcs_prefix r),
       sc_updated_at = Some (dcs_updated_at r), sc_settings = \<lparr>sg_signer = None, sg_private_key = None, sg_key_host = None,
         sg_url = None, sg_credential = None, sg_return_url = None\<rparr>, sc_ciphertext = Some (dcs_ciphertext r)\<rparr>
   | None \<Rightarrow> \<lparr>sc_signer = sg_signer st, sc_source = ''settings'', sc_provider_id = template_provider_id base,
       sc_service_id = template_service_id base, sc_url = None, sc_prefix = None, sc_updated_at = None,
       sc_settings = st, sc_ciphertext = None\<rparr>)"

definition effective_setup_settings :: "setup_settings \<Rightarrow> signer_settings \<Rightarrow> domain_connect_signer option \<Rightarrow> setup_settings" where
  "effective_setup_settings base st row = (let c = signer_config_of base st row in
     if sc_source c \<noteq> ''operator'' then base
     else base\<lparr>template_provider_id := sc_provider_id c, template_service_id := sc_service_id c,
       signing_enabled := config_enabled c\<rparr>)"

definition CREDENTIAL_PURPOSE :: string where "CREDENTIAL_PURPOSE = ''domain-connect-credential''"
definition STATE_PURPOSE :: string where "STATE_PURPOSE = ''domain-connect-state''"
definition RETURN_PATH :: string where "RETURN_PATH = ''/v1/domain-connect/return''"

record signer_view =
  sv_signer :: "string option"
  sv_url :: "string option"
  sv_prefix :: "string option"
  sv_provider_id :: "string option"
  sv_service_id :: "string option"
  sv_updated_at :: "instant option"
  sv_source :: string
  sv_enabled :: bool
  sv_problem :: "string option"

text \<open>\<open>SecretKeyMissing\<close> and \<open>Undecryptable\<close> are caught alike.\<close>

definition readable :: "vault \<Rightarrow> string \<Rightarrow> error + bool" where
  "readable V c = (case decrypt V c CREDENTIAL_PURPOSE of
     Inl (SecretKeyMissing _) \<Rightarrow> Inr False | Inl e \<Rightarrow> Inl e | Inr None \<Rightarrow> Inr False | Inr (Some _) \<Rightarrow> Inr True)"

definition view_signer :: "vault \<Rightarrow> setup_settings \<Rightarrow> signer_settings \<Rightarrow> domain_connect_signer option \<Rightarrow> error + signer_view" where
  "view_signer V base st row = (let c = signer_config_of base st row in
     if sc_source c \<noteq> ''operator''
     then Inr \<lparr>sv_signer = sc_signer c, sv_url = None, sv_prefix = None, sv_provider_id = None, sv_service_id = None,
       sv_updated_at = None, sv_source = ''settings'', sv_enabled = config_enabled c, sv_problem = None\<rparr>
     else bind_res (readable V (or_empty (sc_ciphertext c))) (\<lambda>ok.
       Inr \<lparr>sv_signer = sc_signer c, sv_url = sc_url c, sv_prefix = (if ok then sc_prefix c else None),
         sv_provider_id = Some (sc_provider_id c), sv_service_id = Some (sc_service_id c), sv_updated_at = sc_updated_at c,
         sv_source = ''operator'', sv_enabled = (config_enabled c \<and> ok),
         sv_problem = (if ok then None
           else Some ''The stored credential cannot be decrypted with SERVICE_SECRET_KEY; set it again'')\<rparr>))"

definition invalid_signer :: "string \<Rightarrow> string \<Rightarrow> error" where
  "invalid_signer field message = InvalidSignerConfig message [(''field'', JStr field)]"

definition set_remote_signer ::
    "vault \<Rightarrow> string \<Rightarrow> string \<Rightarrow> string \<Rightarrow> string \<Rightarrow> string \<Rightarrow> instant \<Rightarrow> domain_connect_signer option
      \<Rightarrow> error + domain_connect_signer" where
  "set_remote_signer V nonce url0 credential provider_id service_id now row = (let url = strip url0;
     problem = (if url = [] then Some ''is required'' else https_url_problem url) in
     if is_set problem \<or> length url > 512
     then Inl (invalid_signer ''url'' (''url '' @ (case problem of Some p \<Rightarrow> p | None \<Rightarrow> ''is too long'')))
     else if \<not> CREDENTIAL credential
     then Inl (invalid_signer ''credential'' ''credential must be dcs_ followed by 43 letters, digits, - or _'')
     else if \<not> IDENTIFIER provider_id
     then Inl (invalid_signer ''provider_id'' ''provider_id must be 1 to 64 letters, digits, dots, hyphens or underscores'')
     else if \<not> IDENTIFIER service_id
     then Inl (invalid_signer ''service_id'' ''service_id must be 1 to 64 letters, digits, dots, hyphens or underscores'')
     else bind_res (encrypt V nonce credential CREDENTIAL_PURPOSE) (\<lambda>ciphertext.
       Inr \<lparr>dcs_signer = ''remote'', dcs_url = url, dcs_ciphertext = ciphertext,
         dcs_prefix = take CREDENTIAL_PREFIX_LENGTH credential, dcs_provider_id = provider_id,
         dcs_service_id = service_id, dcs_updated_at = now\<rparr>))"

definition reset_signer :: "domain_connect_signer option \<Rightarrow> bool \<times> domain_connect_signer option" where
  "reset_signer row = (is_set row, None)"

definition make_signer :: "vault \<Rightarrow> rsa \<Rightarrow> signer_config \<Rightarrow> error + signer" where
  "make_signer V R c =
     (if sc_source c = ''operator'' then
        (case decrypt V (or_empty (sc_ciphertext c)) CREDENTIAL_PURPOSE of
           Inr (Some credential) \<Rightarrow> Inr (Remote \<lparr>rs_url = or_empty (sc_url c), rs_credential = credential,
             rs_provider_id = sc_provider_id c, rs_service_id = sc_service_id c\<rparr>)
         | Inr None \<Rightarrow> Inl (DomainConnectSignerUnavailable
             ''The Domain Connect signer is misconfigured; the operator must set it again'' [])
         | Inl (SecretKeyMissing _) \<Rightarrow> Inl (DomainConnectSignerUnavailable
             ''The Domain Connect signer is misconfigured; the operator must set it again'' [])
         | Inl e \<Rightarrow> Inl e)
      else let st = sc_settings c in
        if sg_signer st = Some ''remote'' then Inr (Remote \<lparr>rs_url = or_empty (sg_url st),
          rs_credential = or_empty (sg_credential st), rs_provider_id = sc_provider_id c, rs_service_id = sc_service_id c\<rparr>)
        else if sg_signer st = Some ''local'' \<and> given (sg_private_key st) then
          (case parse_private_keys R (or_empty (sg_private_key st)) (sg_key_host st) of
             Inl _ \<Rightarrow> Inl (DomainConnectSignerUnavailable ''The Domain Connect signer is misconfigured'' [])
           | Inr keys \<Rightarrow> Inr (Local keys))
        else Inl (DomainConnectUnavailable ''Domain Connect is not configured on this deployment'' []))"

section \<open>Apply URLs\<close>

definition DC_MAX_STATE :: nat where "DC_MAX_STATE = 512"

definition state_problem :: "string \<Rightarrow> string option" where
  "state_problem v =
     (if length (utf8_encode v) > DC_MAX_STATE then Some ''must be at most 512 bytes''
      else if list_ex (\<lambda>c. let n = of_char c :: int in n < 32 \<or> n = 127) v then Some ''must not contain control characters''
      else None)"

definition CONNECTABLE :: "domain_status list" where
  "CONNECTABLE = [PENDING_DNS, PROVISIONING, READY, ATTENTION_REQUIRED]"

definition URL_TTL :: duration where "URL_TTL = hours 1"
definition CONNECT_WINDOW :: duration where "CONNECT_WINDOW = hours 1"
definition CONNECT_DOMAIN_MAX :: nat where "CONNECT_DOMAIN_MAX = 10"
definition CONNECT_APPLICATION_MAX :: nat where "CONNECT_APPLICATION_MAX = 120"

record connect_plan =
  pl_domain_id :: uuid
  pl_application_id :: uuid
  pl_application_slug :: string
  pl_claim_token :: string
  pl_zone :: string
  pl_host :: string
  pl_target :: string
  pl_url_sync_ux :: string
  pl_provider_id :: "string option"
  pl_provider_name :: "string option"
  pl_config :: signer_config
  pl_query :: string
  pl_expires_at :: instant

record connect_url =
  cu_url :: string
  cu_provider_id :: "string option"
  cu_provider_name :: "string option"
  cu_expires_at :: instant

definition links_issued :: "(domain_event \<Rightarrow> bool) \<Rightarrow> instant \<Rightarrow> db \<Rightarrow> domain_event list" where
  "links_issued cond now s = filter (\<lambda>e. e_event_type e = CONNECT_URL_ISSUED \<and> cond e
     \<and> e_created_at e > now - CONNECT_WINDOW) (events s)"

definition link_limit :: "string \<Rightarrow> (domain_event \<Rightarrow> bool) \<Rightarrow> nat \<Rightarrow> instant \<Rightarrow> db \<Rightarrow> error + unit" where
  "link_limit scope cond limit now s = (let es = links_issued cond now s in
     if length es \<ge> limit
     then Inl (rate_limited (''At most '' @ str_of_int (int limit) @ '' Domain Connect links per '' @ scope @ '' per hour'')
       (window_wait es CONNECT_WINDOW now))
     else Inr ())"

definition enforce_link_limits :: "db \<Rightarrow> domain \<Rightarrow> instant \<Rightarrow> error + unit" where
  "enforce_link_limits s d now = bind_res
     (link_limit ''domain'' (\<lambda>e. e_domain_id e = d_id d) CONNECT_DOMAIN_MAX now s)
     (\<lambda>_. link_limit ''application'' (\<lambda>e. e_application_id e = d_application_id d) CONNECT_APPLICATION_MAX now s)"

text \<open>The settings the operator's row and the environment give together.\<close>

record signer_env =
  se_settings :: signer_settings
  se_row :: "domain_connect_signer option"

definition with_signer :: "config \<Rightarrow> signer_env \<Rightarrow> config" where
  "with_signer C E = C\<lparr>cfg_setup := effective_setup_settings (cfg_setup C) (se_settings E) (se_row E)\<rparr>"

definition zone_sync_ux :: "db \<Rightarrow> domain \<Rightarrow> string option" where
  "zone_sync_ux s d = (case d_zone d of
     Some (c # cs) \<Rightarrow> (case zone_row s (c # cs) of
       None \<Rightarrow> None
     | Some z \<Rightarrow> (case z_domain_connect z of None \<Rightarrow> None | Some dc \<Rightarrow> dict_name dc ''url_sync_ux''))
   | _ \<Rightarrow> None)"

text \<open>The return address and the sealed state, or what goes to the provider as it is.\<close>

definition return_params ::
    "vault \<Rightarrow> string \<Rightarrow> uuid \<Rightarrow> string option \<Rightarrow> string option \<Rightarrow> string option \<Rightarrow> bool \<Rightarrow> instant
      \<Rightarrow> error + (string \<times> string) list" where
  "return_params V nonce i redirect_uri state return_url private_redirect expires_at =
     (if given return_url \<and> available V then
        bind_res (if private_redirect \<and> is_set redirect_uri
            then bind_res (encrypt V nonce (or_empty redirect_uri) STATE_PURPOSE) (\<lambda>x. Inr (''x'', JStr x))
            else Inr (''r'', jopt JStr redirect_uri)) (\<lambda>field.
        bind_res (seal V [(''d'', JStr (uuid_str i)), (''e'', JInt (expires_at div 1000000)), (''s'', jopt JStr state), field] STATE_PURPOSE)
          (\<lambda>sealed. Inr [(''redirect_uri'', or_empty return_url), (''state'', sealed)]))
      else Inr ((case redirect_uri of Some u \<Rightarrow> if private_redirect then [] else [(''redirect_uri'', u)] | None \<Rightarrow> [])
        @ (case state of Some t \<Rightarrow> [(''state'', t)] | None \<Rightarrow> [])))"

definition setup_unavailable :: "string option \<Rightarrow> error" where
  "setup_unavailable m = DomainConnectUnavailable ''One-step setup is not available for this domain; use setup.guide_url''
     [(''method'', jopt JStr m)]"

definition prepare_connect ::
    "config \<Rightarrow> vault \<Rightarrow> signer_env \<Rightarrow> application \<Rightarrow> uuid \<Rightarrow> string option \<Rightarrow> string option \<Rightarrow> string option \<Rightarrow> bool
      \<Rightarrow> string \<Rightarrow> instant \<Rightarrow> db \<Rightarrow> error + connect_plan" where
  "prepare_connect C V E a i redirect_uri state return_url private_redirect nonce now s =
     bind_res (connect_problem ''redirect_uri'' (case redirect_uri of None \<Rightarrow> None | Some v \<Rightarrow> redirect_uri_problem v)) (\<lambda>_.
     bind_res (connect_problem ''state'' (case state of None \<Rightarrow> None | Some v \<Rightarrow> state_problem v)) (\<lambda>_.
     bind_res (get_domain s a i False) (\<lambda>d.
     if d_status d \<notin> set CONNECTABLE
     then Inl (DomainConnectUnavailable (''A domain in status '' @ domain_status_value (d_status d) @ '' cannot be connected'')
       [(''status'', JStr (domain_status_value (d_status d)))])
     else bind_res (domain_setup (with_signer C E) s d) (\<lambda>setup.
     case (zone_sync_ux s d, active_claim s (d_id d)) of
       (Some ux, Some claim) \<Rightarrow>
         if su_method setup \<noteq> Some DOMAIN_CONNECT then Inl (setup_unavailable (su_method setup))
         else bind_res (enforce_link_limits s d now) (\<lambda>_.
           let expires_at = now + URL_TTL in
           bind_res (return_params V nonce (d_id d) redirect_uri state return_url private_redirect expires_at) (\<lambda>more.
             Inr \<lparr>pl_domain_id = d_id d, pl_application_id = app_id a, pl_application_slug = app_slug a,
               pl_claim_token = c_token claim, pl_zone = su_zone setup, pl_host = su_host setup,
               pl_target = c_cname_target claim, pl_url_sync_ux = ux, pl_provider_id = su_provider_id setup,
               pl_provider_name = su_provider_name setup,
               pl_config = signer_config_of (cfg_setup C) (se_settings E) (se_row E),
               pl_query = canonical_query ([(''domain'', su_zone setup), (''host'', su_host setup),
                 (''target'', c_cname_target claim), (''token'', c_token claim)] @ more),
               pl_expires_at = expires_at\<rparr>))
     | _ \<Rightarrow> Inl (setup_unavailable (su_method setup))))))"

definition sign_connect :: "vault \<Rightarrow> rsa \<Rightarrow> signer_post \<Rightarrow> connect_plan \<Rightarrow> error + string" where
  "sign_connect V R post plan = (let c = pl_config plan in
     if \<not> config_enabled c then Inl (DomainConnectUnavailable ''Domain Connect is not configured on this deployment'' [])
     else bind_res (make_signer V R c) (\<lambda>sg.
       case signer_sign R post sg (pl_query plan) (pl_application_slug plan) (uuid_str (pl_domain_id plan)) of
         Inr signature \<Rightarrow> Inr (apply_url (pl_url_sync_ux plan) (sc_provider_id c) (sc_service_id c) (pl_query plan) signature)
       | Inl (SigningFailed Rate_Limited code _ retry) \<Rightarrow>
           Inl (rate_limited ''The signer is rate limiting Domain Connect links; retry later''
             (case retry of Some n \<Rightarrow> if n = 0 then 60 else n | None \<Rightarrow> 60))
       | Inl (SigningFailed Refused code _ _) \<Rightarrow>
           Inl (DomainConnectUnavailable ''The signer refused to sign a Domain Connect link for this domain'' [(''reason'', JStr code)])
       | Inl (SigningFailed Unmodelled_Answer _ _ _) \<Rightarrow> Inl (ValueError ''an answer outside the model'')
       | Inl (SigningFailed _ code _ _) \<Rightarrow>
           Inl (DomainConnectSignerUnavailable ''The Domain Connect signer is unavailable; try again shortly'' [(''reason'', JStr code)])))"

definition make_checks_due :: "uuid \<Rightarrow> instant \<Rightarrow> db \<Rightarrow> db" where
  "make_checks_due i at s = s\<lparr>checks := map (\<lambda>c. c\<lparr>ch_next_check_at :=
     if ch_domain_id c = i \<and> ch_check_type c \<in> {OWNERSHIP, ROUTING}
       \<and> (case ch_next_check_at c of None \<Rightarrow> True | Some current \<Rightarrow> current > at)
     then Some at else ch_next_check_at c\<rparr>) (checks s)\<rparr>"

definition record_connect ::
    "config \<Rightarrow> application \<Rightarrow> connect_plan \<Rightarrow> string \<Rightarrow> instant \<Rightarrow> db \<Rightarrow> error + connect_url \<times> db" where
  "record_connect C a plan url now s = bind_res (get_domain s a (pl_domain_id plan) False) (\<lambda>d.
     let changed = Inl (DomainConnectUnavailable
       ''The domain's DNS records changed while the link was signed; request a new one'' []) in
     case active_claim s (d_id d) of
       None \<Rightarrow> changed
     | Some claim \<Rightarrow>
       if c_token claim \<noteq> pl_claim_token plan then changed
       else let s1 = put_domain (d_id d) (\<lambda>d. d\<lparr>d_connect_started_at := Some now, d_updated_at := now\<rparr>) s;
           s2 = make_checks_due (d_id d) (now + FAST_RECHECK_INTERVAL) s1 in
         bind_res (record_event C (d_id d) CONNECT_URL_ISSUED
           (Some [(''provider'', jopt JStr (pl_provider_id plan)), (''signer'', jopt JStr (sc_signer (pl_config plan)))]) now s2) (\<lambda>s3.
         Inr (\<lparr>cu_url = url, cu_provider_id = pl_provider_id plan, cu_provider_name = pl_provider_name plan,
           cu_expires_at = pl_expires_at plan\<rparr>, s3)))"

definition default_return_url :: "signer_settings \<Rightarrow> edge_settings option \<Rightarrow> string option" where
  "default_return_url st es =
     (if given (sg_return_url st) then sg_return_url st
      else case page_base_url es of None \<Rightarrow> None | Some base \<Rightarrow> Some (base @ RETURN_PATH))"

text \<open>
  The endpoint. Between the first transaction, which only reads, and the last, other requests
  and the remote signer's own calls change the database: \<open>meanwhile\<close>.
\<close>

record connect_request =
  cr_redirect_uri :: "string option"
  cr_state :: "string option"

definition connect_domain ::
    "config \<Rightarrow> vault \<Rightarrow> rsa \<Rightarrow> signer_post \<Rightarrow> signer_env \<Rightarrow> edge_settings option \<Rightarrow> application \<Rightarrow> uuid \<Rightarrow> connect_request
      \<Rightarrow> string \<Rightarrow> (nat \<Rightarrow> instant) \<Rightarrow> (db \<Rightarrow> db) \<Rightarrow> db \<Rightarrow> db \<times> (error + connect_url)" where
  "connect_domain C V R post E es a i q nonce clk meanwhile s =
     (case prepare_connect C V E a i (cr_redirect_uri q) (cr_state q) (default_return_url (se_settings E) es) False nonce (clk 0) s of
        Inl e \<Rightarrow> (s, Inl e)
      | Inr plan \<Rightarrow> (let s1 = meanwhile s in
          case sign_connect V R post plan of
            Inl e \<Rightarrow> (s1, Inl e)
          | Inr url \<Rightarrow> (case record_connect (with_signer C E) a plan url (clk 1) s1 of
              Inl e \<Rightarrow> (s1, Inl e)
            | Inr (issued, s2) \<Rightarrow> (s2, Inr issued))))"

section \<open>The return\<close>

record return_state =
  re_domain_id :: uuid
  re_redirect_uri :: "string option"
  re_state :: "string option"
  re_expired :: bool

definition uuid_of_str :: "string \<Rightarrow> uuid option" where
  "uuid_of_str t = (if t \<noteq> [] \<and> list_all is_digit t then Some (nat_of_digits t) else None)"

text \<open>\<open>uuid.UUID(str(v))\<close> and \<open>int(v)\<close>; \<open>None\<close> where they raise.\<close>

fun json_uuid :: "json option \<Rightarrow> uuid option" where
  "json_uuid (Some (JStr t)) = uuid_of_str t"
| "json_uuid (Some (JInt n)) = uuid_of_str (str_of_int n)"
| "json_uuid _ = None"

fun json_int :: "json option \<Rightarrow> int option" where
  "json_int (Some (JInt n)) = Some n"
| "json_int (Some (JBool b)) = Some (if b then 1 else 0)"
| "json_int (Some (JStr t)) = py_int t"
| "json_int _ = None"

fun json_text :: "json option \<Rightarrow> string option" where
  "json_text (Some (JStr t)) = Some t"
| "json_text _ = None"

definition open_return_state :: "vault \<Rightarrow> string \<Rightarrow> instant \<Rightarrow> error + return_state reading" where
  "open_return_state V v now =
     (if \<not> available V then Inr Refuse
      else bind_res (unseal V v STATE_PURPOSE) (\<lambda>r. case r of
          Refuse \<Rightarrow> Inr Refuse
        | Outside \<Rightarrow> Inr Outside
        | Read data \<Rightarrow> (case (json_uuid (dict_get data ''d''), json_int (dict_get data ''e'')) of
            (Some i, Some expires) \<Rightarrow>
              bind_res (case json_text (dict_get data ''x'') of
                  None \<Rightarrow> Inr (json_text (dict_get data ''r''))
                | Some x \<Rightarrow> decrypt V x STATE_PURPOSE) (\<lambda>redirect_uri.
              Inr (Read \<lparr>re_domain_id = i, re_redirect_uri = redirect_uri, re_state = json_text (dict_get data ''s''),
                re_expired = (now > expires * 1000000)\<rparr>))
          | _ \<Rightarrow> Inr Refuse)))"

definition connect_returned :: "uuid \<Rightarrow> instant \<Rightarrow> db \<Rightarrow> bool \<times> db" where
  "connect_returned i now s = (case find (\<lambda>d. d_id d = i) (domains s) of
     None \<Rightarrow> (False, s)
   | Some _ \<Rightarrow> (case find (\<lambda>d. d_id d = i) (domain_query False s) of
       None \<Rightarrow> (False, s)
     | Some d \<Rightarrow>
       if d_status d \<notin> set CONNECTABLE then (False, s)
       else (True, make_checks_due i now (put_domain i (\<lambda>d. d\<lparr>d_connect_started_at := Some now, d_updated_at := now\<rparr>) s))))"

text \<open>\<open>urlunsplit((scheme, netloc, path, query, ""))\<close>.\<close>

definition uses_netloc :: "string list" where
  "uses_netloc = [''ftp'', ''http'', ''gopher'', ''nntp'', ''telnet'', ''imap'', ''wais'', ''file'', ''mms'', ''https'',
     ''shttp'', ''snews'', ''prospero'', ''rtsp'', ''rtsps'', ''rtspu'', ''rsync'', ''svn'', ''svn+ssh'', ''sftp'', ''nfs'',
     ''git'', ''git+ssh'', ''ws'', ''wss'', ''itms-services'']"

definition urlunsplit :: "url_parts \<Rightarrow> string" where
  "urlunsplit p = (let
     url1 = (if u_netloc p \<noteq> [] \<or> u_scheme p \<in> set uses_netloc \<and> \<not> starts_with ''//'' (u_path p)
       then ''//'' @ u_netloc p @ (if u_path p \<noteq> [] \<and> \<not> starts_with ''/'' (u_path p) then ''/'' else []) @ u_path p
       else u_path p);
     url2 = (if u_scheme p = [] then url1 else u_scheme p @ '':'' @ url1)
   in if u_query p = [] then url2 else url2 @ ''?'' @ u_query p)"

definition back_to_application :: "string \<Rightarrow> string option \<Rightarrow> string option \<Rightarrow> error + string" where
  "back_to_application redirect_uri state err = bind_res (url_split redirect_uri) (\<lambda>parts.
     let extra = (case state of None \<Rightarrow> [] | Some t \<Rightarrow> [(''state'', t)]) @ (case err of None \<Rightarrow> [] | Some t \<Rightarrow> [(''error'', t)])
     in if extra = [] then Inr redirect_uri
        else let added = canonical_query extra in
          Inr (urlunsplit (parts\<lparr>u_query := if u_query parts = [] then added else u_query parts @ ''&'' @ added\<rparr>)))"

datatype return_page = Page int string | Redirect string | Page_Outside

definition ERROR_CODE :: "string \<Rightarrow> bool" where
  "ERROR_CODE = dollar (\<lambda>t. t \<noteq> [] \<and> length t \<le> 64 \<and> list_all (\<lambda>c. c = CHR ''_'' \<or> (let n = of_char c :: int in 97 \<le> n \<and> n \<le> 122)) t)"

definition domain_connect_return :: "vault \<Rightarrow> string \<Rightarrow> string option \<Rightarrow> instant \<Rightarrow> db \<Rightarrow> db \<times> (error + return_page)" where
  "domain_connect_return V state err now s =
     (case (if state = [] then Inr Refuse else open_return_state V state now) of
        Inl e \<Rightarrow> (s, Inl e)
      | Inr Outside \<Rightarrow> (s, Inr Page_Outside)
      | Inr Refuse \<Rightarrow> (s, Inr (Page 400 ''Link not valid''))
      | Inr (Read opened) \<Rightarrow>
        if re_expired opened then (s, Inr (Page 400 ''Link expired''))
        else let (_, s1) = connect_returned (re_domain_id opened) now s;
            code = (case err of Some e \<Rightarrow> if ERROR_CODE e then Some e else None | None \<Rightarrow> None) in
          if given (re_redirect_uri opened)
          then (s1, bind_res (back_to_application (or_empty (re_redirect_uri opened)) (re_state opened) code) (\<lambda>t. Inr (Redirect t)))
          else if is_set code then (s1, Inr (Page 200 ''No changes made''))
          else (s1, Inr (Page 200 ''Thank you'')))"

section \<open>What a link carries\<close>

lemma connect_problem_Inr: "connect_problem field p = Inr u \<longleftrightarrow> p = None"
  by (cases p) (auto simp: connect_problem_def)

lemma prepare_connectE:
  assumes "prepare_connect C V E a i redirect_uri state return_url pr nonce now s = Inr plan"
  obtains d sv claim ux more where "get_domain s a i False = Inr d" and "d_status d \<in> set CONNECTABLE"
    and "domain_setup (with_signer C E) s d = Inr sv" and "su_method sv = Some DOMAIN_CONNECT"
    and "active_claim s (d_id d) = Some claim" and "zone_sync_ux s d = Some ux" and "enforce_link_limits s d now = Inr ()"
    and "return_params V nonce (d_id d) redirect_uri state return_url pr (now + URL_TTL) = Inr more"
    and "pl_query plan = canonical_query ([(''domain'', su_zone sv), (''host'', su_host sv),
      (''target'', c_cname_target claim), (''token'', c_token claim)] @ more)"
    and "pl_domain_id plan = d_id d" and "pl_claim_token plan = c_token claim" and "pl_url_sync_ux plan = ux"
    and "pl_expires_at plan = now + URL_TTL"
proof -
  from assms obtain d where d: "get_domain s a i False = Inr d"
    and p: "connect_problem ''redirect_uri'' (case redirect_uri of None \<Rightarrow> None | Some v \<Rightarrow> redirect_uri_problem v) = Inr ()"
      "connect_problem ''state'' (case state of None \<Rightarrow> None | Some v \<Rightarrow> state_problem v) = Inr ()"
    unfolding prepare_connect_def by (elim bind_res_InrE) simp
  from assms d p have st: "d_status d \<in> set CONNECTABLE" by (simp add: prepare_connect_def split: if_splits)
  from assms d p st obtain sv where su: "domain_setup (with_signer C E) s d = Inr sv"
    by (cases "domain_setup (with_signer C E) s d") (simp_all add: prepare_connect_def)
  from assms d p st su obtain ux where ux: "zone_sync_ux s d = Some ux"
    by (cases "zone_sync_ux s d") (simp_all add: prepare_connect_def)
  from assms d p st su ux obtain claim where cl: "active_claim s (d_id d) = Some claim"
    by (cases "active_claim s (d_id d)") (simp_all add: prepare_connect_def)
  from assms d p st su ux cl have m: "su_method sv = Some DOMAIN_CONNECT"
    by (cases "su_method sv = Some DOMAIN_CONNECT") (simp_all add: prepare_connect_def)
  from assms d p st su ux cl m have l: "enforce_link_limits s d now = Inr ()"
    by (cases "enforce_link_limits s d now") (simp_all add: prepare_connect_def)
  from assms d p st su ux cl m l obtain more where mo: "return_params V nonce (d_id d) redirect_uri state return_url pr (now + URL_TTL) = Inr more"
    by (cases "return_params V nonce (d_id d) redirect_uri state return_url pr (now + URL_TTL)") (simp_all add: prepare_connect_def Let_def)
  from assms d p st su ux cl m l mo have plan: "plan = \<lparr>pl_domain_id = d_id d, pl_application_id = app_id a, pl_application_slug = app_slug a,
      pl_claim_token = c_token claim, pl_zone = su_zone sv, pl_host = su_host sv,
      pl_target = c_cname_target claim, pl_url_sync_ux = ux, pl_provider_id = su_provider_id sv,
      pl_provider_name = su_provider_name sv, pl_config = signer_config_of (cfg_setup C) (se_settings E) (se_row E),
      pl_query = canonical_query ([(''domain'', su_zone sv), (''host'', su_host sv),
        (''target'', c_cname_target claim), (''token'', c_token claim)] @ more), pl_expires_at = now + URL_TTL\<rparr>"
    by (simp add: prepare_connect_def Let_def)
  show thesis by (rule that [OF d st su m cl ux l mo]) (simp_all add: plan)
qed

lemma sign_connectE:
  assumes "sign_connect V R post plan = Inr url"
  obtains sg signature where "config_enabled (pl_config plan)" and "make_signer V R (pl_config plan) = Inr sg"
    and "signer_sign R post sg (pl_query plan) (pl_application_slug plan) (uuid_str (pl_domain_id plan)) = Inr signature"
    and "url = apply_url (pl_url_sync_ux plan) (sc_provider_id (pl_config plan)) (sc_service_id (pl_config plan)) (pl_query plan) signature"
proof -
  let ?c = "pl_config plan"
  from assms have en: "config_enabled ?c" by (cases "config_enabled ?c") (simp_all add: sign_connect_def Let_def)
  from assms en obtain sg where sg: "make_signer V R ?c = Inr sg"
    by (cases "make_signer V R ?c") (simp_all add: sign_connect_def Let_def)
  let ?r = "signer_sign R post sg (pl_query plan) (pl_application_slug plan) (uuid_str (pl_domain_id plan))"
  have "\<exists>signature. ?r = Inr signature"
  proof (cases ?r)
    case (Inl e)
    obtain k code m r where e: "e = SigningFailed k code m r" by (cases e)
    from assms en sg Inl show ?thesis by (cases k) (simp_all add: sign_connect_def Let_def e)
  qed simp
  then obtain signature where r: "?r = Inr signature" ..
  from assms en sg r show thesis by (intro that [OF en sg r]) (simp add: sign_connect_def Let_def)
qed

lemma record_connectE:
  assumes "record_connect C a plan url now s = Inr (issued, t)"
  obtains d claim s2 where "get_domain s a (pl_domain_id plan) False = Inr d" and "active_claim s (d_id d) = Some claim"
    and "c_token claim = pl_claim_token plan"
    and "s2 = make_checks_due (d_id d) (now + FAST_RECHECK_INTERVAL)
      (put_domain (d_id d) (\<lambda>d. d\<lparr>d_connect_started_at := Some now, d_updated_at := now\<rparr>) s)"
    and "record_event C (d_id d) CONNECT_URL_ISSUED (Some [(''provider'', jopt JStr (pl_provider_id plan)),
      (''signer'', jopt JStr (sc_signer (pl_config plan)))]) now s2 = Inr t"
    and "issued = \<lparr>cu_url = url, cu_provider_id = pl_provider_id plan, cu_provider_name = pl_provider_name plan,
      cu_expires_at = pl_expires_at plan\<rparr>"
proof -
  from assms obtain d where d: "get_domain s a (pl_domain_id plan) False = Inr d"
    unfolding record_connect_def by (elim bind_res_InrE)
  from assms d obtain claim where cl: "active_claim s (d_id d) = Some claim"
    by (cases "active_claim s (d_id d)") (simp_all add: record_connect_def Let_def)
  from assms d cl have tok: "c_token claim = pl_claim_token plan"
    by (cases "c_token claim = pl_claim_token plan") (simp_all add: record_connect_def Let_def)
  let ?s2 = "make_checks_due (d_id d) (now + FAST_RECHECK_INTERVAL)
      (put_domain (d_id d) (\<lambda>d. d\<lparr>d_connect_started_at := Some now, d_updated_at := now\<rparr>) s)"
  let ?r = "record_event C (d_id d) CONNECT_URL_ISSUED (Some [(''provider'', jopt JStr (pl_provider_id plan)),
      (''signer'', jopt JStr (sc_signer (pl_config plan)))]) now ?s2"
  from assms d cl tok obtain u where u: "?r = Inr u" by (cases ?r) (simp_all add: record_connect_def Let_def)
  from assms d cl tok u show thesis by (intro that [OF d cl tok refl]) (simp_all add: record_connect_def Let_def)
qed

end
