(* ===== verification/Domain_Connect_Sound.thy ===== *)
theory Domain_Connect_Sound
  imports Domain_Connect
begin

text \<open>What one-step setup guarantees: the links it issues, the way back, and the limits.\<close>

section \<open>Issued links\<close>

text \<open>The apply addresses discovery stores have no query part.\<close>

definition clean_zones :: "db \<Rightarrow> bool" where
  "clean_zones s = list_all (\<lambda>z. case z_domain_connect z of None \<Rightarrow> True
     | Some dc \<Rightarrow> (case dict_name dc ''url_sync_ux'' of None \<Rightarrow> True | Some u \<Rightarrow> CHR ''?'' \<notin> set u)) (zones s)"

lemma clean_zone_sync_ux: "clean_zones s \<Longrightarrow> zone_sync_ux s d = Some u \<Longrightarrow> CHR ''?'' \<notin> set u"
  by (auto simp: clean_zones_def zone_sync_ux_def zone_row_def list_all_iff dest!: find_row_Some split: option.splits list.splits)

text \<open>What starting the fast recheck leaves alone: everything a check decides.\<close>

definition decided :: "db \<Rightarrow> (uuid \<times> domain_status \<times> instant option) list \<times> ownership_claim list \<times> (uuid \<times> check_type \<times> check_status) list" where
  "decided s = (map (\<lambda>d. (d_id d, d_status d, d_deleted_at d)) (domains s), claims s,
     map (\<lambda>c. (ch_domain_id c, ch_check_type c, ch_status c)) (checks s))"

lemma make_checks_due_step: "lifecycle_step C s (make_checks_due i at s)"
  unfolding make_checks_due_def by (rule lifecycle_step.schedule)

lemma started_decided:
  "decided (make_checks_due i at (put_domain i (\<lambda>d. d\<lparr>d_connect_started_at := x, d_updated_at := now\<rparr>) s)) = decided s"
  by (simp add: decided_def make_checks_due_def put_domain_def update_row_def)

lemma started_steps:
  "(lifecycle_step C)\<^sup>*\<^sup>* s (make_checks_due i at (put_domain i (\<lambda>d. d\<lparr>d_connect_started_at := x, d_updated_at := now\<rparr>) s))"
  by (rule rtranclp.rtrancl_into_rtrancl, rule r_into_rtranclp, rule lifecycle_step.connect_started, rule make_checks_due_step)

lemma record_connect_sound:
  assumes "record_connect C a plan url now s = Inr (issued, t)"
  shows "(lifecycle_step C)\<^sup>*\<^sup>* s t" and "decided t = decided s"
    and "\<exists>e. events t = events s @ [e] \<and> e_event_type e = CONNECT_URL_ISSUED \<and> e_domain_id e = pl_domain_id plan"
  using assms
proof (rule_tac [!] record_connectE, assumption)
  fix d claim s2
  assume d: "get_domain s a (pl_domain_id plan) False = Inr d"
    and s2: "s2 = make_checks_due (d_id d) (now + FAST_RECHECK_INTERVAL)
      (put_domain (d_id d) (\<lambda>d. d\<lparr>d_connect_started_at := Some now, d_updated_at := now\<rparr>) s)"
    and t: "record_event C (d_id d) CONNECT_URL_ISSUED (Some [(''provider'', jopt JStr (pl_provider_id plan)),
      (''signer'', jopt JStr (sc_signer (pl_config plan)))]) now s2 = Inr t"
  have "lifecycle_step C s2 t" by (rule lifecycle_step.note_event [OF _ t]) simp
  then show "(lifecycle_step C)\<^sup>*\<^sup>* s t" unfolding s2
    by (rule rtranclp.rtrancl_into_rtrancl [OF started_steps])
  from t have "decided t = decided s2" by (rule record_event_effect) (simp add: decided_def)
  then show "decided t = decided s" by (simp add: s2 started_decided)
  have "events s2 = events s" by (simp add: s2 make_checks_due_def put_domain_def)
  with t get_domain_fields [OF d] domain_rowD
  show "\<exists>e. events t = events s @ [e] \<and> e_event_type e = CONNECT_URL_ISSUED \<and> e_domain_id e = pl_domain_id plan"
    by (elim record_event_effect) (auto simp: event_of_def)
qed


definition dc_settings :: signer_settings where
  "dc_settings = \<lparr>sg_signer = Some ''remote'', sg_private_key = None, sg_key_host = None, sg_url = Some ''https://signer.example/sign'',
     sg_credential = Some ''dcs_x'', sg_return_url = None\<rparr>"

definition dc_env :: signer_env where "dc_env = \<lparr>se_settings = dc_settings, se_row = None\<rparr>"

definition dc_cfg :: config where
  "dc_cfg = demo_cfg\<lparr>cfg_setup := \<lparr>template_provider_id = ''sireto.example'', template_service_id = ''hostname'',
     signing_enabled = True, guide_url = ''https://docs.example/{provider}''\<rparr>\<rparr>"

definition dc_zone :: dns_zone where
  "dc_zone = \<lparr>z_zone = ''example.com'', z_provider = ''unknown'', z_nameservers = None,
     z_domain_connect = Some [(''url_sync_ux'', JStr ''https://dcc.example/manage'')], z_template = Some ''sireto.example/hostname'',
     z_template_supported = Some True, z_error_code = None, z_message = None, z_checked_at = 0, z_expires_at = 9\<rparr>"

definition dc_db :: db where
  "dc_db = put_domain 10 (\<lambda>d. d\<lparr>d_zone := Some ''example.com''\<rparr>) (demo_ready\<lparr>zones := [dc_zone]\<rparr>)"

text \<open>A vault whose encryption is the identity, and a signer that always answers.\<close>

definition open_vault :: vault where
  "open_vault = \<lparr>v_secret = [], hkdf = (\<lambda>k l. k @ l), aes_seal = (\<lambda>k n t a. t), aes_open = (\<lambda>k n t a. Some t)\<rparr>"

definition no_rsa :: rsa where "no_rsa = \<lparr>load_der = (\<lambda>_. None), rsa_sign = (\<lambda>_ m. m)\<rparr>"

definition dc_post :: signer_post where
  "dc_post url credential body = Posted \<lparr>sr_status = 200, sr_content = json_dumps (\<lambda>_. []) (JObj [(''key'', JStr ''_dck1''), (''sig'', JStr ''QUJD'')]),
     sr_retry_after = None\<rparr>"

definition dc_result :: "db \<times> (error + connect_url)" where
  "dc_result = connect_domain dc_cfg open_vault no_rsa dc_post dc_env None demo_app 10 \<lparr>cr_redirect_uri = None, cr_state = Some ''st''\<rparr>
     [] (\<lambda>n. 5000 + int n) (\<lambda>s. s) dc_db"


section \<open>The way back\<close>

lemma ascii_printable:
  assumes "ascii t" and "\<not> list_ex (\<lambda>c. (of_char c :: int) < 32 \<or> (of_char c :: int) = 127) t"
  shows "printable t"
  unfolding printable_def list_all_iff
proof
  fix c assume c: "c \<in> set t"
  obtain k where k: "(of_char c :: int) = int k" "(of_char c :: nat) = k" by (rule of_char_both)
  with assms c have "k < 128" "\<not> k < 32" "k \<noteq> 127" by (auto simp: ascii_def list_all_iff list_ex_iff)
  then show "32 \<le> (of_char c :: int) \<and> (of_char c :: int) < 127" by (simp add: k(1))
qed

lemma char_bounds: "(of_char c :: int) < 32 \<or> (of_char c :: int) = 127 \<Longrightarrow> (of_char c :: nat) < 33 \<or> (of_char c :: nat) = 127"
  by (rule of_char_both [of c]) auto

lemma redirect_printable:
  assumes "ascii u" and "redirect_uri_problem u = None"
  shows "printable u" and "length u \<le> 512"
proof -
  have "\<not> list_ex (\<lambda>c. (of_char c :: nat) < 33 \<or> (of_char c :: nat) = 127) u"
    using assms(2) by (auto simp: redirect_uri_problem_def https_url_problem_def split: if_splits)
  then have "\<not> list_ex (\<lambda>c. (of_char c :: int) < 32 \<or> (of_char c :: int) = 127) u"
    unfolding list_ex_iff by (meson char_bounds)
  then show "printable u" by (rule ascii_printable [OF assms(1)])
  show "length u \<le> 512" using assms utf8_ascii [of u]
    by (auto simp: redirect_uri_problem_def MAX_REDIRECT_URI_def ascii_def list_all_iff split: if_splits)
qed

lemma state_printable:
  assumes "ascii u" and "state_problem u = None"
  shows "printable u" and "length u \<le> 512"
proof -
  show "printable u" by (rule ascii_printable [OF assms(1)]) (use assms(2) in \<open>auto simp: state_problem_def Let_def split: if_splits\<close>)
  show "length u \<le> 512" using assms utf8_ascii [of u]
    by (auto simp: state_problem_def DC_MAX_STATE_def ascii_def list_all_iff split: if_splits)
qed

lemma length_json_str:
  assumes "printable t"
  shows "length (json_str t) \<le> 2 + 2 * length t"
proof -
  have "length (concat (map json_escape t)) \<le> 2 * length t" using assms
  proof (induction t)
    case (Cons c t)
    then have "length (json_escape c) \<le> 2" by (auto simp: printable_def json_escape_def Let_def)
    with Cons show ?case by (simp add: printable_def)
  qed simp
  then show ?thesis by (simp add: json_str_def)
qed

lemma b64encode_printable:
  "printable (b64encode bs)" "3 * length (b64encode bs) \<le> 4 * length bs + 13"
proof -
  have "list_all (\<lambda>n. 32 \<le> (of_char (to_std (b64_char n)) :: int) \<and> (of_char (to_std (b64_char n)) :: int) < 127) [0..63]"
    by code_simp
  then have "32 \<le> (of_char (to_std c) :: int) \<and> (of_char (to_std c) :: int) < 127" if "c \<in> set (b64 bs)" for c
    using b64_chars [OF that] by (auto simp: list_all_iff)
  then show "printable (b64encode bs)" by (auto simp: printable_def b64encode_def Let_def list_all_iff)
  show "3 * length (b64encode bs) \<le> 4 * length bs + 13" using length_b64 [of bs]
    by (simp add: b64encode_def Let_def)
qed

definition sealed_fields :: "uuid \<Rightarrow> int \<Rightarrow> string option \<Rightarrow> string \<times> string option \<Rightarrow> dict" where
  "sealed_fields i e state field = [(''d'', JStr (uuid_str i)), (''e'', JInt e), (''s'', jopt JStr state), (fst field, jopt JStr (snd field))]"

lemma unseal_fields:
  assumes "seal V (sealed_fields i e state (k, w)) purpose = Inr v" and "i < 10 ^ 39" and "0 \<le> e" and "e < 10 ^ 20"
    and "\<And>t. state = Some t \<Longrightarrow> printable t \<and> length t \<le> 512" and "\<And>t. w = Some t \<Longrightarrow> printable t \<and> length t \<le> 730"
    and "k = ''r'' \<or> k = ''x''"
  shows "unseal V v purpose = Inr (Read (sealed_fields i e state (k, w)))" and "length v \<le> 4096"
proof -
  let ?d = "sealed_fields i e state (k, w)"
  have dig: "32 \<le> (of_char c :: int) \<and> (of_char c :: int) < 127" if "is_digit c" for c using that by (simp add: is_digit_code Let_def)
  have num: "printable (uuid_str i)" "length (uuid_str i) \<le> 39"
    using dig str_of_nat_digits [of _ i] length_str_of_nat [of i 38] assms(2) by (auto simp: uuid_str_def printable_def list_all_iff)
  have keys: "printable ''d''" "printable ''e''" "printable ''s''" "printable ''r''" "printable ''x''" by code_simp+
  have e: "\<bar>e\<bar> < 10 ^ 40" using assms(3,4) by simp
  have pr: "\<forall>(k, x)\<in>set ?d. printable k \<and> printable_value x"
    using num keys e assms(5-7) by (auto simp: sealed_fields_def jopt_def split: option.splits)
  have "length (str_of_int e) \<le> 20"
    using length_str_of_nat [of "nat e" 19] assms(3,4) by (simp add: str_of_int_def nat_less_iff)
  moreover have "length (json_dumps (\<lambda>_. []) (jopt JStr state)) \<le> 1026"
    using assms(5) length_json_str by (cases state) (force simp: jopt_def)+
  moreover have "length (json_dumps (\<lambda>_. []) (jopt JStr w)) \<le> 1462"
    using assms(6) length_json_str by (cases w) (force simp: jopt_def)+
  moreover have "length (json_str (uuid_str i)) \<le> 80" using length_json_str [OF num(1)] num(2) by simp
  moreover have "length (json_str ''d'') \<le> 4" "length (json_str ''e'') \<le> 4" "length (json_str ''s'') \<le> 4" "length (json_str k) \<le> 4"
    using length_json_str [OF keys(1)] length_json_str [OF keys(2)] length_json_str [OF keys(3)] length_json_str [OF keys(4)]
      length_json_str [OF keys(5)] assms(7) by auto
  ultimately have long: "length (CHR 0x7B # members_text (\<lambda>_. []) ?d @ [CHR 0x7D]) \<le> 2615"
    by (simp add: sealed_fields_def members_text_def)
  note flat = json_raw_flat [OF pr]
  have "\<forall>c\<in>set (CHR 0x7B # members_text (\<lambda>_. []) ?d @ [CHR 0x7D]). (of_char c :: nat) < 128"
    using ascii_members [OF flat(2), of "\<lambda>_. []"] by simp
  then have utf8: "utf8_encode (json_raw (\<lambda>_. []) (JObj ?d)) = CHR 0x7B # members_text (\<lambda>_. []) ?d @ [CHR 0x7D]"
    unfolding flat(1) by (rule utf8_ascii)
  from assms(1) obtain key body where body: "body = b64 (CHR 0x7B # members_text (\<lambda>_. []) ?d @ [CHR 0x7D])"
    and v: "v = body @ CHR ''.'' # b64 (hmac_sha256 key body)"
    by (rule sealE) (simp only: utf8)
  have "3 * length body \<le> 4 * 2615 + 4" unfolding body using length_b64 [of "CHR 0x7B # members_text (\<lambda>_. []) ?d @ [CHR 0x7D]"] long by linarith
  moreover have "3 * length (b64 (hmac_sha256 key body)) \<le> 132" using length_b64 [of "hmac_sha256 key body"] by (simp add: hmac_length)
  ultimately show len: "length v \<le> 4096" by (simp add: v)
  show "unseal V v purpose = Inr (Read ?d)"
    by (rule unseal_seal [OF assms(1) pr _ _ len]) (use assms(7) in \<open>auto simp: sealed_fields_def\<close>)
qed

lemma open_fields:
  assumes "available V" and "unseal V v STATE_PURPOSE = Inr (Read (sealed_fields i e state (k, w)))"
  shows "k = ''r'' \<Longrightarrow> open_return_state V v now = Inr (Read \<lparr>re_domain_id = i, re_redirect_uri = w, re_state = state,
      re_expired = (now > e * 1000000)\<rparr>)"
    and "k = ''x'' \<Longrightarrow> w = Some x \<Longrightarrow> decrypt V x STATE_PURPOSE = Inr (Some u) \<Longrightarrow>
      open_return_state V v now = Inr (Read \<lparr>re_domain_id = i, re_redirect_uri = Some u, re_state = state,
      re_expired = (now > e * 1000000)\<rparr>)"
proof -
  have i: "uuid_of_str (uuid_str i) = Some i"
    using str_of_nat_digits [of _ i] by (simp add: uuid_of_str_def uuid_str_def list_all_iff)
  have t: "json_text (Some (jopt JStr m)) = m" for m by (cases m) (simp_all add: jopt_def)
  show "k = ''r'' \<Longrightarrow> open_return_state V v now = Inr (Read \<lparr>re_domain_id = i, re_redirect_uri = w, re_state = state,
      re_expired = (now > e * 1000000)\<rparr>)"
    using assms i t by (simp add: open_return_state_def sealed_fields_def dict_get_def)
  show "k = ''x'' \<Longrightarrow> w = Some x \<Longrightarrow> decrypt V x STATE_PURPOSE = Inr (Some u) \<Longrightarrow>
      open_return_state V v now = Inr (Read \<lparr>re_domain_id = i, re_redirect_uri = Some u, re_state = state,
      re_expired = (now > e * 1000000)\<rparr>)"
    using assms i t by (simp add: open_return_state_def sealed_fields_def dict_get_def jopt_def)
qed

text \<open>
  C23: what an application passes through the provider comes back to it. The state that is sealed for
  the return address opens, at any time and whichever form the redirect address took (readable, or
  encrypted for the setup page), to the same domain, redirect address and state, and is expired
  exactly after its hour; it always fits the length the endpoint accepts. Encryption is
  assumed to open what it sealed and to add at most its 16 bytes of tag.
\<close>

theorem return_state_reads_back:
  assumes "return_params V nonce i redirect_uri state (Some return_url) private_redirect expires_at = Inr params"
    and "available V" and "return_url \<noteq> []" and "length nonce = 12"
    and "\<forall>u. redirect_uri = Some u \<longrightarrow> ascii u \<and> redirect_uri_problem u = None"
    and "\<forall>u. state = Some u \<longrightarrow> ascii u \<and> state_problem u = None"
    and "\<forall>key n t a. aes_open V key n (aes_seal V key n t a) a = Some t \<and> length (aes_seal V key n t a) \<le> length t + 16"
    and "i < 10 ^ 39" and "0 \<le> expires_at" and "expires_at < 10 ^ 20"
  shows "\<exists>sealed. params = [(''redirect_uri'', return_url), (''state'', sealed)] \<and> length sealed \<le> 4096
    \<and> (\<forall>now. open_return_state V sealed now = Inr (Read \<lparr>re_domain_id = i, re_redirect_uri = redirect_uri, re_state = state,
        re_expired = (now > expires_at div 1000000 * 1000000)\<rparr>))"
proof -
  let ?e = "expires_at div 1000000"
  have e: "0 \<le> ?e" "?e < 10 ^ 20" using assms(9,10) by auto
  have st: "printable t \<and> length t \<le> 512" if "state = Some t" for t using state_printable [of t] assms(6) that by simp
  have re: "printable t \<and> length t \<le> 512" if "redirect_uri = Some t" for t using redirect_printable [of t] assms(5) that by simp
  have ret: "given (Some return_url)" using assms(3) by (cases return_url) simp_all
  show ?thesis
  proof (cases "private_redirect \<and> is_set redirect_uri")
    case True
    then obtain u where u: "redirect_uri = Some u" by blast
    from assms(1,2) ret True u obtain x where x: "encrypt V nonce u STATE_PURPOSE = Inr x"
      by (cases "encrypt V nonce u STATE_PURPOSE") (simp_all add: return_params_def)
    let ?f = "sealed_fields i ?e state (''x'', Some x)"
    from assms(1,2) ret True u x obtain v where v: "seal V ?f STATE_PURPOSE = Inr v"
      and params: "params = [(''redirect_uri'', return_url), (''state'', v)]"
      by (cases "seal V ?f STATE_PURPOSE") (simp_all add: return_params_def sealed_fields_def jopt_def)
    have dec: "decrypt V x STATE_PURPOSE = Inr (Some u)" by (rule decrypt_encrypt [OF x assms(4)]) (use assms(7) in simp)
    from x obtain key where k: "x = ''v1:'' @ b64encode (nonce @ aes_seal V key nonce (utf8_encode u) (utf8_encode STATE_PURPOSE))"
      by (rule encryptE)
    have "utf8_encode u = u" using assms(5) u by (intro utf8_ascii) (simp add: ascii_def list_all_iff)
    moreover have "length (aes_seal V key nonce (utf8_encode u) (utf8_encode STATE_PURPOSE)) \<le> length (utf8_encode u) + 16"
      using assms(7) by blast
    ultimately have "length (nonce @ aes_seal V key nonce (utf8_encode u) (utf8_encode STATE_PURPOSE)) \<le> 540"
      using assms(4) re [OF u] by simp
    then have "3 * length (b64encode (nonce @ aes_seal V key nonce (utf8_encode u) (utf8_encode STATE_PURPOSE))) \<le> 2173"
      using b64encode_printable(2) [of "nonce @ aes_seal V key nonce (utf8_encode u) (utf8_encode STATE_PURPOSE)"] by linarith
    moreover have "printable ''v1:''" by code_simp
    ultimately have px: "printable x \<and> length x \<le> 730" using b64encode_printable(1) by (auto simp: k printable_def)
    note un = unseal_fields [OF v assms(8) e st _ disjI2 [OF refl]]
    have "unseal V v STATE_PURPOSE = Inr (Read ?f)" "length v \<le> 4096" using px by (auto intro!: un)
    with params dec u assms(2) show ?thesis by (simp add: open_fields(2) [OF assms(2) _ refl refl])
  next
    case False
    let ?f = "sealed_fields i ?e state (''r'', redirect_uri)"
    from assms(1,2) ret False obtain v where v: "seal V ?f STATE_PURPOSE = Inr v"
      and params: "params = [(''redirect_uri'', return_url), (''state'', v)]"
      by (cases "seal V ?f STATE_PURPOSE") (auto simp: return_params_def sealed_fields_def split: if_splits)
    note un = unseal_fields [OF v assms(8) e st _ disjI1 [OF refl]]
    have "unseal V v STATE_PURPOSE = Inr (Read ?f)" "length v \<le> 4096" using re by (fastforce intro!: un)+
    with params assms(2) show ?thesis by (simp add: open_fields(1) [OF assms(2) _ refl])
  qed
qed

definition key_vault :: vault where
  "key_vault = open_vault\<lparr>v_secret := ''0123456789abcdef0123456789abcdef''\<rparr>"

definition dc_params :: "error + (string \<times> string) list" where
  "dc_params = return_params key_vault ''0123456789ab'' 10 (Some ''https://app.example/done'') (Some ''st'')
     (Some ''https://edge.example.net/v1/domain-connect/return'') True 5000000"

theorem return_state_reads_back_witness:
  "\<exists>params sealed. dc_params = Inr params \<and> params = [(''redirect_uri'', ''https://edge.example.net/v1/domain-connect/return''), (''state'', sealed)]
    \<and> open_return_state key_vault sealed 4000000 = Inr (Read \<lparr>re_domain_id = 10, re_redirect_uri = Some ''https://app.example/done'',
        re_state = Some ''st'', re_expired = False\<rparr>)"
proof -
  have av: "available key_vault" by code_simp
  then obtain k where k: "vault_secret key_vault = Inr k" by (cases "vault_secret key_vault") (simp_all add: available_def)
  have "\<exists>params. dc_params = Inr params"
    by (simp add: dc_params_def return_params_def av encrypt_def seal_def derive_key_def k Let_def)
  then obtain params where p: "dc_params = Inr params" ..
  have u: "ascii ''https://app.example/done''" "redirect_uri_problem ''https://app.example/done'' = None" "ascii ''st''" "state_problem ''st'' = None"
    by code_simp+
  from p [unfolded dc_params_def] av
  have "\<exists>sealed. params = [(''redirect_uri'', ''https://edge.example.net/v1/domain-connect/return''), (''state'', sealed)] \<and> length sealed \<le> 4096
    \<and> (\<forall>now. open_return_state key_vault sealed now = Inr (Read \<lparr>re_domain_id = 10, re_redirect_uri = Some ''https://app.example/done'', re_state = Some ''st'',
        re_expired = (now > 5000000 div 1000000 * 1000000)\<rparr>))"
    by (rule return_state_reads_back) (use u in \<open>simp_all add: key_vault_def open_vault_def\<close>)
  then obtain sealed where s: "params = [(''redirect_uri'', ''https://edge.example.net/v1/domain-connect/return''), (''state'', sealed)]"
    "open_return_state key_vault sealed 4000000 = Inr (Read \<lparr>re_domain_id = 10, re_redirect_uri = Some ''https://app.example/done'', re_state = Some ''st'',
        re_expired = (4000000 > (5000000 :: int) div 1000000 * 1000000)\<rparr>)" by blast
  have "((4000000 :: int) > 5000000 div 1000000 * 1000000) = False" by simp
  with p s show ?thesis by (intro exI conjI) (simp_all only:)
qed

lemma back_to_applicationE:
  assumes "back_to_application u state code = Inr target"
  shows "\<exists>parts extra. url_split u = Inr parts \<and> (target = u \<or> target = urlunsplit (parts\<lparr>u_query := u_query parts @ extra\<rparr>))"
proof -
  from assms obtain parts where p: "url_split u = Inr parts" unfolding back_to_application_def by (elim bind_res_InrE)
  let ?extra = "(case state of None \<Rightarrow> [] | Some t \<Rightarrow> [(''state'', t)]) @ (case code of None \<Rightarrow> [] | Some t \<Rightarrow> [(''error'', t)])"
  have b: "back_to_application u state code = (if ?extra = [] then Inr u else Inr (urlunsplit (parts\<lparr>u_query :=
      if u_query parts = [] then canonical_query ?extra else u_query parts @ ''&'' @ canonical_query ?extra\<rparr>)))"
    by (simp only: back_to_application_def p bind_res_Inr Let_def)
  show ?thesis
  proof (cases "?extra = []")
    case True
    with assms b have "target = u" by (simp only: if_True sum.inject simp_thms)
    with p show ?thesis by blast
  next
    case False
    with assms b have "target = urlunsplit (parts\<lparr>u_query := if u_query parts = [] then canonical_query ?extra
        else u_query parts @ ''&'' @ canonical_query ?extra\<rparr>)"
      by (simp only: if_False sum.inject)
    then have "target = urlunsplit (parts\<lparr>u_query := u_query parts @ (if u_query parts = [] then canonical_query ?extra else ''&'' @ canonical_query ?extra)\<rparr>)"
      by (simp split: if_splits)
    with p show ?thesis by blast
  qed
qed

lemma returned_cases:
  assumes "domain_connect_return V st err now s = (t, Inr page)"
  shows "(t = s \<and> (page = Page 400 ''Link not valid'' \<or> page = Page_Outside \<or> page = Page 400 ''Link expired''))
    \<or> (\<exists>r. st \<noteq> [] \<and> open_return_state V st now = Inr (Read r) \<and> \<not> re_expired r \<and> t = snd (connect_returned (re_domain_id r) now s)
      \<and> (page = Page 200 ''No changes made'' \<or> page = Page 200 ''Thank you'' \<or> (\<exists>u state code target. re_redirect_uri r = Some u
        \<and> back_to_application u state code = Inr target \<and> page = Redirect target)))"
proof -
  let ?o = "if st = [] then Inr Refuse else open_return_state V st now"
  obtain x where x: "?o = Inr x" using assms by (cases ?o) (auto simp: domain_connect_return_def)
  show ?thesis
  proof (cases x)
    case (Read r)
    with x have st: "st \<noteq> []" "open_return_state V st now = Inr (Read r)" by (auto split: if_splits)
    let ?code = "case err of Some e \<Rightarrow> if ERROR_CODE e then Some e else None | None \<Rightarrow> None"
    show ?thesis
    proof (cases "re_expired r")
      case True
      with assms x Read show ?thesis by (simp add: domain_connect_return_def)
    next
      case False
      obtain b s1 where s1: "connect_returned (re_domain_id r) now s = (b, s1)" by fastforce
      show ?thesis
      proof (cases "given (re_redirect_uri r)")
        case True
        then obtain u where u: "re_redirect_uri r = Some u" by (auto split: option.splits)
        from assms x Read False s1 True u have "t = s1 \<and> (\<exists>target. back_to_application u (re_state r) ?code = Inr target \<and> page = Redirect target)"
          by (cases "back_to_application u (re_state r) ?code") (auto simp: domain_connect_return_def)
        with st False s1 u show ?thesis by (intro disjI2 exI [of _ r]) auto
      next
        case no: False
        from assms x Read False s1 no have "t = s1 \<and> (page = Page 200 ''No changes made'' \<or> page = Page 200 ''Thank you'')"
          by (auto simp: domain_connect_return_def split: if_splits)
        with st False s1 show ?thesis by (intro disjI2 exI [of _ r]) auto
      qed
    qed
  qed (use assms x in \<open>auto simp: domain_connect_return_def\<close>)
qed

text \<open>
  C22: the return address is no open redirect and decides nothing. Whoever opens it is only ever sent on
  with a state this service sealed: the state carries the HMAC of its own payload under the derived key, has not
  expired, and the target is the redirect address sealed in it, with the same scheme, network location
  and path, and at most parameters added to its query. The visit runs lifecycle steps that
  make the domain's DNS checks due; no status, check, claim or event changes. Every other answer is a fixed page.
\<close>

theorem return_is_no_open_redirect:
  assumes "domain_connect_return V st err now s = (t, Inr page)"
  shows "(lifecycle_step C)\<^sup>*\<^sup>* s t \<and> decided t = decided s \<and> events t = events s
    \<and> (case page of
        Page status title \<Rightarrow> (status, title) \<in> {(400, ''Link not valid''), (400, ''Link expired''), (200, ''No changes made''), (200, ''Thank you'')}
      | Page_Outside \<Rightarrow> t = s
      | Redirect target \<Rightarrow> \<exists>body mac key r u parts extra. st = body @ ''.'' @ mac \<and> derive_key V (''seal/'' @ STATE_PURPOSE) = Inr key
          \<and> unb64 mac = Some (hmac_sha256 key body) \<and> open_return_state V st now = Inr (Read r) \<and> \<not> re_expired r
          \<and> re_redirect_uri r = Some u \<and> url_split u = Inr parts
          \<and> (target = u \<or> target = urlunsplit (parts\<lparr>u_query := u_query parts @ extra\<rparr>)))"
proof -
  have quiet: "(lifecycle_step C)\<^sup>*\<^sup>* s (snd (connect_returned i now s)) \<and> decided (snd (connect_returned i now s)) = decided s
      \<and> events (snd (connect_returned i now s)) = events s" for i
    using started_steps [where C = C and s = s and i = i and at = now and x = "Some now" and now = now]
      started_decided [where s = s and i = i and at = now and x = "Some now" and now = now]
    by (auto simp: connect_returned_def make_checks_due_def put_domain_def split: option.splits)
  consider "t = s" "page = Page 400 ''Link not valid'' \<or> page = Page_Outside \<or> page = Page 400 ''Link expired''"
    | r where "st \<noteq> []" "open_return_state V st now = Inr (Read r)" "\<not> re_expired r" "t = snd (connect_returned (re_domain_id r) now s)"
      "page = Page 200 ''No changes made'' \<or> page = Page 200 ''Thank you'' \<or> (\<exists>u state code target. re_redirect_uri r = Some u
        \<and> back_to_application u state code = Inr target \<and> page = Redirect target)"
    using returned_cases [OF assms] by blast
  then show ?thesis
  proof cases
    case 1
    then show ?thesis by auto
  next
    case (2 r)
    have "available V" using 2(2) by (auto simp: open_return_state_def split: if_splits)
    then obtain data where "unseal V st STATE_PURPOSE = Inr (Read data)"
      using 2(2) by (cases "unseal V st STATE_PURPOSE") (auto simp: open_return_state_def split: reading.splits)
    from unseal_genuine [OF this] obtain body mac key where g: "st = body @ ''.'' @ mac" "derive_key V (''seal/'' @ STATE_PURPOSE) = Inr key"
      "unb64 mac = Some (hmac_sha256 key body)" by (elim exE conjE)
    from 2(5) consider "page = Page 200 ''No changes made'' \<or> page = Page 200 ''Thank you''"
      | u state code target where "re_redirect_uri r = Some u" "back_to_application u state code = Inr target" "page = Redirect target" by blast
    then show ?thesis
    proof cases
      case 1
      with quiet [of "re_domain_id r"] 2(4) show ?thesis by auto
    next
      case (2 u state code target)
      from back_to_applicationE [OF 2(2)] obtain parts extra where b: "url_split u = Inr parts"
        "target = u \<or> target = urlunsplit (parts\<lparr>u_query := u_query parts @ extra\<rparr>)" by (elim exE conjE)
      have "\<exists>body mac key r u parts extra. st = body @ ''.'' @ mac \<and> derive_key V (''seal/'' @ STATE_PURPOSE) = Inr key
          \<and> unb64 mac = Some (hmac_sha256 key body) \<and> open_return_state V st now = Inr (Read r) \<and> \<not> re_expired r
          \<and> re_redirect_uri r = Some u \<and> url_split u = Inr parts
          \<and> (target = u \<or> target = urlunsplit (parts\<lparr>u_query := u_query parts @ extra\<rparr>))"
        by (intro exI conjI) (fact g | fact \<open>open_return_state V st now = Inr (Read r)\<close> | fact \<open>\<not> re_expired r\<close> | fact 2(1) | fact b)+
      with quiet [of "re_domain_id r"] \<open>t = snd (connect_returned (re_domain_id r) now s)\<close> 2(3) show ?thesis by simp
    qed
  qed
qed

definition dc_sealed :: string where
  "dc_sealed = projr (seal key_vault (sealed_fields 10 5 (Some ''st'') (''r'', Some ''https://app.example/done'')) STATE_PURPOSE)"

lemma dc_sealed_opens:
  "dc_sealed \<noteq> []" "open_return_state key_vault dc_sealed 4000000 = Inr (Read \<lparr>re_domain_id = 10,
    re_redirect_uri = Some ''https://app.example/done'', re_state = Some ''st'', re_expired = False\<rparr>)"
proof -
  have av: "available key_vault" by code_simp
  then obtain k where "vault_secret key_vault = Inr k" by (cases "vault_secret key_vault") (simp_all add: available_def)
  then have "isl (seal key_vault (sealed_fields 10 5 (Some ''st'') (''r'', Some ''https://app.example/done'')) STATE_PURPOSE) = False"
    by (simp add: seal_def derive_key_def Let_def)
  then have s: "seal key_vault (sealed_fields 10 5 (Some ''st'') (''r'', Some ''https://app.example/done'')) STATE_PURPOSE = Inr dc_sealed"
    unfolding dc_sealed_def by (rule projr_eq)
  from s obtain key body where v: "dc_sealed = body @ CHR ''.'' # b64 (hmac_sha256 key body)" by (rule sealE)
  show "dc_sealed \<noteq> []" unfolding v by simp
  have pr: "printable ''st''" "printable ''https://app.example/done''" by code_simp+
  have "unseal key_vault dc_sealed STATE_PURPOSE = Inr (Read (sealed_fields 10 5 (Some ''st'') (''r'', Some ''https://app.example/done'')))"
    by (rule unseal_fields(1) [OF s]) (use pr in auto)
  from open_fields(1) [OF av this refl, of 4000000]
  show "open_return_state key_vault dc_sealed 4000000 = Inr (Read \<lparr>re_domain_id = 10,
    re_redirect_uri = Some ''https://app.example/done'', re_state = Some ''st'', re_expired = False\<rparr>)" by simp
qed

theorem return_is_no_open_redirect_witness:
  "\<exists>t target. domain_connect_return key_vault dc_sealed None 4000000 dc_db = (t, Inr (Redirect target))
    \<and> decided t = decided dc_db \<and> (lifecycle_step dc_cfg)\<^sup>*\<^sup>* dc_db t"
proof -
  have "isl (back_to_application ''https://app.example/done'' (Some ''st'') None) = False" by code_simp
  then obtain target where "back_to_application ''https://app.example/done'' (Some ''st'') None = Inr target"
    by (rule that [OF projr_eq])
  then have r: "domain_connect_return key_vault dc_sealed None 4000000 dc_db = (snd (connect_returned 10 4000000 dc_db), Inr (Redirect target))"
    by (simp add: domain_connect_return_def dc_sealed_opens split_beta)
  note q = return_is_no_open_redirect [OF r, of dc_cfg]
  show ?thesis by (intro exI conjI) (fact r, fact conjunct1 [OF conjunct2 [OF q]], fact conjunct1 [OF q])
qed

end
