(* ===== verification/Discovery.thy ===== *)
theory Discovery
  imports Domain_Connect_Sound Origins
begin

text \<open>
  src/app/dns/domain_connect.py, the discovery of a DNS provider's Domain Connect settings, and the part of
  src/app/services/dns_setup.py that the DNS worker runs: the cache of zones and the counts of setups.
  The exchange with one address is an argument, as in \<open>Origins\<close>; so are name resolution and the
  DNS resolver. JSON the reader does not cover (\<open>Json_Text\<close>), nesting near Python's recursion limit and URLs
  outside ASCII have answers of their own, \<open>Fetch_Beyond\<close> and the like.
\<close>

section \<open>Values taken from an answer\<close>

definition MAX_SETTINGS_BYTES :: int where "MAX_SETTINGS_BYTES = 16 * 1024"
definition MAX_TEMPLATE_BYTES :: int where "MAX_TEMPLATE_BYTES = 64 * 1024"
definition MAX_TEXT :: nat where "MAX_TEXT = 128"
definition MAX_URL :: nat where "MAX_URL = 512"

definition TRANSIENT_CODES :: "string list" where
  "TRANSIENT_CODES = [''dns_timeout'', ''timeout'', ''connection_failed'', ''dns_resolution_failed'',
     ''tls_handshake_failed'', ''settings_unavailable'', ''template_check_failed'']"

definition control :: "char \<Rightarrow> bool" where
  "control c = (let n = of_char c :: int in n < 32 \<or> n = 127)"

definition clean :: "json option \<Rightarrow> nat \<Rightarrow> string option" where
  "clean v limit = (case v of
     Some (JStr t) \<Rightarrow> (let c = take limit (strip (filter (\<lambda>c. \<not> control c) t)) in if c = [] then None else Some c)
   | _ \<Rightarrow> None)"

text \<open>\<open>urlsplit(url).fragment\<close>: no scheme or network location holds a \<open>#\<close>.\<close>

definition url_fragment :: "string \<Rightarrow> string" where
  "url_fragment url = after_sep (CHR ''#'')
     (filter (\<lambda>c. c \<notin> {CHR 0x09, CHR 0x0A, CHR 0x0D}) (lstrip (\<lambda>c. (of_char c :: nat) \<le> 32) url))"

text \<open>An https URL for the default port, with a host and without credentials.\<close>

definition plain_https :: "url_parts \<Rightarrow> bool" where
  "plain_https p = (u_scheme p = ''https'' \<and> is_set (url_hostname (u_netloc p))
     \<and> url_username (u_netloc p) = [] \<and> url_password (u_netloc p) = [])"

definition https_url :: "json option \<Rightarrow> string option" where
  "https_url v = (case v of
     Some (JStr t) \<Rightarrow>
       if length t > MAX_URL \<or> list_ex control t then None
       else (case url_split (strip t) of
           Inl _ \<Rightarrow> None
         | Inr parts \<Rightarrow> (case url_port (u_netloc parts) of
             Inl _ \<Rightarrow> None
           | Inr port \<Rightarrow>
             if \<not> plain_https parts then None
             else if port \<notin> {None, Some 443} \<or> u_query parts \<noteq> [] \<or> url_fragment (strip t) \<noteq> [] then None
             else Some (rstrip (\<lambda>c. c = CHR 0x2F) (strip t))))
   | _ \<Rightarrow> None)"

section \<open>One guarded request\<close>

datatype fetched = Fetched int string | Fetch_Failed string string | Fetch_Raises | Fetch_Beyond

text \<open>
  The exchange with one address: the address, the host name for TLS and the \<open>Host\<close> header, the path and
  the limit on the body.
\<close>

type_synonym getter = "string \<Rightarrow> string \<Rightarrow> string \<Rightarrow> int \<Rightarrow> origin_failure + origin_probe"

text \<open>
  \<open>socket.getaddrinfo\<close> encodes the host with the \<open>idna\<close> codec first, which raises \<open>UnicodeError\<close> for an
  empty label or one of more than 63 characters.
\<close>

definition idna_encodes :: "string \<Rightarrow> bool" where
  "idna_encodes host = (let labels = split_on (CHR ''.'') host in
     list_all (\<lambda>l. l \<noteq> [] \<and> length l < 64) (butlast labels) \<and> length (last labels) < 64)"

definition request_path :: "url_parts \<Rightarrow> string" where
  "request_path p = (if u_path p = [] then ''/'' else u_path p) @ (if u_query p = [] then [] else ''?'' @ u_query p)"

definition guarded_fetch :: "network \<Rightarrow> getter \<Rightarrow> string \<Rightarrow> int \<Rightarrow> fetched" where
  "guarded_fetch N get url max_bytes =
     (if \<not> ascii url then Fetch_Beyond
      else case url_split url of
        Inl _ \<Rightarrow> Fetch_Failed ''url_refused'' ''Not a usable URL''
      | Inr parts \<Rightarrow> (case url_port (u_netloc parts) of
          Inl _ \<Rightarrow> Fetch_Failed ''url_refused'' ''Not a usable URL''
        | Inr port \<Rightarrow>
          if \<not> plain_https parts then Fetch_Failed ''url_refused'' ''Only https URLs without credentials are fetched''
          else if port \<notin> {None, Some 443} then Fetch_Failed ''url_refused'' ''Only the default https port is used''
          else let host = or_empty (url_hostname (u_netloc parts)) in
            if \<not> idna_encodes host then Fetch_Raises
            else (case fetch_token N (\<lambda>a. get a host (request_path parts) max_bytes) host 443 False of
                Inl (code, message) \<Rightarrow> Fetch_Failed code (if code = ''private_address_blocked''
                  then host @ '' resolves to a non-public address; discovery only contacts public addresses'' else message)
              | Inr p \<Rightarrow> Fetched (op_status p) (op_body p))))"

section \<open>Discovery\<close>

definition lower_alnum :: "char \<Rightarrow> bool" where
  "lower_alnum c = (let n = of_char c :: int in 97 \<le> n \<and> n \<le> 122 \<or> is_digit c)"

definition TXT_VALUE :: "string \<Rightarrow> bool" where
  "TXT_VALUE = dollar (\<lambda>s. let host = before_sep (CHR 0x2F) s; path = after_sep (CHR 0x2F) s in
     host \<noteq> [] \<and> length host \<le> 253 \<and> lower_alnum (hd host) \<and> lower_alnum (last host)
     \<and> list_all (\<lambda>c. lower_alnum c \<or> c = CHR ''.'' \<or> c = CHR ''-'') host
     \<and> length path \<le> 200 \<and> list_all (\<lambda>c. alnum c \<or> c \<in> {CHR ''.'', CHR ''_'', CHR ''~'', CHR 0x2F, CHR ''-''}) path)"

fun provider_api_host :: "string list \<Rightarrow> string option" where
  "provider_api_host [] = None"
| "provider_api_host (raw # rest) = (let
     v0 = rstrip (\<lambda>c. c = CHR 0x2F) (strip (strip_chars (\<lambda>c. c = CHR 0x22) (strip raw)));
     v = (if starts_with ''https://'' (lower v0) then drop 8 v0 else v0);
     host = before_sep (CHR 0x2F) v; path = after_sep (CHR 0x2F) v;
     candidate = lower host @ (if path = [] then [] else ''/'' @ path)
   in if TXT_VALUE candidate \<and> CHR ''.'' \<in> set host then Some candidate else provider_api_host rest)"

datatype settings_result = Settings dict | Settings_Failed string string | Settings_Beyond

definition parse_settings :: "string \<Rightarrow> settings_result" where
  "parse_settings body =
     (if length (filter (\<lambda>c. c = CHR ''['' \<or> c = CHR 0x7B) body) > 900 then Settings_Beyond
      else case json_loads body of
        Inl JSONDecodeError \<Rightarrow> Settings_Failed ''settings_invalid'' ''The settings answer is not JSON''
      | Inl _ \<Rightarrow> Settings_Beyond
      | Inr (JObj data) \<Rightarrow>
        (case (clean (dict_get data ''providerId'') MAX_TEXT, https_url (dict_get data ''urlAPI'')) of
           (Some provider_id, Some url_api) \<Rightarrow> Settings ([(''provider_id'', JStr provider_id)]
             @ (case clean (dict_get data ''providerName'') MAX_TEXT of None \<Rightarrow> [] | Some t \<Rightarrow> [(''provider_name'', JStr t)])
             @ (case clean (dict_get data ''providerDisplayName'') MAX_TEXT of None \<Rightarrow> [] | Some t \<Rightarrow> [(''provider_display_name'', JStr t)])
             @ [(''url_api'', JStr url_api)]
             @ (case https_url (dict_get data ''urlSyncUX'') of None \<Rightarrow> [] | Some t \<Rightarrow> [(''url_sync_ux'', JStr t)]))
         | _ \<Rightarrow> Settings_Failed ''settings_invalid'' ''The settings answer lacks providerId or an https urlAPI'')
      | Inr _ \<Rightarrow> Settings_Failed ''settings_invalid'' ''The settings answer is not a JSON object'')"

record discovery =
  ds_settings :: "dict option"
  ds_template_supported :: "bool option"
  ds_error_code :: "string option"
  ds_message :: "string option"

definition transient :: "discovery \<Rightarrow> bool" where
  "transient d = (case ds_error_code d of None \<Rightarrow> False | Some c \<Rightarrow> c \<in> set TRANSIENT_CODES)"

datatype discovered = Discovered discovery | Discover_Raises | Discover_Beyond

definition found :: "dict option \<Rightarrow> bool option \<Rightarrow> string option \<Rightarrow> string option \<Rightarrow> discovered" where
  "found settings supported code message = Discovered \<lparr>ds_settings = settings, ds_template_supported = supported,
     ds_error_code = code, ds_message = message\<rparr>"

definition settings_path :: "string \<Rightarrow> string \<Rightarrow> string" where
  "settings_path api_host zone = ''https://'' @ api_host @ ''/v2/'' @ zone @ ''/settings''"

definition template_path :: "string \<Rightarrow> string \<Rightarrow> string \<Rightarrow> string" where
  "template_path url_api provider_id service_id =
     url_api @ ''/v2/domainTemplates/providers/'' @ quote provider_id @ ''/services/'' @ quote service_id"

text \<open>The end of \<open>discover\<close>, once the settings are read.\<close>

definition check_template :: "(string \<Rightarrow> int \<Rightarrow> fetched) \<Rightarrow> dict \<Rightarrow> string option \<Rightarrow> string \<Rightarrow> discovered" where
  "check_template fetch settings provider_id service_id =
     (if \<not> given provider_id then found (Some settings) None None None
      else if \<not> is_set (dict_name settings ''url_sync_ux'')
      then found (Some settings) (Some False) (Some ''settings_invalid'')
        (Some ''The settings answer lacks an https urlSyncUX, so changes cannot be applied'')
      else case fetch (template_path (or_empty (dict_name settings ''url_api'')) (or_empty provider_id) service_id) MAX_TEMPLATE_BYTES of
        Fetch_Raises \<Rightarrow> Discover_Raises
      | Fetch_Beyond \<Rightarrow> Discover_Beyond
      | Fetch_Failed code message \<Rightarrow> found (Some settings) None (Some code) (Some (''Template check failed: '' @ message))
      | Fetched status body \<Rightarrow>
        if 200 \<le> status \<and> status < 300 then found (Some settings) (Some True) None None
        else if status = 404 then found (Some settings) (Some False) (Some ''template_not_supported'')
          (Some ''The provider supports Domain Connect but not this service's template'')
        else if 300 \<le> status \<and> status < 400 then found (Some settings) None (Some ''redirect_refused'')
          (Some (''The template check was redirected (HTTP '' @ str_of_int status @ ''); redirects are not followed''))
        else found (Some settings) None (Some ''template_check_failed'')
          (Some (''The template check returned HTTP '' @ str_of_int status)))"

definition discover :: "resolver \<Rightarrow> (string \<Rightarrow> int \<Rightarrow> fetched) \<Rightarrow> string \<Rightarrow> string option \<Rightarrow> string \<Rightarrow> discovered" where
  "discover R fetch zone provider_id service_id = (let rname = ''_domainconnect.'' @ zone in
     case r_txt R rname of
       Inl (DnsUnavailable exc) \<Rightarrow> found None None (Some ''dns_timeout'') (Some (''TXT lookup for '' @ rname @ '' failed: '' @ exc))
     | x \<Rightarrow> (let txts = (case x of Inl _ \<Rightarrow> [] | Inr vs \<Rightarrow> vs) in
       if txts = [] then found None None (Some ''no_record'') (Some (''No TXT record at '' @ rname))
       else case provider_api_host txts of
         None \<Rightarrow> found None None (Some ''txt_invalid'') (Some (''The TXT record at '' @ rname @ '' does not name a usable host''))
       | Some api_host \<Rightarrow> (case fetch (settings_path api_host zone) MAX_SETTINGS_BYTES of
           Fetch_Raises \<Rightarrow> Discover_Raises
         | Fetch_Beyond \<Rightarrow> Discover_Beyond
         | Fetch_Failed code message \<Rightarrow> found None None (Some code) (Some (''Settings request failed: '' @ message))
         | Fetched status body \<Rightarrow>
           if status = 404 then found None None (Some ''settings_not_found'')
             (Some (''The provider at '' @ api_host @ '' has no Domain Connect settings for '' @ zone))
           else if 300 \<le> status \<and> status < 400 then found None None (Some ''redirect_refused'')
             (Some (''The settings request was redirected (HTTP '' @ str_of_int status @ ''); redirects are not followed''))
           else if status \<noteq> 200 then found None None (Some ''settings_unavailable'')
             (Some (''The settings request returned HTTP '' @ str_of_int status))
           else (case parse_settings body of
               Settings_Beyond \<Rightarrow> Discover_Beyond
             | Settings_Failed code message \<Rightarrow> found None None (Some code) (Some message)
             | Settings settings \<Rightarrow> check_template fetch settings provider_id service_id))))"

section \<open>The cache of zones\<close>

definition ZONE_TTL :: duration where "ZONE_TTL = hours 24"
definition RETRY_TTL :: duration where "RETRY_TTL = hours 1"

definition fresh_zone :: "dns_zone option \<Rightarrow> instant \<Rightarrow> string option \<Rightarrow> bool" where
  "fresh_zone z now template = (case z of None \<Rightarrow> False | Some z \<Rightarrow> z_expires_at z > now \<and> z_template z = template)"

definition identify :: "zone_lookup \<Rightarrow> discovery \<Rightarrow> provider" where
  "identify l d = (let p = provider_for_nameservers (zl_nameservers l) in
     if pr_id p = UNKNOWN then
       (case ds_settings d of
          Some (x # settings) \<Rightarrow> (case provider_for_domain_connect (dict_name (x # settings) ''provider_id'') of
              Some named \<Rightarrow> named | None \<Rightarrow> p)
        | _ \<Rightarrow> p)
     else p)"

text \<open>The columns \<open>_store\<close> writes.\<close>

definition zone_values :: "zone_lookup \<Rightarrow> discovery \<Rightarrow> string option \<Rightarrow> instant \<Rightarrow> dns_zone" where
  "zone_values l d template now = (let
     (code, message) = (if is_set (zl_error_code l) then (zl_error_code l, zl_message l)
       else if ds_error_code d \<notin> {None, Some ''no_record''} then (ds_error_code d, ds_message d) else (None, None));
     text500 = take 500 (or_empty message)
   in \<lparr>z_zone = zl_zone l, z_provider = pr_id (identify l d),
     z_nameservers = (if zl_nameservers l = [] then None else Some (zl_nameservers l)),
     z_domain_connect = ds_settings d, z_template = template,
     z_template_supported = (if given template then ds_template_supported d else None),
     z_error_code = code, z_message = (if text500 = [] then None else Some text500), z_checked_at = now,
     z_expires_at = now + (if zl_transient l \<or> transient d then RETRY_TTL else ZONE_TTL)\<rparr>)"

text \<open>
  \<open>_store\<close> inserts or updates the zone's row. The second attempt of the code, after another worker
  inserted the row first, updates that row, as here.
\<close>

definition store_zone :: "dns_zone \<Rightarrow> db \<Rightarrow> db" where
  "store_zone z s = s\<lparr>zones := (case zone_row s (z_zone z) of
     None \<Rightarrow> zones s @ [z] | Some _ \<Rightarrow> update_row z_zone (z_zone z) (\<lambda>_. z) (zones s))\<rparr>"

datatype refreshed = Zone string | No_Zone | Refresh_Beyond

text \<open>
  \<open>ZoneDetector.refresh\<close>. Its transactions are short: other transactions run before the second look at the
  cache and, while discovery asks the network, before the result is stored.
\<close>

definition detect_zone ::
    "setup_settings \<Rightarrow> resolver \<Rightarrow> (string \<Rightarrow> int \<Rightarrow> fetched) \<Rightarrow> zone_lookup \<Rightarrow> string option \<Rightarrow> string option \<Rightarrow> instant
      \<Rightarrow> (nat \<Rightarrow> db \<Rightarrow> db) \<Rightarrow> db \<Rightarrow> db \<times> refreshed" where
  "detect_zone st R fetch l known_zone template now meanwhile s =
     (if Some (zl_zone l) \<noteq> known_zone \<and> fresh_zone (zone_row s (zl_zone l)) now template then (s, Zone (zl_zone l))
      else let s1 = meanwhile 1 s in
        case discover R fetch (zl_zone l) (if template_provider_id st = [] then None else Some (template_provider_id st)) (template_service_id st) of
          Discover_Raises \<Rightarrow> (s1, No_Zone)
        | Discover_Beyond \<Rightarrow> (s1, Refresh_Beyond)
        | Discovered d \<Rightarrow> (store_zone (zone_values l d template now) s1, Zone (zl_zone l)))"

definition refresh ::
    "config \<Rightarrow> signer_env \<Rightarrow> resolver \<Rightarrow> (string \<Rightarrow> int \<Rightarrow> fetched) \<Rightarrow> string \<Rightarrow> string option \<Rightarrow> instant \<Rightarrow> (nat \<Rightarrow> db \<Rightarrow> db) \<Rightarrow> db
      \<Rightarrow> db \<times> refreshed" where
  "refresh C E R fetch hostname known_zone now meanwhile s = (let
     st = cfg_setup (with_signer C E); template = template_key st
   in case known_zone of
        Some z \<Rightarrow> if fresh_zone (zone_row s z) now template then (s, Zone z)
          else detect_zone st R fetch (find_zone R (cfg_libs C) hostname) known_zone template now meanwhile (meanwhile 0 s)
      | None \<Rightarrow> detect_zone st R fetch (find_zone R (cfg_libs C) hostname) known_zone template now meanwhile (meanwhile 0 s))"

section \<open>Usage counts\<close>

record setup_count =
  sn_provider_id :: "string option"
  sn_provider_name :: "string option"
  sn_method :: "string option"
  sn_domains :: nat
  sn_ready :: nat

definition setup_key :: "setup_settings \<Rightarrow> db \<Rightarrow> domain \<Rightarrow> string option \<times> string option" where
  "setup_key st s d = (case (case d_zone d of None \<Rightarrow> None | Some z \<Rightarrow> zone_row s z) of
     None \<Rightarrow> (None, None)
   | Some z \<Rightarrow> (Some (z_provider z), Some (select_method (Some (z_provider z)) (z_template_supported z) (z_template z) st)))"

definition count_of :: "(string option \<times> string option) \<Rightarrow> (domain \<Rightarrow> string option \<times> string option) \<Rightarrow> domain list \<Rightarrow> setup_count" where
  "count_of k key ds = (let own = filter (\<lambda>d. key d = k) ds in
     \<lparr>sn_provider_id = fst k, sn_provider_name = (if given (fst k) then Some (pr_name (get_provider (fst k))) else None),
      sn_method = snd k, sn_domains = length own, sn_ready = length (filter (\<lambda>d. d_status d = READY) own)\<rparr>)"

text \<open>The order of \<open>rows.sort\<close>: most domains first, then by provider and method, \<open>~\<close> for \<open>None\<close> or empty.\<close>

definition or_tilde :: "string option \<Rightarrow> string" where
  "or_tilde v = (if given v then or_empty v else ''~'')"

definition count_le :: "setup_count \<Rightarrow> setup_count \<Rightarrow> bool" where
  "count_le x y = (sn_domains x > sn_domains y \<or> sn_domains x = sn_domains y
     \<and> (or_tilde (sn_provider_id x) \<noteq> or_tilde (sn_provider_id y) \<and> str_less_eq (or_tilde (sn_provider_id x)) (or_tilde (sn_provider_id y))
        \<or> or_tilde (sn_provider_id x) = or_tilde (sn_provider_id y) \<and> str_less_eq (or_tilde (sn_method x)) (or_tilde (sn_method y))))"

fun insert_count :: "setup_count \<Rightarrow> setup_count list \<Rightarrow> setup_count list" where
  "insert_count x [] = [x]"
| "insert_count x (y # ys) = (if count_le x y then x # y # ys else y # insert_count x ys)"

definition setup_counts :: "setup_settings \<Rightarrow> application option \<Rightarrow> instant option \<Rightarrow> db \<Rightarrow> setup_count list" where
  "setup_counts st application since s = (let
     ds = filter (\<lambda>d. d_deleted_at d = None \<and> (case application of None \<Rightarrow> True | Some a \<Rightarrow> d_application_id d = app_id a)
       \<and> (case since of None \<Rightarrow> True | Some t \<Rightarrow> d_created_at d \<ge> t)) (domains s);
     key = setup_key st s
   in foldr insert_count (map (\<lambda>k. count_of k key ds) (remdups (map key ds))) [])"

end
