(* ===== verification/Discovery_Sound.thy ===== *)
theory Discovery_Sound
  imports Discovery
begin

text \<open>
  What discovery may contact, and what the cache of zones can hold whatever the DNS and the providers answer.
\<close>

section \<open>Where discovery goes\<close>

text \<open>The host and path of a URL, as they are requested.\<close>

definition target :: "string \<Rightarrow> (string \<times> string) option" where
  "target url = (case url_split url of Inl _ \<Rightarrow> None
     | Inr parts \<Rightarrow> Some (or_empty (url_hostname (u_netloc parts)), request_path parts))"

definition public_address :: "network \<Rightarrow> string \<Rightarrow> string \<Rightarrow> bool" where
  "public_address N host a \<longleftrightarrow> (\<exists>infos. getaddrinfo N host 443 = Inr infos \<and> a \<in> set infos \<and> (\<forall>b\<in>set infos. is_global N b))"

lemma resolve_public_only: "resolve N host 443 False = Inr as \<Longrightarrow> a \<in> set as \<Longrightarrow> public_address N host a"
  by (auto simp: resolve_def Let_def public_address_def filter_empty_conv split: sum.splits if_splits)

lemma try_addresses_cong:
  "(\<And>a. a \<in> set as \<Longrightarrow> ex a = ex' a) \<Longrightarrow> try_addresses ex f as = try_addresses ex' f as"
  by (induction as arbitrary: f) (auto split: sum.splits)

lemma fetch_token_cong:
  assumes "\<And>a. public_address N host a \<Longrightarrow> ex a = ex' a"
  shows "fetch_token N ex host 443 False = fetch_token N ex' host 443 False"
proof (cases "resolve N host 443 False")
  case (Inr as)
  with assms resolve_public_only [OF Inr] show ?thesis by (simp add: fetch_token_def cong: try_addresses_cong)
qed (simp add: fetch_token_def)

lemma guarded_fetch_cong:
  assumes "\<And>a host path. target url = Some (host, path) \<Longrightarrow> public_address N host a \<Longrightarrow> get a host path m = get' a host path m"
  shows "guarded_fetch N get url m = guarded_fetch N get' url m"
proof (cases "url_split url")
  case (Inr parts)
  have "fetch_token N (\<lambda>a. get a host (request_path parts) m) host 443 False = fetch_token N (\<lambda>a. get' a host (request_path parts) m) host 443 False"
    if "host = or_empty (url_hostname (u_netloc parts))" for host
    by (rule fetch_token_cong) (rule assms, simp_all add: target_def Inr that)
  then show ?thesis by (simp add: guarded_fetch_def Inr Let_def split: sum.splits)
qed (simp add: guarded_fetch_def)

lemma parse_settingsE:
  assumes "parse_settings body = Settings d"
  obtains data pid api where "clean (dict_get data ''providerId'') MAX_TEXT = Some pid" and "https_url (dict_get data ''urlAPI'') = Some api"
    and "d = [(''provider_id'', JStr pid)]
      @ (case clean (dict_get data ''providerName'') MAX_TEXT of None \<Rightarrow> [] | Some t \<Rightarrow> [(''provider_name'', JStr t)])
      @ (case clean (dict_get data ''providerDisplayName'') MAX_TEXT of None \<Rightarrow> [] | Some t \<Rightarrow> [(''provider_display_name'', JStr t)])
      @ [(''url_api'', JStr api)]
      @ (case https_url (dict_get data ''urlSyncUX'') of None \<Rightarrow> [] | Some t \<Rightarrow> [(''url_sync_ux'', JStr t)])"
proof -
  from assms obtain data where data: "json_loads body = Inr (JObj data)"
    by (auto simp: parse_settings_def split: if_splits sum.splits json_error.splits json.splits)
  let ?c = "clean (dict_get data ''providerId'') MAX_TEXT" and ?u = "https_url (dict_get data ''urlAPI'')"
  from assms data obtain pid where c: "?c = Some pid" by (cases ?c) (simp_all add: parse_settings_def split: if_splits)
  from assms data c obtain api where u: "?u = Some api" by (cases ?u) (simp_all add: parse_settings_def split: if_splits)
  from assms data c u show thesis by (intro that [OF c u]) (simp add: parse_settings_def split: if_splits)
qed

lemma settings_url_api:
  assumes "parse_settings body = Settings d"
  shows "\<exists>v. https_url v = Some (or_empty (dict_name d ''url_api''))"
proof (rule parse_settingsE [OF assms])
  fix data pid api
  assume u: "https_url (dict_get data ''urlAPI'') = Some api" and d: "d = [(''provider_id'', JStr pid)]
      @ (case clean (dict_get data ''providerName'') MAX_TEXT of None \<Rightarrow> [] | Some t \<Rightarrow> [(''provider_name'', JStr t)])
      @ (case clean (dict_get data ''providerDisplayName'') MAX_TEXT of None \<Rightarrow> [] | Some t \<Rightarrow> [(''provider_display_name'', JStr t)])
      @ [(''url_api'', JStr api)]
      @ (case https_url (dict_get data ''urlSyncUX'') of None \<Rightarrow> [] | Some t \<Rightarrow> [(''url_sync_ux'', JStr t)])"
  have "dict_get d ''url_api'' = Some (JStr api)" by (simp add: d dict_get_def split: option.splits)
  then have "or_empty (dict_name d ''url_api'') = api" by (simp add: dict_name_def)
  with u show ?thesis by auto
qed

text \<open>
  The requests discovery may make for a zone: one for the settings, to the host the zone's TXT record names,
  and one for the template, below the https address those settings gave; each with its own limit on the
  body, and only to an address of that host when all of them are public.
\<close>

definition may_contact :: "network \<Rightarrow> resolver \<Rightarrow> string \<Rightarrow> string option \<Rightarrow> string \<Rightarrow> string \<Rightarrow> string \<Rightarrow> string \<Rightarrow> int \<Rightarrow> bool" where
  "may_contact N R zone provider_id service_id a host path m \<longleftrightarrow> public_address N host a
     \<and> (m = MAX_SETTINGS_BYTES \<and> (\<exists>txts api. r_txt R (''_domainconnect.'' @ zone) = Inr txts \<and> provider_api_host txts = Some api
          \<and> target (settings_path api zone) = Some (host, path))
      \<or> m = MAX_TEMPLATE_BYTES \<and> (\<exists>v url_api pid. provider_id = Some pid \<and> pid \<noteq> [] \<and> https_url v = Some url_api
          \<and> target (template_path url_api pid service_id) = Some (host, path)))"

lemma may_contact_template:
  "public_address N host a \<Longrightarrow> https_url v = Some u \<Longrightarrow> target (template_path u pid service_id) = Some (host, path) \<Longrightarrow> pid \<noteq> []
    \<Longrightarrow> may_contact N R zone (Some pid) service_id a host path MAX_TEMPLATE_BYTES"
  unfolding may_contact_def by blast


section \<open>What the cache holds\<close>

text \<open>A stored address: of an https URL with a host, without credentials, query or fragment.\<close>

definition web_url :: "string \<Rightarrow> bool" where
  "web_url t \<longleftrightarrow> length t \<le> MAX_URL \<and> list_all (\<lambda>c. \<not> control c) t
     \<and> (\<exists>u parts. t = rstrip (\<lambda>c. c = CHR 0x2F) u \<and> url_split u = Inr parts \<and> plain_https parts \<and> u_query parts = [] \<and> url_fragment u = [])"

definition clean_text :: "string \<Rightarrow> bool" where
  "clean_text t \<longleftrightarrow> t \<noteq> [] \<and> length t \<le> MAX_TEXT \<and> list_all (\<lambda>c. \<not> control c) t"

fun setting_ok :: "string \<times> json \<Rightarrow> bool" where
  "setting_ok (k, JStr t) = (if k \<in> {''url_api'', ''url_sync_ux''} then web_url t
     else k \<in> {''provider_id'', ''provider_name'', ''provider_display_name''} \<and> clean_text t)"
| "setting_ok (k, _) = False"

definition settings_ok :: "dict \<Rightarrow> bool" where
  "settings_ok d \<longleftrightarrow> distinct (map fst d) \<and> list_all setting_ok d \<and> {''provider_id'', ''url_api''} \<subseteq> fst ` set d"

definition zone_ok :: "dns_zone \<Rightarrow> bool" where
  "zone_ok z \<longleftrightarrow> z_provider z \<in> pr_id ` set PROVIDERS
     \<and> (case z_domain_connect z of None \<Rightarrow> True | Some d \<Rightarrow> settings_ok d)
     \<and> (is_set (z_template_supported z) \<longrightarrow> is_set (z_template z))
     \<and> (z_template_supported z = Some True \<longrightarrow> (\<exists>d u. z_domain_connect z = Some d \<and> dict_name d ''url_sync_ux'' = Some u))
     \<and> z_nameservers z \<noteq> Some []
     \<and> (case z_message z of None \<Rightarrow> True | Some m \<Rightarrow> m \<noteq> [] \<and> length m \<le> 500 \<and> is_set (z_error_code z))
     \<and> z_expires_at z - z_checked_at z \<in> {hours 1, hours 24}"

lemma set_strip: "set (strip t) \<subseteq> set t" "set (rstrip p t) \<subseteq> set t" "length (strip t) \<le> length t" "length (rstrip p t) \<le> length t"
  unfolding strip_chars_def lstrip_def rstrip_def
  by (auto dest!: set_dropWhileD simp: length_dropWhile_le le_trans [OF length_dropWhile_le])

lemma clean_text: "clean v MAX_TEXT = Some t \<Longrightarrow> clean_text t"
proof -
  assume "clean v MAX_TEXT = Some t"
  then obtain u where t: "t = take MAX_TEXT (strip (filter (\<lambda>c. \<not> control c) u))" "t \<noteq> []"
    by (auto simp: clean_def Let_def split: option.splits json.splits if_splits)
  have "set t \<subseteq> set (strip (filter (\<lambda>c. \<not> control c) u))" unfolding t(1) by (rule set_take_subset)
  also have "\<dots> \<subseteq> {c. \<not> control c}" using set_strip(1) [of "filter (\<lambda>c. \<not> control c) u"] by auto
  finally have "list_all (\<lambda>c. \<not> control c) t" by (auto simp: list_all_iff)
  moreover have "length t \<le> MAX_TEXT" by (simp add: t(1))
  ultimately show ?thesis using t(2) by (simp add: clean_text_def)
qed

lemma https_url_web: "https_url v = Some t \<Longrightarrow> web_url t"
proof -
  assume "https_url v = Some t"
  then obtain u parts where u: "length u \<le> MAX_URL" "\<not> list_ex control u" "url_split (strip u) = Inr parts" "plain_https parts"
      "u_query parts = []" "url_fragment (strip u) = []" and t: "t = rstrip (\<lambda>c. c = CHR 0x2F) (strip u)"
    by (auto simp: https_url_def not_less split: option.splits json.splits if_splits sum.splits)
  have "length t \<le> length u" unfolding t by (rule le_trans [OF set_strip(4) set_strip(3)])
  moreover have "set t \<subseteq> set u" unfolding t using set_strip(1,2) by (meson subset_trans)
  ultimately have "length t \<le> MAX_URL" "list_all (\<lambda>c. \<not> control c) t"
    using u(1,2) by (auto simp: list_all_iff list_ex_iff)
  then show ?thesis unfolding web_url_def using u(3-6) t by blast
qed

lemma parse_settings_ok:
  assumes "parse_settings body = Settings d"
  shows "settings_ok d"
proof (rule parse_settingsE [OF assms])
  fix data pid api
  let ?n = "clean (dict_get data ''providerName'') MAX_TEXT" and ?m = "clean (dict_get data ''providerDisplayName'') MAX_TEXT"
  let ?x = "https_url (dict_get data ''urlSyncUX'')"
  assume c: "clean (dict_get data ''providerId'') MAX_TEXT = Some pid" and u: "https_url (dict_get data ''urlAPI'') = Some api"
    and d: "d = [(''provider_id'', JStr pid)] @ (case ?n of None \<Rightarrow> [] | Some t \<Rightarrow> [(''provider_name'', JStr t)])
      @ (case ?m of None \<Rightarrow> [] | Some t \<Rightarrow> [(''provider_display_name'', JStr t)]) @ [(''url_api'', JStr api)]
      @ (case ?x of None \<Rightarrow> [] | Some t \<Rightarrow> [(''url_sync_ux'', JStr t)])"
  have "?n = Some t \<Longrightarrow> clean_text t" "?m = Some t \<Longrightarrow> clean_text t" "?x = Some t \<Longrightarrow> web_url t" for t
    by (auto intro: clean_text https_url_web)
  then show ?thesis unfolding settings_ok_def d using clean_text [OF c] https_url_web [OF u]
    by (cases ?n; cases ?m; cases ?x) simp_all
qed

definition discovery_ok :: "discovery \<Rightarrow> string option \<Rightarrow> bool" where
  "discovery_ok d provider_id \<longleftrightarrow> (case ds_settings d of None \<Rightarrow> True | Some x \<Rightarrow> settings_ok x)
     \<and> (is_set (ds_template_supported d) \<longrightarrow> given provider_id)
     \<and> (ds_template_supported d = Some True \<longrightarrow> (\<exists>x u. ds_settings d = Some x \<and> dict_name x ''url_sync_ux'' = Some u))"

lemma check_template_ok:
  assumes "check_template fetch x provider_id service_id = Discovered d" and "settings_ok x"
  shows "discovery_ok d provider_id"
proof (cases "given provider_id \<and> is_set (dict_name x ''url_sync_ux'')")
  case True
  let ?f = "fetch (template_path (or_empty (dict_name x ''url_api'')) (or_empty provider_id) service_id) MAX_TEMPLATE_BYTES"
  from True assms show ?thesis
    by (cases ?f) (auto simp: check_template_def found_def discovery_ok_def split: if_splits)
qed (use assms in \<open>auto simp: check_template_def found_def discovery_ok_def split: if_splits\<close>)

lemma discover_cases:
  assumes "discover R fetch zone provider_id service_id = Discovered d"
  obtains (nothing) code message where "found None None code message = Discovered d"
    | (settings) body x where "parse_settings body = Settings x" and "check_template fetch x provider_id service_id = Discovered d"
  using assms unfolding discover_def Let_def
  by (simp split: sum.splits dns_error.splits option.splits fetched.splits settings_result.splits if_splits)

lemma discover_ok:
  assumes "discover R fetch zone provider_id service_id = Discovered d"
  shows "discovery_ok d provider_id"
  using assms
proof (cases rule: discover_cases)
  case (nothing code message)
  then show ?thesis by (auto simp: found_def discovery_ok_def)
next
  case (settings body x)
  then show ?thesis by (intro check_template_ok [OF _ parse_settings_ok])
qed

lemma unknown_in: "unknown_provider \<in> set PROVIDERS"
  by (simp add: unknown_provider_def PROVIDERS_def UNKNOWN_def mk_provider_def)

lemma get_provider_in: "get_provider i \<in> set PROVIDERS"
  by (auto simp: get_provider_def unknown_in dest: find_row_Some split: option.splits)

lemma provider_in: "identify l d \<in> set PROVIDERS"
proof -
  have 1: "provider_for_nameservers ns \<in> set PROVIDERS" for ns
    by (simp add: provider_for_nameservers_def unknown_in get_provider_in split: list.splits)
  have 2: "provider_for_domain_connect i = Some p \<Longrightarrow> p \<in> set PROVIDERS" for i p
    by (auto simp: provider_for_domain_connect_def Let_def find_Some_iff split: option.splits list.splits)
  show ?thesis using 1 2 by (auto simp: identify_def Let_def split: option.splits list.splits)
qed

lemma zone_values_ok:
  assumes "discovery_ok d provider_id" and "given provider_id \<longrightarrow> is_set template"
  shows "zone_ok (zone_values l d template now)"
proof -
  have "z_provider (zone_values l d template now) \<in> pr_id ` set PROVIDERS"
    using provider_in by (simp add: zone_values_def Let_def split: prod.splits)
  moreover have "z_expires_at (zone_values l d template now) - z_checked_at (zone_values l d template now) \<in> {hours 1, hours 24}"
    by (simp add: zone_values_def Let_def ZONE_TTL_def RETRY_TTL_def split: prod.splits)
  moreover have "case z_message (zone_values l d template now) of None \<Rightarrow> True
      | Some m \<Rightarrow> m \<noteq> [] \<and> length m \<le> 500 \<and> is_set (z_error_code (zone_values l d template now))"
    by (auto simp: zone_values_def Let_def split: option.splits if_splits prod.splits)
  moreover have "z_nameservers (zone_values l d template now) \<noteq> Some []" "z_template (zone_values l d template now) = template"
    "z_domain_connect (zone_values l d template now) = ds_settings d"
    "z_template_supported (zone_values l d template now) = (if given template then ds_template_supported d else None)"
    by (auto simp: zone_values_def Let_def split: prod.splits)
  ultimately show ?thesis using assms by (auto simp: zone_ok_def discovery_ok_def split: option.splits if_splits)
qed

text \<open>
  The transactions that write zones: a detection stores what it found, and rows are purged.
\<close>

definition provider_wanted :: "setup_settings \<Rightarrow> string option" where
  "provider_wanted st = (if template_provider_id st = [] then None else Some (template_provider_id st))"

inductive zone_step :: "db \<Rightarrow> db \<Rightarrow> bool" where
  store: "discover R fetch (zl_zone l) (provider_wanted st) (template_service_id st) = Discovered d
    \<Longrightarrow> zone_step s (store_zone (zone_values l d (template_key st) now) s)"
| elsewhere: "zones t = filter keep (zones s) \<Longrightarrow> zone_step s t"

definition zones_ok :: "db \<Rightarrow> bool" where
  "zones_ok s \<longleftrightarrow> distinct (map z_zone (zones s)) \<and> list_all zone_ok (zones s)"

lemma store_zone_ok:
  assumes "zones_ok s" and "zone_ok z"
  shows "zones_ok (store_zone z s)" and "zone_row (store_zone z s) (z_zone z) = Some z"
proof -
  have upd: "map z_zone (update_row z_zone (z_zone z) (\<lambda>_. z) zs) = map z_zone zs" for zs by (induction zs) auto
  have "find_row z_zone (z_zone z) zs \<noteq> None \<Longrightarrow> find_row z_zone (z_zone z) (update_row z_zone (z_zone z) (\<lambda>_. z) zs) = Some z" for zs
    by (induction zs) auto
  then show "zone_row (store_zone z s) (z_zone z) = Some z"
    by (auto simp: store_zone_def zone_row_def find_row_append split: option.splits)
  show "zones_ok (store_zone z s)"
  proof (cases "zone_row s (z_zone z)")
    case None
    then have "z_zone z \<notin> z_zone ` set (zones s)" by (simp add: zone_row_def find_row_None)
    with None assms show ?thesis by (simp add: zones_ok_def store_zone_def)
  next
    case (Some y)
    with assms show ?thesis by (auto simp: zones_ok_def store_zone_def upd list_all_iff set_update_row)
  qed
qed

lemma zone_step_ok: "zones_ok s \<Longrightarrow> zone_step s t \<Longrightarrow> zones_ok t"
proof (erule zone_step.cases)
  fix R fetch l st d u now
  assume s: "zones_ok s" "s = u" "t = store_zone (zone_values l d (template_key st) now) u"
    and d: "discover R fetch (zl_zone l) (provider_wanted st) (template_service_id st) = Discovered d"
  have "given (provider_wanted st) \<longrightarrow> is_set (template_key st)" by (simp add: provider_wanted_def template_key_def)
  with s show "zones_ok t" by (auto intro: store_zone_ok(1) zone_values_ok [OF discover_ok [OF d]])
next
  fix t' keep u
  assume "zones_ok s" "s = u" "t = t'" "zones t' = filter keep (zones u)"
  then show "zones_ok t" by (auto simp: zones_ok_def list_all_iff distinct_map_filter)
qed

interpretation zones: invariant_system zone_step zones_ok "\<lambda>s. zones s = []"
  by unfold_locales (blast intro: zone_step_ok, simp add: zones_ok_def)

lemma fresh_store:
  assumes "zones_ok s" and "discover R fetch (zl_zone l) (provider_wanted st) (template_service_id st) = Discovered d"
  shows "fresh_zone (zone_row (store_zone (zone_values l d (template_key st) now) s) (zl_zone l)) now (template_key st)"
proof -
  let ?z = "zone_values l d (template_key st) now"
  have "given (provider_wanted st) \<longrightarrow> is_set (template_key st)" by (simp add: provider_wanted_def template_key_def)
  then have "zone_ok ?z" by (rule zone_values_ok [OF discover_ok [OF assms(2)]])
  moreover have "z_zone ?z = zl_zone l" "z_template ?z = template_key st" "z_checked_at ?z = now"
    by (simp_all add: zone_values_def Let_def split: prod.splits)
  moreover have "0 < hours 1" "0 < hours 24" by code_simp+
  ultimately show ?thesis using store_zone_ok(2) [OF assms(1), of ?z] by (auto simp: fresh_zone_def zone_ok_def)
qed

lemma detect_zone_steps:
  assumes "detect_zone st R fetch l known (template_key st) now meanwhile s = (t, r)" and "\<forall>k u. zone_step\<^sup>*\<^sup>* u (meanwhile k u)" and "zones_ok s"
  shows "zone_step\<^sup>*\<^sup>* s t \<and> (\<forall>z. r = Zone z \<longrightarrow> fresh_zone (zone_row t z) now (template_key st))"
proof (cases "Some (zl_zone l) \<noteq> known \<and> fresh_zone (zone_row s (zl_zone l)) now (template_key st)")
  case True
  with assms(1) show ?thesis by (auto simp: detect_zone_def)
next
  case False
  let ?d = "discover R fetch (zl_zone l) (provider_wanted st) (template_service_id st)"
  have m: "zone_step\<^sup>*\<^sup>* s (meanwhile 1 s)" using assms(2) by blast
  then have ok: "zones_ok (meanwhile 1 s)" by (rule zones.steps_inv) (rule assms(3))
  show ?thesis
  proof (cases ?d)
    case (Discovered d)
    with False assms(1) have t: "t = store_zone (zone_values l d (template_key st) now) (meanwhile 1 s)" "r = Zone (zl_zone l)"
      by (simp_all add: detect_zone_def provider_wanted_def split: if_splits)
    have "zone_step (meanwhile 1 s) t" unfolding t(1) by (rule zone_step.store [OF Discovered])
    with m t fresh_store [OF ok Discovered] show ?thesis by (auto intro: rtranclp.rtrancl_into_rtrancl)
  qed (use False assms(1) m in \<open>auto simp: detect_zone_def provider_wanted_def split: if_splits\<close>)
qed

lemma refresh_steps:
  assumes "refresh C E R fetch hostname known now meanwhile s = (t, r)" and "\<forall>k u. zone_step\<^sup>*\<^sup>* u (meanwhile k u)" and "zones_ok s"
  shows "zone_step\<^sup>*\<^sup>* s t \<and> (\<forall>z. r = Zone z \<longrightarrow> fresh_zone (zone_row t z) now (template_key (cfg_setup (with_signer C E))))"
proof -
  let ?st = "cfg_setup (with_signer C E)"
  have m: "zone_step\<^sup>*\<^sup>* s (meanwhile 0 s)" using assms(2) by blast
  then have ok: "zones_ok (meanwhile 0 s)" by (rule zones.steps_inv) (rule assms(3))
  show ?thesis
  proof (cases "\<exists>z. known = Some z \<and> fresh_zone (zone_row s z) now (template_key ?st)")
    case True
    then have "t = s \<and> (\<forall>z. r = Zone z \<longrightarrow> fresh_zone (zone_row s z) now (template_key ?st))"
      using assms(1) by (auto simp: refresh_def Let_def)
    then show ?thesis by auto
  next
    case False
    then have "detect_zone ?st R fetch (find_zone R (cfg_libs C) hostname) known (template_key ?st) now meanwhile (meanwhile 0 s) = (t, r)"
      using assms(1) by (auto simp: refresh_def Let_def split: option.splits)
    from detect_zone_steps [OF this assms(2) ok] m show ?thesis by auto
  qed
qed

text \<open>
  C26: the cache of zones is well typed, whatever the DNS and the providers answer. After any run of detections and purges, each
  zone has one row; its provider is one of the table; its settings hold only the five known keys, short texts without control
  characters and https addresses without credentials, query or fragment; its message is bounded and comes with
  a code; it expires an hour or a day after it was checked. A refresh that names a zone leaves a fresh row for
  it, and a domain is offered one-step setup only where an address to apply it at is stored.
\<close>

theorem stored_zones_are_well_typed:
  assumes "zones s0 = []" and "zone_step\<^sup>*\<^sup>* s0 s" and "\<forall>k u. zone_step\<^sup>*\<^sup>* u (meanwhile k u)"
    and "refresh C E R fetch hostname known now meanwhile s = (t, r)"
  shows "distinct (map z_zone (zones t)) \<and> (\<forall>z\<in>set (zones t). zone_ok z)
    \<and> (\<forall>z. r = Zone z \<longrightarrow> fresh_zone (zone_row t z) now (template_key (cfg_setup (with_signer C E))))
    \<and> (\<forall>C' d v. domain_setup C' t d = Inr v \<longrightarrow> su_method v = Some DOMAIN_CONNECT \<longrightarrow> is_set (zone_sync_ux t d))"
proof -
  have s: "zones_ok s" by (rule zones.reachable_inv [OF assms(1,2)])
  note step = refresh_steps [OF assms(4,3) s]
  then have t: "zones_ok t" using zones.steps_inv [OF _ s] by blast
  have offered: "is_set (zone_sync_ux t d)" if v: "domain_setup C' t d = Inr v" "su_method v = Some DOMAIN_CONNECT" for C' d v
  proof -
    from v obtain c cs z where z: "d_zone d = Some (c # cs)" "zone_row t (c # cs) = Some z"
      and m: "select_method (Some (z_provider z)) (z_template_supported z) (z_template z) (cfg_setup C') = DOMAIN_CONNECT"
      by (auto simp: domain_setup_def Let_def bind_res_eq_Inr case_prod_unfold split: option.splits list.splits)
    from m have "z_template_supported z = Some True"
      by (auto simp: select_method_def DOMAIN_CONNECT_def GUIDED_def MANUAL_def split: if_splits)
    moreover from z(2) t have "zone_ok z" by (auto simp: zones_ok_def zone_row_def list_all_iff dest: find_row_Some)
    ultimately show ?thesis using z by (auto simp: zone_ok_def zone_sync_ux_def)
  qed
  from t have "distinct (map z_zone (zones t))" "\<forall>z\<in>set (zones t). zone_ok z" by (simp_all add: zones_ok_def list_all_iff)
  with step offered show ?thesis by blast
qed

section \<open>A discovery\<close>

definition dcc_network :: network where
  "dcc_network = \<lparr>getaddrinfo = (\<lambda>host port. Inr [''93.184.216.34'']), is_global = (\<lambda>a. a = ''93.184.216.34'')\<rparr>"

definition dcc_resolver :: resolver where
  "dcc_resolver = \<lparr>r_txt = (\<lambda>name. if name = ''_domainconnect.example.com'' then Inr [''dcc.example.net''] else Inl (DnsNameNotFound name)),
     r_cname = (\<lambda>_. Inr None), r_has_address = (\<lambda>_. Inr False), r_ns = (\<lambda>_. Inr [''ns1.example.net''])\<rparr>"

definition dcc_settings :: string where
  "dcc_settings = [CHR 0x7B, CHR 0x22] @ ''providerId'' @ [CHR 0x22, CHR 0x3A, CHR 0x22] @ ''example.net'' @ [CHR 0x22, CHR 0x2C, CHR 0x22]
     @ ''urlAPI'' @ [CHR 0x22, CHR 0x3A, CHR 0x22] @ ''https://api.example.net'' @ [CHR 0x22, CHR 0x2C, CHR 0x22]
     @ ''urlSyncUX'' @ [CHR 0x22, CHR 0x3A, CHR 0x22] @ ''https://dcc.example.net/x'' @ [CHR 0x22, CHR 0x7D]"

definition dcc_get :: getter where
  "dcc_get a host path m = Inr \<lparr>op_address = a, op_status = 200, op_body = (if m = MAX_SETTINGS_BYTES then dcc_settings else [])\<rparr>"

definition dcc_leak :: getter where
  "dcc_leak a host path m = (if a = ''93.184.216.34'' then dcc_get a host path m else Inr \<lparr>op_address = a, op_status = 200, op_body = ''secret''\<rparr>)"

definition dcc_fetch :: "string \<Rightarrow> int \<Rightarrow> fetched" where
  "dcc_fetch = guarded_fetch dcc_network dcc_get"


definition dcc_env :: signer_env where
  "dcc_env = \<lparr>se_settings = \<lparr>sg_signer = None, sg_private_key = None, sg_key_host = None, sg_url = None, sg_credential = None,
     sg_return_url = None\<rparr>, se_row = None\<rparr>"

definition dcc_cfg :: config where
  "dcc_cfg = demo_cfg\<lparr>cfg_setup := (cfg_setup demo_cfg)\<lparr>template_provider_id := ''acme.io'', template_service_id := ''hostname''\<rparr>\<rparr>"

theorem stored_zones_are_well_typed_witness:
  "\<exists>t z. refresh dcc_cfg dcc_env dcc_resolver dcc_fetch ''shop.example.com'' None 7000 (\<lambda>k u. u) demo_ready = (t, Zone z)
    \<and> length (zones t) = 1 \<and> (\<forall>z\<in>set (zones t). zone_ok z)
    \<and> fresh_zone (zone_row t z) 7000 (template_key (cfg_setup (with_signer dcc_cfg dcc_env)))"
proof -
  let ?r = "refresh dcc_cfg dcc_env dcc_resolver dcc_fetch ''shop.example.com'' None 7000 (\<lambda>k u. u) demo_ready"
  have "case ?r of (t, Zone z) \<Rightarrow> length (zones t) = 1 | _ \<Rightarrow> False" by code_simp
  then obtain t z where r: "?r = (t, Zone z)" "length (zones t) = 1" by (cases ?r; cases "snd ?r") auto
  have "zones demo_ready = []" by code_simp
  from stored_zones_are_well_typed [OF this rtranclp.rtrancl_refl _ r(1)] r show ?thesis by auto
qed

section \<open>Two addresses\<close>

text \<open>An address that ends in an empty query passes, so an apply URL built from it has two question marks.\<close>

lemma empty_query_accepted:
  "https_url (Some (JStr ''https://dcc.example/x?'')) = Some ''https://dcc.example/x?''"
  by code_simp

text \<open>A TXT value with an empty label passes, and looking that host up raises.\<close>

lemma empty_label_raises:
  "provider_api_host [''api..example.net''] = Some ''api..example.net''
    \<and> guarded_fetch N get (settings_path ''api..example.net'' ''example.com'') m = Fetch_Raises"
proof
  show "provider_api_host [''api..example.net''] = Some ''api..example.net''" by code_simp
  let ?u = "settings_path ''api..example.net'' ''example.com''"
  have "ascii ?u \<and> (case url_split ?u of Inl _ \<Rightarrow> False | Inr parts \<Rightarrow> url_port (u_netloc parts) = Inr None \<and> plain_https parts
      \<and> \<not> idna_encodes (or_empty (url_hostname (u_netloc parts))))" by code_simp
  then show "guarded_fetch N get ?u m = Fetch_Raises"
    by (auto simp: guarded_fetch_def Let_def split: sum.splits)
qed

section \<open>Counting setups\<close>

lemma sum_by_key:
  "sum_list (map (\<lambda>k. length (filter (\<lambda>d. key d = k) ds)) (remdups (map key ds))) = length ds"
proof -
  have "sum_list (map (\<lambda>k. length (filter (\<lambda>d. key d = k) ds)) (remdups (map key ds)))
      = (\<Sum>k\<in>key ` set ds. length (filter (\<lambda>d. key d = k) ds))"
    by (subst sum_list_distinct_conv_sum_set) simp_all
  also have "\<dots> = length ds"
  proof -
    have "(\<Sum>k\<in>K. length (filter (\<lambda>d. key d = k) ds)) = length ds" if "finite K" "key ` set ds \<subseteq> K" for K
      using that(2)
    proof (induction ds)
      case (Cons d ds)
      have "length (filter (\<lambda>x. key x = k) (d # ds)) = (if key d = k then 1 else 0) + length (filter (\<lambda>x. key x = k) ds)" for k by simp
      with Cons that(1) show ?case by (simp only: sum.distrib) simp
    qed simp
    then show ?thesis by simp
  qed
  finally show ?thesis .
qed

text \<open>Every live domain is counted once: the counts add up to the domains listed.\<close>

lemma setup_counts_add_up:
  "sum_list (map sn_domains (setup_counts st application since s))
    = length (filter (\<lambda>d. d_deleted_at d = None \<and> (case application of None \<Rightarrow> True | Some a \<Rightarrow> d_application_id d = app_id a)
        \<and> (case since of None \<Rightarrow> True | Some t \<Rightarrow> d_created_at d \<ge> t)) (domains s))"
proof -
  have ins: "sum_list (map sn_domains (foldr insert_count xs [])) = sum_list (map sn_domains xs)" for xs
  proof -
    have "sum_list (map sn_domains (insert_count x ys)) = sn_domains x + sum_list (map sn_domains ys)" for x ys
      by (induction ys) auto
    then show ?thesis by (induction xs) auto
  qed
  show ?thesis
    unfolding setup_counts_def Let_def ins by (simp add: count_of_def Let_def comp_def sum_by_key del: filter_filter)
qed

end
