(* ===== verification/Env_Settings.thy ===== *)
theory Env_Settings
  imports Domain_Connect_Sound
begin

text \<open>
  The Domain Connect settings a deployment reads from its environment, src/app/dns/settings.py: the template and
  guide of \<open>SetupSettings\<close> and the signer of \<open>SignerSettings\<close>. The environment and the
  reading of the key file are arguments. What is accepted at start can sign.
\<close>

type_synonym environ = "string \<Rightarrow> string option"

definition env_get :: "environ \<Rightarrow> string \<Rightarrow> string" where
  "env_get env name = strip (or_empty (env name))"

definition or_None :: "string \<Rightarrow> string option" where
  "or_None t = (if t = [] then None else Some t)"

definition SIGNERS :: "string list" where "SIGNERS = [''local'', ''remote'']"

text \<open>The key of a local signer, from the variable or from the file it names; the file's text or the reason it cannot be read.\<close>

definition local_key_text :: "(string \<Rightarrow> string + string) \<Rightarrow> environ \<Rightarrow> error + string" where
  "local_key_text read_file env = (let
     key = env_get env ''DOMAIN_CONNECT_PRIVATE_KEY''; key_file = env_get env ''DOMAIN_CONNECT_PRIVATE_KEY_FILE''
   in if key \<noteq> [] \<and> key_file \<noteq> []
      then Inl (ValueError ''Set DOMAIN_CONNECT_PRIVATE_KEY or DOMAIN_CONNECT_PRIVATE_KEY_FILE, not both'')
      else bind_res (if key_file = [] then Inr key
          else (case read_file key_file of
              Inl why \<Rightarrow> Inl (ValueError (''DOMAIN_CONNECT_PRIVATE_KEY_FILE cannot be read ('' @ why @ '')''))
            | Inr t \<Rightarrow> Inr (strip t))) (\<lambda>k.
        if k = [] then Inl (ValueError ''DOMAIN_CONNECT_SIGNER=local needs DOMAIN_CONNECT_PRIVATE_KEY or DOMAIN_CONNECT_PRIVATE_KEY_FILE'')
        else Inr k))"

definition no_signer :: "string option \<Rightarrow> signer_settings" where
  "no_signer return_url = \<lparr>sg_signer = None, sg_private_key = None, sg_key_host = None, sg_url = None, sg_credential = None,
     sg_return_url = return_url\<rparr>"

definition signer_name :: "environ \<Rightarrow> string option" where
  "signer_name env = (let named = or_None (lower (env_get env ''DOMAIN_CONNECT_SIGNER'')) in
     if named = Some ''none'' then None else named)"

definition signer_from_env :: "rsa \<Rightarrow> (string \<Rightarrow> string + string) \<Rightarrow> environ \<Rightarrow> error + signer_settings" where
  "signer_from_env R read_file env = (let
     signer = signer_name env;
     return_url = or_None (env_get env ''DOMAIN_CONNECT_RETURN_URL'')
   in if (case signer of None \<Rightarrow> False | Some x \<Rightarrow> x \<notin> set SIGNERS)
      then Inl (ValueError ''DOMAIN_CONNECT_SIGNER must be local, remote or none'')
      else if (case return_url of None \<Rightarrow> False | Some u \<Rightarrow> is_set (https_url_problem u))
      then Inl (ValueError ''DOMAIN_CONNECT_RETURN_URL must be an https URL'')
      else if signer = Some ''local'' then
        bind_res (local_key_text read_file env) (\<lambda>key.
        let key_host = or_None (env_get env ''DOMAIN_CONNECT_KEY_HOST'') in
        bind_res (parse_private_keys R key key_host) (\<lambda>_.
        Inr ((no_signer return_url)\<lparr>sg_signer := signer, sg_private_key := Some key, sg_key_host := key_host\<rparr>)))
      else if signer = Some ''remote'' then
        (let url = env_get env ''DOMAIN_CONNECT_SIGNER_URL''; credential = env_get env ''DOMAIN_CONNECT_SIGNER_CREDENTIAL'' in
         if url = [] \<or> is_set (https_url_problem url)
         then Inl (ValueError ''DOMAIN_CONNECT_SIGNER=remote needs an https DOMAIN_CONNECT_SIGNER_URL'')
         else if \<not> CREDENTIAL credential
         then Inl (ValueError ''DOMAIN_CONNECT_SIGNER=remote needs DOMAIN_CONNECT_SIGNER_CREDENTIAL (dcs_ followed by 43 characters)'')
         else Inr ((no_signer return_url)\<lparr>sg_signer := signer, sg_url := Some url, sg_credential := Some credential\<rparr>))
      else Inr (no_signer return_url))"

definition DEFAULT_GUIDE_URL :: string where
  "DEFAULT_GUIDE_URL = ''https://github.com/sireto/custom-domain/blob/main/docs/dns-guides/{provider}.md''"

definition id_ok :: "string \<Rightarrow> bool" where
  "id_ok v = (length v \<le> 64 \<and> \<not> list_ex (\<lambda>c. py_space c \<or> c = CHR 0x2F) v)"

definition bad_id :: "string \<Rightarrow> error" where
  "bad_id name = ValueError (''DOMAIN_CONNECT_'' @ name @ '' must be at most 64 characters, without spaces or slashes'')"

text \<open>\<open>sub in s\<close> for a non-empty \<open>sub\<close>.\<close>

fun str_contains :: "string \<Rightarrow> string \<Rightarrow> bool" where
  "str_contains sub [] = (sub = [])"
| "str_contains sub (c # cs) = (starts_with sub (c # cs) \<or> str_contains sub cs)"

definition setup_from_env :: "rsa \<Rightarrow> (string \<Rightarrow> string + string) \<Rightarrow> environ \<Rightarrow> error + setup_settings" where
  "setup_from_env R read_file env = (let
     provider_id = env_get env ''DOMAIN_CONNECT_PROVIDER_ID'';
     service0 = env_get env ''DOMAIN_CONNECT_SERVICE_ID'';
     service_id = (if service0 = [] then ''hostname'' else service0);
     guide0 = env_get env ''DNS_GUIDE_URL'';
     guide = (if guide0 = [] then DEFAULT_GUIDE_URL else guide0)
   in if \<not> id_ok provider_id then Inl (bad_id ''PROVIDER_ID'')
      else if \<not> id_ok service_id then Inl (bad_id ''SERVICE_ID'')
      else if \<not> (starts_with ''https://'' guide \<or> starts_with ''http://'' guide) \<or> \<not> str_contains ''{provider}'' guide
      then Inl (ValueError ''DNS_GUIDE_URL must be an http(s) URL containing {provider}'')
      else bind_res (if provider_id = [] then Inr False
          else bind_res (signer_from_env R read_file env) (\<lambda>sg. Inr (settings_enabled sg))) (\<lambda>enabled.
        Inr \<lparr>template_provider_id = provider_id, template_service_id = service_id, signing_enabled = enabled, guide_url = guide\<rparr>))"

section \<open>What starts can sign\<close>

lemma signer_from_envE:
  assumes "signer_from_env R read_file env = Inr sg"
  obtains (off) "sg_signer sg = None" "\<not> settings_enabled sg"
    | (local) key keys where "sg_signer sg = Some ''local''" "sg_private_key sg = Some key" "key \<noteq> []"
        "parse_private_keys R key (sg_key_host sg) = Inr keys" "settings_enabled sg"
    | (remote) url credential where "sg_signer sg = Some ''remote''" "sg_url sg = Some url" "sg_credential sg = Some credential"
        "https_url_problem url = None" "CREDENTIAL credential" "settings_enabled sg"
proof -
  have len: "CREDENTIAL c \<Longrightarrow> c \<noteq> []" for c by (auto simp: CREDENTIAL_def dollar_def)
  have named: "signer_name env = None \<or> signer_name env = Some ''local'' \<or> signer_name env = Some ''remote''"
    using assms by (cases "signer_name env") (simp_all add: signer_from_env_def Let_def SIGNERS_def split: if_splits)
  then show thesis
  proof (elim disjE)
    assume n: "signer_name env = None"
    from assms obtain u where "sg = no_signer u" by (auto simp: signer_from_env_def Let_def n split: if_splits)
    then show thesis by (intro off) (simp_all add: no_signer_def settings_enabled_def)
  next
    assume n: "signer_name env = Some ''local''"
    from assms obtain key keys u h where "local_key_text read_file env = Inr key" and p: "parse_private_keys R key h = Inr keys"
      and sg: "sg = (no_signer u)\<lparr>sg_signer := Some ''local'', sg_private_key := Some key, sg_key_host := h\<rparr>"
      by (auto simp: signer_from_env_def Let_def n bind_res_eq_Inr split: if_splits)
    then have "key \<noteq> []" by (auto simp: local_key_text_def Let_def bind_res_eq_Inr split: if_splits)
    with p show thesis by (intro local) (auto simp: sg settings_enabled_def neq_Nil_conv)
  next
    assume n: "signer_name env = Some ''remote''"
    from assms obtain url credential u where c: "url \<noteq> []" "https_url_problem url = None" "CREDENTIAL credential"
      and sg: "sg = (no_signer u)\<lparr>sg_signer := Some ''remote'', sg_url := Some url, sg_credential := Some credential\<rparr>"
      by (auto simp: signer_from_env_def Let_def n split: if_splits)
    with len [OF c(3)] show thesis by (intro remote) (auto simp: sg settings_enabled_def neq_Nil_conv)
  qed
qed

text \<open>
  A deployment that starts with signing enabled and no operator's signer always has its signer: making it
  never fails, and a remote one has an https address and a well-formed credential.
\<close>

lemma enabled_settings_make_a_signer:
  assumes "setup_from_env R read_file env = Inr st" and "signing_enabled st" and "signer_from_env R read_file env = Inr sg"
  shows "\<exists>x. make_signer V R (signer_config_of st sg None) = Inr x
    \<and> (\<forall>rs. x = Remote rs \<longrightarrow> https_url_problem (rs_url rs) = None \<and> CREDENTIAL (rs_credential rs) \<and> rs_provider_id rs \<noteq> [])"
proof -
  have en: "settings_enabled sg" and pid: "template_provider_id st \<noteq> []"
    using assms by (auto simp: setup_from_env_def Let_def bind_res_eq_Inr split: if_splits)
  from assms(3) show ?thesis
  proof (cases rule: signer_from_envE)
    case off
    with en show ?thesis by simp
  next
    case (local key keys)
    then show ?thesis by (auto simp: make_signer_def signer_config_of_def Let_def neq_Nil_conv)
  next
    case (remote url credential)
    with pid show ?thesis by (simp add: make_signer_def signer_config_of_def Let_def)
  qed
qed

end
