(* ===== verification/Sdk_Client.thy ===== *)
theory Sdk_Client
  imports Connect_Sessions
begin

text \<open>
  The Python SDK of the v1 API: \<open>src/sdk/custom_domain/errors.py\<close> and \<open>client.py\<close>. The HTTP library
  (\<open>httpx\<close>) is an argument: one call takes a request and a world to an answer or a
  failure and the world after it, and \<open>sleep\<close> passes time in the world. The data classes the
  methods return keep the fields of the answer, which is returned here as it is. The last section is the
  service the client talks to.
\<close>

section \<open>Errors\<close>

datatype api_error_class =
    AuthenticationError | PermissionDeniedError | CredentialReadOnlyError | NotFoundError | ConflictError
  | DomainConnectUnavailableError | ConnectPageUnavailableError | ValidationError | RateLimitedError | ServerError | ApiError

record api_error =
  ae_class :: api_error_class
  ae_status :: int
  ae_code :: json
  ae_message :: json
  ae_details :: json
  ae_retry_after :: int

text \<open>What a method raises: an \<open>ApiError\<close>, a \<open>TransportError\<close>, or an exception of Python.\<close>

datatype sdk_error = Sdk_Api api_error | TransportError string | Sdk_Raises string

text \<open>The truth value Python gives to a JSON value.\<close>

fun truthy :: "json \<Rightarrow> bool" where
  "truthy JNull = False"
| "truthy (JBool b) = b"
| "truthy (JInt n) = (n \<noteq> 0)"
| "truthy (JStr t) = (t \<noteq> [])"
| "truthy (JTime t) = True"
| "truthy (JList xs) = (xs \<noteq> [])"
| "truthy (JObj d) = (d \<noteq> [])"

definition error_class :: "int \<Rightarrow> json \<Rightarrow> api_error_class" where
  "error_class status code =
     (if status = 401 then AuthenticationError
      else if status = 403 then
        (if code = JStr ''credential_read_only'' then CredentialReadOnlyError else PermissionDeniedError)
      else if status = 404 then NotFoundError
      else if status = 409 then
        (if code = JStr ''domain_connect_unavailable'' then DomainConnectUnavailableError
         else if code = JStr ''connect_page_unavailable'' then ConnectPageUnavailableError
         else ConflictError)
      else if status = 422 then ValidationError
      else if status = 429 then RateLimitedError
      else if status \<ge> 500 then ServerError
      else ApiError)"

definition error_for :: "int \<Rightarrow> json \<Rightarrow> json \<Rightarrow> json option \<Rightarrow> int option \<Rightarrow> api_error" where
  "error_for status code message details wait = \<lparr>ae_class = error_class status code, ae_status = status,
     ae_code = code, ae_message = message,
     ae_details = (case details of Some v \<Rightarrow> if truthy v then v else JObj [] | None \<Rightarrow> JObj []),
     ae_retry_after = (case wait of Some n \<Rightarrow> if n = 0 then 1 else n | None \<Rightarrow> 1)\<rparr>"

section \<open>Requests\<close>

record http_request =
  hq_method :: string
  hq_path :: string
  hq_json :: "json option"
  hq_params :: "(string \<times> string) list"
  hq_headers :: "(string \<times> string) list"

text \<open>
  An answer of \<open>httpx\<close>: \<open>hr_json\<close> is what \<open>response.json()\<close> returns, \<open>None\<close> where it raises
  \<open>ValueError\<close>. \<open>Failed\<close> is an \<open>httpx.HTTPError\<close> with the name of its class and its text.
\<close>

record http_response =
  hr_status :: int
  hr_json :: "json option"
  hr_text :: string
  hr_retry_after :: "string option"

datatype exchange = Answered http_response | Failed string

record client =
  cl_base_url :: string
  cl_credential :: string
  cl_max_retries :: nat

definition make_client :: "string \<Rightarrow> string \<Rightarrow> int \<Rightarrow> sdk_error + client" where
  "make_client base_url credential max_retries =
     (if \<not> starts_with ''cd_'' credential then Inl (Sdk_Raises ''ValueError'')
      else Inr \<lparr>cl_base_url = rstrip (\<lambda>c. c = CHR 0x2F) base_url, cl_credential = credential,
        cl_max_retries = nat (max 0 max_retries)\<rparr>)"

text \<open>\<open>str.isdigit\<close> on Latin-1: the digits and the three superscripts, which \<open>int\<close> refuses.\<close>

definition isdigit :: "string \<Rightarrow> bool" where
  "isdigit t = (t \<noteq> [] \<and> list_all (\<lambda>c. is_digit c \<or> c \<in> {CHR 0xB2, CHR 0xB3, CHR 0xB9}) t)"

text \<open>\<open>_error\<close>: the error an answer stands for, or what reading it raises.\<close>

definition response_error :: "http_response \<Rightarrow> sdk_error + api_error" where
  "response_error r = (let
     body = (case hr_json r of
         None \<Rightarrow> Inr []
       | Some (JObj d) \<Rightarrow> (case dict_get d ''error'' of
             None \<Rightarrow> Inr []
           | Some (JObj b) \<Rightarrow> Inr b
           | Some _ \<Rightarrow> Inl (Sdk_Raises ''AttributeError''))
       | Some _ \<Rightarrow> Inl (Sdk_Raises ''AttributeError''))
   in bind_res body (\<lambda>b.
     bind_res (case hr_retry_after r of
         Some t \<Rightarrow> if isdigit t then (case py_int t of None \<Rightarrow> Inl (Sdk_Raises ''ValueError'') | Some n \<Rightarrow> Inr (Some n)) else Inr None
       | None \<Rightarrow> Inr None) (\<lambda>wait.
     Inr (error_for (hr_status r)
       (case dict_get b ''code'' of None \<Rightarrow> JStr ''http_error'' | Some v \<Rightarrow> v)
       (case dict_get b ''message'' of None \<Rightarrow> JStr (take 200 (hr_text r)) | Some v \<Rightarrow> v)
       (dict_get b ''details'') wait))))"

text \<open>
  The loop of \<open>_request\<close> with the attempts left, the delay in milliseconds and the last error.
\<close>

fun request_loop ::
    "('w \<Rightarrow> exchange \<times> 'w) \<Rightarrow> (int \<Rightarrow> 'w \<Rightarrow> 'w) \<Rightarrow> bool \<Rightarrow> nat \<Rightarrow> int \<Rightarrow> sdk_error option \<Rightarrow> 'w
      \<Rightarrow> (sdk_error + http_response) \<times> 'w" where
  "request_loop call sleep retryable 0 delay last_error w =
     (Inl (case last_error of None \<Rightarrow> Sdk_Raises ''AssertionError'' | Some e \<Rightarrow> e), w)"
| "request_loop call sleep retryable (Suc n) delay last_error w = (case call w of
     (Failed t, w1) \<Rightarrow>
       if n > 0 then request_loop call sleep retryable n (2 * delay) (Some (TransportError t)) (sleep delay w1)
       else request_loop call sleep retryable n delay (Some (TransportError t)) w1
   | (Answered r, w1) \<Rightarrow>
       if hr_status r < 400 then (Inr r, w1)
       else (case response_error r of
           Inl e \<Rightarrow> (Inl e, w1)
         | Inr e \<Rightarrow>
           if \<not> retryable \<or> n = 0 then (Inl (Sdk_Api e), w1)
           else if ae_class e = RateLimitedError
           then request_loop call sleep retryable n delay last_error (sleep (1000 * ae_retry_after e) w1)
           else if hr_status r < 500 then (Inl (Sdk_Api e), w1)
           else request_loop call sleep retryable n (2 * delay) (Some (Sdk_Api e)) (sleep delay w1)))"

definition sdk_request ::
    "(http_request \<Rightarrow> 'w \<Rightarrow> exchange \<times> 'w) \<Rightarrow> (int \<Rightarrow> 'w \<Rightarrow> 'w) \<Rightarrow> client \<Rightarrow> http_request \<Rightarrow> bool \<Rightarrow> 'w
      \<Rightarrow> (sdk_error + http_response) \<times> 'w" where
  "sdk_request http sleep cl q retryable w =
     request_loop (http q) sleep retryable (if retryable then cl_max_retries cl + 1 else 1) 500 None w"

text \<open>A method that returns the JSON of its answer.\<close>

definition answer_json :: "(sdk_error + http_response) \<times> 'w \<Rightarrow> (sdk_error + json) \<times> 'w" where
  "answer_json x = (bind_res (fst x) (\<lambda>r. case hr_json r of None \<Rightarrow> Inl (Sdk_Raises ''ValueError'') | Some v \<Rightarrow> Inr v), snd x)"

definition plain :: "string \<Rightarrow> string \<Rightarrow> http_request" where
  "plain meth path = \<lparr>hq_method = meth, hq_path = path, hq_json = None, hq_params = [], hq_headers = []\<rparr>"
section \<open>The methods\<close>

text \<open>Each method as the request it sends and whether it may be repeated.\<close>

definition create_domain_call :: "string \<Rightarrow> string \<Rightarrow> dict option \<Rightarrow> string option \<Rightarrow> http_request \<times> bool" where
  "create_domain_call hostname reference metadata idempotency_key = (
     \<lparr>hq_method = ''POST'', hq_path = ''/v1/domains'',
      hq_json = Some (JObj ([(''hostname'', JStr hostname), (''reference'', JStr reference)]
        @ (case metadata of None \<Rightarrow> [] | Some d \<Rightarrow> [(''metadata'', JObj d)]))),
      hq_params = [],
      hq_headers = (case idempotency_key of Some (c # k) \<Rightarrow> [(''Idempotency-Key'', c # k)] | _ \<Rightarrow> [])\<rparr>,
     is_set idempotency_key)"

definition get_domain_call :: "string \<Rightarrow> bool \<Rightarrow> http_request \<times> bool" where
  "get_domain_call i include_deleted = ((plain ''GET'' (''/v1/domains/'' @ i))
     \<lparr>hq_params := if include_deleted then [(''include_deleted'', ''true'')] else []\<rparr>, True)"

definition list_domains_call :: "string option \<Rightarrow> string option \<Rightarrow> bool \<Rightarrow> int \<Rightarrow> int \<Rightarrow> http_request \<times> bool" where
  "list_domains_call reference status include_deleted limit offset = ((plain ''GET'' ''/v1/domains'')
     \<lparr>hq_params := [(''limit'', str_of_int limit), (''offset'', str_of_int offset)]
       @ (case reference of None \<Rightarrow> [] | Some r \<Rightarrow> [(''reference'', r)])
       @ (case status of None \<Rightarrow> [] | Some t \<Rightarrow> [(''status'', t)])
       @ (if include_deleted then [(''include_deleted'', ''true'')] else [])\<rparr>, True)"

definition request_recheck_call :: "string \<Rightarrow> http_request \<times> bool" where
  "request_recheck_call i = (plain ''POST'' (''/v1/domains/'' @ i @ ''/checks''), False)"

text \<open>A field of a body that is left out where it is \<open>None\<close>.\<close>

definition field_if :: "string \<Rightarrow> ('a \<Rightarrow> json) \<Rightarrow> 'a option \<Rightarrow> dict" where
  "field_if k f x = (case x of None \<Rightarrow> [] | Some v \<Rightarrow> [(k, f v)])"

definition connect_url_call :: "string \<Rightarrow> string option \<Rightarrow> string option \<Rightarrow> http_request \<times> bool" where
  "connect_url_call i redirect_uri state = ((plain ''POST'' (''/v1/domains/'' @ i @ ''/connect''))
     \<lparr>hq_json := Some (JObj (field_if ''redirect_uri'' JStr redirect_uri @ field_if ''state'' JStr state))\<rparr>, False)"

definition connect_session_call :: "string \<Rightarrow> int option \<Rightarrow> string option \<Rightarrow> string option \<Rightarrow> http_request \<times> bool" where
  "connect_session_call i ttl_seconds name return_url = ((plain ''POST'' (''/v1/domains/'' @ i @ ''/connect-session''))
     \<lparr>hq_json := Some (JObj (field_if ''ttl_seconds'' JInt ttl_seconds @ field_if ''app_name'' JStr name
       @ field_if ''return_url'' JStr return_url))\<rparr>, False)"

definition revoke_connect_session_call :: "string \<Rightarrow> string \<Rightarrow> http_request \<times> bool" where
  "revoke_connect_session_call i session_id = (plain ''DELETE'' (''/v1/domains/'' @ i @ ''/connect-session/'' @ session_id), True)"

definition delete_domain_call :: "string \<Rightarrow> http_request \<times> bool" where
  "delete_domain_call i = (plain ''DELETE'' (''/v1/domains/'' @ i), True)"

definition create_webhook_call :: "string \<Rightarrow> string list \<Rightarrow> http_request \<times> bool" where
  "create_webhook_call url evs = ((plain ''POST'' ''/v1/webhooks'')
     \<lparr>hq_json := Some (JObj [(''url'', JStr url), (''events'', JList (map JStr evs))])\<rparr>, False)"

definition list_webhooks_call :: "http_request \<times> bool" where
  "list_webhooks_call = (plain ''GET'' ''/v1/webhooks'', True)"

definition revoke_webhook_call :: "string \<Rightarrow> http_request \<times> bool" where
  "revoke_webhook_call i = (plain ''DELETE'' (''/v1/webhooks/'' @ i), True)"

definition rotate_webhook_secret_call :: "string \<Rightarrow> http_request \<times> bool" where
  "rotate_webhook_secret_call i = (plain ''POST'' (''/v1/webhooks/'' @ i @ ''/rotate''), False)"

definition list_deliveries_call :: "string \<Rightarrow> string option \<Rightarrow> int \<Rightarrow> int \<Rightarrow> http_request \<times> bool" where
  "list_deliveries_call i state limit offset = ((plain ''GET'' (''/v1/webhooks/'' @ i @ ''/deliveries''))
     \<lparr>hq_params := [(''limit'', str_of_int limit), (''offset'', str_of_int offset)]
       @ (case state of Some (c # t) \<Rightarrow> [(''state'', c # t)] | _ \<Rightarrow> [])\<rparr>, True)"

definition replay_delivery_call :: "string \<Rightarrow> string \<Rightarrow> http_request \<times> bool" where
  "replay_delivery_call i delivery_id = (plain ''POST'' (''/v1/webhooks/'' @ i @ ''/deliveries/'' @ delivery_id @ ''/replay''), True)"

definition replay_since_call :: "string \<Rightarrow> string \<Rightarrow> http_request \<times> bool" where
  "replay_since_call i since = ((plain ''POST'' (''/v1/webhooks/'' @ i @ ''/replay''))\<lparr>hq_params := [(''since'', since)]\<rparr>, True)"

definition sdk_call ::
    "(http_request \<Rightarrow> 'w \<Rightarrow> exchange \<times> 'w) \<Rightarrow> (int \<Rightarrow> 'w \<Rightarrow> 'w) \<Rightarrow> client \<Rightarrow> http_request \<times> bool \<Rightarrow> 'w
      \<Rightarrow> (sdk_error + json) \<times> 'w" where
  "sdk_call http sleep cl c w = answer_json (sdk_request http sleep cl (fst c) (snd c) w)"

record page =
  pg_items :: "json list"
  pg_limit :: json
  pg_offset :: json
  pg_next_offset :: "int option"

text \<open>
  The page of an answer. A missing field is a \<open>KeyError\<close>; an answer of another shape, which the API never
  gives, is represented by a \<open>TypeError\<close>.
\<close>

definition read_page :: "json \<Rightarrow> sdk_error + page" where
  "read_page v = (case v of
     JObj d \<Rightarrow> (case (dict_get d ''items'', dict_get d ''limit'', dict_get d ''offset'') of
         (Some (JList xs), Some l, Some off) \<Rightarrow> (case dict_get d ''next_offset'' of
             None \<Rightarrow> Inr \<lparr>pg_items = xs, pg_limit = l, pg_offset = off, pg_next_offset = None\<rparr>
           | Some JNull \<Rightarrow> Inr \<lparr>pg_items = xs, pg_limit = l, pg_offset = off, pg_next_offset = None\<rparr>
           | Some (JInt n) \<Rightarrow> Inr \<lparr>pg_items = xs, pg_limit = l, pg_offset = off, pg_next_offset = Some n\<rparr>
           | Some _ \<Rightarrow> Inl (Sdk_Raises ''TypeError''))
       | (Some (JList xs), _, _) \<Rightarrow> Inl (Sdk_Raises ''KeyError'')
       | (None, _, _) \<Rightarrow> Inl (Sdk_Raises ''KeyError'')
       | _ \<Rightarrow> Inl (Sdk_Raises ''TypeError''))
   | _ \<Rightarrow> Inl (Sdk_Raises ''TypeError''))"

definition sdk_list_domains ::
    "(http_request \<Rightarrow> 'w \<Rightarrow> exchange \<times> 'w) \<Rightarrow> (int \<Rightarrow> 'w \<Rightarrow> 'w) \<Rightarrow> client \<Rightarrow> string option \<Rightarrow> string option \<Rightarrow> bool
      \<Rightarrow> int \<Rightarrow> int \<Rightarrow> 'w \<Rightarrow> (sdk_error + page) \<times> 'w" where
  "sdk_list_domains http sleep cl reference status include_deleted limit offset w =
     (let (x, w1) = sdk_call http sleep cl (list_domains_call reference status include_deleted limit offset) w
      in (bind_res x read_page, w1))"

text \<open>
  The generator \<open>iter_domains\<close>, run to its end: what it yields, then the error that ended it, if
  any. A run that never ends is \<open>None\<close>.
\<close>

partial_function (option) iter_loop ::
    "(http_request \<Rightarrow> 'w \<Rightarrow> exchange \<times> 'w) \<Rightarrow> (int \<Rightarrow> 'w \<Rightarrow> 'w) \<Rightarrow> client \<Rightarrow> string option \<Rightarrow> string option \<Rightarrow> int \<Rightarrow> int \<Rightarrow> 'w
      \<Rightarrow> ((json list \<times> sdk_error option) \<times> 'w) option" where
  "iter_loop http sleep cl reference status page_size offset w =
     (case sdk_list_domains http sleep cl reference status False page_size offset w of
        (Inl e, w1) \<Rightarrow> Some (([], Some e), w1)
      | (Inr p, w1) \<Rightarrow> (case pg_next_offset p of
          None \<Rightarrow> Some ((pg_items p, None), w1)
        | Some next_offset \<Rightarrow>
            Option.bind (iter_loop http sleep cl reference status page_size next_offset w1)
              (\<lambda>x. Some ((pg_items p @ fst (fst x), snd (fst x)), snd x))))"

definition iter_domains where
  "iter_domains http sleep cl reference status page_size w = iter_loop http sleep cl reference status page_size 0 w"

section \<open>Serving the client\<close>

text \<open>
  The service behind the client, for an authenticated application: the create and list endpoints with
  the reading of the request that FastAPI does before them. How an error is rendered is an
  argument.
\<close>

definition json_answer :: "int \<Rightarrow> json \<Rightarrow> http_response" where
  "json_answer status v = \<lparr>hr_status = status, hr_json = Some v, hr_text = [], hr_retry_after = None\<rparr>"

definition read_create :: "json \<Rightarrow> domain_create option" where
  "read_create v = (case v of
     JObj d \<Rightarrow> (case (dict_get d ''hostname'', dict_get d ''reference'', dict_get d ''metadata'') of
         (Some (JStr h), Some (JStr r), None) \<Rightarrow> Some \<lparr>dc_hostname = h, dc_reference = r, dc_metadata = None\<rparr>
       | (Some (JStr h), Some (JStr r), Some (JObj m)) \<Rightarrow> Some \<lparr>dc_hostname = h, dc_reference = r, dc_metadata = Some m\<rparr>
       | _ \<Rightarrow> None)
   | _ \<Rightarrow> None)"

definition serve_create ::
    "config \<Rightarrow> (instant \<Rightarrow> string) \<Rightarrow> (error \<Rightarrow> http_response) \<Rightarrow> application \<Rightarrow> http_request \<Rightarrow> instant \<Rightarrow> db \<Rightarrow> db \<times> http_response" where
  "serve_create C fmt render a q now s = (case Option.bind (hq_json q) read_create of
     None \<Rightarrow> (s, json_answer 422 (JObj []))
   | Some p \<Rightarrow> (case api_create_domain C fmt a p (map_of (hq_headers q) ''Idempotency-Key'') now s of
         (t, Inl e) \<Rightarrow> (t, render e)
       | (t, Inr (status, v)) \<Rightarrow> (t, json_answer status v)))"

definition int_param :: "http_request \<Rightarrow> string \<Rightarrow> int \<Rightarrow> int option" where
  "int_param q name fallback = (case map_of (hq_params q) name of None \<Rightarrow> Some fallback | Some t \<Rightarrow> py_int t)"

definition status_of_value :: "string \<Rightarrow> domain_status option" where
  "status_of_value t = find (\<lambda>st. domain_status_value st = t)
     [PENDING_DNS, PROVISIONING, READY, ATTENTION_REQUIRED, SUSPENDED, DELETING]"

definition serve_list :: "config \<Rightarrow> (error \<Rightarrow> http_response) \<Rightarrow> application \<Rightarrow> http_request \<Rightarrow> db \<Rightarrow> http_response" where
  "serve_list C render a q s = (let
     refused = json_answer 422 (JObj []);
     status = (case map_of (hq_params q) ''status'' of None \<Rightarrow> Some None | Some t \<Rightarrow> map_option Some (status_of_value t))
   in case (int_param q ''limit'' 50, int_param q ''offset'' 0, status) of
        (Some limit, Some offset, Some st) \<Rightarrow>
          if \<not> (1 \<le> limit \<and> limit \<le> MAX_PAGE_SIZE \<and> 0 \<le> offset
            \<and> (case map_of (hq_params q) ''reference'' of None \<Rightarrow> True | Some r \<Rightarrow> length r \<le> 255)) then refused
          else (case api_list_domains C a (map_of (hq_params q) ''reference'') st
              (map_of (hq_params q) ''include_deleted'' = Some ''true'') limit offset s of
            Inl e \<Rightarrow> render e
          | Inr (items, next_offset) \<Rightarrow> json_answer 200 (JObj [(''items'', JList items), (''limit'', JInt limit),
              (''offset'', JInt offset), (''next_offset'', jopt JInt next_offset)]))
      | _ \<Rightarrow> refused)"

end
