(* ===== verification/Sdk_Sound.thy ===== *)
theory Sdk_Sound
  imports Sdk_Client
begin

text \<open>
  The client of the SDK and the service together: iterating over all domains, and creating a domain over
  an unreliable network.
\<close>

section \<open>Iterating\<close>

lemma request_loop_Inr:
  "request_loop call sleep retryable n delay e w = (Inr r, w1) \<Longrightarrow> \<exists>w0. call w0 = (Answered r, w1) \<and> hr_status r < 400"
  by (induction n arbitrary: delay e w) (auto split: prod.splits exchange.splits if_splits sum.splits)

lemma sdk_call_Inr:
  assumes "sdk_call http sleep cl c w = (Inr v, w1)"
  obtains w0 r where "http (fst c) w0 = (Answered r, w1)" and "hr_status r < 400" and "hr_json r = Some v"
proof -
  let ?x = "sdk_request http sleep cl (fst c) (snd c) w"
  from assms obtain r where r: "?x = (Inr r, w1)" "hr_json r = Some v"
    by (cases ?x) (auto simp: sdk_call_def answer_json_def bind_res_eq_Inr split: option.splits)
  from request_loop_Inr [OF r(1) [unfolded sdk_request_def]] r(2) that show thesis by blast
qed

lemma res_map_append: "res_map f (xs @ ys) = bind_res (res_map f xs) (\<lambda>us. bind_res (res_map f ys) (\<lambda>vs. Inr (us @ vs)))"
  by (induction xs) (auto simp: bind_res_def split: sum.splits)

lemma int_param_str: "map_of (hq_params q) k = Some (str_of_int n) \<Longrightarrow> \<bar>n\<bar> < 10 ^ 20 \<Longrightarrow> int_param q k d = Some n"
  using py_int_str_of_int [of n 19] by (simp add: int_param_def)

lemma list_params:
  assumes "q = fst (list_domains_call reference status False limit offset)"
  shows "map_of (hq_params q) ''limit'' = Some (str_of_int limit)" "map_of (hq_params q) ''offset'' = Some (str_of_int offset)"
    "map_of (hq_params q) ''reference'' = reference" "map_of (hq_params q) ''status'' = status"
    "map_of (hq_params q) ''include_deleted'' = None"
  by (cases reference; cases status; simp add: assms list_domains_call_def plain_def)+

lemma page_domains_rows:
  assumes "1 \<le> limit" and "limit \<le> MAX_PAGE_SIZE" and "0 \<le> offset"
  shows "page_domains s a reference st False None limit offset
    = (let rows = list_query s a reference st False None in
       (take (nat limit) (drop (nat offset) rows), nat offset + nat limit < length rows))"
  using assms by (auto simp: page_domains_def Let_def clamp_def min_def)

lemma served_page:
  fixes s a reference st limit offset
  defines "rows \<equiv> list_query s a reference st False None"
  assumes "1 \<le> limit" and "limit \<le> MAX_PAGE_SIZE" and "0 \<le> offset" and "offset < 10 ^ 20"
    and "\<forall>e. 400 \<le> hr_status (render e)"
    and "q = fst (list_domains_call reference (map_option domain_status_value st) False limit offset)"
    and "hr_status (serve_list C render a q s) < 400" and "hr_json (serve_list C render a q s) = Some v" and "read_page v = Inr p"
  shows "res_map (domain_resource C s) (take (nat limit) (drop (nat offset) rows)) = Inr (pg_items p)"
    and "pg_next_offset p = (if nat offset + nat limit < length rows then Some (offset + limit) else None)"
proof -
  have st: "status_of_value (domain_status_value x) = Some x" for x
    by (cases x) (simp_all add: status_of_value_def)
  have lim: "int_param q ''limit'' 50 = Some limit"
    by (rule int_param_str [OF list_params(1) [OF assms(7)]]) (use assms(2,3) in \<open>simp add: MAX_PAGE_SIZE_def\<close>)
  have off: "int_param q ''offset'' 0 = Some offset"
    by (rule int_param_str [OF list_params(2) [OF assms(7)]]) (use assms(4,5) in simp)
  have "(case map_of (hq_params q) ''status'' of None \<Rightarrow> Some None | Some t \<Rightarrow> map_option Some (status_of_value t)) = Some st"
    unfolding list_params(4) [OF assms(7)] by (cases st) (simp_all add: st)
  with lim off assms(8) have ok: "\<not> hr_status (serve_list C render a q s) \<ge> 400" by simp
  let ?api = "api_list_domains C a reference st False limit offset s"
  have "serve_list C render a q s = (if (case reference of None \<Rightarrow> True | Some r \<Rightarrow> length r \<le> 255)
      then (case ?api of Inl e \<Rightarrow> render e
        | Inr (items, nxt) \<Rightarrow> json_answer 200 (JObj [(''items'', JList items), (''limit'', JInt limit), (''offset'', JInt offset), (''next_offset'', jopt JInt nxt)]))
      else json_answer 422 (JObj []))"
    using assms(2-4) lim off list_params [OF assms(7)] by (cases st; cases reference) (simp_all add: serve_list_def Let_def st)
  with ok assms(6) obtain items nxt where api: "?api = Inr (items, nxt)"
    and ans: "serve_list C render a q s = json_answer 200 (JObj [(''items'', JList items), (''limit'', JInt limit), (''offset'', JInt offset), (''next_offset'', jopt JInt nxt)])"
    by (cases ?api) (auto simp: json_answer_def split: if_splits)
  from ans assms(9,10) have p: "pg_items p = items" "pg_next_offset p = nxt"
    by (cases nxt; auto simp: json_answer_def read_page_def dict_get_def jopt_def)+
  from api show "res_map (domain_resource C s) (take (nat limit) (drop (nat offset) rows)) = Inr (pg_items p)"
    "pg_next_offset p = (if nat offset + nat limit < length rows then Some (offset + limit) else None)"
    unfolding p by (auto simp: api_list_domains_def page_domains_rows [OF assms(2-4)] Let_def rows_def bind_res_eq_Inr)
qed

text \<open>
  The answers a client may get to its listing: failures and refusals at any time, and pages of one of
  the states in \<open>S\<close>, none of which lists more than \<open>n\<close> domains.
\<close>

definition listing_served where
  "listing_served http C render a reference st S n \<longleftrightarrow>
     (\<forall>q w r w1. http q w = (Answered r, w1) \<longrightarrow> hr_status r < 400 \<longrightarrow> (\<exists>s\<in>S. r = serve_list C render a q s))
     \<and> (\<forall>s\<in>S. length (list_query s a reference st False None) \<le> n) \<and> (\<forall>e. 400 \<le> hr_status (render e))"

lemma listed_page:
  assumes "listing_served http C render a reference st S n" and "1 \<le> limit" and "limit \<le> MAX_PAGE_SIZE" and "0 \<le> offset"
    and "offset < 10 ^ 20"
    and "sdk_list_domains http sleep cl reference (map_option domain_status_value st) False limit offset w = (Inr p, w1)"
  obtains s where "s \<in> S"
    and "res_map (domain_resource C s) (take (nat limit) (drop (nat offset) (list_query s a reference st False None))) = Inr (pg_items p)"
    and "pg_next_offset p = (if nat offset + nat limit < length (list_query s a reference st False None) then Some (offset + limit) else None)"
proof -
  let ?c = "list_domains_call reference (map_option domain_status_value st) False limit offset"
  from assms(6) obtain v where v: "sdk_call http sleep cl ?c w = (Inr v, w1)" "read_page v = Inr p"
    by (auto simp: sdk_list_domains_def bind_res_eq_Inr split: prod.splits)
  obtain w0 r where r: "http (fst ?c) w0 = (Answered r, w1)" "hr_status r < 400" "hr_json r = Some v"
    by (rule sdk_call_Inr [OF v(1)])
  with assms(1) obtain s where s: "s \<in> S" "r = serve_list C render a (fst ?c) s" unfolding listing_served_def by blast
  have render: "\<forall>e. 400 \<le> hr_status (render e)" using assms(1) by (simp add: listing_served_def)
  show thesis
    by (rule that [OF s(1)]) (rule served_page [OF assms(2-5) render refl _ _ v(2)]; use r s(2) in simp)+
qed

lemma iter_loop_ends:
  assumes "listing_served http C render a reference st S n" and "1 \<le> limit" and "limit \<le> MAX_PAGE_SIZE" and "n < 10 ^ 18"
  shows "0 \<le> offset \<Longrightarrow> offset \<le> int n \<Longrightarrow> \<exists>x. iter_loop http sleep cl reference (map_option domain_status_value st) limit offset w = Some x"
proof (induction "nat (int n - offset)" arbitrary: offset w rule: less_induct)
  case less
  let ?l = "sdk_list_domains http sleep cl reference (map_option domain_status_value st) False limit offset w"
  have off: "offset < 10 ^ 20" using less.prems assms(4) by simp
  show ?case
  proof (cases ?l)
    case (Pair x w1)
    show ?thesis
    proof (cases x)
      case (Inl e)
      with Pair show ?thesis by (subst iter_loop.simps) simp
    next
      case (Inr p)
      obtain s where s: "s \<in> S" "pg_next_offset p
          = (if nat offset + nat limit < length (list_query s a reference st False None) then Some (offset + limit) else None)"
        by (rule listed_page [OF assms(1-3) less.prems(1) off Pair [unfolded Inr]])
      show ?thesis
      proof (cases "pg_next_offset p")
        case None
        with Pair Inr show ?thesis by (subst iter_loop.simps) simp
      next
        case (Some k)
        with s assms(1) have "k = offset + limit" "nat offset + nat limit < n"
          by (fastforce simp: listing_served_def split: if_splits)+
        then have "\<exists>x. iter_loop http sleep cl reference (map_option domain_status_value st) limit k w1 = Some x"
          using less.prems assms(2) by (intro less.hyps) auto
        with Pair Inr Some show ?thesis by (subst iter_loop.simps) auto
      qed
    qed
  qed
qed

lemma iter_loop_complete:
  assumes "listing_served http C render a reference st {s} n" and "1 \<le> limit" and "limit \<le> MAX_PAGE_SIZE" and "n < 10 ^ 18"
  shows "0 \<le> offset \<Longrightarrow> offset \<le> int n
    \<Longrightarrow> iter_loop http sleep cl reference (map_option domain_status_value st) limit offset w = Some ((xs, None), w1)
    \<Longrightarrow> res_map (domain_resource C s) (drop (nat offset) (list_query s a reference st False None)) = Inr xs"
proof (induction "nat (int n - offset)" arbitrary: offset w xs rule: less_induct)
  case less
  let ?rows = "list_query s a reference st False None"
  let ?l = "sdk_list_domains http sleep cl reference (map_option domain_status_value st) False limit offset w"
  have off: "offset < 10 ^ 20" using less.prems assms(4) by simp
  from less.prems(3) obtain p w2 where p: "?l = (Inr p, w2)" by (subst (asm) iter_loop.simps) (auto split: prod.splits sum.splits)
  obtain s' where "s' \<in> {s}" and items': "res_map (domain_resource C s') (take (nat limit) (drop (nat offset) (list_query s' a reference st False None))) = Inr (pg_items p)"
    and nxt': "pg_next_offset p = (if nat offset + nat limit < length (list_query s' a reference st False None) then Some (offset + limit) else None)"
    by (rule listed_page [OF assms(1-3) less.prems(1) off p])
  then have items: "res_map (domain_resource C s) (take (nat limit) (drop (nat offset) ?rows)) = Inr (pg_items p)"
    and nxt: "pg_next_offset p = (if nat offset + nat limit < length ?rows then Some (offset + limit) else None)" by simp_all
  show ?case
  proof (cases "nat offset + nat limit < length ?rows")
    case False
    with less.prems(3) p nxt have "xs = pg_items p" by (subst (asm) iter_loop.simps) simp
    with items False show ?thesis by simp
  next
    case True
    with less.prems(3) p nxt obtain ys w3 where ys: "iter_loop http sleep cl reference (map_option domain_status_value st) limit (offset + limit) w2 = Some ((ys, None), w3)"
      "xs = pg_items p @ ys" "w3 = w1"
      by (subst (asm) iter_loop.simps) (auto simp: bind_eq_Some_conv)
    have n: "nat offset + nat limit < n" using True assms(1) by (simp add: listing_served_def)
    have more: "nat (offset + limit) = nat offset + nat limit" using less.prems(1) assms(2) by simp
    have "res_map (domain_resource C s) (drop (nat (offset + limit)) ?rows) = Inr ys"
      using less.prems(1) assms(2) n ys by (intro less.hyps [where w = w2]) auto
    moreover have "drop (nat offset) ?rows = take (nat limit) (drop (nat offset) ?rows) @ drop (nat (offset + limit)) ?rows"
      unfolding more by (metis append_take_drop_id drop_drop add.commute)
    ultimately show ?thesis using items ys(2) by (metis res_map_append bind_res_Inr)
  qed
qed

section \<open>Creating a domain over an unreliable network\<close>

text \<open>
  What becomes of one request: it is lost, or turned away before the endpoint (by a proxy, a
  throttle or a restart), or served at some time, and then its answer arrives or is lost. Before that, others
  change the database.
\<close>

datatype fate = Lost "db \<Rightarrow> db" string | Turned_Away "db \<Rightarrow> db" http_response | Served "db \<Rightarrow> db" instant | Answer_Lost "db \<Rightarrow> db" instant string

record wire =
  wi_db :: db
  wi_fates :: "fate list"
  wi_served :: "(db \<times> db) list"
  wi_sleeps :: "int list"

fun carry :: "(http_request \<Rightarrow> instant \<Rightarrow> db \<Rightarrow> db \<times> http_response) \<Rightarrow> http_request \<Rightarrow> fate list \<Rightarrow> wire \<Rightarrow> exchange \<times> wire" where
  "carry server q [] w = (Failed ''ConnectError: '', w)"
| "carry server q (Lost m t # fs) w = (Failed t, w\<lparr>wi_fates := fs, wi_db := m (wi_db w)\<rparr>)"
| "carry server q (Turned_Away m r # fs) w = (Answered r, w\<lparr>wi_fates := fs, wi_db := m (wi_db w)\<rparr>)"
| "carry server q (Served m at # fs) w = (let s = m (wi_db w); (t, r) = server q at s in
     (Answered r, w\<lparr>wi_fates := fs, wi_db := t, wi_served := wi_served w @ [(s, t)]\<rparr>))"
| "carry server q (Answer_Lost m at e # fs) w = (let s = m (wi_db w); (t, r) = server q at s in
     (Failed e, w\<lparr>wi_fates := fs, wi_db := t, wi_served := wi_served w @ [(s, t)]\<rparr>))"

definition wire_http :: "(http_request \<Rightarrow> instant \<Rightarrow> db \<Rightarrow> db \<times> http_response) \<Rightarrow> http_request \<Rightarrow> wire \<Rightarrow> exchange \<times> wire" where
  "wire_http server q w = carry server q (wi_fates w) w"

definition wire_sleep :: "int \<Rightarrow> wire \<Rightarrow> wire" where
  "wire_sleep ms w = w\<lparr>wi_sleeps := wi_sleeps w @ [ms]\<rparr>"

text \<open>Others leave the key's record alone, and every request arrives within a day of \<open>t0\<close>.\<close>

fun fate_ok :: "application \<Rightarrow> string \<Rightarrow> instant \<Rightarrow> fate \<Rightarrow> bool" where
  "fate_ok a k t0 (Lost m t) \<longleftrightarrow> (\<forall>s. key_row (m s) (app_id a) k = key_row s (app_id a) k)"
| "fate_ok a k t0 (Turned_Away m r) \<longleftrightarrow> 400 \<le> hr_status r \<and> (\<forall>s. key_row (m s) (app_id a) k = key_row s (app_id a) k)"
| "fate_ok a k t0 (Served m at) \<longleftrightarrow> t0 \<le> at \<and> at < t0 + IDEMPOTENCY_TTL \<and> (\<forall>s. key_row (m s) (app_id a) k = key_row s (app_id a) k)"
| "fate_ok a k t0 (Answer_Lost m at e) \<longleftrightarrow> t0 \<le> at \<and> at < t0 + IDEMPOTENCY_TTL \<and> (\<forall>s. key_row (m s) (app_id a) k = key_row s (app_id a) k)"

text \<open>
  The two situations of a key: not used yet, and no request changed anything; or bound to the domain
  \<open>i\<close> that one request created.
\<close>

definition unused :: "application \<Rightarrow> string \<Rightarrow> wire \<Rightarrow> bool" where
  "unused a k w \<longleftrightarrow> key_row (wi_db w) (app_id a) k = None \<and> (\<forall>(s, t)\<in>set (wi_served w). t = s)"

definition bound :: "application \<Rightarrow> string \<Rightarrow> string \<Rightarrow> instant \<Rightarrow> uuid \<Rightarrow> idempotency_key option \<Rightarrow> bool" where
  "bound a k h t0 i r \<longleftrightarrow> (\<exists>kr. r = Some kr \<and> ik_request_hash kr = h \<and> ik_domain_id kr = Some i \<and> t0 + IDEMPOTENCY_TTL \<le> ik_expires_at kr)"

definition adds_domain :: "config \<Rightarrow> application \<Rightarrow> domain_create \<Rightarrow> uuid \<Rightarrow> db \<Rightarrow> db \<Rightarrow> bool" where
  "adds_domain C a p i s t \<longleftrightarrow> (\<exists>d. domains t = domains s @ [d] \<and> d_id d = i \<and> d_application_id d = app_id a
     \<and> canonicalize (cfg_libs C) False (Some (dc_hostname p)) = Inr (d_hostname d) \<and> d_reference d = strip (dc_reference p))"

definition shows_domain :: "config \<Rightarrow> db \<Rightarrow> uuid \<Rightarrow> json \<Rightarrow> bool" where
  "shows_domain C t i v \<longleftrightarrow> (\<exists>d\<in>set (domains t). d_id d = i \<and> domain_resource C t d = Inr v)"

definition created_once :: "config \<Rightarrow> application \<Rightarrow> domain_create \<Rightarrow> string \<Rightarrow> string \<Rightarrow> instant \<Rightarrow> uuid \<Rightarrow> wire \<Rightarrow> bool" where
  "created_once C a p k h t0 i w \<longleftrightarrow> bound a k h t0 i (key_row (wi_db w) (app_id a) k)
     \<and> (\<exists>x s t y. wi_served w = x @ (s, t) # y \<and> (\<forall>(s, t)\<in>set (x @ y). t = s) \<and> adds_domain C a p i s t)"

lemma claim_domain_adds:
  assumes "claim_domain C a (dc_hostname p) (dc_reference p) (dc_metadata p) now s = Inr (i, t)"
  shows "adds_domain C a p i s t"
proof (rule claim_domainE [OF assms])
  fix canonical d u
  assume i: "i = draws s" and c: "canonicalize (cfg_libs C) False (Some (dc_hostname p)) = Inr canonical"
    and d: "d = new_domain C a canonical (dc_reference p) (dc_metadata p) now i"
    and 1: "record_event C i DOMAIN_CREATED (Some [(''hostname'', JStr canonical), (''reference'', JStr (d_reference d))])
       now (with_domain d s) = Inr u" and 2: "issue_claim C i (app_cname_target a) now u = Inr t"
  have keep: "record_event C i et payload now s = Inr t \<Longrightarrow> domains t = domains s" for et payload s t by (erule record_event_effect) simp
  from 2 have "domains t = domains u" by (rule issue_claimE) (simp add: keep)
  with keep [OF 1] c show ?thesis by (simp add: adds_domain_def with_domain_def d new_domain_def)
qed

lemma get_domain_mem: "get_domain s a i True = Inr d \<Longrightarrow> d \<in> set (domains s) \<and> d_id d = i"
  by (auto simp: get_domain_def domain_query_def find_Some_iff split: option.splits)

lemma create_cases:
  assumes "k \<noteq> []" and "api_create_domain C fmt a p (Some k) at s = (t, x)"
    and "t0 \<le> at" and "at < t0 + IDEMPOTENCY_TTL" and "h = fingerprint fmt (payload_json p)"
  shows "key_row s (app_id a) k = None \<Longrightarrow>
      (t = s \<and> isl x) \<or> (\<exists>i. bound a k h t0 i (key_row t (app_id a) k) \<and> adds_domain C a p i s t
        \<and> (\<forall>st v. x = Inr (st, v) \<longrightarrow> shows_domain C t i v))"
    and "bound a k h t0 i (key_row s (app_id a) k) \<Longrightarrow>
      t = s \<and> (\<forall>st v. x = Inr (st, v) \<longrightarrow> shows_domain C t i v)"
proof -
  assume none: "key_row s (app_id a) k = None"
  show "(t = s \<and> isl x) \<or> (\<exists>i. bound a k h t0 i (key_row t (app_id a) k) \<and> adds_domain C a p i s t
        \<and> (\<forall>st v. x = Inr (st, v) \<longrightarrow> shows_domain C t i v))"
  proof (cases "begin_request a k h at s")
    case (Inl e)
    with assms show ?thesis by (auto simp: api_create_domain_def)
  next
    case (Inr b)
    with none obtain kr s1 where b: "b = ((kr, True), s1)" and s1: "domains s1 = domains s"
      by (auto simp: begin_request_def Let_def split: if_splits)
    obtain r where r: "key_row s1 (app_id a) k = Some r" "ik_request_hash r = h" "ik_expires_at r = at + IDEMPOTENCY_TTL"
      using begin_created [OF Inr [unfolded b]] by blast
    let ?c = "claim_domain C a (dc_hostname p) (dc_reference p) (dc_metadata p) at s1"
    have reg: "register_domain C a p (Some k) at s s1 = (t, x)"
      using assms(1,2,5) Inr b by (simp add: api_create_domain_def)
    show ?thesis
    proof (cases ?c)
      case (Inl e)
      with reg show ?thesis by (auto simp: register_domain_def)
    next
      case (Inr y)
      then obtain i s2 where c: "?c = Inr (i, s2)" by (cases y) simp
      with reg have resp: "respond C 201 i (complete a k i s2) = (t, x)" by (simp add: register_domain_def)
      then have t: "t = complete a k i s2" by (metis respond_state fst_conv)
      have "key_row s2 (app_id a) k = Some r" using r(1) claim_domain_keys [OF c] by (simp add: key_row_def)
      then have "key_row t (app_id a) k = Some (r\<lparr>ik_domain_id := Some i\<rparr>)" by (simp add: t complete_def key_row_put_key)
      then have "bound a k h t0 i (key_row t (app_id a) k)" using r assms(3) by (simp add: bound_def)
      moreover have "shows_domain C t i v" if "x = Inr (st, v)" for st v
        using resp that t by (auto simp: shows_domain_def respond_def bind_res_eq_Inr split: option.splits dest!: domain_rowD)
      moreover have "domains t = domains s2" by (simp add: t complete_def put_key_def)
      then have "adds_domain C a p i s t" using claim_domain_adds [OF c] s1 by (simp add: adds_domain_def)
      ultimately show ?thesis by blast
    qed
  qed
next
  assume "bound a k h t0 i (key_row s (app_id a) k)"
  then obtain kr where kr: "key_row s (app_id a) k = Some kr" "ik_request_hash kr = h" "ik_domain_id kr = Some i"
    "t0 + IDEMPOTENCY_TTL \<le> ik_expires_at kr" by (auto simp: bound_def)
  show "t = s \<and> (\<forall>st v. x = Inr (st, v) \<longrightarrow> shows_domain C t i v)"
  proof (cases "length k \<le> MAX_KEY_LENGTH")
    case True
    have "begin_request a k h at s = Inr ((kr, False), s)"
      by (rule begin_repeat [OF kr(1) _ assms(1) True]) (use assms(4) kr(4) in simp)
    with assms(1,2,5) kr show ?thesis
      by (auto simp: api_create_domain_def replay_request_def bind_res_eq_Inr shows_domain_def split: sum.splits dest!: get_domain_mem)
  next
    case False
    with assms(1,2) show ?thesis by (auto simp: api_create_domain_def begin_request_def)
  qed
qed

section \<open>One request\<close>

lemma serve_create_eq:
  assumes "k \<noteq> []"
  shows "serve_create C fmt render a (fst (create_domain_call hostname reference metadata (Some k))) at s
    = (case api_create_domain C fmt a \<lparr>dc_hostname = hostname, dc_reference = reference, dc_metadata = metadata\<rparr> (Some k) at s of
         (t, Inl e) \<Rightarrow> (t, render e) | (t, Inr (status, v)) \<Rightarrow> (t, json_answer status v))"
  using assms by (cases k; cases metadata) (simp_all add: serve_create_def create_domain_call_def read_create_def dict_get_def)

definition settled where
  "settled C a p k h t0 w \<longleftrightarrow> unused a k w \<or> (\<exists>i. created_once C a p k h t0 i w)"

lemma created_once_meanwhile:
  "created_once C a p k h t0 i w \<Longrightarrow> (\<forall>s. key_row (m s) (app_id a) k = key_row s (app_id a) k)
    \<Longrightarrow> created_once C a p k h t0 i (w\<lparr>wi_fates := fs, wi_db := m (wi_db w)\<rparr>)"
  by (simp add: created_once_def)

lemma settled_meanwhile:
  "settled C a p k h t0 w \<Longrightarrow> (\<forall>s. key_row (m s) (app_id a) k = key_row s (app_id a) k)
    \<Longrightarrow> settled C a p k h t0 (w\<lparr>wi_fates := fs, wi_db := m (wi_db w)\<rparr>)"
  by (auto simp: settled_def unused_def intro: created_once_meanwhile)

lemma created_onceI:
  "bound a k h t0 i (key_row (wi_db w) (app_id a) k) \<Longrightarrow> wi_served w = x @ (s, t) # y \<Longrightarrow> (\<forall>(s, t)\<in>set (x @ y). t = s)
    \<Longrightarrow> adds_domain C a p i s t \<Longrightarrow> created_once C a p k h t0 i w"
  unfolding created_once_def by blast

lemma settled_served:
  fixes fs and w :: wire and t
  assumes "settled C a p k h t0 w" and "\<forall>s. key_row (m s) (app_id a) k = key_row s (app_id a) k"
    and "k \<noteq> []" and "h = fingerprint fmt (payload_json p)" and "t0 \<le> at" and "at < t0 + IDEMPOTENCY_TTL"
    and "api_create_domain C fmt a p (Some k) at (m (wi_db w)) = (t, x)"
  defines "w1 \<equiv> w\<lparr>wi_fates := fs, wi_db := t, wi_served := wi_served w @ [(m (wi_db w), t)]\<rparr>"
  shows "settled C a p k h t0 w1" and "x = Inr (st, v) \<Longrightarrow> \<exists>i. created_once C a p k h t0 i w1 \<and> shows_domain C t i v"
proof -
  let ?s = "m (wi_db w)"
  have key: "key_row ?s (app_id a) k = key_row (wi_db w) (app_id a) k" using assms(2) by simp
  note cases = create_cases [OF assms(3,7,5,6,4)]
  consider (unused) "unused a k w" | (created) i where "created_once C a p k h t0 i w" using assms(1) by (auto simp: settled_def)
  then have "settled C a p k h t0 w1 \<and> (x = Inr (st, v) \<longrightarrow> (\<exists>i. created_once C a p k h t0 i w1 \<and> shows_domain C t i v))"
  proof cases
    case unused
    have none: "key_row ?s (app_id a) k = None" using unused key by (simp add: unused_def)
    from cases(1) [OF none] show ?thesis
    proof (elim disjE exE conjE)
      assume "t = ?s" "isl x"
      with unused none show ?thesis by (auto simp: settled_def unused_def w1_def)
    next
      fix i assume "bound a k h t0 i (key_row t (app_id a) k)" "adds_domain C a p i ?s t"
        and sh: "\<forall>st v. x = Inr (st, v) \<longrightarrow> shows_domain C t i v"
      then have "created_once C a p k h t0 i w1"
        using unused by (intro created_onceI [where x = "wi_served w" and y = "[]"]) (simp_all add: w1_def unused_def)
      with sh show ?thesis by (auto simp: settled_def)
    qed
  next
    case (created i)
    then have "bound a k h t0 i (key_row ?s (app_id a) k)" using key by (simp add: created_once_def)
    from cases(2) [OF this] have t: "t = ?s" and sh: "\<forall>st v. x = Inr (st, v) \<longrightarrow> shows_domain C t i v" by blast+
    from created obtain b s' t' y where b: "wi_served w = b @ (s', t') # y" "\<forall>(s, t)\<in>set (b @ y). t = s" "adds_domain C a p i s' t'"
      by (auto simp: created_once_def)
    have "wi_served w1 = b @ (s', t') # y @ [(?s, t)]" by (simp add: w1_def b(1))
    moreover have "\<forall>(s, t)\<in>set (b @ y @ [(?s, t)]). t = s" using b(2) t by auto
    moreover have "bound a k h t0 i (key_row (wi_db w1) (app_id a) k)" using created t key by (simp add: created_once_def w1_def)
    ultimately have "created_once C a p k h t0 i w1" using b(3) by (intro created_onceI)
    with sh show ?thesis by (auto simp: settled_def)
  qed
  then show "settled C a p k h t0 w1" and "x = Inr (st, v) \<Longrightarrow> \<exists>i. created_once C a p k h t0 i w1 \<and> shows_domain C t i v" by auto
qed

lemma wire_step:
  fixes C fmt render a k hostname reference metadata t0
  defines "p \<equiv> \<lparr>dc_hostname = hostname, dc_reference = reference, dc_metadata = metadata\<rparr>"
    and "q \<equiv> fst (create_domain_call hostname reference metadata (Some k))"
  assumes "settled C a p k (fingerprint fmt (payload_json p)) t0 w" and "\<forall>f\<in>set (wi_fates w). fate_ok a k t0 f"
    and "k \<noteq> []" and "\<forall>e. 400 \<le> hr_status (render e)" and "wire_http (serve_create C fmt render a) q w = (x, w1)"
  shows "settled C a p k (fingerprint fmt (payload_json p)) t0 w1" and "\<forall>f\<in>set (wi_fates w1). fate_ok a k t0 f"
    and "length (wi_served w1) \<le> Suc (length (wi_served w))"
    and "x = Answered r \<Longrightarrow> hr_status r < 400 \<Longrightarrow> \<exists>i v. hr_json r = Some v \<and> shows_domain C (wi_db w1) i v
      \<and> created_once C a p k (fingerprint fmt (payload_json p)) t0 i w1"
proof -
  let ?h = "fingerprint fmt (payload_json p)"
  have "settled C a p k ?h t0 w1 \<and> (\<forall>f\<in>set (wi_fates w1). fate_ok a k t0 f) \<and> length (wi_served w1) \<le> Suc (length (wi_served w))
    \<and> (x = Answered r \<longrightarrow> hr_status r < 400 \<longrightarrow> (\<exists>i v. hr_json r = Some v \<and> shows_domain C (wi_db w1) i v \<and> created_once C a p k ?h t0 i w1))"
  proof (cases "wi_fates w")
    case Nil
    with assms(3,4,7) show ?thesis by (auto simp: wire_http_def)
  next
    case (Cons f fs)
    then have fs: "\<forall>f\<in>set fs. fate_ok a k t0 f" and f: "fate_ok a k t0 f" using assms(4) by simp_all
    have served: "settled C a p k ?h t0 (w\<lparr>wi_fates := fs, wi_db := t, wi_served := wi_served w @ [(m (wi_db w), t)]\<rparr>)
        \<and> (y = Inr (st, v) \<longrightarrow> (\<exists>i. created_once C a p k ?h t0 i (w\<lparr>wi_fates := fs, wi_db := t, wi_served := wi_served w @ [(m (wi_db w), t)]\<rparr>)
          \<and> shows_domain C t i v))"
      if "fate_ok a k t0 (Served m at)" "api_create_domain C fmt a p (Some k) at (m (wi_db w)) = (t, y)" for m at t y st v
      using settled_served(1) [where m = m and fs = fs, OF assms(3) _ assms(5) refl _ _ that(2)]
        settled_served(2) [where m = m and st = st and v = v and fs = fs, OF assms(3) _ assms(5) refl _ _ that(2)] that(1) by simp
    show ?thesis
    proof (cases f)
      case (Lost m t)
      with Cons fs f assms(3,7) show ?thesis by (auto simp: wire_http_def intro: settled_meanwhile)
    next
      case (Turned_Away m r')
      with Cons fs f assms(3,7) show ?thesis by (auto simp: wire_http_def intro: settled_meanwhile)
    next
      case (Served m at)
      obtain t y where y: "api_create_domain C fmt a p (Some k) at (m (wi_db w)) = (t, y)" by fastforce
      with Cons Served assms(7) have w1: "w1 = w\<lparr>wi_fates := fs, wi_db := t, wi_served := wi_served w @ [(m (wi_db w), t)]\<rparr>"
        and x: "x = Answered (case y of Inl e \<Rightarrow> render e | Inr (st, v) \<Rightarrow> json_answer st v)"
        by (auto simp: wire_http_def q_def serve_create_eq [OF assms(5)] p_def split: sum.splits prod.splits)
      show ?thesis
      proof (cases y)
        case (Inl e)
        with served [OF f [unfolded Served] y] x w1 fs assms(6) show ?thesis by (auto simp: linorder_not_less [symmetric])
      next
        case (Inr z)
        obtain st v where z: "z = (st, v)" by fastforce
        with served [OF f [unfolded Served] y, where st = st and v = v] x w1 fs Inr show ?thesis by (auto simp: json_answer_def)
      qed
    next
      case (Answer_Lost m at e)
      obtain t y where y: "api_create_domain C fmt a p (Some k) at (m (wi_db w)) = (t, y)" by fastforce
      with Cons Answer_Lost assms(7) have w1: "w1 = w\<lparr>wi_fates := fs, wi_db := t, wi_served := wi_served w @ [(m (wi_db w), t)]\<rparr>"
        and x: "x = Failed e"
        by (auto simp: wire_http_def q_def serve_create_eq [OF assms(5)] p_def split: sum.splits prod.splits)
      have "fate_ok a k t0 (Served m at)" using f Answer_Lost by simp
      from served [OF this y] x w1 fs show ?thesis by auto
    qed
  qed
  then show "settled C a p k ?h t0 w1" and "\<forall>f\<in>set (wi_fates w1). fate_ok a k t0 f" and "length (wi_served w1) \<le> Suc (length (wi_served w))"
    and "x = Answered r \<Longrightarrow> hr_status r < 400 \<Longrightarrow> \<exists>i v. hr_json r = Some v \<and> shows_domain C (wi_db w1) i v \<and> created_once C a p k ?h t0 i w1"
    by auto
qed

lemma request_loop_settled:
  fixes C fmt render a k hostname reference metadata t0
  defines "p \<equiv> \<lparr>dc_hostname = hostname, dc_reference = reference, dc_metadata = metadata\<rparr>"
    and "q \<equiv> fst (create_domain_call hostname reference metadata (Some k))"
  assumes "k \<noteq> []" and "\<forall>e. 400 \<le> hr_status (render e)"
  shows "settled C a p k (fingerprint fmt (payload_json p)) t0 w \<Longrightarrow> \<forall>f\<in>set (wi_fates w). fate_ok a k t0 f
    \<Longrightarrow> request_loop (wire_http (serve_create C fmt render a) q) wire_sleep True n delay err w = (x, w1)
    \<Longrightarrow> settled C a p k (fingerprint fmt (payload_json p)) t0 w1 \<and> length (wi_served w1) \<le> length (wi_served w) + n
      \<and> (\<forall>r. x = Inr r \<longrightarrow> (\<exists>i v. hr_json r = Some v \<and> shows_domain C (wi_db w1) i v
        \<and> created_once C a p k (fingerprint fmt (payload_json p)) t0 i w1))"
proof (induction n arbitrary: delay err w)
  case (Suc n)
  let ?h = "fingerprint fmt (payload_json p)"
  obtain y w2 where y: "wire_http (serve_create C fmt render a) q w = (y, w2)" by fastforce
  note step = wire_step [OF Suc.prems(1) [unfolded p_def] Suc.prems(2) assms(3,4) y [unfolded q_def], folded p_def]
  have sleep: "settled C a p k ?h t0 (wire_sleep ms w2)" "\<forall>f\<in>set (wi_fates (wire_sleep ms w2)). fate_ok a k t0 f"
    "wi_served (wire_sleep ms w2) = wi_served w2" for ms
    using step(1,2) by (auto simp: wire_sleep_def settled_def unused_def created_once_def)
  let ?loop = "request_loop (wire_http (serve_create C fmt render a) q) wire_sleep True n"
  have again: ?case if "?loop d e w2 = (x, w1) \<or> ?loop d e (wire_sleep ms w2) = (x, w1)" for d e ms
    using that
  proof
    assume "?loop d e w2 = (x, w1)"
    from Suc.IH [OF step(1,2) this] step(3) show ?thesis by auto
  next
    assume "?loop d e (wire_sleep ms w2) = (x, w1)"
    from Suc.IH [OF sleep(1,2) this] step(3) show ?thesis by (auto simp: sleep(3))
  qed
  show ?case
  proof (cases y)
    case (Failed t)
    with Suc.prems(3) y have "\<exists>d e ms. ?loop d e w2 = (x, w1) \<or> ?loop d e (wire_sleep ms w2) = (x, w1)"
      by (auto simp del: request_loop.simps(1) split: if_splits)
    with again show ?thesis by blast
  next
    case (Answered r)
    show ?thesis
    proof (cases "hr_status r < 400")
      case True
      with Suc.prems(3) y Answered have "x = Inr r" "w1 = w2" by simp_all
      with step(1,3) step(4) [OF Answered True] show ?thesis by auto
    next
      case False
      with Suc.prems(3) y Answered have "isl x \<and> w1 = w2 \<or> (\<exists>d e ms. ?loop d e w2 = (x, w1) \<or> ?loop d e (wire_sleep ms w2) = (x, w1))"
        by (auto split: if_splits sum.splits)
      then show ?thesis
      proof
        assume "isl x \<and> w1 = w2"
        with step(1,3) show ?thesis by auto
      qed (use again in blast)
    qed
  qed
qed auto

text \<open>
  C19: a create with an idempotency key happens at most once, however often the client repeats it. Over a
  network that loses requests, loses answers and turns requests away in any pattern, while others use
  the database, at most one of the client's requests changes the database at all: the one that adds the
  domain; and a client that got its answer got the resource of exactly that domain. The client
  sends at most one request more than its retries. Others are assumed to leave the key's record
  alone, and all requests to arrive within its 24 hours.
\<close>

theorem repeated_create_happens_once:
  assumes "key_row s (app_id a) k = None" and "k \<noteq> []" and "\<forall>f\<in>set fates. fate_ok a k t0 f"
    and "\<forall>e. 400 \<le> hr_status (render e)"
    and "sdk_call (wire_http (serve_create C fmt render a)) wire_sleep cl (create_domain_call hostname reference metadata (Some k))
      \<lparr>wi_db = s, wi_fates = fates, wi_served = [], wi_sleeps = []\<rparr> = (result, w)"
  defines "p \<equiv> \<lparr>dc_hostname = hostname, dc_reference = reference, dc_metadata = metadata\<rparr>"
  shows "length (wi_served w) \<le> cl_max_retries cl + 1
    \<and> ((\<forall>(b, t)\<in>set (wi_served w). t = b)
       \<or> (\<exists>i x b t y. wi_served w = x @ (b, t) # y \<and> (\<forall>(b, t)\<in>set (x @ y). t = b) \<and> adds_domain C a p i b t
           \<and> (\<forall>v. result = Inr v \<longrightarrow> shows_domain C (wi_db w) i v)))
    \<and> (\<forall>v. result = Inr v \<longrightarrow> (\<exists>(b, t)\<in>set (wi_served w). t \<noteq> b))"
proof -
  let ?w = "\<lparr>wi_db = s, wi_fates = fates, wi_served = [], wi_sleeps = []\<rparr>" and ?h = "fingerprint fmt (payload_json p)"
  let ?c = "create_domain_call hostname reference metadata (Some k)"
  have "snd ?c = True" by (simp add: create_domain_call_def)
  with assms(5) obtain x where loop: "request_loop (wire_http (serve_create C fmt render a) (fst ?c)) wire_sleep True
      (cl_max_retries cl + 1) 500 None ?w = (x, w)" and result: "result = bind_res x (\<lambda>r. case hr_json r of None \<Rightarrow> Inl (Sdk_Raises ''ValueError'') | Some v \<Rightarrow> Inr v)"
    by (auto simp: sdk_call_def answer_json_def sdk_request_def simp del: request_loop.simps) (metis prod.collapse)
  have start: "settled C a p k ?h t0 ?w" using assms(1) by (simp add: settled_def unused_def)
  have fates: "\<forall>f\<in>set (wi_fates ?w). fate_ok a k t0 f" using assms(3) by simp
  have "settled C a p k ?h t0 w \<and> length (wi_served w) \<le> length (wi_served ?w) + (cl_max_retries cl + 1)
      \<and> (\<forall>r. x = Inr r \<longrightarrow> (\<exists>i v. hr_json r = Some v \<and> shows_domain C (wi_db w) i v \<and> created_once C a p k ?h t0 i w))"
    using request_loop_settled [OF assms(2,4) start [unfolded p_def] fates loop] unfolding p_def .
  then have fin: "settled C a p k ?h t0 w" and len: "length (wi_served w) \<le> cl_max_retries cl + 1"
    and ans: "\<And>r. x = Inr r \<Longrightarrow> \<exists>i v. hr_json r = Some v \<and> shows_domain C (wi_db w) i v \<and> created_once C a p k ?h t0 i w" by auto
  have changed: "\<exists>(b, t)\<in>set (wi_served w). t \<noteq> b" if "created_once C a p k ?h t0 i w" for i
    using that by (fastforce simp: created_once_def adds_domain_def)
  show ?thesis
  proof (cases result)
    case (Inl e)
    with fin len show ?thesis by (fastforce simp: settled_def unused_def created_once_def)
  next
    case (Inr v)
    with result obtain r where r: "x = Inr r" "hr_json r = Some v" by (cases x) (auto split: option.splits)
    then obtain i where i: "shows_domain C (wi_db w) i v" "created_once C a p k ?h t0 i w" using ans by auto
    from i(2) obtain b s' t y where b: "wi_served w = b @ (s', t) # y" "\<forall>(s, t)\<in>set (b @ y). t = s" "adds_domain C a p i s' t"
      by (auto simp: created_once_def)
    have "\<exists>i x b t y. wi_served w = x @ (b, t) # y \<and> (\<forall>(b, t)\<in>set (x @ y). t = b) \<and> adds_domain C a p i b t
        \<and> (\<forall>v. result = Inr v \<longrightarrow> shows_domain C (wi_db w) i v)"
      using b i(1) Inr by blast
    with len changed [OF i(2)] show ?thesis by blast
  qed
qed

text \<open>
  C20: iterating over all domains ends. Whatever fails and is retried, and however the database
  changes between the pages, \<open>iter_domains\<close> comes to its end as long as some number bounds the
  domains listed at any time. When nothing changes meanwhile, an iteration without an error yields every
  listed domain exactly once, in order.
\<close>

theorem iteration_ends_and_is_complete:
  assumes "1 \<le> page_size" and "page_size \<le> MAX_PAGE_SIZE" and "n < 10 ^ 18"
    and "\<forall>q w r w1. http q w = (Answered r, w1) \<longrightarrow> hr_status r < 400 \<longrightarrow> (\<exists>s\<in>S. r = serve_list C render a q s)"
    and "\<forall>s\<in>S. length (list_query s a reference st False None) \<le> n" and "\<forall>e. 400 \<le> hr_status (render e)"
  shows "\<exists>xs e w1. iter_domains http sleep cl reference (map_option domain_status_value st) page_size w = Some ((xs, e), w1)
    \<and> (\<forall>s. S = {s} \<longrightarrow> e = None \<longrightarrow> res_map (domain_resource C s) (list_query s a reference st False None) = Inr xs)"
proof -
  have served: "listing_served http C render a reference st S n" using assms(4-6) by (simp add: listing_served_def)
  obtain xs e w1 where x: "iter_loop http sleep cl reference (map_option domain_status_value st) page_size 0 w = Some ((xs, e), w1)"
    using iter_loop_ends [OF served assms(1-3), of 0 sleep cl w] by auto
  have "res_map (domain_resource C s) (list_query s a reference st False None) = Inr xs" if "S = {s}" "e = None" for s
    using iter_loop_complete [OF served [unfolded that(1)] assms(1-3) order_refl _ x [unfolded that(2)]] by simp
  with x show ?thesis by (auto simp: iter_domains_def)
qed

section \<open>A lost answer\<close>

definition demo_client :: client where
  "demo_client = \<lparr>cl_base_url = ''https://domains.example.net'', cl_credential = ''cd_x'', cl_max_retries = 2\<rparr>"

definition demo_render :: "error \<Rightarrow> http_response" where
  "demo_render e = \<lparr>hr_status = status_for e, hr_json = Some (JObj []), hr_text = [], hr_retry_after = None\<rparr>"

definition demo_wire :: wire where
  "demo_wire = \<lparr>wi_db = demo_ready, wi_fates = [Answer_Lost id 9000 ''ReadTimeout: '', Served id 9500], wi_served = [], wi_sleeps = []\<rparr>"

lemma demo_render_refuses: "400 \<le> hr_status (demo_render e)"
  by (cases e) (simp_all add: demo_render_def)

theorem repeated_create_happens_once_witness:
  "\<exists>v w i x b t y. sdk_call (wire_http (serve_create demo_cfg demo_iso demo_render demo_app)) wire_sleep demo_client
      (create_domain_call ''shop.example.com'' ''ws_2'' None (Some ''k'')) demo_wire = (Inr v, w)
    \<and> length (wi_served w) = 2 \<and> wi_served w = x @ (b, t) # y \<and> (\<forall>(b, t)\<in>set (x @ y). t = b)
    \<and> adds_domain demo_cfg demo_app demo_payload i b t"
proof -
  let ?r = "sdk_call (wire_http (serve_create demo_cfg demo_iso demo_render demo_app)) wire_sleep demo_client
      (create_domain_call ''shop.example.com'' ''ws_2'' None (Some ''k'')) demo_wire"
  have "case ?r of (Inl _, _) \<Rightarrow> False | (Inr _, w) \<Rightarrow> length (wi_served w) = 2" by code_simp
  then obtain v w where r: "?r = (Inr v, w)" and two: "length (wi_served w) = 2" by (cases ?r) (auto split: sum.splits)
  have key: "key_row demo_ready (app_id demo_app) ''k'' = None" by code_simp
  have ttl: "(9500::instant) < 9000 + IDEMPOTENCY_TTL" "(9000::instant) < 9000 + IDEMPOTENCY_TTL" by code_simp+
  have fates: "\<forall>f\<in>set [Answer_Lost id 9000 ''ReadTimeout: '', Served id 9500]. fate_ok demo_app ''k'' 9000 f"
    using ttl by simp
  have k: "''k'' \<noteq> []" and render: "\<forall>e. 400 \<le> hr_status (demo_render e)" by (simp_all add: demo_render_refuses)
  note once = repeated_create_happens_once [OF key k fates render r [unfolded demo_wire_def], folded demo_payload_def]
  from once [THEN conjunct2, THEN conjunct2] have "\<not> (\<forall>(b, t)\<in>set (wi_served w). t = b)" by auto
  then obtain i x b t y where "wi_served w = x @ (b, t) # y" "\<forall>(b, t)\<in>set (x @ y). t = b"
    "adds_domain demo_cfg demo_app demo_payload i b t" using once [THEN conjunct2, THEN conjunct1] by (elim disjE exE conjE; simp)
  with r two show ?thesis by blast
qed

definition demo_listing :: "http_request \<Rightarrow> nat \<Rightarrow> exchange \<times> nat" where
  "demo_listing q n = (if even n then Failed ''ConnectTimeout: '' else Answered (serve_list demo_cfg demo_render demo_app q demo_ready), Suc n)"

theorem iteration_ends_and_is_complete_witness:
  "\<exists>xs w1. iter_domains demo_listing (\<lambda>_ n. n) demo_client None None 1 0 = Some ((xs, None), w1) \<and> length xs = 1
    \<and> res_map (domain_resource demo_cfg demo_ready) (list_query demo_ready demo_app None None False None) = Inr xs"
proof -
  let ?it = "iter_domains demo_listing (\<lambda>_ n. n) demo_client None None 1 0"
  let ?p = "sdk_list_domains demo_listing (\<lambda>_ n. n) demo_client None None False 1 0 0"
  have "case ?p of (Inl _, _) \<Rightarrow> False | (Inr p, _) \<Rightarrow> pg_next_offset p = None \<and> length (pg_items p) = 1" by code_simp
  then obtain p w2 where "?p = (Inr p, w2)" "pg_next_offset p = None" "length (pg_items p) = 1" by (cases ?p) (auto split: sum.splits)
  then have run: "\<exists>xs w1. ?it = Some ((xs, None), w1) \<and> length xs = 1" unfolding iter_domains_def by (subst iter_loop.simps) simp
  have n: "length (list_query demo_ready demo_app None None False None) \<le> 1" by code_simp
  have size: "(1::int) \<le> 1" "(1::int) \<le> MAX_PAGE_SIZE" "(1::nat) < 10 ^ 18" by (simp_all add: MAX_PAGE_SIZE_def)
  have http: "\<forall>q w r w1. demo_listing q w = (Answered r, w1) \<longrightarrow> hr_status r < 400
      \<longrightarrow> (\<exists>s\<in>{demo_ready}. r = serve_list demo_cfg demo_render demo_app q s)"
    by (simp add: demo_listing_def)
  from iteration_ends_and_is_complete [where st = None and reference = None and sleep = "\<lambda>_ n. n" and cl = demo_client and w = 0,
    OF size http] n demo_render_refuses
  obtain xs e w1 where it: "?it = Some ((xs, e), w1)"
    and c: "e = None \<longrightarrow> res_map (domain_resource demo_cfg demo_ready) (list_query demo_ready demo_app None None False None) = Inr xs"
    by auto
  from run it have "e = None" "length xs = 1" by auto
  with it c show ?thesis by simp
qed

end
