(* ===== verification/Spec2Isabelle.thy ===== *)
theory Spec2Isabelle
  imports Internal Reconciler Discovery_Sound Env_Settings Sdk_Sound
begin

text \<open>
  A verification library for custom-domain, a control plane that lets the tenants of a SaaS
  provider serve their applications under their customers' own hostnames.

  \<^bold>\<open>The program.\<close> An application (a tenant) registers a hostname over the v1 API (src/app/v1). The
  domain service (src/app/services/domains.py) answers with a claim: a random TXT token and a
  CNAME target. A check worker (src/app/dns/worker.py) leases the domains that are due, resolves
  the records (src/app/dns), records ownership and routing outcomes
  (src/app/services/dns_checks.py), then probes certificate and origin through the edge
  (src/app/services/edge_checks.py) and moves the domain through its statuses. Every change is an
  event in the log; each event goes to the outbox of every matching webhook subscription
  (src/app/services/webhooks.py), from which the delivery worker (src/app/webhooks/worker.py)
  sends signed requests (src/app/webhooks/signature.py). Applications, credentials and the
  origins that requests are proxied to are src/app/services/applications.py. The edge is Caddy: a
  reconciler derives its configuration from the database (src/app/edge/config.py), a gateway in
  front of Caddy's admin API lets only such configurations through (src/app/edge/gateway.py), and
  per request Caddy asks the internal endpoints (src/app/v1/internal.py) for a signed assertion
  (src/app/edge/assertion.py) that the origin verifies with the SDK. All state is in one SQL
  database (src/app/models).

  \<^bold>\<open>How it is modelled.\<close> The database is the record \<open>db\<close> of \<open>Database\<close>: one list of rows per
  table, the source of fresh identifiers and of random secrets. A service operation is a function
  of the clock, its arguments and the database; its result is \<open>Inl\<close> the exception raised
  (with the database as the transaction leaves it where the code commits before raising) or
  \<open>Inr\<close> the value and the new database. One operation is one transaction; the row
  locks of the code make transactions serial, and where the code leaves a transaction for the
  network (the two workers) what other transactions do in between is an argument of the
  definition, so the theorems hold for every interleaving. Times are microseconds as integers.
  Strings hold the code points below 256.

  \<^item> \<open>Prelude\<close>, \<open>Pystring\<close>: results, table lemmas, Python's \<open>str\<close>, \<open>int\<close> and JSON values.
  \<^item> \<open>Models\<close>, \<open>Database\<close>: src/app/models and the errors of src/app/services/errors.py; locale
    \<open>row_store\<close>, the contract of access by primary key, interpreted for each table.
  \<^item> \<open>Hostname\<close>: src/app/hostname.py; an accepted name is canonical and canonicalization is
    idempotent.
  \<^item> \<open>Resolver\<close>, \<open>Dns_Setup\<close>: src/app/dns/resolver.py, zones.py, providers.py and
    src/app/services/dns_setup.py. The CNAME walk is refined against the reachability of the
    target along a chain.
  \<^item> \<open>Urls\<close>, \<open>Webhooks\<close>: URL policy, subscriptions, payloads, outbox, replay.
  \<^item> \<open>Domains\<close>: the operations of src/app/services/domains.py and limits.py; \<open>Lifecycle\<close>: the invariant
    of the tables (keys, foreign keys, an ordered log that replays to the current row) and its
    preservation by each operation, collected in the step relation \<open>step\<close>; \<open>Guarantees\<close>: what
    follows in every reachable state.
  \<^item> \<open>Dns_Checks\<close>, \<open>Edge_Checks\<close>, \<open>Checks_Worker\<close>: the outcome rules, their
    refinement of the lifecycle steps, leases and stale observations.
  \<^item> \<open>Encoding\<close>, \<open>Signature\<close>: UTF-8, SHA-256, HMAC and JSON text; signing and verifying a
    webhook under secret rotation.
  \<^item> \<open>Webhook_Worker\<close>: the delivery worker; a delivery settles within its attempts and is sent to
    public addresses only.
  \<^item> \<open>Applications\<close>: applications, credentials, origins and the invariant that only verified
    origins serve.
  \<^item> \<open>Api\<close>: idempotency keys, request budgets, authentication and the domain endpoints of
    src/app/v1/router.py.
  \<^item> \<open>Addresses\<close>, \<open>Origins\<close>: IP addresses and networks as text, the client allowlists of
    src/app/edge/settings.py, and src/app/services/origin_verification.py: what a proof of control
    proves and which address is dialled.
  \<^item> \<open>Edge_Config\<close>, \<open>Gateway\<close>: the Caddy configuration as a JSON value and the validator;
    \<open>Gateway_Sound\<close>: an accepted configuration is confined to verified origins, whatever was sent;
    \<open>Edge_Accepts\<close>: what the reconciler builds in a reachable state is accepted.
  \<^item> \<open>Json_Text\<close>: base64 and reading JSON, with the round trips (locale \<open>codec\<close>); \<open>Assertion\<close>,
    \<open>Assertion_Keys\<close>: the token, the SDK's verification and the rotation of signing keys;
    \<open>Internal\<close>: the permission and routing decisions and their composition with the assertion.
  \<^item> \<open>Traffic\<close>: src/app/services/traffic.py; readings of growing counters are counted once. \<open>Metrics\<close>:
    src/app/edge/traffic.py; the totals the gateway passes on read back.
  \<^item> \<open>Reconciler\<close>: src/app/edge/reconcile.py and caddy_client.py, one run through the gateway: the running
    configuration converges on that of the database, and a failed run changes nothing at the edge.
  \<^item> \<open>Connect_Sessions\<close>: src/app/services/connect_sessions.py, the links to the setup page: when
    they open, and their limits over every hour (locale \<open>invariant_system\<close> interpreted for the sessions).
  \<^item> \<open>Dc_Signing\<close>, \<open>Secret_Box\<close>, \<open>Domain_Connect\<close>: src/app/dns/signing.py, src/app/services/secret_box.py and
    domain_connect.py, one-step setup at the customer's DNS provider: keys and signers, the signed apply
    URL, sealed and encrypted values, the return endpoint; \<open>Domain_Connect_Sound\<close>: an issued link follows
    the live claim, the return state reads back and is no open redirect.
  \<^item> \<open>Discovery\<close>: src/app/dns/domain_connect.py and the cache of zones of src/app/services/dns_setup.py; \<open>Discovery_Sound\<close>:
    discovery contacts public hosts only and what it stores is well typed (locale \<open>invariant_system\<close> interpreted for the zones).
    \<open>Env_Settings\<close>: src/app/dns/settings.py; a signer accepted at start can be made.
  \<^item> \<open>Sdk_Client\<close>: src/sdk/custom_domain/client.py and errors.py; \<open>Sdk_Sound\<close>: the client against the API, a
    repeated create happens once and iterating over the domains ends.

  \<^bold>\<open>Parameters.\<close> Third-party code is an argument: \<open>idna\<close> and \<open>publicsuffixlist\<close> (record
  \<open>libs\<close>), name resolution (record \<open>resolver\<close>, the resolution of webhook hosts), the probes through
  the edge, the HTTP exchanges of a delivery, of an origin verification, with a
  remote signer and of the SDK (\<open>httpx\<close>), RSA signatures, HKDF and AES-GCM (record \<open>vault\<close>), and random numbers. Their hypotheses, where a
  theorem needs one, are written in its statement and met by a concrete instance in its witness.

  \<^bold>\<open>Bounds.\<close> Loops are recursion over a list or count what the code counts: the CNAME walk counts down
  \<open>MAX_CNAME_DEPTH\<close>, deliveries count up to \<open>MAX_ATTEMPTS\<close>, SHA-256 has 64 rounds with addition
  modulo \<open>2 ^ 32\<close>. Only the JSON reader has fuel, twice the length of the text plus one, which is
  proved to be enough (\<open>json_loads_fuel\<close>). JSON with fractions or characters above U+00FF is outside
  the model and has an answer of its own.

  \<^bold>\<open>Not modelled.\<close> Sockets, threads, the SQL dialects, HTML and command-line presentation,
  diagnostics, backups and the legacy API are left out: they are I/O, presentation, or calls of libraries.
\<close>

end
